(* ===== verification/Prelude.thy ===== *)
theory Prelude
  imports Complex_Main "HOL-Library.AList" "HOL-Library.Char_ord" "HOL-Library.List_Lexorder"
    "HOL-Library.Multiset" "HOL-Library.Word"
begin

text \<open>
  Shared vocabulary of the development: Python dictionaries as insertion-ordered association
  lists, exceptions as the left side of a sum, loops that may raise, and the generic lemmas on
  sorted, keyed and counted lists that the component theories rest on.

  A Python \<open>dict\<close> keeps its keys distinct and iterates in insertion order; \<open>d[k] = v\<close> on a
  present key replaces the value in place. \<^const>\<open>AList.update\<close> does exactly that, and
  \<^const>\<open>map_of\<close> is \<open>d.get(k)\<close>. Strings are \<^typ>\<open>string\<close>; their order is the lexicographic
  one on character codes, which is the order of \<open>sorted\<close> on Python strings.
\<close>

section \<open>Dictionaries\<close>

type_synonym ('k, 'v) dict = "('k \<times> 'v) list"

named_theorems dict_simps \<open>how the dictionary operations read back\<close>

definition dict_keys :: "('k, 'v) dict \<Rightarrow> 'k list" where
  "dict_keys d = map fst d"

definition dict_values :: "('k, 'v) dict \<Rightarrow> 'v list" where
  "dict_values d = map snd d"

text \<open>\<open>{key(x): val(x) for x in xs}\<close>: later entries overwrite earlier ones in place.\<close>

definition dict_comp :: "('a \<Rightarrow> 'k) \<Rightarrow> ('a \<Rightarrow> 'v) \<Rightarrow> 'a list \<Rightarrow> ('k, 'v) dict" where
  "dict_comp key val xs = fold (\<lambda>x d. AList.update (key x) (val x) d) xs []"

definition dict_ok :: "('k, 'v) dict \<Rightarrow> bool" where
  "dict_ok d \<longleftrightarrow> distinct (map fst d)"

lemma dict_ok_update [intro, simp]: "dict_ok d \<Longrightarrow> dict_ok (AList.update k v d)"
  by (simp add: dict_ok_def distinct_update)

lemma dict_keys_update [dict_simps]:
  "set (dict_keys (AList.update k v d)) = insert k (set (dict_keys d))"
  by (auto simp: dict_keys_def dom_update)

lemma map_of_update [dict_simps]: "map_of (AList.update k v d) = (map_of d)(k \<mapsto> v)"
  by (simp add: update_conv')

lemma fst_fold_update:
  "set (map fst (fold (\<lambda>x d. AList.update (key x) (val x) d) xs d)) = set (map fst d) \<union> key ` set xs"
  by (induction xs arbitrary: d) (auto simp: dom_update)

lemma dict_ok_fold_update:
  "dict_ok d \<Longrightarrow> dict_ok (fold (\<lambda>x d. AList.update (key x) (val x) d) xs d)"
  by (induction xs arbitrary: d) auto

lemma dict_ok_comp [simp]: "dict_ok (dict_comp key val xs)"
  unfolding dict_comp_def by (rule dict_ok_fold_update) (simp add: dict_ok_def)

lemma keys_dict_comp [dict_simps]: "set (map fst (dict_comp key val xs)) = key ` set xs"
  using fst_fold_update [of key val xs "[]"] by (simp add: dict_comp_def)

lemma update_fresh: "k \<notin> set (map fst d) \<Longrightarrow> AList.update k v d = d @ [(k, v)]"
  by (induction d) auto

lemma fold_update_distinct:
  assumes "distinct (map fst d @ map key xs)"
  shows "fold (\<lambda>x d. AList.update (key x) (val x) d) xs d = d @ map (\<lambda>x. (key x, val x)) xs"
  using assms by (induction xs arbitrary: d) (auto simp: update_fresh)

lemma dict_comp_distinct:
  "distinct (map key xs) \<Longrightarrow> dict_comp key val xs = map (\<lambda>x. (key x, val x)) xs"
  using fold_update_distinct [of "[]" key xs val] by (simp add: dict_comp_def)

lemma map_of_fold_update:
  "map_of (fold (\<lambda>x d. AList.update (key x) (val x) d) xs d) k =
     (case find (\<lambda>x. key x = k) (rev xs) of Some x \<Rightarrow> Some (val x) | None \<Rightarrow> map_of d k)"
proof (induction xs rule: rev_induct)
  case Nil
  then show ?case by simp
next
  case (snoc x xs)
  then show ?case by (simp add: map_of_update split: option.splits)
qed

lemma map_of_dict_comp:
  "map_of (dict_comp key val xs) k = map_option val (find (\<lambda>x. key x = k) (rev xs))"
  using map_of_fold_update [of key val xs "[]" k] by (simp add: dict_comp_def split: option.splits)

lemma dict_comp_entry:
  assumes "(k, v) \<in> set (dict_comp key val xs)"
  shows "\<exists>x\<in>set xs. key x = k \<and> val x = v"
proof -
  have "map_of (dict_comp key val xs) k = Some v"
    using assms dict_ok_comp [of key val xs] by (simp add: dict_ok_def)
  then obtain x where "find (\<lambda>x. key x = k) (rev xs) = Some x" and v: "val x = v"
    by (auto simp: map_of_dict_comp)
  then have "key x = k" and "x \<in> set (rev xs)"
    by (auto simp: find_Some_iff intro: nth_mem [of _ "rev xs", simplified])
  with v show ?thesis by auto
qed

text \<open>A dictionary built by a comprehension over another one has its keys, in its order.\<close>

lemma map_fst_map_val [dict_simps]: "map fst (map (\<lambda>(k, v). (k, f k v)) d) = map fst d"
  by (induction d) auto

lemma map_of_map_val: "map_of (map (\<lambda>(k, v). (k, f k v)) d) k = map_option (f k) (map_of d k)"
  by (induction d) auto

lemma map_of_filter_val:
  assumes "distinct (map fst d)"
  shows "map_of (filter (\<lambda>(k, v). P k v) d) k =
           (case map_of d k of Some v \<Rightarrow> if P k v then Some v else None | None \<Rightarrow> None)"
  using assms by (induction d) (auto split: option.splits simp: map_of_eq_None_iff rev_image_eqI)

lemma map_of_SomeI: "distinct (map fst d) \<Longrightarrow> (k, v) \<in> set d \<Longrightarrow> map_of d k = Some v"
  by simp

text \<open>\<open>d = defaultdict(list)\<close> filled by \<open>d[key(x)].append(x)\<close>, and \<open>d.get(k, default)\<close>.\<close>

definition dict_get :: "('k, 'v) dict \<Rightarrow> 'k \<Rightarrow> 'v \<Rightarrow> 'v" where
  "dict_get d k dflt = (case map_of d k of None \<Rightarrow> dflt | Some v \<Rightarrow> v)"

definition group_by :: "('a \<Rightarrow> 'k) \<Rightarrow> ('a \<Rightarrow> 'v) \<Rightarrow> 'a list \<Rightarrow> ('k, 'v list) dict" where
  "group_by key val xs =
     fold (\<lambda>x d. AList.update (key x) (dict_get d (key x) [] @ [val x]) d) xs []"

lemma dict_get_update [dict_simps]:
  "dict_get (AList.update k v d) k' dflt = (if k' = k then v else dict_get d k' dflt)"
  by (simp add: dict_get_def map_of_update)

lemma dict_get_Nil [simp]: "dict_get [] k dflt = dflt"
  by (simp add: dict_get_def)

lemma dict_get_group_by [dict_simps]:
  "dict_get (group_by key val xs) k [] = map val (filter (\<lambda>x. key x = k) xs)"
proof -
  have "dict_get (fold (\<lambda>x d. AList.update (key x) (dict_get d (key x) [] @ [val x]) d) xs d) k [] =
      dict_get d k [] @ map val (filter (\<lambda>x. key x = k) xs)" for d
    by (induction xs arbitrary: d) (auto simp: dict_get_update)
  from this [of "[]"] show ?thesis by (simp add: group_by_def)
qed

section \<open>Exceptions and loops that raise\<close>

text \<open>
  The exceptions of the program and of the library calls it lets through. A computation that may
  raise returns \<open>Inl\<close> the exception or \<open>Inr\<close> its value. \<open>Unmodelled\<close> is no exception: it marks
  the inputs on which Python goes on with a value outside its type annotations, where the model
  stops and the theorems claim nothing.
\<close>

datatype exn =
    KeyError
  | ValueError
  | TypeError
  | AttributeError
  | AssertionError
  | RuntimeError
  | OverflowError
  | UnpackException
  | IndexError
  | FileNotFoundError
  | ArgumentTypeError
  | SystemExit
  | IntegrityError
  | InvalidTransitionError
  | EncodingError
  | DecodingError
  | ValidationError
  | VersionMismatchError
  | MessageTooLargeError
  | Unmodelled

type_synonym 'a result = "exn + 'a"

definition bind_result :: "'a result \<Rightarrow> ('a \<Rightarrow> 'b result) \<Rightarrow> 'b result" where
  "bind_result m f = (case m of Inl e \<Rightarrow> Inl e | Inr x \<Rightarrow> f x)"

definition lookup_or_raise :: "('k, 'v) dict \<Rightarrow> 'k \<Rightarrow> 'v result" where
  "lookup_or_raise d k = (case map_of d k of None \<Rightarrow> Inl KeyError | Some v \<Rightarrow> Inr v)"

fun map_result :: "('a \<Rightarrow> 'b result) \<Rightarrow> 'a list \<Rightarrow> 'b list result" where
  "map_result f [] = Inr []"
| "map_result f (x # xs) = bind_result (f x) (\<lambda>y. bind_result (map_result f xs) (\<lambda>ys. Inr (y # ys)))"

fun fold_result :: "('a \<Rightarrow> 's \<Rightarrow> 's result) \<Rightarrow> 'a list \<Rightarrow> 's \<Rightarrow> 's result" where
  "fold_result f [] s = Inr s"
| "fold_result f (x # xs) s = bind_result (f x s) (fold_result f xs)"

lemma bind_result_simps [simp]:
  "bind_result (Inr x) f = f x"
  "bind_result (Inl e) f = Inl e"
  by (simp_all add: bind_result_def)

lemma bind_result_Inr_iff [simp]:
  "bind_result m f = Inr y \<longleftrightarrow> (\<exists>x. m = Inr x \<and> f x = Inr y)"
  by (cases m) auto

lemma bind_result_Inl_iff:
  "bind_result m f = Inl e \<longleftrightarrow> m = Inl e \<or> (\<exists>x. m = Inr x \<and> f x = Inl e)"
  by (cases m) auto

lemma bind_result_cong [fundef_cong]:
  "m = m' \<Longrightarrow> (\<And>x. m' = Inr x \<Longrightarrow> f x = g x) \<Longrightarrow> bind_result m f = bind_result m' g"
  by (cases m') auto

lemma lookup_or_raise_Inr [simp]: "lookup_or_raise d k = Inr v \<longleftrightarrow> map_of d k = Some v"
  by (simp add: lookup_or_raise_def split: option.splits)

lemma lookup_or_raise_total: "k \<in> set (map fst d) \<Longrightarrow> \<exists>v. lookup_or_raise d k = Inr v"
  by (simp add: weak_map_of_SomeI) (metis (no_types) imageE map_of_SomeD prod.collapse weak_map_of_SomeI)

lemma map_result_total:
  "(\<And>x. x \<in> set xs \<Longrightarrow> f x = Inr (g x)) \<Longrightarrow> map_result f xs = Inr (map g xs)"
  by (induction xs) auto

lemma map_result_Inr: "map_result f xs = Inr ys \<Longrightarrow> list_all2 (\<lambda>x y. f x = Inr y) xs ys"
  by (induction xs arbitrary: ys) auto

lemma fold_result_append:
  "fold_result f (xs @ ys) s = bind_result (fold_result f xs s) (fold_result f ys)"
  by (induction xs arbitrary: s) (auto simp: bind_result_def split: sum.splits)

text \<open>The rule of a loop that may raise: an invariant of the body holds of the result.\<close>

lemma fold_result_invariant:
  assumes "\<And>x s s'. x \<in> set xs \<Longrightarrow> I s \<Longrightarrow> f x s = Inr s' \<Longrightarrow> I s'"
    and "I s" and "fold_result f xs s = Inr s'"
  shows "I s'"
  using assms
proof (induction xs arbitrary: s)
  case Nil
  then show ?case by simp
next
  case (Cons x xs)
  from Cons.prems(3) obtain t where t: "f x s = Inr t" and rest: "fold_result f xs t = Inr s'"
    by auto
  have "I t" using Cons.prems(1) [OF _ Cons.prems(2) t] by simp
  then show ?case
    using Cons.IH [OF _ _ rest] Cons.prems(1) by (meson list.set_intros(2))
qed

section \<open>Sorted and keyed lists\<close>

lemma distinct_map_sort_key [simp]: "distinct (map f (sort_key g xs)) \<longleftrightarrow> distinct (map f xs)"
  by (metis mset_map mset_eq_imp_distinct_iff mset_sort)

lemma mset_map_sort_key [simp]: "mset (map f (sort_key g xs)) = mset (map f xs)"
  by simp

lemma sorted_map_sort_key [simp]: "sorted (map f (sort_key f xs))"
  by (rule sorted_sort_key)

lemma length_filter_sort_key: "length (filter P (sort_key f xs)) = length (filter P xs)"
  by (metis mset_filter mset_sort size_mset)

lemma sort_key_sorted_id: "sorted (map f xs) \<Longrightarrow> sort_key f xs = xs"
  by (rule sort_key_id_if_sorted)

text \<open>Keys that separate the elements make sorting independent of the order of the input.\<close>

lemma sort_key_unique:
  assumes "mset xs = mset ys" and "inj_on f (set xs)"
  shows "sort_key f xs = sort_key f ys"
proof (rule properties_for_sort_key)
  show "mset (sort_key f ys) = mset xs" by (simp add: assms(1))
  show "sorted (map f (sort_key f ys))" by simp
  fix k assume k: "k \<in> set (sort_key f ys)"
  have sets: "set ys = set xs" using assms(1) by (metis set_mset_mset)
  have all_eq: "\<forall>y\<in>set (filter (\<lambda>y. f k = f y) zs). y = k" if "set zs = set xs" for zs
    using assms(2) k sets that by (auto dest: inj_onD)
  have "filter (\<lambda>y. f k = f y) zs = replicate (count (mset zs) k) k" if "set zs = set xs" for zs
  proof -
    have "filter (\<lambda>y. f k = f y) zs = filter (\<lambda>y. y = k) zs"
      using all_eq [OF that] by (intro filter_cong) auto
    then show ?thesis
      by (simp add: filter_eq_replicate_mset [symmetric] count_mset count_list_eq_length_filter
          replicate_length_filter eq_commute [of k])
  qed
  from this [of "sort_key f ys"] this [of xs] sets assms(1)
  show "filter (\<lambda>y. f k = f y) (sort_key f ys) = filter (\<lambda>y. f k = f y) xs" by simp
qed

lemma distinct_map_filterI: "distinct (map f xs) \<Longrightarrow> distinct (map f (filter P xs))"
  by (rule distinct_map_filter)

lemma length_filter_add:
  "length (filter P xs) + length (filter (\<lambda>x. \<not> P x) xs) = length xs"
  by (rule sum_length_filter_compl)

lemma list_all2_right: "list_all2 P xs ys \<Longrightarrow> y \<in> set ys \<Longrightarrow> \<exists>x\<in>set xs. P x y"
  by (induction rule: list_all2_induct) auto

lemma list_all2_left: "list_all2 P xs ys \<Longrightarrow> x \<in> set xs \<Longrightarrow> \<exists>y\<in>set ys. P x y"
  by (induction rule: list_all2_induct) auto

end
