(* ===== verification/Model.thy ===== *)
theory Model
  imports Prelude
begin

text \<open>
  The domain model: \<^verbatim>\<open>engine/model.py\<close> (regions, factions, units, the game state) and
  \<^verbatim>\<open>engine/orders.py\<close> (the four movement orders, the retreat, build and disband orders, and
  \<open>order_from_dict\<close>). Frozen dataclasses are records, enums are datatypes with their
  \<open>value\<close> strings as functions, and the constructor call \<open>Enum(value)\<close>, which raises
  \<open>ValueError\<close> on an unknown value, returns a \<^typ>\<open>'a result\<close>.
\<close>

section \<open>Enums\<close>

datatype RegionType = LAND | SEA | COASTAL

datatype UnitType = ARMY | FLEET

datatype Phase = DIPLOMACY | ORDERS | RESOLUTION | RETREAT | BUILD

fun region_type_value :: "RegionType \<Rightarrow> string" where
  "region_type_value LAND = ''land''"
| "region_type_value SEA = ''sea''"
| "region_type_value COASTAL = ''coastal''"

fun unit_type_value :: "UnitType \<Rightarrow> string" where
  "unit_type_value ARMY = ''army''"
| "unit_type_value FLEET = ''fleet''"

fun phase_value :: "Phase \<Rightarrow> string" where
  "phase_value DIPLOMACY = ''diplomacy''"
| "phase_value ORDERS = ''orders''"
| "phase_value RESOLUTION = ''resolution''"
| "phase_value RETREAT = ''retreat''"
| "phase_value BUILD = ''build''"

text \<open>\<open>Enum(value)\<close>: the member with that value, \<open>ValueError\<close> when there is none.\<close>

definition enum_of_value :: "('a \<Rightarrow> string) \<Rightarrow> 'a list \<Rightarrow> string \<Rightarrow> 'a result" where
  "enum_of_value val members s =
     (case find (\<lambda>m. val m = s) members of None \<Rightarrow> Inl ValueError | Some m \<Rightarrow> Inr m)"

definition region_type_of_value :: "string \<Rightarrow> RegionType result" where
  "region_type_of_value = enum_of_value region_type_value [LAND, SEA, COASTAL]"

definition unit_type_of_value :: "string \<Rightarrow> UnitType result" where
  "unit_type_of_value = enum_of_value unit_type_value [ARMY, FLEET]"

definition phase_of_value :: "string \<Rightarrow> Phase result" where
  "phase_of_value = enum_of_value phase_value [DIPLOMACY, ORDERS, RESOLUTION, RETREAT, BUILD]"

lemma enum_of_value_value:
  assumes "inj_on val (set members)" and "m \<in> set members"
  shows "enum_of_value val members (val m) = Inr m"
proof -
  have "find (\<lambda>m'. val m' = val m) members = Some m"
    using assms
  proof (induction members)
    case (Cons a ms)
    then show ?case by (cases "val a = val m") (auto dest: inj_onD)
  qed simp
  then show ?thesis by (simp add: enum_of_value_def)
qed

lemma region_type_roundtrip [simp]: "region_type_of_value (region_type_value t) = Inr t"
  by (cases t) (simp_all add: region_type_of_value_def enum_of_value_def)

lemma unit_type_roundtrip [simp]: "unit_type_of_value (unit_type_value t) = Inr t"
  by (cases t) (simp_all add: unit_type_of_value_def enum_of_value_def)

lemma phase_roundtrip [simp]: "phase_of_value (phase_value p) = Inr p"
  by (cases p) (simp_all add: phase_of_value_def enum_of_value_def)

lemma unit_type_value_inj: "unit_type_value t = unit_type_value t' \<longleftrightarrow> t = t'"
  by (cases t; cases t') simp_all

section \<open>Regions, factions, units and the game state\<close>

record Region =
  rg_id :: string
  rg_name :: string
  region_type :: RegionType
  is_supply_center :: bool
  rg_abbreviation :: string

record Faction =
  fa_id :: string
  fa_name :: string
  fa_color :: string
  fa_abbreviation :: string

record Unit =
  unit_type :: UnitType
  faction_id :: string
  region_id :: string

record GameState =
  regions :: "(string, Region) dict"
  factions :: "(string, Faction) dict"
  units :: "Unit list"
  supply_centers :: "(string, string) dict"
  phase :: Phase
  turn :: int
  year :: int

definition mk_unit :: "UnitType \<Rightarrow> string \<Rightarrow> string \<Rightarrow> Unit" where
  "mk_unit t f r = \<lparr>unit_type = t, faction_id = f, region_id = r\<rparr>"

lemma mk_unit_sel [simp]:
  "unit_type (mk_unit t f r) = t" "faction_id (mk_unit t f r) = f" "region_id (mk_unit t f r) = r"
  by (simp_all add: mk_unit_def)

lemma Unit_eqI:
  "unit_type (u :: Unit) = unit_type v \<Longrightarrow> faction_id u = faction_id v \<Longrightarrow> region_id u = region_id v \<Longrightarrow> u = v"
  by simp

lemma mk_unit_eta [simp]: "mk_unit (unit_type u) (faction_id u) (region_id u) = u"
  by (rule Unit_eqI) simp_all

section \<open>Orders\<close>

datatype OrderType = HOLD | MOVE | SUPPORT_HOLD | SUPPORT_MOVE

text \<open>
  The four movement orders. The \<open>order_type\<close> field of each dataclass is fixed by its class
  (its default, which \<open>order_from_dict\<close> never overrides), so it is a function here.
\<close>

datatype Order =
    HoldOrder (unit_region_id: string)
  | MoveOrder (unit_region_id: string) (destination_id: string)
  | SupportHoldOrder (unit_region_id: string) (supported_region_id: string)
  | SupportMoveOrder (unit_region_id: string) (supported_region_id: string)
      (supported_destination_id: string)

fun order_type :: "Order \<Rightarrow> OrderType" where
  "order_type (HoldOrder _) = HOLD"
| "order_type (MoveOrder _ _) = MOVE"
| "order_type (SupportHoldOrder _ _) = SUPPORT_HOLD"
| "order_type (SupportMoveOrder _ _ _) = SUPPORT_MOVE"

fun order_type_value :: "OrderType \<Rightarrow> string" where
  "order_type_value HOLD = ''hold''"
| "order_type_value MOVE = ''move''"
| "order_type_value SUPPORT_HOLD = ''support_hold''"
| "order_type_value SUPPORT_MOVE = ''support_move''"

definition order_type_of_value :: "string \<Rightarrow> OrderType result" where
  "order_type_of_value = enum_of_value order_type_value [HOLD, MOVE, SUPPORT_HOLD, SUPPORT_MOVE]"

lemma order_type_roundtrip [simp]: "order_type_of_value (order_type_value t) = Inr t"
  by (cases t) (simp_all add: order_type_of_value_def enum_of_value_def)

record RetreatOrder =
  ro_unit_region_id :: string
  ro_destination_id :: "string option"

record BuildOrder =
  bo_faction_id :: string
  bo_region_id :: string
  bo_unit_type :: UnitType

record DisbandOrder =
  do_faction_id :: string
  do_region_id :: string

section \<open>msgpack-safe values and \<open>order_from_dict\<close>\<close>

text \<open>
  The values that \<open>canonicalize\<close> produces and that msgpack packs and unpacks. Bytes are lists of
  8-bit words; strings are their UTF-8 code units. Maps have string keys.
\<close>

type_synonym bytes = "8 word list"

datatype canonical =
    CNone
  | CBool bool
  | CInt int
  | CFloat rat
  | CStr string
  | CBytes bytes
  | CList "canonical list"
  | CDict "(string \<times> canonical) list"

text \<open>
  \<open>cls(**kwargs)\<close> of an order class: exactly the declared fields, in any order, otherwise
  \<open>TypeError\<close>. The dataclasses do not check the types of the field values: with a value that is
  not a string, Python goes on with an order that breaks its annotations. Such an order is not a
  value of \<^typ>\<open>Order\<close>; the marker \<^const>\<open>Unmodelled\<close> says so. The theorems that would be false of the
  code there assume typed messages (\<open>Typed_Input\<close>).
\<close>

definition str_field :: "(string \<times> canonical) list \<Rightarrow> string \<Rightarrow> string result" where
  "str_field kwargs k = 
     (case map_of kwargs k of None \<Rightarrow> Inl TypeError | Some (CStr s) \<Rightarrow> Inr s | Some _ \<Rightarrow> Inl Unmodelled)"

definition kwargs_match :: "string list \<Rightarrow> (string \<times> canonical) list \<Rightarrow> bool" where
  "kwargs_match names kwargs \<longleftrightarrow> list_all (\<lambda>(k, _). k \<in> set names) kwargs"

fun order_fields :: "OrderType \<Rightarrow> string list" where
  "order_fields HOLD = [''unit_region_id'']"
| "order_fields MOVE = [''unit_region_id'', ''destination_id'']"
| "order_fields SUPPORT_HOLD = [''unit_region_id'', ''supported_region_id'']"
| "order_fields SUPPORT_MOVE =
     [''unit_region_id'', ''supported_region_id'', ''supported_destination_id'']"

fun construct_order :: "OrderType \<Rightarrow> (string \<times> canonical) list \<Rightarrow> Order result" where
  "construct_order HOLD kw =
     bind_result (str_field kw ''unit_region_id'') (\<lambda>u. Inr (HoldOrder u))"
| "construct_order MOVE kw =
     bind_result (str_field kw ''unit_region_id'') (\<lambda>u.
     bind_result (str_field kw ''destination_id'') (\<lambda>d. Inr (MoveOrder u d)))"
| "construct_order SUPPORT_HOLD kw =
     bind_result (str_field kw ''unit_region_id'') (\<lambda>u.
     bind_result (str_field kw ''supported_region_id'') (\<lambda>s. Inr (SupportHoldOrder u s)))"
| "construct_order SUPPORT_MOVE kw =
     bind_result (str_field kw ''unit_region_id'') (\<lambda>u.
     bind_result (str_field kw ''supported_region_id'') (\<lambda>s.
     bind_result (str_field kw ''supported_destination_id'') (\<lambda>d. Inr (SupportMoveOrder u s d))))"

definition order_from_dict :: "(string \<times> canonical) list \<Rightarrow> Order result" where
  "order_from_dict raw =
     (case map_of raw ''order_type'' of
        None \<Rightarrow> Inl KeyError
      | Some (CStr tag) \<Rightarrow>
          bind_result (order_type_of_value tag) (\<lambda>t.
            let kwargs = filter (\<lambda>(k, v). k \<noteq> ''order_type'') raw in
            if kwargs_match (order_fields t) kwargs then construct_order t kwargs
            else Inl TypeError)
      | Some _ \<Rightarrow> Inl ValueError)"

end
