(* ===== verification/Board.thy ===== *)
theory Board
  imports Game_Map
begin

text \<open>
  Board queries and movement legality, \<^verbatim>\<open>engine/state.py\<close>, and the board invariants that the
  adjudication phases keep: no two units in one region (\<open>occupancy_ok\<close>) and every unit on terrain
  its type can enter (\<open>placement_ok\<close>).
\<close>

section \<open>Queries\<close>

definition get_units_for_faction :: "GameState \<Rightarrow> string \<Rightarrow> Unit list" where
  "get_units_for_faction st f = filter (\<lambda>u. faction_id u = f) (units st)"

definition get_supply_center_count :: "GameState \<Rightarrow> string \<Rightarrow> int" where
  "get_supply_center_count st f =
     int (length (filter (\<lambda>owner. owner = f) (dict_values (supply_centers st))))"

definition get_unit_at :: "GameState \<Rightarrow> string \<Rightarrow> Unit option" where
  "get_unit_at st r = find (\<lambda>u. region_id u = r) (units st)"

section \<open>Movement legality\<close>

text \<open>The neighbours of a region, \<open>ADJACENCY.get(region_id, set())\<close>.\<close>

definition neighbours :: "string \<Rightarrow> string list" where
  "neighbours r = (case map_of ADJACENCY r of None \<Rightarrow> [] | Some ns \<Rightarrow> ns)"

definition can_move_to :: "GameState \<Rightarrow> Unit \<Rightarrow> string \<Rightarrow> bool" where
  "can_move_to st u dest =
     (case map_of ADJACENCY (region_id u) of
        None \<Rightarrow> False
      | Some ns \<Rightarrow>
          if dest \<notin> set ns then False
          else (case map_of (regions st) dest of
                  None \<Rightarrow> False
                | Some dest_region \<Rightarrow>
                    if unit_type u = ARMY then
                      (if region_type dest_region = SEA then False else True)
                    else if unit_type u = FLEET then
                      (if region_type dest_region = LAND then False else True)
                    else True))"

definition get_legal_moves :: "GameState \<Rightarrow> Unit \<Rightarrow> string list" where
  "get_legal_moves st u = filter (can_move_to st u) (sort (neighbours (region_id u)))"

section \<open>Structural validation of submitted orders\<close>

datatype order_error = NotOwned string string | DuplicateOrder string

fun validate_loop :: "string \<Rightarrow> string set \<Rightarrow> Order list \<Rightarrow> string list \<Rightarrow> order_error list" where
  "validate_loop f owned [] seen = []"
| "validate_loop f owned (ord # ords) seen =
     (let r = unit_region_id ord in
      (if r \<notin> owned then [NotOwned r f] else []) @
      (if r \<in> set seen then [DuplicateOrder r] else []) @
      validate_loop f owned ords (r # seen))"

definition validate_orders :: "GameState \<Rightarrow> string \<Rightarrow> Order list \<Rightarrow> order_error list" where
  "validate_orders st f ords =
     validate_loop f (set (map region_id (get_units_for_faction st f))) ords []"

section \<open>Legality as a specification\<close>

fun terrain_ok :: "UnitType \<Rightarrow> RegionType \<Rightarrow> bool" where
  "terrain_ok ARMY t = (t \<noteq> SEA)"
| "terrain_ok FLEET t = (t \<noteq> LAND)"

definition can_stand :: "(string, Region) dict \<Rightarrow> UnitType \<Rightarrow> string \<Rightarrow> bool" where
  "can_stand regs t r \<longleftrightarrow>
     (case map_of regs r of None \<Rightarrow> False | Some reg \<Rightarrow> terrain_ok t (region_type reg))"

lemma neighbours_conv: "n \<in> set (neighbours r) \<longleftrightarrow> adjacent r n"
  by (auto simp: neighbours_def adjacent_def split: option.splits)

lemma can_move_to_conv:
  "can_move_to st u d \<longleftrightarrow> adjacent (region_id u) d \<and> can_stand (regions st) (unit_type u) d"
  by (cases "unit_type u")
    (auto simp: can_move_to_def adjacent_conv can_stand_def split: option.splits)

lemma can_move_to_cong:
  "regions st = regions st' \<Longrightarrow> unit_type u = unit_type u' \<Longrightarrow> region_id u = region_id u' \<Longrightarrow>
   can_move_to st u d = can_move_to st' u' d"
  by (simp add: can_move_to_conv)

lemma can_move_to_irrefl: "\<not> can_move_to st u (region_id u)"
  using adjacent_edge(1) by (auto simp: can_move_to_conv)

lemma set_get_legal_moves: "set (get_legal_moves st u) = {d. can_move_to st u d}"
  by (auto simp: get_legal_moves_def can_move_to_conv neighbours_conv)

lemma neighbours_distinct: "distinct (neighbours r)"
proof (cases "map_of ADJACENCY r")
  case (Some ns)
  then have "(r, ns) \<in> set ADJACENCY" by (rule map_of_SomeD)
  then have "distinct ns" using adjacency_edges unfolding list_all_iff by fastforce
  with Some show ?thesis by (simp add: neighbours_def)
qed (simp add: neighbours_def)

lemma sorted_get_legal_moves: "sorted (get_legal_moves st u)" "distinct (get_legal_moves st u)"
  by (simp_all add: get_legal_moves_def sorted_filter [where f = id, simplified] neighbours_distinct)

section \<open>Board invariants\<close>

definition occupancy_ok :: "GameState \<Rightarrow> bool" where
  "occupancy_ok st \<longleftrightarrow> distinct (map region_id (units st))"

definition placement_ok :: "GameState \<Rightarrow> bool" where
  "placement_ok st \<longleftrightarrow> list_all (\<lambda>u. can_stand (regions st) (unit_type u) (region_id u)) (units st)"

lemma placement_okD:
  "placement_ok st \<Longrightarrow> u \<in> set (units st) \<Longrightarrow> can_stand (regions st) (unit_type u) (region_id u)"
  by (simp add: placement_ok_def list_all_iff)

lemma get_unit_at_Some:
  "get_unit_at st r = Some u \<Longrightarrow> u \<in> set (units st) \<and> region_id u = r"
  by (auto simp: get_unit_at_def find_Some_iff)

lemma get_unit_at_None: "get_unit_at st r = None \<longleftrightarrow> (\<forall>u\<in>set (units st). region_id u \<noteq> r)"
  by (auto simp: get_unit_at_def find_None_iff)

lemma validate_loop_Nil:
  "validate_loop f owned ords seen = [] \<longleftrightarrow>
     (\<forall>ord\<in>set ords. unit_region_id ord \<in> owned) \<and>
     distinct (map unit_region_id ords) \<and>
     set (map unit_region_id ords) \<inter> set seen = {}"
  by (induction ords arbitrary: seen) (auto simp: Let_def)

lemma owned_regions:
  "r \<in> set (map region_id (get_units_for_faction st f)) \<longleftrightarrow>
     (\<exists>u\<in>set (units st). region_id u = r \<and> faction_id u = f)"
  by (auto simp: get_units_for_faction_def)

end
