(* ===== verification/Movement.thy ===== *)
theory Movement
  imports Board
begin

text \<open>
  The movement phase of \<^verbatim>\<open>engine/adjudicator.py\<close>: order normalization, support cutting,
  strengths, the memoised recursion \<open>resolve_move\<close> and the assembly of the results. Dictionary
  reads \<open>d[k]\<close> that could raise, and the \<open>assert\<close> of \<open>resolve_move\<close>, are kept as branches; the
  theory \<^verbatim>\<open>Movement_Facts\<close> shows that none of them is taken.
\<close>

section \<open>Result types\<close>

record UnitOrderResult =
  r_region_id :: string
  r_faction_id :: string
  r_unit_type :: UnitType
  r_order :: Order
  r_normalized :: bool
  r_moved :: bool
  r_final_region_id :: string
  r_dislodged :: bool
  r_dislodged_by :: "string option"
  r_support_cut :: bool

record MovementResult =
  unit_results :: "UnitOrderResult list"
  contested_regions :: "string set"

definition dislodged_results :: "MovementResult \<Rightarrow> UnitOrderResult list" where
  "dislodged_results res = filter r_dislodged (unit_results res)"

section \<open>Order normalization\<close>

definition unit_at :: "GameState \<Rightarrow> string \<Rightarrow> Unit option" where
  "unit_at st r = find (\<lambda>u. region_id u = r) (units st)"

definition normalize_order :: "GameState \<Rightarrow> Unit \<Rightarrow> Order option \<Rightarrow> Order \<times> bool" where
  "normalize_order st u order =
     (case order of
        None \<Rightarrow> (HoldOrder (region_id u), True)
      | Some ord \<Rightarrow>
          if unit_region_id ord \<noteq> region_id u then (HoldOrder (region_id u), True)
          else (case ord of
              HoldOrder _ \<Rightarrow> (ord, False)
            | MoveOrder _ d \<Rightarrow>
                if can_move_to st u d then (ord, False) else (HoldOrder (region_id u), True)
            | SupportHoldOrder _ s \<Rightarrow>
                (case unit_at st s of
                   None \<Rightarrow> (HoldOrder (region_id u), True)
                 | Some _ \<Rightarrow> if \<not> can_move_to st u s then (HoldOrder (region_id u), True) else (ord, False))
            | SupportMoveOrder _ s d \<Rightarrow>
                (case unit_at st s of
                   None \<Rightarrow> (HoldOrder (region_id u), True)
                 | Some _ \<Rightarrow> if \<not> can_move_to st u d then (HoldOrder (region_id u), True) else (ord, False))))"

section \<open>The tables computed before resolution\<close>

definition units_by_region :: "GameState \<Rightarrow> (string, Unit) dict" where
  "units_by_region st = dict_comp region_id (\<lambda>u. u) (sort_key region_id (units st))"

definition normalized_orders :: "GameState \<Rightarrow> (string, Order) dict \<Rightarrow> (string, Order \<times> bool) dict" where
  "normalized_orders st orders =
     map (\<lambda>(r, u). (r, normalize_order st u (map_of orders r))) (units_by_region st)"

definition effective_orders :: "GameState \<Rightarrow> (string, Order) dict \<Rightarrow> (string, Order) dict" where
  "effective_orders st orders = map (\<lambda>(r, v). (r, fst v)) (normalized_orders st orders)"

definition normalized_flags :: "GameState \<Rightarrow> (string, Order) dict \<Rightarrow> (string, bool) dict" where
  "normalized_flags st orders = map (\<lambda>(r, v). (r, snd v)) (normalized_orders st orders)"

definition support_hold_orders :: "(string, Order) dict \<Rightarrow> (string, Order) dict" where
  "support_hold_orders eff = filter (\<lambda>(r, ord). is_SupportHoldOrder ord) eff"

definition support_move_orders :: "(string, Order) dict \<Rightarrow> (string, Order) dict" where
  "support_move_orders eff = filter (\<lambda>(r, ord). is_SupportMoveOrder ord) eff"

text \<open>\<open>{**support_hold_orders, **support_move_orders}\<close>: the two have no key in common.\<close>

definition all_support_orders :: "(string, Order) dict \<Rightarrow> (string, Order) dict" where
  "all_support_orders eff = support_hold_orders eff @ support_move_orders eff"

definition is_cut :: "(string, Order) dict \<Rightarrow> string \<Rightarrow> Order \<Rightarrow> bool" where
  "is_cut eff supporter sorder =
     list_ex (\<lambda>(attacker, ord).
       if \<not> is_MoveOrder ord then False
       else if destination_id ord \<noteq> supporter then False
       else if attacker = supporter then False
       else if is_SupportMoveOrder sorder \<and> supported_destination_id sorder = attacker then False
       else True) eff"

definition cut_table :: "(string, Order) dict \<Rightarrow> (string, bool) dict" where
  "cut_table eff = map (\<lambda>(r, sorder). (r, is_cut eff r sorder)) (all_support_orders eff)"

text \<open>\<open>sum(1 for s in \<dots> if match(s) and not cut[s.unit_region_id])\<close>.\<close>

fun count_supports :: "(string, bool) dict \<Rightarrow> (Order \<Rightarrow> bool) \<Rightarrow> Order list \<Rightarrow> int result" where
  "count_supports cuts matches [] = Inr 0"
| "count_supports cuts matches (s # ss) =
     (if matches s then
        bind_result (lookup_or_raise cuts (unit_region_id s)) (\<lambda>c.
        bind_result (count_supports cuts matches ss) (\<lambda>n.
          Inr (if c then n else 1 + n)))
      else count_supports cuts matches ss)"

definition attack_strength ::
    "(string, Order) dict \<Rightarrow> (string, bool) dict \<Rightarrow> (string, int) dict result" where
  "attack_strength eff cuts =
     map_result (\<lambda>(r, ord).
       bind_result
         (count_supports cuts
            (\<lambda>s. supported_region_id s = r \<and> supported_destination_id s = destination_id ord)
            (dict_values (support_move_orders eff)))
         (\<lambda>supports. Inr (r, 1 + supports)))
       (filter (\<lambda>(r, ord). is_MoveOrder ord) eff)"

definition hold_strength ::
    "(string, Order) dict \<Rightarrow> (string, bool) dict \<Rightarrow> (string, int) dict result" where
  "hold_strength eff cuts =
     map_result (\<lambda>(r, ord).
       bind_result
         (count_supports cuts (\<lambda>s. supported_region_id s = r)
            (dict_values (support_hold_orders eff)))
         (\<lambda>supports. Inr (r, 1 + supports)))
       (filter (\<lambda>(r, ord). \<not> is_MoveOrder ord) eff)"

section \<open>Resolving the moves\<close>

text \<open>What the closure \<open>resolve_move\<close> reads from the enclosing function.\<close>

record movement_env =
  m_units :: "(string, Unit) dict"
  m_orders :: "(string, Order) dict"
  m_attack :: "(string, int) dict"
  m_hold :: "(string, int) dict"

text \<open>The three tests that decide \<open>success\<close>, in the order of the source.\<close>

definition move_success ::
    "int \<Rightarrow> string \<Rightarrow> (int \<times> string) option \<Rightarrow> int option \<Rightarrow> int list \<Rightarrow> bool" where
  "move_success my_strength my_faction defender head_to_head others =
     (let s0 = True;
          s1 = (case defender of None \<Rightarrow> s0
                | Some (ds, df) \<Rightarrow> if df = my_faction \<or> my_strength \<le> ds then False else s0);
          s2 = (case head_to_head of None \<Rightarrow> s1
                | Some h \<Rightarrow> if my_strength \<le> h then False else s1)
      in if list_ex (\<lambda>s. my_strength \<le> s) others then False else s2)"

definition other_attackers :: "movement_env \<Rightarrow> string \<Rightarrow> string \<Rightarrow> int list result" where
  "other_attackers env region dest =
     map_result (\<lambda>(r, ord). lookup_or_raise (m_attack env) r)
       (filter (\<lambda>(r, ord). is_MoveOrder ord \<and> destination_id ord = dest \<and> r \<noteq> region) (m_orders env))"

lemma filter_shrinks:
  assumes "x \<in> set xs" and "P x"
  shows "length (filter (\<lambda>y. P y \<and> y \<noteq> x) xs) < length (filter P xs)"
proof -
  have "length (filter (\<lambda>y. y \<noteq> x) (filter P xs)) < length (filter P xs)"
    by (rule length_filter_less [of x]) (simp_all add: assms)
  then show ?thesis by (simp add: conj_commute)
qed

text \<open>
  \<open>resolve_move\<close> with its two captured containers as arguments. \<open>in_progress\<close> gets \<open>region\<close> on
  entry and loses it on return, so passing it down unchanged in the result is the same;
  \<open>resolved\<close> is returned updated.
\<close>

function resolve_move ::
    "movement_env \<Rightarrow> string \<Rightarrow> string list \<Rightarrow> (string, bool) dict \<Rightarrow> (bool \<times> (string, bool) dict) result"
where
  "resolve_move env region in_progress resolved =
     (case map_of resolved region of
        Some b \<Rightarrow> Inr (b, resolved)
      | None \<Rightarrow>
          if region \<in> set in_progress then Inr (True, resolved)
          else
            bind_result (lookup_or_raise (m_orders env) region) (\<lambda>order.
            if \<not> is_MoveOrder order then Inl AssertionError
            else
              bind_result (lookup_or_raise (m_attack env) region) (\<lambda>my_strength.
              bind_result (lookup_or_raise (m_units env) region) (\<lambda>me.
              bind_result
                (case map_of (m_units env) (destination_id order) of
                   None \<Rightarrow> Inr (None, None, resolved)
                 | Some occupant \<Rightarrow>
                     (case map_of (m_orders env) (destination_id order) of
                        Some (MoveOrder _ d) \<Rightarrow>
                          if d = region then
                            bind_result (lookup_or_raise (m_attack env) (destination_id order))
                              (\<lambda>h. Inr (None, Some h, resolved))
                          else
                            bind_result
                              (resolve_move env (destination_id order) (region # in_progress) resolved)
                              (\<lambda>(moved, resolved').
                                 if moved then Inr (None, None, resolved')
                                 else Inr (Some (1, faction_id occupant), None, resolved'))
                      | _ \<Rightarrow>
                          bind_result (lookup_or_raise (m_hold env) (destination_id order))
                            (\<lambda>h. Inr (Some (h, faction_id occupant), None, resolved))))
                (\<lambda>(defender, head_to_head, resolved').
                   bind_result (other_attackers env region (destination_id order)) (\<lambda>others.
                     let success = move_success my_strength (faction_id me) defender head_to_head others
                     in Inr (success, AList.update region success resolved')))))))"
  by pat_completeness auto

termination
proof (relation "measure (\<lambda>(env, region, in_progress, resolved).
    length (filter (\<lambda>r. r \<notin> set in_progress) (map fst (m_orders env))))", goal_cases)
  case 1
  show ?case by simp
next
  case (2 env region in_progress resolved)
  then have "region \<in> set (map fst (m_orders env))"
    by (auto dest: map_of_SomeD simp: rev_image_eqI)
  with 2 show ?case
    using filter_shrinks [of region "map fst (m_orders env)" "\<lambda>r. r \<notin> set in_progress"]
    by (simp add: conj_commute)
qed

declare resolve_move.simps [simp del]

text \<open>The loop over \<open>sorted(effective_orders.items())\<close>: keys are distinct, so they decide the order.\<close>

definition resolve_all :: "movement_env \<Rightarrow> (string, bool) dict result" where
  "resolve_all env =
     fold_result (\<lambda>(region, ord) resolved.
         if is_MoveOrder ord then
           bind_result (resolve_move env region [] resolved) (\<lambda>(_, resolved'). Inr resolved')
         else Inr resolved)
       (sort_key fst (m_orders env)) []"

section \<open>Assembling the results\<close>

text \<open>\<open>isinstance(order, MoveOrder) and resolved.get(region)\<close>.\<close>

definition has_moved :: "(string, bool) dict \<Rightarrow> string \<Rightarrow> Order \<Rightarrow> bool" where
  "has_moved resolved r ord \<longleftrightarrow> is_MoveOrder ord \<and> map_of resolved r = Some True"

definition winners_table :: "(string, Order) dict \<Rightarrow> (string, bool) dict \<Rightarrow> (string, string) dict" where
  "winners_table eff resolved =
     dict_comp (\<lambda>(r, ord). destination_id ord) fst
       (filter (\<lambda>(r, ord). has_moved resolved r ord) eff)"

definition contested_of :: "(string, Order) dict \<Rightarrow> string set" where
  "contested_of eff =
     (let targets = map (\<lambda>(r, ord). destination_id ord) (filter (\<lambda>(r, ord). is_MoveOrder ord) eff)
      in set (filter (\<lambda>d. 2 \<le> count_list targets d) targets))"

definition unit_result ::
    "(string, Order) dict \<Rightarrow> (string, Unit) dict \<Rightarrow> (string, bool) dict \<Rightarrow> (string, bool) dict \<Rightarrow>
     (string, bool) dict \<Rightarrow> (string, string) dict \<Rightarrow> string \<Rightarrow> UnitOrderResult result" where
  "unit_result eff ubr flags cuts resolved winners region =
     bind_result (lookup_or_raise eff region) (\<lambda>order.
     bind_result (lookup_or_raise ubr region) (\<lambda>unit.
     bind_result (lookup_or_raise flags region) (\<lambda>flag.
       let moved = has_moved resolved region order;
           final_region = (if moved then destination_id order else region);
           dislodged = (\<not> moved \<and> region \<in> set (map fst winners));
           dislodged_by = (if dislodged then map_of winners region else None);
           support_cut =
             (if is_SupportHoldOrder order \<or> is_SupportMoveOrder order
              then (case map_of cuts region of Some c \<Rightarrow> c | None \<Rightarrow> False) else False)
       in Inr \<lparr>r_region_id = region, r_faction_id = faction_id unit, r_unit_type = unit_type unit,
               r_order = order, r_normalized = flag, r_moved = moved,
               r_final_region_id = final_region, r_dislodged = dislodged,
               r_dislodged_by = dislodged_by, r_support_cut = support_cut\<rparr>)))"

definition resolve_movement :: "GameState \<Rightarrow> (string, Order) dict \<Rightarrow> MovementResult result" where
  "resolve_movement st orders =
     (let ubr = units_by_region st;
          eff = effective_orders st orders;
          flags = normalized_flags st orders;
          cuts = cut_table eff
      in bind_result (attack_strength eff cuts) (\<lambda>att.
         bind_result (hold_strength eff cuts) (\<lambda>hold.
         bind_result (resolve_all \<lparr>m_units = ubr, m_orders = eff, m_attack = att, m_hold = hold\<rparr>) (\<lambda>resolved.
           let winners = winners_table eff resolved
           in bind_result
                (map_result (unit_result eff ubr flags cuts resolved winners) (sort (map fst eff)))
                (\<lambda>rs. Inr \<lparr>unit_results = rs, contested_regions = contested_of eff\<rparr>)))))"

definition apply_movement_result :: "GameState \<Rightarrow> MovementResult \<Rightarrow> GameState" where
  "apply_movement_result st result =
     st\<lparr>units := sort_key region_id
          (map (\<lambda>r. mk_unit (r_unit_type r) (r_faction_id r) (r_final_region_id r))
             (filter (\<lambda>r. \<not> r_dislodged r) (unit_results result)))\<rparr>"

end
