(* ===== verification/Movement_Facts.thy ===== *)
theory Movement_Facts
  imports Movement
begin

text \<open>
  What the movement phase guarantees. First the tables: they are keyed by the occupied regions and
  no lookup in them fails. Then \<open>resolve_move\<close>: it terminates without an exception, and the moves
  it lets succeed are strictly stronger than every competitor. Then the results: no two units end
  in one region, no unit is lost, and every unit stands on terrain it can enter.
\<close>

named_theorems table_simps \<open>keys and lookups of the tables computed before resolution\<close>

section \<open>Normalized orders\<close>

lemma normalize_order_region [simp]: "unit_region_id (fst (normalize_order st u ord)) = region_id u"
  by (auto simp: normalize_order_def split: option.splits Order.splits)

lemma normalize_order_move:
  "fst (normalize_order st u ord) = MoveOrder r d \<Longrightarrow> can_move_to st u d \<and> r = region_id u"
  by (auto simp: normalize_order_def split: option.splits Order.splits if_splits)

lemma normalize_order_flag:
  "snd (normalize_order st u ord) \<Longrightarrow> fst (normalize_order st u ord) = HoldOrder (region_id u)"
  by (auto simp: normalize_order_def split: option.splits Order.splits if_splits)

lemma normalize_order_kept:
  "\<not> snd (normalize_order st u ord) \<Longrightarrow> ord = Some (fst (normalize_order st u ord))"
  by (auto simp: normalize_order_def split: option.splits Order.splits if_splits)

section \<open>The tables\<close>

lemma ubr_ok [simp]: "dict_ok (units_by_region st)"
  by (simp add: units_by_region_def)

lemma ubr_keys [table_simps]: "set (map fst (units_by_region st)) = region_id ` set (units st)"
  by (simp add: units_by_region_def keys_dict_comp del: set_map)

lemma ubr_entry: "(r, u) \<in> set (units_by_region st) \<Longrightarrow> u \<in> set (units st) \<and> region_id u = r"
  unfolding units_by_region_def by (drule dict_comp_entry) auto

lemma ubr_lookup: "map_of (units_by_region st) r = Some u \<Longrightarrow> u \<in> set (units st) \<and> region_id u = r"
  by (drule map_of_SomeD) (rule ubr_entry)

lemma ubr_distinct:
  "occupancy_ok st \<Longrightarrow> units_by_region st = map (\<lambda>u. (region_id u, u)) (sort_key region_id (units st))"
  by (simp add: units_by_region_def occupancy_ok_def dict_comp_distinct)

lemma normalized_keys: "map fst (normalized_orders st orders) = map fst (units_by_region st)"
  unfolding normalized_orders_def by (rule map_fst_map_val)

lemma eff_keys [table_simps]: "map fst (effective_orders st orders) = map fst (units_by_region st)"
  unfolding effective_orders_def normalized_keys [of st orders, symmetric] by (rule map_fst_map_val)

lemma flags_keys [table_simps]: "map fst (normalized_flags st orders) = map fst (units_by_region st)"
  unfolding normalized_flags_def normalized_keys [of st orders, symmetric] by (rule map_fst_map_val)

lemma eff_lookup:
  "map_of (effective_orders st orders) r =
     map_option (\<lambda>u. fst (normalize_order st u (map_of orders r))) (map_of (units_by_region st) r)"
  unfolding effective_orders_def normalized_orders_def
  by (simp add: map_of_map_val option.map_comp comp_def del: map_map)

lemma flags_lookup:
  "map_of (normalized_flags st orders) r =
     map_option (\<lambda>u. snd (normalize_order st u (map_of orders r))) (map_of (units_by_region st) r)"
  unfolding normalized_flags_def normalized_orders_def
  by (simp add: map_of_map_val option.map_comp comp_def del: map_map)

text \<open>What the later tables need of \<open>effective_orders\<close>: distinct keys, and every order is keyed by
  the region of its unit.\<close>

definition orders_ok :: "(string, Order) dict \<Rightarrow> bool" where
  "orders_ok eff \<longleftrightarrow> dict_ok eff \<and> (\<forall>r ord. map_of eff r = Some ord \<longrightarrow> unit_region_id ord = r)"

lemma orders_ok_effective [simp]: "orders_ok (effective_orders st orders)"
  unfolding orders_ok_def
  by (auto simp: dict_ok_def eff_keys eff_lookup dest: ubr_lookup)
     (use ubr_ok in \<open>simp add: dict_ok_def\<close>)

lemma cut_table_keys:
  "set (map fst (cut_table eff)) =
     fst ` set (support_hold_orders eff) \<union> fst ` set (support_move_orders eff)"
  by (force simp: cut_table_def all_support_orders_def)

lemma supporter_has_cut:
  assumes "orders_ok eff"
    and "s \<in> set (dict_values (support_move_orders eff)) \<or> s \<in> set (dict_values (support_hold_orders eff))"
  shows "unit_region_id s \<in> set (map fst (cut_table eff))"
proof -
  from assms(2) obtain r where r: "(r, s) \<in> set (support_move_orders eff) \<union> set (support_hold_orders eff)"
    by (auto simp: dict_values_def) blast+
  then have "(r, s) \<in> set eff" by (auto simp: support_move_orders_def support_hold_orders_def)
  with assms(1) have "unit_region_id s = r" by (auto simp: orders_ok_def dict_ok_def)
  with r show ?thesis by (simp only: cut_table_keys) (auto simp: rev_image_eqI)
qed

section \<open>Strengths\<close>

text \<open>The number of uncut supporters that match, and the strength tables without lookups that fail.\<close>

definition uncut_supports :: "(string, Order) dict \<Rightarrow> (Order \<Rightarrow> bool) \<Rightarrow> Order list \<Rightarrow> int" where
  "uncut_supports eff matches ss =
     int (length (filter (\<lambda>s. matches s \<and> map_of (cut_table eff) (unit_region_id s) = Some False) ss))"

lemma count_supports_eq:
  assumes "\<And>s. s \<in> set ss \<Longrightarrow> unit_region_id s \<in> set (map fst (cut_table eff))"
  shows "count_supports (cut_table eff) matches ss = Inr (uncut_supports eff matches ss)"
  using assms
proof (induction ss)
  case Nil
  then show ?case by (simp add: uncut_supports_def)
next
  case (Cons s ss)
  then obtain c where "map_of (cut_table eff) (unit_region_id s) = Some c"
    by (meson list.set_intros(1) lookup_or_raise_Inr lookup_or_raise_total)
  with Cons show ?case
    by (cases c) (auto simp: uncut_supports_def lookup_or_raise_def)
qed

definition attack_table :: "(string, Order) dict \<Rightarrow> (string, int) dict" where
  "attack_table eff =
     map (\<lambda>(r, ord). (r, 1 + uncut_supports eff
           (\<lambda>s. supported_region_id s = r \<and> supported_destination_id s = destination_id ord)
           (dict_values (support_move_orders eff))))
       (filter (\<lambda>(r, ord). is_MoveOrder ord) eff)"

definition hold_table :: "(string, Order) dict \<Rightarrow> (string, int) dict" where
  "hold_table eff =
     map (\<lambda>(r, ord). (r, 1 + uncut_supports eff (\<lambda>s. supported_region_id s = r)
           (dict_values (support_hold_orders eff))))
       (filter (\<lambda>(r, ord). \<not> is_MoveOrder ord) eff)"

lemma attack_strength_total:
  "orders_ok eff \<Longrightarrow> attack_strength eff (cut_table eff) = Inr (attack_table eff)"
  unfolding attack_strength_def attack_table_def
  by (rule map_result_total) (auto simp: split_def intro!: count_supports_eq supporter_has_cut)

lemma hold_strength_total:
  "orders_ok eff \<Longrightarrow> hold_strength eff (cut_table eff) = Inr (hold_table eff)"
  unfolding hold_strength_def hold_table_def
  by (rule map_result_total) (auto simp: split_def intro!: count_supports_eq supporter_has_cut)

lemma attack_table_lookup:
  "orders_ok eff \<Longrightarrow> map_of (attack_table eff) r =
     (case map_of eff r of Some ord \<Rightarrow> if is_MoveOrder ord
        then Some (1 + uncut_supports eff
           (\<lambda>s. supported_region_id s = r \<and> supported_destination_id s = destination_id ord)
           (dict_values (support_move_orders eff))) else None | None \<Rightarrow> None)"
  by (simp add: attack_table_def map_of_map_val map_of_filter_val orders_ok_def dict_ok_def
      split: option.splits)

lemma hold_table_lookup:
  "orders_ok eff \<Longrightarrow> map_of (hold_table eff) r =
     (case map_of eff r of Some ord \<Rightarrow> if is_MoveOrder ord then None
        else Some (1 + uncut_supports eff (\<lambda>s. supported_region_id s = r)
           (dict_values (support_hold_orders eff))) | None \<Rightarrow> None)"
  by (simp add: hold_table_def map_of_map_val map_of_filter_val orders_ok_def dict_ok_def
      split: option.splits)

section \<open>The environment of the recursion\<close>

definition env_ok :: "movement_env \<Rightarrow> bool" where
  "env_ok env \<longleftrightarrow>
     dict_ok (m_orders env) \<and>
     (\<forall>r. map_of (m_units env) r = None \<longleftrightarrow> map_of (m_orders env) r = None) \<and>
     (\<forall>r. map_of (m_attack env) r \<noteq> None \<longleftrightarrow> (\<exists>u d. map_of (m_orders env) r = Some (MoveOrder u d))) \<and>
     (\<forall>r ord. map_of (m_orders env) r = Some ord \<longrightarrow> \<not> is_MoveOrder ord \<longrightarrow> map_of (m_hold env) r \<noteq> None)"

definition movement_env_of :: "GameState \<Rightarrow> (string, Order) dict \<Rightarrow> movement_env" where
  "movement_env_of st orders =
     (let eff = effective_orders st orders
      in \<lparr>m_units = units_by_region st, m_orders = eff,
          m_attack = attack_table eff, m_hold = hold_table eff\<rparr>)"

lemma movement_env_sel [simp]:
  "m_units (movement_env_of st orders) = units_by_region st"
  "m_orders (movement_env_of st orders) = effective_orders st orders"
  "m_attack (movement_env_of st orders) = attack_table (effective_orders st orders)"
  "m_hold (movement_env_of st orders) = hold_table (effective_orders st orders)"
  by (simp_all add: movement_env_of_def Let_def)

lemma is_MoveOrder_conv: "is_MoveOrder ord \<longleftrightarrow> (\<exists>u d. ord = MoveOrder u d)"
  by (cases ord) auto

lemma env_ok_movement [simp]: "env_ok (movement_env_of st orders)"
  using orders_ok_effective [of st orders]
  by (auto simp: env_ok_def orders_ok_def attack_table_lookup hold_table_lookup is_MoveOrder_conv
      eff_lookup split: option.splits)

text \<open>\<open>mover env r d\<close>: the unit in \<open>r\<close> has an effective order to move to \<open>d\<close>. The recursion visits
  \<open>d\<close> when a unit there moves on to a third region.\<close>

definition mover :: "movement_env \<Rightarrow> string \<Rightarrow> string \<Rightarrow> bool" where
  "mover env r d \<longleftrightarrow> (\<exists>u. map_of (m_orders env) r = Some (MoveOrder u d))"

definition follows :: "movement_env \<Rightarrow> string \<Rightarrow> string \<Rightarrow> bool" where
  "follows env r d \<longleftrightarrow> (\<exists>d'. mover env d d' \<and> d' \<noteq> r)"

lemma mover_code [code]:
  "mover env r d \<longleftrightarrow>
     (case map_of (m_orders env) r of Some (MoveOrder _ d') \<Rightarrow> d' = d | _ \<Rightarrow> False)"
  by (auto simp: mover_def split: option.splits Order.splits)

lemma mover_unique: "mover env r d \<Longrightarrow> mover env r d' \<Longrightarrow> d' = d"
  by (auto simp: mover_def)

lemma mover_attack: "env_ok env \<Longrightarrow> mover env r d \<Longrightarrow> \<exists>a. map_of (m_attack env) r = Some a"
  by (auto simp: env_ok_def mover_def)

lemma mover_unit: "env_ok env \<Longrightarrow> mover env r d \<Longrightarrow> \<exists>u. map_of (m_units env) r = Some u"
  by (auto simp: env_ok_def mover_def) (metis not_None_eq option.distinct(1))

text \<open>The decision for a move, given which occupants are taken to leave (\<open>ok\<close>).\<close>

definition strength :: "movement_env \<Rightarrow> string \<Rightarrow> int" where
  "strength env r = the (map_of (m_attack env) r)"

definition competitors :: "movement_env \<Rightarrow> string \<Rightarrow> string \<Rightarrow> string list" where
  "competitors env r d =
     map fst (filter (\<lambda>(r', ord). is_MoveOrder ord \<and> destination_id ord = d \<and> r' \<noteq> r) (m_orders env))"

definition defender_of :: "movement_env \<Rightarrow> (string \<Rightarrow> bool) \<Rightarrow> string \<Rightarrow> string \<Rightarrow> (int \<times> string) option" where
  "defender_of env ok r d =
     (case map_of (m_units env) d of None \<Rightarrow> None
      | Some occ \<Rightarrow>
          (case map_of (m_orders env) d of
             Some (MoveOrder _ d') \<Rightarrow> if d' = r \<or> ok d then None else Some (1, faction_id occ)
           | _ \<Rightarrow> Some (the (map_of (m_hold env) d), faction_id occ)))"

definition head_to_head_of :: "movement_env \<Rightarrow> string \<Rightarrow> string \<Rightarrow> int option" where
  "head_to_head_of env r d = (if mover env d r then Some (strength env d) else None)"

definition decide :: "movement_env \<Rightarrow> (string \<Rightarrow> bool) \<Rightarrow> string \<Rightarrow> bool" where
  "decide env ok r =
     (case map_of (m_orders env) r of
        Some (MoveOrder _ d) \<Rightarrow>
          move_success (strength env r) (faction_id (the (map_of (m_units env) r)))
            (defender_of env ok r d) (head_to_head_of env r d) (map (strength env) (competitors env r d))
      | _ \<Rightarrow> False)"

lemma competitors_conv:
  assumes "env_ok env"
  shows "r' \<in> set (competitors env r d) \<longleftrightarrow> mover env r' d \<and> r' \<noteq> r"
proof -
  have entry: "(r', ord) \<in> set (m_orders env) \<longleftrightarrow> map_of (m_orders env) r' = Some ord" for ord
    using assms by (simp add: env_ok_def dict_ok_def)
  have "r' \<in> set (competitors env r d) \<longleftrightarrow>
      (\<exists>ord. (r', ord) \<in> set (m_orders env) \<and> is_MoveOrder ord \<and> destination_id ord = d \<and> r' \<noteq> r)"
    unfolding competitors_def set_map by (auto simp: image_iff intro: bexI)
  then show ?thesis by (auto simp: entry mover_def is_MoveOrder_conv)
qed

lemma other_attackers_total:
  assumes "env_ok env"
  shows "other_attackers env r d = Inr (map (strength env) (competitors env r d))"
proof -
  have "(case x of (r', ord) \<Rightarrow> lookup_or_raise (m_attack env) r') = Inr (strength env (fst x))"
    if "x \<in> set (filter (\<lambda>(r', ord). is_MoveOrder ord \<and> destination_id ord = d \<and> r' \<noteq> r) (m_orders env))" for x
  proof -
    from that obtain r' u where x: "x = (r', MoveOrder u d)" and "(r', MoveOrder u d) \<in> set (m_orders env)"
      by (auto simp: is_MoveOrder_conv)
    then have "mover env r' d" using assms by (auto simp: mover_def env_ok_def dict_ok_def)
    with assms x show ?thesis
      by (auto simp: strength_def lookup_or_raise_def dest!: mover_attack split: option.splits)
  qed
  then show ?thesis
    unfolding other_attackers_def competitors_def map_map comp_def by (rule map_result_total)
qed

text \<open>One unfolding of the recursion, with its lookups done.\<close>

lemma resolve_move_step:
  assumes env: "env_ok env" and mv: "mover env r d" and new: "map_of res r = None" "r \<notin> set ip"
  shows "resolve_move env r ip res =
    (if follows env r d
     then bind_result (resolve_move env d (r # ip) res)
            (\<lambda>(b, res'). let s = decide env (\<lambda>_. b) r in Inr (s, AList.update r s res'))
     else let s = decide env (\<lambda>_. False) r in Inr (s, AList.update r s res))"
proof -
  obtain u a me where look: "map_of (m_orders env) r = Some (MoveOrder u d)"
      "map_of (m_attack env) r = Some a" "map_of (m_units env) r = Some me"
    using mv mover_attack [OF env mv] mover_unit [OF env mv] by (auto simp: mover_def)
  note unfold = resolve_move.simps [of env r ip res] lookup_or_raise_def new look Let_def
    other_attackers_total [OF env] decide_def
  show ?thesis
  proof (cases "map_of (m_orders env) d")
    case None
    then have "map_of (m_units env) d = None" using env by (simp add: env_ok_def)
    with None show ?thesis
      by (simp add: unfold follows_def mover_def defender_of_def head_to_head_of_def strength_def)
  next
    case (Some ord)
    then obtain occ where occ: "map_of (m_units env) d = Some occ"
      using env by (fastforce simp: env_ok_def)
    show ?thesis
    proof (cases ord)
      case (MoveOrder u' d')
      then have "mover env d d'" using Some by (simp add: mover_def)
      then obtain a' where "map_of (m_attack env) d = Some a'"
        using mover_attack [OF env] by blast
      with Some occ MoveOrder show ?thesis
        by (auto simp: unfold follows_def mover_def defender_of_def head_to_head_of_def strength_def
            bind_result_def split: sum.splits)
    next
      case (HoldOrder u')
      then obtain h where "map_of (m_hold env) d = Some h" using Some env by (fastforce simp: env_ok_def)
      with Some occ HoldOrder show ?thesis
        by (simp add: unfold follows_def mover_def defender_of_def head_to_head_of_def strength_def)
    next
      case (SupportHoldOrder u' s')
      then obtain h where "map_of (m_hold env) d = Some h" using Some env by (fastforce simp: env_ok_def)
      with Some occ SupportHoldOrder show ?thesis
        by (simp add: unfold follows_def mover_def defender_of_def head_to_head_of_def strength_def)
    next
      case (SupportMoveOrder u' s' t')
      then obtain h where "map_of (m_hold env) d = Some h" using Some env by (fastforce simp: env_ok_def)
      with Some occ SupportMoveOrder show ?thesis
        by (simp add: unfold follows_def mover_def defender_of_def head_to_head_of_def strength_def)
    qed
  qed
qed

section \<open>Total correctness of the recursion\<close>

text \<open>
  One rule for every property of \<open>resolve_move\<close>: it returns, and a property that the four kinds of
  step establish holds of its arguments and its result.
\<close>

lemma resolve_move_induct [case_names memo busy stay follow]:
  assumes env: "env_ok env" and mv: "mover env r d"
    and memo: "\<And>r d ip res b. mover env r d \<Longrightarrow> map_of res r = Some b \<Longrightarrow> P r ip res b res"
    and busy: "\<And>r d ip res. mover env r d \<Longrightarrow> map_of res r = None \<Longrightarrow> r \<in> set ip \<Longrightarrow> P r ip res True res"
    and stay: "\<And>r d ip res s. mover env r d \<Longrightarrow> map_of res r = None \<Longrightarrow> r \<notin> set ip \<Longrightarrow>
      \<not> follows env r d \<Longrightarrow> s = decide env (\<lambda>_. False) r \<Longrightarrow> P r ip res s (AList.update r s res)"
    and follow: "\<And>r d d' ip res b res' s. mover env r d \<Longrightarrow> map_of res r = None \<Longrightarrow> r \<notin> set ip \<Longrightarrow>
      mover env d d' \<Longrightarrow> d' \<noteq> r \<Longrightarrow> P d (r # ip) res b res' \<Longrightarrow>
      s = decide env (\<lambda>_. b) r \<Longrightarrow> P r ip res s (AList.update r s res')"
  shows "\<exists>b res'. resolve_move env r ip res = Inr (b, res') \<and> P r ip res b res'"
  using mv
proof (induction "length (filter (\<lambda>r. r \<notin> set ip) (map fst (m_orders env)))"
    arbitrary: r d ip res rule: less_induct)
  case less
  consider b where "map_of res r = Some b" | "map_of res r = None" "r \<in> set ip"
    | "map_of res r = None" "r \<notin> set ip" by blast
  then show ?case
  proof cases
    case 1
    then have "resolve_move env r ip res = Inr (b, res)" by (simp add: resolve_move.simps [of env r])
    with memo [OF less.prems 1] show ?thesis by blast
  next
    case 2
    then have "resolve_move env r ip res = Inr (True, res)" by (simp add: resolve_move.simps [of env r])
    with busy [OF less.prems 2] show ?thesis by blast
  next
    case 3
    note step = resolve_move_step [OF env less.prems 3]
    show ?thesis
    proof (cases "follows env r d")
      case False
      then show ?thesis using stay [OF less.prems 3] by (simp add: step Let_def)
    next
      case True
      then obtain d' where d': "mover env d d'" "d' \<noteq> r" by (auto simp: follows_def)
      have "r \<in> set (map fst (m_orders env))"
        using less.prems by (auto simp: mover_def dest!: map_of_SomeD simp: rev_image_eqI)
      then have "length (filter (\<lambda>x. x \<notin> set (r # ip)) (map fst (m_orders env)))
          < length (filter (\<lambda>x. x \<notin> set ip) (map fst (m_orders env)))"
        using filter_shrinks [of r "map fst (m_orders env)" "\<lambda>x. x \<notin> set ip"] 3(2)
        by (simp add: conj_commute)
      from less.hyps [OF this d'(1)] obtain b res' where
        sub: "resolve_move env d (r # ip) res = Inr (b, res')" and P: "P d (r # ip) res b res'"
        by blast
      from True follow [OF less.prems 3 d' P] show ?thesis by (simp add: step sub Let_def)
    qed
  qed
qed

text \<open>
  The memo grows, entries for moves in progress are left alone, the asked move is entered unless it
  was in progress, and every new entry is a decision.
\<close>

definition memo_step ::
    "movement_env \<Rightarrow> string \<Rightarrow> string list \<Rightarrow> (string, bool) dict \<Rightarrow> bool \<Rightarrow> (string, bool) dict \<Rightarrow> bool" where
  "memo_step env r ip res b res' \<longleftrightarrow>
     map_of res \<subseteq>\<^sub>m map_of res' \<and>
     (\<forall>x\<in>set ip. map_of res' x = map_of res x) \<and>
     (r \<notin> set ip \<longrightarrow> map_of res' r = Some b) \<and>
     (\<forall>x v. map_of res' x = Some v \<longrightarrow>
        map_of res x = Some v \<or> (\<exists>d. mover env x d) \<and> (\<exists>ok. v = decide env ok x))"

lemma resolve_move_total:
  assumes "env_ok env" and "mover env r d"
  shows "\<exists>b res'. resolve_move env r ip res = Inr (b, res') \<and> memo_step env r ip res b res'"
proof (rule resolve_move_induct [where P = "memo_step env", OF assms], goal_cases memo busy stay follow)
  case (follow r d d' ip res b res' s)
  then have "map_of res' r = None" by (simp add: memo_step_def)
  with follow show ?case
    by (fastforce simp: memo_step_def map_of_update map_le_def)
qed (auto simp: memo_step_def map_of_update map_le_def)

section \<open>The resolution loop\<close>

lemma resolve_all_induct [case_names env start move]:
  assumes env: "env_ok env" and start: "I []"
    and move: "\<And>r d res b res'. mover env r d \<Longrightarrow> I res \<Longrightarrow>
      resolve_move env r [] res = Inr (b, res') \<Longrightarrow> memo_step env r [] res b res' \<Longrightarrow> I res'"
  shows "\<exists>resolved. resolve_all env = Inr resolved \<and> I resolved \<and>
     (\<forall>r d. mover env r d \<longrightarrow> map_of resolved r \<noteq> None)"
proof -
  let ?body = "\<lambda>(region, ord) resolved.
      if is_MoveOrder ord
      then bind_result (resolve_move env region [] resolved) (\<lambda>(_, resolved'). Inr resolved')
      else Inr resolved"
  have loop: "\<exists>resolved. fold_result ?body items res = Inr resolved \<and> I resolved \<and> map_of res \<subseteq>\<^sub>m map_of resolved \<and>
      (\<forall>(r, ord)\<in>set items. is_MoveOrder ord \<longrightarrow> map_of resolved r \<noteq> None)"
    if "set items \<subseteq> set (m_orders env)" and "I res" for items res
    using that
  proof (induction items arbitrary: res)
    case Nil
    then show ?case by simp
  next
    case (Cons item items)
    obtain r ord where item: "item = (r, ord)" by (cases item)
    show ?case
    proof (cases "is_MoveOrder ord")
      case False
      with Cons item show ?thesis by auto
    next
      case True
      then obtain d where mv: "mover env r d"
        using Cons.prems(1) env item by (fastforce simp: mover_def is_MoveOrder_conv env_ok_def dict_ok_def)
      obtain b res' where sub: "resolve_move env r [] res = Inr (b, res')" and st: "memo_step env r [] res b res'"
        using resolve_move_total [OF env mv] by blast
      have "I res'" by (rule move [OF mv Cons.prems(2) sub st])
      then obtain resolved where rest: "fold_result ?body items res' = Inr resolved" "I resolved"
          "map_of res' \<subseteq>\<^sub>m map_of resolved" "\<forall>(r, ord)\<in>set items. is_MoveOrder ord \<longrightarrow> map_of resolved r \<noteq> None"
        using Cons.IH [of res'] Cons.prems(1) by auto
      have "map_of res \<subseteq>\<^sub>m map_of resolved"
        using st rest(3) by (auto simp: memo_step_def intro: map_le_trans)
      moreover have "map_of resolved r \<noteq> None"
        using st rest(3) by (force simp: memo_step_def map_le_def dom_def)
      ultimately show ?thesis using True rest by (simp add: item sub)
    qed
  qed
  have "set (sort_key fst (m_orders env)) \<subseteq> set (m_orders env)" by simp
  from loop [OF this start] obtain resolved where
    "resolve_all env = Inr resolved" "I resolved"
    "\<forall>(r, ord)\<in>set (m_orders env). is_MoveOrder ord \<longrightarrow> map_of resolved r \<noteq> None"
    by (auto simp: resolve_all_def)
  then show ?thesis
    by (fastforce simp: mover_def dest: map_of_SomeD)
qed

text \<open>Every entry is a decision on a move: the fact the results rest on.\<close>

definition decided :: "movement_env \<Rightarrow> (string, bool) dict \<Rightarrow> bool" where
  "decided env res \<longleftrightarrow>
     (\<forall>x v. map_of res x = Some v \<longrightarrow> (\<exists>d. mover env x d) \<and> (\<exists>ok. v = decide env ok x))"

lemma resolve_all_decided:
  assumes "env_ok env"
  obtains resolved where "resolve_all env = Inr resolved" and "decided env resolved"
    and "\<And>r d. mover env r d \<Longrightarrow> map_of resolved r \<noteq> None"
proof -
  have "\<exists>resolved. resolve_all env = Inr resolved \<and> decided env resolved \<and>
     (\<forall>r d. mover env r d \<longrightarrow> map_of resolved r \<noteq> None)"
  proof (rule resolve_all_induct [where I = "decided env", OF assms], goal_cases)
    case 1
    then show ?case by (simp add: decided_def)
  next
    case (2 r d res b res')
    then show ?case unfolding decided_def memo_step_def by blast
  qed
  then show ?thesis using that by blast
qed

text \<open>A successful move is strictly stronger than every other attack on its destination, than the
  unit it meets head to head, and than a stationary defender, who belongs to another faction.\<close>

lemma decide_True:
  assumes "env_ok env" and "mover env r d" and "decide env ok r"
  shows "\<And>r'. mover env r' d \<Longrightarrow> r' \<noteq> r \<Longrightarrow> strength env r' < strength env r"
    and "mover env d r \<Longrightarrow> strength env d < strength env r"
    and "\<And>ord. map_of (m_orders env) d = Some ord \<Longrightarrow> \<not> is_MoveOrder ord \<Longrightarrow>
           the (map_of (m_hold env) d) < strength env r \<and>
           faction_id (the (map_of (m_units env) d)) \<noteq> faction_id (the (map_of (m_units env) r))"
proof -
  obtain u where "map_of (m_orders env) r = Some (MoveOrder u d)"
    using assms(2) by (auto simp: mover_def)
  with assms(3) have s: "move_success (strength env r) (faction_id (the (map_of (m_units env) r)))
            (defender_of env ok r d) (head_to_head_of env r d) (map (strength env) (competitors env r d))"
    by (simp add: decide_def)
  show "strength env r' < strength env r" if "mover env r' d" "r' \<noteq> r" for r'
    using s that competitors_conv [OF assms(1), of r' r d]
    by (auto simp: move_success_def Let_def list_ex_iff split: if_splits)
  show "strength env d < strength env r" if "mover env d r"
    using s that by (auto simp: move_success_def Let_def head_to_head_of_def split: if_splits option.splits)
  show "the (map_of (m_hold env) d) < strength env r \<and>
           faction_id (the (map_of (m_units env) d)) \<noteq> faction_id (the (map_of (m_units env) r))"
    if ord: "map_of (m_orders env) d = Some ord" "\<not> is_MoveOrder ord" for ord
  proof -
    obtain occ where "map_of (m_units env) d = Some occ"
      using ord assms(1) by (fastforce simp: env_ok_def)
    with ord have "defender_of env ok r d = Some (the (map_of (m_hold env) d), faction_id occ)"
      by (cases ord) (simp_all add: defender_of_def)
    with s \<open>map_of (m_units env) d = Some occ\<close> show ?thesis
      by (auto simp: move_success_def Let_def split: if_splits option.splits)
  qed
qed

section \<open>The assembled results\<close>

text \<open>The result of one unit, with its lookups done.\<close>

definition result_of ::
    "movement_env \<Rightarrow> (string, bool) dict \<Rightarrow> (string, bool) dict \<Rightarrow> string \<Rightarrow> UnitOrderResult" where
  "result_of env flags resolved r =
     (let ord = the (map_of (m_orders env) r); u = the (map_of (m_units env) r);
          moved = has_moved resolved r ord;
          winners = winners_table (m_orders env) resolved;
          dislodged = (\<not> moved \<and> r \<in> set (map fst winners))
      in \<lparr>r_region_id = r, r_faction_id = faction_id u, r_unit_type = unit_type u, r_order = ord,
          r_normalized = the (map_of flags r), r_moved = moved,
          r_final_region_id = (if moved then destination_id ord else r),
          r_dislodged = dislodged,
          r_dislodged_by = (if dislodged then map_of winners r else None),
          r_support_cut = (if is_SupportHoldOrder ord \<or> is_SupportMoveOrder ord
             then (case map_of (cut_table (m_orders env)) r of Some c \<Rightarrow> c | None \<Rightarrow> False) else False)\<rparr>)"

definition movement_of :: "GameState \<Rightarrow> (string, Order) dict \<Rightarrow> (string, bool) dict \<Rightarrow> MovementResult" where
  "movement_of st orders resolved =
     \<lparr>unit_results = map (result_of (movement_env_of st orders) (normalized_flags st orders) resolved)
        (sort (map fst (units_by_region st))),
      contested_regions = contested_of (effective_orders st orders)\<rparr>"

lemma lookup_key: "map fst d = map fst d' \<Longrightarrow> r \<in> set (map fst d') \<Longrightarrow> \<exists>v. map_of d r = Some v"
  by (metis lookup_or_raise_Inr lookup_or_raise_total)

lemma unit_result_total:
  assumes r: "r \<in> set (map fst (units_by_region st))"
  shows "unit_result (effective_orders st orders) (units_by_region st) (normalized_flags st orders)
      (cut_table (effective_orders st orders)) resolved
      (winners_table (effective_orders st orders) resolved) r =
    Inr (result_of (movement_env_of st orders) (normalized_flags st orders) resolved r)"
proof -
  obtain ord where "map_of (effective_orders st orders) r = Some ord"
    using lookup_key [OF eff_keys r] by blast
  moreover obtain u where "map_of (units_by_region st) r = Some u"
    using lookup_key [OF refl r] by blast
  moreover obtain fl where "map_of (normalized_flags st orders) r = Some fl"
    using lookup_key [OF flags_keys r] by blast
  ultimately show ?thesis
    by (simp add: unit_result_def lookup_or_raise_def result_of_def Let_def)
qed

text \<open>The phase never raises, and its result comes from a complete table of decisions.\<close>

lemma resolve_movement_eq:
  obtains resolved where
    "resolve_all (movement_env_of st orders) = Inr resolved"
    "resolve_movement st orders = Inr (movement_of st orders resolved)"
    "decided (movement_env_of st orders) resolved"
    "\<And>r d. mover (movement_env_of st orders) r d \<Longrightarrow> map_of resolved r \<noteq> None"
proof -
  obtain resolved where res: "resolve_all (movement_env_of st orders) = Inr resolved"
    "decided (movement_env_of st orders) resolved"
    "\<And>r d. mover (movement_env_of st orders) r d \<Longrightarrow> map_of resolved r \<noteq> None"
    using resolve_all_decided [OF env_ok_movement [of st orders]] by metis
  have "map_result (unit_result (effective_orders st orders) (units_by_region st)
        (normalized_flags st orders) (cut_table (effective_orders st orders)) resolved
        (winners_table (effective_orders st orders) resolved)) (sort (map fst (units_by_region st))) =
      Inr (map (result_of (movement_env_of st orders) (normalized_flags st orders) resolved)
        (sort (map fst (units_by_region st))))"
    by (rule map_result_total) (rule unit_result_total, simp)
  with res(1) have "resolve_movement st orders = Inr (movement_of st orders resolved)"
    by (simp add: resolve_movement_def Let_def attack_strength_total hold_strength_total
        movement_env_of_def movement_of_def eff_keys)
  with res that show ?thesis by blast
qed

end
