(* ===== verification/Movement_Results.thy ===== *)
theory Movement_Results
  imports Movement_Facts
begin

text \<open>
  The results of the movement phase: which units move, stay and are dislodged, and what the board
  looks like afterwards. The properties of the phase are stated on \<open>resolve_movement\<close> and
  \<open>apply_movement_result\<close>.
\<close>

section \<open>Moves that succeed\<close>

definition moves :: "movement_env \<Rightarrow> (string, bool) dict \<Rightarrow> string \<Rightarrow> string \<Rightarrow> bool" where
  "moves env res r d \<longleftrightarrow> mover env r d \<and> map_of res r = Some True"

lemma moves_decided: "decided env res \<Longrightarrow> moves env res r d \<Longrightarrow> \<exists>ok. decide env ok r"
  by (force simp: decided_def moves_def)

lemma moves_target_unique: "moves env res r d \<Longrightarrow> moves env res r d' \<Longrightarrow> d' = d"
  by (auto simp: moves_def dest: mover_unique)

lemma moves_winner_unique:
  assumes "env_ok env" "decided env res" "moves env res r d" "moves env res r' d"
  shows "r' = r"
proof (rule ccontr)
  assume ne: "r' \<noteq> r"
  obtain ok ok' where "decide env ok r" "decide env ok' r'"
    using moves_decided [OF assms(2,3)] moves_decided [OF assms(2,4)] by blast
  with assms ne have "strength env r' < strength env r" "strength env r < strength env r'"
    by (auto simp: moves_def dest: decide_True(1))
  then show False by simp
qed

lemma has_moved_conv: "map_of (m_orders env) r = Some ord \<Longrightarrow>
    has_moved res r ord \<longleftrightarrow> (\<exists>d. moves env res r d)"
  by (auto simp: has_moved_def moves_def mover_def is_MoveOrder_conv)

lemma has_moved_target: "map_of (m_orders env) r = Some ord \<Longrightarrow> has_moved res r ord \<Longrightarrow>
    moves env res r (destination_id ord)"
  by (auto simp: has_moved_def moves_def mover_def is_MoveOrder_conv)

lemma winners_entry:
  assumes "env_ok env" "(d, r) \<in> set (winners_table (m_orders env) res)"
  shows "moves env res r d"
proof -
  obtain x where "x \<in> set (filter (\<lambda>(r, ord). has_moved res r ord) (m_orders env))"
    and x: "(case x of (r, ord) \<Rightarrow> destination_id ord) = d" "fst x = r"
    using dict_comp_entry [OF assms(2) [unfolded winners_table_def]] by blast
  then have "(r, snd x) \<in> set (m_orders env)" and "has_moved res r (snd x)" by auto
  moreover from this assms(1) have "map_of (m_orders env) r = Some (snd x)"
    by (simp add: env_ok_def dict_ok_def)
  ultimately show ?thesis using x has_moved_target [of env r "snd x" res] by (cases x) simp
qed

lemma winners_key:
  assumes "moves env res r d"
  shows "d \<in> set (map fst (winners_table (m_orders env) res))"
proof -
  obtain u where ord: "map_of (m_orders env) r = Some (MoveOrder u d)"
    using assms by (auto simp: moves_def mover_def)
  then have "(r, MoveOrder u d) \<in> set (filter (\<lambda>(r, ord). has_moved res r ord) (m_orders env))"
    using assms by (auto simp: has_moved_def moves_def dest: map_of_SomeD)
  then show ?thesis unfolding winners_table_def keys_dict_comp by force
qed

lemma winners_lookup:
  assumes "env_ok env" "decided env res"
  shows "map_of (winners_table (m_orders env) res) d = Some r \<longleftrightarrow> moves env res r d"
proof
  assume "map_of (winners_table (m_orders env) res) d = Some r"
  then show "moves env res r d" by (intro winners_entry [OF assms(1)]) (rule map_of_SomeD)
next
  assume mv: "moves env res r d"
  then obtain r' where r': "map_of (winners_table (m_orders env) res) d = Some r'"
    using lookup_key [OF refl winners_key [OF mv]] by blast
  then have "moves env res r' d" by (intro winners_entry [OF assms(1)]) (rule map_of_SomeD)
  then have "r' = r" by (rule moves_winner_unique [OF assms mv])
  with r' show "map_of (winners_table (m_orders env) res) d = Some r" by simp
qed

lemma winners_keys:
  assumes "env_ok env" "decided env res"
  shows "d \<in> set (map fst (winners_table (m_orders env) res)) \<longleftrightarrow> (\<exists>r. moves env res r d)"
proof
  assume "d \<in> set (map fst (winners_table (m_orders env) res))"
  from lookup_key [OF refl this] show "\<exists>r. moves env res r d"
    unfolding winners_lookup [OF assms] .
next
  assume "\<exists>r. moves env res r d"
  then show "d \<in> set (map fst (winners_table (m_orders env) res))" by (auto simp only: dest: winners_key)
qed

section \<open>Reading a unit's result\<close>

lemma result_of_sel:
  assumes env: "env_ok env" and dec: "decided env res" and r: "map_of (m_orders env) r = Some ord"
  shows "r_region_id (result_of env fl res r) = r"
    and "r_faction_id (result_of env fl res r) = faction_id (the (map_of (m_units env) r))"
    and "r_unit_type (result_of env fl res r) = unit_type (the (map_of (m_units env) r))"
    and "r_order (result_of env fl res r) = ord"
    and "r_moved (result_of env fl res r) \<longleftrightarrow> (\<exists>d. moves env res r d)"
    and "moves env res r d \<Longrightarrow> r_final_region_id (result_of env fl res r) = d"
    and "\<not> r_moved (result_of env fl res r) \<Longrightarrow> r_final_region_id (result_of env fl res r) = r"
    and "r_dislodged (result_of env fl res r) \<longleftrightarrow>
           (\<nexists>d. moves env res r d) \<and> (\<exists>r'. moves env res r' r)"
    and "r_dislodged_by (result_of env fl res r) =
           (if r_dislodged (result_of env fl res r) then map_of (winners_table (m_orders env) res) r else None)"
proof -
  show "r_moved (result_of env fl res r) \<longleftrightarrow> (\<exists>d. moves env res r d)"
    using has_moved_conv [of env r ord res] r by (simp add: result_of_def Let_def)
  show "r_final_region_id (result_of env fl res r) = d" if "moves env res r d"
    using that has_moved_conv [of env r ord res] r
    by (auto simp: result_of_def Let_def moves_def mover_def)
  show "r_dislodged (result_of env fl res r) \<longleftrightarrow>
           (\<nexists>d. moves env res r d) \<and> (\<exists>r'. moves env res r' r)"
    using has_moved_conv [of env r ord res] r winners_keys [OF env dec, of r]
    by (simp add: result_of_def Let_def)
qed (use r in \<open>simp_all add: result_of_def Let_def\<close>)

text \<open>Two units that are not dislodged end in different regions.\<close>

lemma finals_separate:
  assumes env: "env_ok env" and dec: "decided env res"
    and r1: "map_of (m_orders env) r1 = Some o1" and r2: "map_of (m_orders env) r2 = Some o2"
    and stay: "\<not> r_dislodged (result_of env fl res r1)" "\<not> r_dislodged (result_of env fl res r2)"
    and same: "r_final_region_id (result_of env fl res r1) = r_final_region_id (result_of env fl res r2)"
  shows "r1 = r2"
proof -
  note s1 = result_of_sel [OF env dec r1] and s2 = result_of_sel [OF env dec r2]
  consider d1 d2 where "moves env res r1 d1" "moves env res r2 d2"
    | d1 where "moves env res r1 d1" "\<nexists>d. moves env res r2 d"
    | d2 where "\<nexists>d. moves env res r1 d" "moves env res r2 d2"
    | "\<nexists>d. moves env res r1 d" "\<nexists>d. moves env res r2 d" by blast
  then show ?thesis
  proof cases
    case 1
    with same have "moves env res r2 d1" by (simp add: s1(6) s2(6))
    with 1(1) show ?thesis using moves_winner_unique [OF env dec] by blast
  next
    case 2
    with same have "moves env res r1 r2" by (simp add: s1(6) s2(5,7))
    with 2 stay(2) show ?thesis by (auto simp: s2(8))
  next
    case 3
    with same have "moves env res r2 r1" by (simp add: s2(6) s1(5,7))
    with 3 stay(1) show ?thesis by (auto simp: s1(8))
  next
    case 4
    with same show ?thesis by (simp add: s1(5,7) s2(5,7))
  qed
qed

section \<open>The list of results\<close>

text \<open>Everything that is said about a result of \<open>resolve_movement\<close> goes through this rule.\<close>

lemma movement_cases:
  assumes "resolve_movement st orders = Inr result"
  obtains resolved where "result = movement_of st orders resolved"
    "decided (movement_env_of st orders) resolved"
    "\<And>r d. mover (movement_env_of st orders) r d \<Longrightarrow> map_of resolved r \<noteq> None"
    "resolve_all (movement_env_of st orders) = Inr resolved"
  using assms by (rule_tac resolve_movement_eq [of st orders]) auto

lemma result_regions:
  "map r_region_id (unit_results (movement_of st orders resolved)) = sort (map fst (units_by_region st))"
  by (simp add: movement_of_def comp_def result_of_def Let_def)

lemma results_distinct: "distinct (map r_region_id (unit_results (movement_of st orders resolved)))"
  using ubr_ok [of st] by (simp add: result_regions dict_ok_def)

lemma result_entry:
  assumes "rr \<in> set (unit_results (movement_of st orders resolved))"
  obtains r ord u where "rr = result_of (movement_env_of st orders) (normalized_flags st orders) resolved r"
    "map_of (m_orders (movement_env_of st orders)) r = Some ord"
    "map_of (m_units (movement_env_of st orders)) r = Some u" "u \<in> set (units st)" "region_id u = r"
    "ord = fst (normalize_order st u (map_of orders r))"
proof -
  obtain r where r: "rr = result_of (movement_env_of st orders) (normalized_flags st orders) resolved r"
    "r \<in> set (map fst (units_by_region st))"
    using assms by (auto simp: movement_of_def)
  obtain u where u: "map_of (units_by_region st) r = Some u" using lookup_key [OF refl r(2)] by blast
  then have "map_of (effective_orders st orders) r = Some (fst (normalize_order st u (map_of orders r)))"
    by (simp add: eff_lookup)
  with r u that ubr_lookup [OF u] show ?thesis by simp
qed

lemma survivors_distinct:
  assumes dec: "decided (movement_env_of st orders) resolved"
  shows "distinct (map r_final_region_id
    (filter (\<lambda>r. \<not> r_dislodged r) (unit_results (movement_of st orders resolved))))"
proof -
  let ?rs = "unit_results (movement_of st orders resolved)"
  have "distinct ?rs" using results_distinct [of st orders resolved] by (simp add: distinct_map)
  moreover have "inj_on r_final_region_id (set (filter (\<lambda>r. \<not> r_dislodged r) ?rs))"
  proof (rule inj_onI)
    fix x y
    assume "x \<in> set (filter (\<lambda>r. \<not> r_dislodged r) ?rs)" "y \<in> set (filter (\<lambda>r. \<not> r_dislodged r) ?rs)"
      and same: "r_final_region_id x = r_final_region_id y"
    then have x: "x \<in> set ?rs" "\<not> r_dislodged x" and y: "y \<in> set ?rs" "\<not> r_dislodged y" by auto
    from result_entry [OF x(1)] obtain r1 o1 where
      1: "x = result_of (movement_env_of st orders) (normalized_flags st orders) resolved r1"
         "map_of (m_orders (movement_env_of st orders)) r1 = Some o1" by metis
    from result_entry [OF y(1)] obtain r2 o2 where
      2: "y = result_of (movement_env_of st orders) (normalized_flags st orders) resolved r2"
         "map_of (m_orders (movement_env_of st orders)) r2 = Some o2" by metis
    have "r1 = r2"
      by (rule finals_separate [OF env_ok_movement dec 1(2) 2(2)]) (use x(2) y(2) same 1(1) 2(1) in simp_all)
    with 1(1) 2(1) show "x = y" by simp
  qed
  ultimately show ?thesis by (simp add: distinct_map)
qed

lemma units_apply_movement:
  "mset (map region_id (units (apply_movement_result st result))) =
     mset (map r_final_region_id (filter (\<lambda>r. \<not> r_dislodged r) (unit_results result)))"
  by (simp add: apply_movement_result_def multiset.map_comp comp_def)

lemma regions_apply_movement [simp]: "regions (apply_movement_result st result) = regions st"
  by (simp add: apply_movement_result_def)

section \<open>Exactness of the recursion without cycles of moves\<close>

text \<open>
  \<open>exact\<close>: the memo agrees with the declarative rule, in which a move succeeds when its strength
  test does, given the success of the moves in the memo itself. With a rank that decreases along
  the chains of moves, the case "in progress, assume success" is never taken.
\<close>

definition rank_ok :: "movement_env \<Rightarrow> (string \<Rightarrow> nat) \<Rightarrow> bool" where
  "rank_ok env rank \<longleftrightarrow> (\<forall>r d. mover env r d \<longrightarrow> follows env r d \<longrightarrow> rank d < rank r)"

definition exact :: "movement_env \<Rightarrow> (string \<Rightarrow> bool) \<Rightarrow> (string, bool) dict \<Rightarrow> bool" where
  "exact env ok res \<longleftrightarrow> (\<forall>r v. map_of res r = Some v \<longrightarrow> v = ok r)"

lemma decide_cong:
  assumes "mover env r d" and "follows env r d \<Longrightarrow> ok d = ok' d"
  shows "decide env ok r = decide env ok' r"
proof -
  have "defender_of env ok r d = defender_of env ok' r d"
    using assms(2) by (auto simp: defender_of_def follows_def mover_def split: option.splits Order.splits)
  with assms(1) show ?thesis by (auto simp: decide_def mover_def)
qed

text \<open>A chain of decisions along a rank gives the values of any solution of the rule.\<close>

lemma resolve_move_exact:
  assumes env: "env_ok env" and rank: "rank_ok env rank"
    and rule: "\<And>r d. mover env r d \<Longrightarrow> ok r = decide env ok r"
    and mv: "mover env r d" and ip: "\<forall>x\<in>set ip. rank r < rank x" and ex: "exact env ok res"
  shows "\<exists>b res'. resolve_move env r ip res = Inr (b, res') \<and> b = ok r \<and> exact env ok res'"
proof -
  let ?P = "\<lambda>r ip res b res'. (\<forall>x\<in>set ip. rank r < rank x) \<longrightarrow> exact env ok res \<longrightarrow> b = ok r \<and> exact env ok res'"
  have upd: "exact env ok (AList.update r (ok r) res)" if "exact env ok res" for r res
    using that by (simp add: exact_def map_of_update)
  have "\<exists>b res'. resolve_move env r ip res = Inr (b, res') \<and> ?P r ip res b res'"
  proof (rule resolve_move_induct [where P = ?P, OF env mv], goal_cases memo busy stay follow)
    case (memo r d ip res b)
    then show ?case by (simp add: exact_def)
  next
    case (busy r d ip res)
    then show ?case by blast
  next
    case (stay r d ip res s)
    then have "s = ok r" using rule decide_cong by metis
    with upd show ?case by blast
  next
    case (follow r d d' ip res b res' s)
    show ?case
    proof (intro impI)
      assume h: "\<forall>x\<in>set ip. rank r < rank x" and "exact env ok res"
      have "follows env r d" using follow(4,5) by (auto simp: follows_def)
      then have "rank d < rank r" using rank follow(1) by (simp add: rank_ok_def)
      with h have "\<forall>x\<in>set (r # ip). rank d < rank x" by auto
      with follow(6) \<open>exact env ok res\<close> have b: "b = ok d" and ex: "exact env ok res'" by blast+
      have "s = ok r"
        using follow(7) rule [OF follow(1)] decide_cong [OF follow(1), of "\<lambda>_. b" ok] b by simp
      with upd [OF ex] show "s = ok r \<and> exact env ok (AList.update r s res')" by simp
    qed
  qed
  with ip ex show ?thesis by blast
qed

lemma resolve_all_exact:
  assumes env: "env_ok env" and rank: "rank_ok env rank"
    and rule: "\<And>r d. mover env r d \<Longrightarrow> ok r = decide env ok r"
    and res: "resolve_all env = Inr resolved" and mv: "mover env r d"
  shows "map_of resolved r = Some (ok r)"
proof -
  have "\<exists>resolved. resolve_all env = Inr resolved \<and> exact env ok resolved \<and>
     (\<forall>r d. mover env r d \<longrightarrow> map_of resolved r \<noteq> None)"
  proof (rule resolve_all_induct [where I = "exact env ok", OF env], goal_cases)
    case 1
    then show ?case by (simp add: exact_def)
  next
    case (2 r d res b res')
    have "\<exists>b res'. resolve_move env r [] res = Inr (b, res') \<and> b = ok r \<and> exact env ok res'"
      by (rule resolve_move_exact [OF env rank rule 2(1)]) (use 2(2) in auto)
    with 2(3) show ?case by auto
  qed
  with res mv show ?thesis by (fastforce simp: exact_def)
qed

text \<open>A solution exists: the recursion itself, run along the rank.\<close>

function solve :: "movement_env \<Rightarrow> (string \<Rightarrow> nat) \<Rightarrow> string \<Rightarrow> bool" where
  "solve env rank r =
     (case map_of (m_orders env) r of
        Some (MoveOrder _ d) \<Rightarrow> decide env (\<lambda>_. if rank d < rank r then solve env rank d else False) r
      | _ \<Rightarrow> False)"
  by pat_completeness auto
termination by (relation "measure (\<lambda>(env, rank, r). rank r)") auto

declare solve.simps [simp del]

lemma solve_rule:
  assumes "rank_ok env rank" "mover env r d"
  shows "solve env rank r = decide env (solve env rank) r"
proof -
  have "solve env rank r = decide env (\<lambda>_. if rank d < rank r then solve env rank d else False) r"
    using assms(2) by (auto simp: solve.simps [of env rank r] mover_def)
  also have "\<dots> = decide env (solve env rank) r"
    using assms by (intro decide_cong) (auto simp: rank_ok_def)
  finally show ?thesis .
qed

section \<open>Rotations\<close>

text \<open>
  A set of moves that compete with nobody and only follow each other, such as an unopposed ring.
\<close>

definition free_rotation :: "movement_env \<Rightarrow> string set \<Rightarrow> bool" where
  "free_rotation env R \<longleftrightarrow>
     (\<forall>r\<in>R. \<exists>d. mover env r d \<and> (\<forall>r'. mover env r' d \<longrightarrow> r' = r) \<and>
        (map_of (m_orders env) d = None \<or> d \<in> R \<and> \<not> mover env d r))"

lemma free_rotation_decide:
  assumes env: "env_ok env" and rot: "free_rotation env R" and r: "r \<in> R" and mv: "mover env r d"
    and ok: "follows env r d \<Longrightarrow> ok d"
  shows "decide env ok r"
proof -
  have alone: "\<forall>r'. mover env r' d \<longrightarrow> r' = r"
    and dest: "map_of (m_orders env) d = None \<or> d \<in> R \<and> \<not> mover env d r"
    using rot r mv mover_unique unfolding free_rotation_def by metis+
  have comp: "competitors env r d = []"
    using competitors_conv [OF env, of _ r d] alone by (metis list.set_intros(1) neq_Nil_conv)
  have h2h: "head_to_head_of env r d = None"
    using dest by (auto simp: head_to_head_of_def mover_def)
  have "defender_of env ok r d = None"
  proof (cases "map_of (m_orders env) d")
    case None
    then have "map_of (m_units env) d = None" using env by (simp add: env_ok_def)
    then show ?thesis by (simp add: defender_of_def)
  next
    case (Some ord)
    with dest have "d \<in> R" and no: "\<not> mover env d r" by auto
    then obtain d' where "mover env d d'" using rot unfolding free_rotation_def by metis
    then show ?thesis
      using no ok by (auto simp: defender_of_def follows_def mover_def split: option.splits)
  qed
  with comp h2h mv show ?thesis by (auto simp: decide_def mover_def move_success_def)
qed

lemma resolve_all_rotation:
  assumes env: "env_ok env" and rot: "free_rotation env R"
    and res: "resolve_all env = Inr resolved" and r: "r \<in> R"
  shows "map_of resolved r = Some True"
proof -
  define I where "I = (\<lambda>res :: (string, bool) dict. \<forall>r\<in>R. map_of res r \<noteq> Some False)"
  let ?P = "\<lambda>r (ip :: string list) res b res'. I res \<longrightarrow> I res' \<and> (r \<in> R \<longrightarrow> b)"
  have run: "\<exists>b res'. resolve_move env r ip res = Inr (b, res') \<and> ?P r ip res b res'"
    if "mover env r d" for r d ip res
  proof (rule resolve_move_induct [where P = ?P, OF env that], goal_cases memo busy stay follow)
    case (memo r d ip res b)
    then show ?case by (cases b) (auto simp: I_def)
  next
    case (busy r d ip res)
    then show ?case by simp
  next
    case (stay r d ip res s)
    have "r \<in> R \<longrightarrow> s" using free_rotation_decide [OF env rot _ stay(1)] stay(4,5) by blast
    then show ?case by (auto simp: I_def map_of_update)
  next
    case (follow r d d' ip res b res' s)
    have "s" if "r \<in> R" "I res"
    proof -
      have "d \<in> R" using rot that(1) follow(1,4) mover_unique unfolding free_rotation_def mover_def
        by (metis option.distinct(1) option.inject Order.inject(2))
      then have b using follow(6) that(2) by blast
      then show s using free_rotation_decide [OF env rot that(1) follow(1), of "\<lambda>_. b"] follow(7) by simp
    qed
    with follow(6) show ?case by (auto simp: I_def map_of_update)
  qed
  have step: "I res'" if "mover env r d" "I res" "resolve_move env r [] res = Inr (b, res')" for r d res b res'
    using run [OF that(1), of "[]" res] that(2,3) by auto
  have "\<exists>resolved. resolve_all env = Inr resolved \<and> I resolved \<and>
     (\<forall>r d. mover env r d \<longrightarrow> map_of resolved r \<noteq> None)"
    by (rule resolve_all_induct [where I = I, OF env]) (simp add: I_def, rule step)
  moreover obtain d where "mover env r d" using rot r unfolding free_rotation_def by metis
  ultimately show ?thesis using res r by (fastforce simp: I_def)
qed

end
