(* ===== verification/Movement_Properties.thy ===== *)
theory Movement_Properties
  imports Movement_Results
begin

text \<open>
  The properties of the movement phase, each with a witness on a small board of the default map.
\<close>

section \<open>Lemmas for the properties\<close>

definition survivors :: "MovementResult \<Rightarrow> UnitOrderResult list" where
  "survivors result = filter (\<lambda>r. \<not> r_dislodged r) (unit_results result)"

definition kind :: "UnitType \<Rightarrow> string \<Rightarrow> UnitType \<times> string" where
  "kind t f = (t, f)"

lemma sort_ubr_keys: "sort (map fst (units_by_region st)) = sorted_list_of_set (region_id ` set (units st))"
proof -
  have "distinct (map fst (units_by_region st))" using ubr_ok by (simp add: dict_ok_def)
  then show ?thesis by (simp only: sorted_list_of_set_sort_remdups distinct_remdups_id ubr_keys [symmetric])
qed

lemma movement_occupancy_lemma:
  assumes "resolve_movement st orders = Inr result"
  shows "occupancy_ok (apply_movement_result st result)"
proof -
  obtain resolved where "result = movement_of st orders resolved" "decided (movement_env_of st orders) resolved"
    using assms by (rule movement_cases)
  then have "distinct (map r_final_region_id (filter (\<lambda>r. \<not> r_dislodged r) (unit_results result)))"
    using survivors_distinct by simp
  then show ?thesis
    unfolding occupancy_ok_def using units_apply_movement mset_eq_imp_distinct_iff by metis
qed

text \<open>On a board without doubly occupied regions, the results list every unit once.\<close>

lemma results_list_units:
  assumes occ: "occupancy_ok st"
  shows "mset (map (\<lambda>r. (kind (r_unit_type r) (r_faction_id r), r_region_id r))
            (unit_results (movement_of st orders resolved)))
       = mset (map (\<lambda>u. (kind (unit_type u) (faction_id u), region_id u)) (units st))"
proof -
  let ?ubr = "units_by_region st"
  let ?info = "\<lambda>r. (kind (unit_type (the (map_of ?ubr r))) (faction_id (the (map_of ?ubr r))), r)"
  have ubr: "?ubr = map (\<lambda>u. (region_id u, u)) (sort_key region_id (units st))"
    by (rule ubr_distinct [OF occ])
  have look: "map_of ?ubr (region_id u) = Some u" if "u \<in> set (units st)" for u
    using occ that by (simp add: ubr occupancy_ok_def comp_def)
  have "map (\<lambda>r. (kind (r_unit_type r) (r_faction_id r), r_region_id r)) (unit_results (movement_of st orders resolved))
      = map ?info (sort (map fst ?ubr))"
    by (simp add: movement_of_def result_of_def Let_def comp_def)
  then have "mset (map (\<lambda>r. (kind (r_unit_type r) (r_faction_id r), r_region_id r))
            (unit_results (movement_of st orders resolved))) = image_mset ?info (mset (map fst ?ubr))"
    by simp
  also have "\<dots> = image_mset (\<lambda>u. ?info (region_id u)) (mset (units st))"
    by (simp add: ubr multiset.map_comp comp_def)
  also have "\<dots> = image_mset (\<lambda>u. (kind (unit_type u) (faction_id u), region_id u)) (mset (units st))"
    by (rule image_mset_cong) (simp add: look)
  finally show ?thesis by simp
qed

lemma kinds_after_movement:
  "mset (map (\<lambda>u. kind (unit_type u) (faction_id u)) (units (apply_movement_result st result))) =
   mset (map (\<lambda>r. kind (r_unit_type r) (r_faction_id r)) (survivors result))"
  by (simp add: apply_movement_result_def survivors_def multiset.map_comp comp_def)

lemma movement_conserves_lemma:
  assumes occ: "occupancy_ok st" and res: "resolve_movement st orders = Inr result"
  shows "mset (map (\<lambda>u. kind (unit_type u) (faction_id u)) (units st)) =
     mset (map (\<lambda>u. kind (unit_type u) (faction_id u)) (units (apply_movement_result st result))) +
     mset (map (\<lambda>r. kind (r_unit_type r) (r_faction_id r)) (dislodged_results result))"
proof -
  obtain resolved where result: "result = movement_of st orders resolved"
    using res by (rule movement_cases)
  have "mset (map (\<lambda>u. kind (unit_type u) (faction_id u)) (units st)) =
      image_mset (\<lambda>r. kind (r_unit_type r) (r_faction_id r)) (mset (unit_results result))"
    using arg_cong [OF results_list_units [OF occ, of orders resolved], of "image_mset fst"]
    by (simp add: result multiset.map_comp comp_def)
  moreover have "mset (unit_results result) = mset (survivors result) + mset (dislodged_results result)"
    using multiset_partition [of "mset (unit_results result)" r_dislodged]
    by (simp add: survivors_def dislodged_results_def)
  ultimately show ?thesis unfolding kinds_after_movement by simp
qed

text \<open>What a result says about its unit, its order and the attacker.\<close>

lemma moved_result:
  assumes res: "resolve_movement st orders = Inr result"
    and rr: "rr \<in> set (unit_results result)" and moved: "r_moved rr"
  shows "map_of orders (r_region_id rr) = Some (MoveOrder (r_region_id rr) (r_final_region_id rr))"
    and "adjacent (r_region_id rr) (r_final_region_id rr)"
    and "can_stand (regions st) (r_unit_type rr) (r_final_region_id rr)"
proof -
  obtain resolved where result: "result = movement_of st orders resolved"
    and dec: "decided (movement_env_of st orders) resolved" using res by (rule movement_cases)
  obtain r ord u where rr': "rr = result_of (movement_env_of st orders) (normalized_flags st orders) resolved r"
    and ord: "map_of (m_orders (movement_env_of st orders)) r = Some ord"
    and u: "map_of (m_units (movement_env_of st orders)) r = Some u" "region_id u = r"
    and norm: "ord = fst (normalize_order st u (map_of orders r))"
    using rr unfolding result by (rule result_entry)
  note sel = result_of_sel [OF env_ok_movement dec ord, where fl = "normalized_flags st orders", folded rr']
  obtain d where mv: "moves (movement_env_of st orders) resolved r d" using moved by (auto simp: sel)
  then obtain r' where md: "ord = MoveOrder r' d" using ord by (auto simp: moves_def mover_def)
  with norm have can: "can_move_to st u d" "r' = r" using normalize_order_move u(2) by metis+
  have "\<not> snd (normalize_order st u (map_of orders r))"
    using normalize_order_flag [of st u "map_of orders r"] norm md by auto
  with normalize_order_kept norm md can(2) sel(1) sel(6) [OF mv]
  show "map_of orders (r_region_id rr) = Some (MoveOrder (r_region_id rr) (r_final_region_id rr))" by metis
  show "adjacent (r_region_id rr) (r_final_region_id rr)"
    and "can_stand (regions st) (r_unit_type rr) (r_final_region_id rr)"
    using can u sel(1,3) sel(6) [OF mv] by (simp_all add: can_move_to_conv)
qed

lemma stayed_result:
  assumes res: "resolve_movement st orders = Inr result"
    and rr: "rr \<in> set (unit_results result)" and stays: "\<not> r_moved rr"
  shows "r_final_region_id rr = r_region_id rr"
    and "\<exists>u\<in>set (units st). region_id u = r_region_id rr \<and> unit_type u = r_unit_type rr \<and>
           faction_id u = r_faction_id rr"
proof -
  obtain resolved where result: "result = movement_of st orders resolved"
    and dec: "decided (movement_env_of st orders) resolved" using res by (rule movement_cases)
  obtain r ord u where rr': "rr = result_of (movement_env_of st orders) (normalized_flags st orders) resolved r"
    and ord: "map_of (m_orders (movement_env_of st orders)) r = Some ord"
    and u: "map_of (m_units (movement_env_of st orders)) r = Some u" "u \<in> set (units st)" "region_id u = r"
    using rr unfolding result by (rule result_entry)
  note sel = result_of_sel [OF env_ok_movement dec ord, where fl = "normalized_flags st orders", folded rr']
  show "r_final_region_id rr = r_region_id rr" using stays sel(1,7) by simp
  show "\<exists>u\<in>set (units st). region_id u = r_region_id rr \<and> unit_type u = r_unit_type rr \<and>
           faction_id u = r_faction_id rr"
    using u sel(1-3) by auto
qed

lemma movement_placement_lemma:
  assumes place: "placement_ok st" and res: "resolve_movement st orders = Inr result"
  shows "placement_ok (apply_movement_result st result)"
proof -
  have "can_stand (regions st) (r_unit_type rr) (r_final_region_id rr)"
    if rr: "rr \<in> set (unit_results result)" for rr
  proof (cases "r_moved rr")
    case True
    then show ?thesis by (rule moved_result(3) [OF res rr])
  next
    case False
    obtain u where "u \<in> set (units st)" "region_id u = r_region_id rr" "unit_type u = r_unit_type rr"
      using stayed_result(2) [OF res rr False] by blast
    with placement_okD [OF place] stayed_result(1) [OF res rr False] show ?thesis by metis
  qed
  then show ?thesis
    by (auto simp: placement_ok_def list_all_iff apply_movement_result_def)
qed

text \<open>Results as facts about the environment: the unit in a region moves exactly if its entry says so.\<close>

lemma result_moves_iff:
  assumes res: "resolve_movement st orders = Inr result"
  obtains resolved where "decided (movement_env_of st orders) resolved"
    "resolve_all (movement_env_of st orders) = Inr resolved"
    "\<And>rr. rr \<in> set (unit_results result) \<Longrightarrow>
       r_order rr = the (map_of (effective_orders st orders) (r_region_id rr)) \<and>
       r_region_id rr \<in> region_id ` set (units st) \<and>
       (r_moved rr \<longleftrightarrow> (\<exists>d. moves (movement_env_of st orders) resolved (r_region_id rr) d)) \<and>
       (\<forall>d. moves (movement_env_of st orders) resolved (r_region_id rr) d \<longrightarrow> r_final_region_id rr = d)"
    "\<And>r. r \<in> region_id ` set (units st) \<Longrightarrow> \<exists>rr\<in>set (unit_results result). r_region_id rr = r"
proof -
  obtain resolved where result: "result = movement_of st orders resolved"
    and dec: "decided (movement_env_of st orders) resolved"
    and all: "resolve_all (movement_env_of st orders) = Inr resolved" using res by (rule movement_cases)
  have "r_order rr = the (map_of (effective_orders st orders) (r_region_id rr)) \<and>
       r_region_id rr \<in> region_id ` set (units st) \<and>
       (r_moved rr \<longleftrightarrow> (\<exists>d. moves (movement_env_of st orders) resolved (r_region_id rr) d)) \<and>
       (\<forall>d. moves (movement_env_of st orders) resolved (r_region_id rr) d \<longrightarrow> r_final_region_id rr = d)"
    if rr: "rr \<in> set (unit_results result)" for rr
  proof -
    obtain r ord u where rr': "rr = result_of (movement_env_of st orders) (normalized_flags st orders) resolved r"
      and ord: "map_of (m_orders (movement_env_of st orders)) r = Some ord"
      and u: "u \<in> set (units st)" "region_id u = r"
      using rr unfolding result by (rule result_entry)
    note sel = result_of_sel [OF env_ok_movement dec ord, where fl = "normalized_flags st orders", folded rr']
    have "r_region_id rr \<in> region_id ` set (units st)" using u sel(1) by (metis imageI)
    then show ?thesis using sel(1,4,5,6) ord by auto
  qed
  moreover have "\<exists>rr\<in>set (unit_results result). r_region_id rr = r" if "r \<in> region_id ` set (units st)" for r
  proof -
    have "r \<in> set (map r_region_id (unit_results result))"
      using that unfolding result result_regions set_sort ubr_keys .
    then show ?thesis by auto
  qed
  ultimately show ?thesis using that dec all by blast
qed

lemma mover_unit_region: "mover (movement_env_of st orders) r d \<Longrightarrow> r \<in> region_id ` set (units st)"
  by (auto simp: mover_def eff_lookup dest: ubr_lookup)

lemma result_order_lookup:
  assumes res: "resolve_movement st orders = Inr result" and rr: "rr \<in> set (unit_results result)"
  shows "map_of (effective_orders st orders) (r_region_id rr) = Some (r_order rr)"
proof -
  have facts: "r_order rr = the (map_of (effective_orders st orders) (r_region_id rr))"
    "r_region_id rr \<in> region_id ` set (units st)"
    using result_moves_iff [OF res] rr by metis+
  then have "r_region_id rr \<in> set (map fst (units_by_region st))" using ubr_keys [of st] by simp
  from lookup_key [OF eff_keys this, of orders] show ?thesis using facts by auto
qed

lemma result_mover:
  assumes "resolve_movement st orders = Inr result" "rr \<in> set (unit_results result)"
    "is_MoveOrder (r_order rr)"
  obtains d where "mover (movement_env_of st orders) (r_region_id rr) d"
  using result_order_lookup [OF assms(1,2)] assms(3) by (auto simp: mover_def is_MoveOrder_conv)

lemma attacker_strength:
  assumes "map_of (effective_orders st orders) r = Some (MoveOrder u d)"
  shows "map_of (attack_table (effective_orders st orders)) r = Some (strength (movement_env_of st orders) r)"
  using assms by (simp add: strength_def attack_table_lookup)

lemma dislodged_result:
  assumes res: "resolve_movement st orders = Inr result"
    and rr: "rr \<in> set (unit_results result)" and dis: "r_dislodged rr"
  shows "\<exists>a\<in>set (unit_results result). r_moved a \<and> r_final_region_id a = r_region_id rr \<and>
     r_dislodged_by rr = Some (r_region_id a) \<and> \<not> r_moved rr \<and>
     (\<not> is_MoveOrder (r_order rr) \<longrightarrow>
        the (map_of (hold_table (effective_orders st orders)) (r_region_id rr)) <
        the (map_of (attack_table (effective_orders st orders)) (r_region_id a)) \<and>
        r_faction_id a \<noteq> r_faction_id rr)"
proof -
  let ?env = "movement_env_of st orders"
  obtain resolved where result: "result = movement_of st orders resolved"
    and dec: "decided ?env resolved" using res by (rule movement_cases)
  obtain r ord u where rr': "rr = result_of ?env (normalized_flags st orders) resolved r"
    and ord: "map_of (m_orders ?env) r = Some ord" and u: "map_of (m_units ?env) r = Some u"
    using rr unfolding result by (rule result_entry)
  note sel = result_of_sel [OF env_ok_movement dec ord, where fl = "normalized_flags st orders", folded rr']
  obtain r' where mv: "moves ?env resolved r' r" and stay: "\<nexists>d. moves ?env resolved r d" using dis sel(8) by auto
  then obtain u' where ord': "map_of (m_orders ?env) r' = Some (MoveOrder u' r)" by (auto simp: moves_def mover_def)
  define a where "a = result_of ?env (normalized_flags st orders) resolved r'"
  note sela = result_of_sel [OF env_ok_movement dec ord', where fl = "normalized_flags st orders", folded a_def]
  have "r' \<in> set (sort (map fst (units_by_region st)))"
    using mover_unit_region [of st orders r' r] mv ubr_keys [of st] by (auto simp: moves_def)
  then have a: "a \<in> set (unit_results result)" by (simp add: a_def result movement_of_def)
  obtain ok where "decide ?env ok r'" using moves_decided [OF dec mv] by blast
  with mv ord have force: "\<not> is_MoveOrder ord \<Longrightarrow> the (map_of (m_hold ?env) r) < strength ?env r' \<and>
      faction_id (the (map_of (m_units ?env) r)) \<noteq> faction_id (the (map_of (m_units ?env) r'))"
    using decide_True(3) [OF env_ok_movement] unfolding moves_def by blast
  have dby: "r_dislodged_by rr = Some r'"
    using dis winners_lookup [OF env_ok_movement dec] mv by (simp add: sel(9))
  show ?thesis
    using a dby force mv stay sel(1,2,4,5) sela(1,2,5) sela(6) [OF mv]
    by (intro bexI [OF _ a]) (auto simp: strength_def)
qed

lemma beaten_result:
  assumes res: "resolve_movement st orders = Inr result"
    and a: "a \<in> set (unit_results result)" "r_order a = MoveOrder ra d"
    and b: "b \<in> set (unit_results result)" "r_order b = MoveOrder rb d"
    and ne: "r_region_id a \<noteq> r_region_id b" and moved: "r_moved a"
  shows "the (map_of (attack_table (effective_orders st orders)) (r_region_id b)) <
         the (map_of (attack_table (effective_orders st orders)) (r_region_id a))"
proof -
  let ?env = "movement_env_of st orders"
  obtain resolved where dec: "decided ?env resolved"
    and facts: "\<And>rr. rr \<in> set (unit_results result) \<Longrightarrow>
       r_order rr = the (map_of (effective_orders st orders) (r_region_id rr)) \<and>
       r_region_id rr \<in> region_id ` set (units st) \<and>
       (r_moved rr \<longleftrightarrow> (\<exists>d. moves ?env resolved (r_region_id rr) d))"
    using result_moves_iff [OF res] by metis
  note look = result_order_lookup [OF res]
  have ma: "mover ?env (r_region_id a) d" and mb: "mover ?env (r_region_id b) d"
    using look [OF a(1)] look [OF b(1)] a(2) b(2) by (simp_all add: mover_def)
  obtain d' where "moves ?env resolved (r_region_id a) d'" using facts [OF a(1)] moved by blast
  then obtain ok where "decide ?env ok (r_region_id a)" using moves_decided [OF dec] by blast
  from decide_True(1) [OF env_ok_movement ma this mb] ne show ?thesis by (auto simp: strength_def)
qed

text \<open>A unit moves exactly if the unique solution of the rule says so.\<close>

lemma movement_solution_lemma:
  assumes res: "resolve_movement st orders = Inr result" and rank: "rank_ok (movement_env_of st orders) rank"
    and rule: "\<And>r d. mover (movement_env_of st orders) r d \<Longrightarrow> ok r = decide (movement_env_of st orders) ok r"
    and rr: "rr \<in> set (unit_results result)" and mv: "is_MoveOrder (r_order rr)"
  shows "r_moved rr \<longleftrightarrow> ok (r_region_id rr)"
proof -
  let ?env = "movement_env_of st orders"
  obtain resolved where all: "resolve_all ?env = Inr resolved"
    and facts: "\<And>rr. rr \<in> set (unit_results result) \<Longrightarrow>
       r_order rr = the (map_of (effective_orders st orders) (r_region_id rr)) \<and>
       r_region_id rr \<in> region_id ` set (units st) \<and>
       (r_moved rr \<longleftrightarrow> (\<exists>d. moves ?env resolved (r_region_id rr) d))"
    using result_moves_iff [OF res] by metis
  obtain d where d: "mover ?env (r_region_id rr) d" by (rule result_mover [OF res rr mv])
  have "map_of resolved (r_region_id rr) = Some (ok (r_region_id rr))"
    by (rule resolve_all_exact [OF env_ok_movement rank rule all d])
  with d facts [OF rr] show ?thesis by (auto simp: moves_def)
qed

lemma movement_fixpoint_lemma:
  assumes res: "resolve_movement st orders = Inr result" and rank: "rank_ok (movement_env_of st orders) rank"
    and rr: "rr \<in> set (unit_results result)" and mv: "is_MoveOrder (r_order rr)"
  shows "r_moved rr \<longleftrightarrow>
     decide (movement_env_of st orders)
       (\<lambda>x. \<exists>a\<in>set (unit_results result). r_region_id a = x \<and> r_moved a) (r_region_id rr)"
proof -
  let ?env = "movement_env_of st orders"
  let ?ok = "solve ?env rank"
  have sol: "r_moved x \<longleftrightarrow> ?ok (r_region_id x)"
    if "x \<in> set (unit_results result)" "is_MoveOrder (r_order x)" for x
    by (rule movement_solution_lemma [OF res rank _ that]) (rule solve_rule [OF rank])
  obtain resolved where
    facts: "\<And>rr. rr \<in> set (unit_results result) \<Longrightarrow>
       r_order rr = the (map_of (effective_orders st orders) (r_region_id rr)) \<and>
       r_region_id rr \<in> region_id ` set (units st) \<and>
       (r_moved rr \<longleftrightarrow> (\<exists>d. moves ?env resolved (r_region_id rr) d))"
    and entry: "\<And>r. r \<in> region_id ` set (units st) \<Longrightarrow> \<exists>rr\<in>set (unit_results result). r_region_id rr = r"
    using result_moves_iff [OF res] by metis
  have order: "is_MoveOrder (r_order a)" if "a \<in> set (unit_results result)" "mover ?env (r_region_id a) d" for a d
    using facts [OF that(1)] that(2) by (auto simp: mover_def)
  obtain d where d: "mover ?env (r_region_id rr) d" by (rule result_mover [OF res rr mv])
  have "?ok (r_region_id rr) = decide ?env ?ok (r_region_id rr)" by (rule solve_rule [OF rank d])
  also have "\<dots> = decide ?env (\<lambda>x. \<exists>a\<in>set (unit_results result). r_region_id a = x \<and> r_moved a) (r_region_id rr)"
  proof (rule decide_cong [OF d])
    assume "follows ?env (r_region_id rr) d"
    then obtain d' where d': "mover ?env d d'" by (auto simp: follows_def)
    then obtain a where a: "a \<in> set (unit_results result)" "r_region_id a = d"
      using entry [OF mover_unit_region] by metis
    show "?ok d = (\<exists>a\<in>set (unit_results result). r_region_id a = d \<and> r_moved a)"
      using sol order d' a by metis
  qed
  finally show ?thesis using sol [OF rr mv] by simp
qed

lemma rotation_lemma:
  assumes res: "resolve_movement st orders = Inr result" and rot: "free_rotation (movement_env_of st orders) R"
    and rr: "rr \<in> set (unit_results result)" and R: "r_region_id rr \<in> R"
  shows "r_moved rr"
proof -
  let ?env = "movement_env_of st orders"
  obtain resolved where all: "resolve_all ?env = Inr resolved"
    and facts: "r_moved rr \<longleftrightarrow> (\<exists>d. moves ?env resolved (r_region_id rr) d)"
    using result_moves_iff [OF res] rr by metis
  have "map_of resolved (r_region_id rr) = Some True"
    by (rule resolve_all_rotation [OF env_ok_movement rot all R])
  moreover obtain d where "mover ?env (r_region_id rr) d" using rot R unfolding free_rotation_def by metis
  ultimately show ?thesis using facts by (auto simp: moves_def)
qed

text \<open>Executable checks of the hypotheses about the environment.\<close>

definition rank_check :: "(string, Order) dict \<Rightarrow> (string \<Rightarrow> nat) \<Rightarrow> bool" where
  "rank_check eff rank =
     list_all (\<lambda>(r, ord). case ord of MoveOrder _ d \<Rightarrow>
         (case map_of eff d of Some (MoveOrder _ d') \<Rightarrow> d' = r \<or> rank d < rank r | _ \<Rightarrow> True)
       | _ \<Rightarrow> True) eff"

lemma rank_check_ok:
  assumes "rank_check (effective_orders st orders) rank"
  shows "rank_ok (movement_env_of st orders) rank"
  unfolding rank_ok_def follows_def
proof (intro allI impI, elim exE conjE)
  fix r d d'
  assume r: "mover (movement_env_of st orders) r d" and d: "mover (movement_env_of st orders) d d'" and "d' \<noteq> r"
  then obtain u u' where "(r, MoveOrder u d) \<in> set (effective_orders st orders)"
    and "map_of (effective_orders st orders) d = Some (MoveOrder u' d')"
    by (auto simp: mover_def dest: map_of_SomeD)
  with assms \<open>d' \<noteq> r\<close> show "rank d < rank r" by (fastforce simp: rank_check_def list_all_iff)
qed

definition rule_check :: "GameState \<Rightarrow> (string, Order) dict \<Rightarrow> (string \<Rightarrow> bool) \<Rightarrow> bool" where
  "rule_check st orders ok =
     list_all (\<lambda>(r, ord). if is_MoveOrder ord then ok r = decide (movement_env_of st orders) ok r else True)
       (effective_orders st orders)"

lemma rule_check_ok:
  assumes "rule_check st orders ok" "mover (movement_env_of st orders) r d"
  shows "ok r = decide (movement_env_of st orders) ok r"
proof -
  obtain u where "(r, MoveOrder u d) \<in> set (effective_orders st orders)"
    using assms(2) by (auto simp: mover_def dest: map_of_SomeD)
  with assms(1) show ?thesis by (fastforce simp: rule_check_def list_all_iff)
qed

section \<open>Boards for the witnesses\<close>

text \<open>
  A skirmish around Pale Ridge: Vethara attacks from the peak with Thornveil's support, a second
  Vetharan army follows into the peak, Duskhollow attacks the ridge without support, and Ashenmere
  holds it.
\<close>

definition skirmish_board :: GameState where
  "skirmish_board = create_default_map\<lparr>units :=
     [mk_unit ARMY ''vet'' ''vet_peak'', mk_unit ARMY ''vet'' ''stormveil'',
      mk_unit ARMY ''thr'' ''thr_heart'', mk_unit ARMY ''dsk'' ''the_crucible'',
      mk_unit ARMY ''ash'' ''pale_ridge'']\<rparr>"

definition skirmish_orders :: "(string, Order) dict" where
  "skirmish_orders =
     [(''vet_peak'', MoveOrder ''vet_peak'' ''pale_ridge''),
      (''stormveil'', MoveOrder ''stormveil'' ''vet_peak''),
      (''thr_heart'', SupportMoveOrder ''thr_heart'' ''vet_peak'' ''pale_ridge''),
      (''the_crucible'', MoveOrder ''the_crucible'' ''pale_ridge'')]"

text \<open>What a result says, without the order: region, moved, final region, dislodged, dislodged by.\<close>

definition outcome :: "MovementResult result \<Rightarrow> (string \<times> bool \<times> string \<times> bool \<times> string option) list" where
  "outcome m =
     (case m of Inl _ \<Rightarrow> []
      | Inr result \<Rightarrow> map (\<lambda>r. (r_region_id r, r_moved r, r_final_region_id r, r_dislodged r,
          r_dislodged_by r)) (unit_results result))"

lemma skirmish_outcome:
  "outcome (resolve_movement skirmish_board skirmish_orders) =
     [(''pale_ridge'', False, ''pale_ridge'', True, Some ''vet_peak''),
      (''stormveil'', True, ''vet_peak'', False, None),
      (''the_crucible'', False, ''the_crucible'', False, None),
      (''thr_heart'', False, ''thr_heart'', False, None),
      (''vet_peak'', True, ''pale_ridge'', False, None)]"
  by code_simp

definition skirmish_result :: MovementResult where
  "skirmish_result = (case resolve_movement skirmish_board skirmish_orders of
     Inr result \<Rightarrow> result | Inl _ \<Rightarrow> \<lparr>unit_results = [], contested_regions = {}\<rparr>)"

lemma skirmish_resolves: "resolve_movement skirmish_board skirmish_orders = Inr skirmish_result"
proof -
  obtain resolved where "resolve_movement skirmish_board skirmish_orders =
      Inr (movement_of skirmish_board skirmish_orders resolved)"
    by (rule resolve_movement_eq)
  then show ?thesis by (simp add: skirmish_result_def)
qed

lemma skirmish_results:
  "map (\<lambda>r. (r_region_id r, r_moved r, r_final_region_id r, r_dislodged r, r_dislodged_by r))
     (unit_results skirmish_result) =
     [(''pale_ridge'', False, ''pale_ridge'', True, Some ''vet_peak''),
      (''stormveil'', True, ''vet_peak'', False, None),
      (''the_crucible'', False, ''the_crucible'', False, None),
      (''thr_heart'', False, ''thr_heart'', False, None),
      (''vet_peak'', True, ''pale_ridge'', False, None)]"
  using skirmish_outcome unfolding skirmish_resolves by (simp add: outcome_def)

text \<open>The five results one by one.\<close>

lemma skirmish_nth:
  obtains ridge storm crucible heart peak where
    "unit_results skirmish_result = [ridge, storm, crucible, heart, peak]"
    "r_region_id ridge = ''pale_ridge''" "r_dislodged ridge" "r_dislodged_by ridge = Some ''vet_peak''"
    "\<not> r_moved ridge" "r_region_id storm = ''stormveil''" "r_moved storm"
    "r_final_region_id storm = ''vet_peak''" "r_region_id crucible = ''the_crucible''" "\<not> r_moved crucible"
    "r_region_id peak = ''vet_peak''" "r_moved peak" "r_final_region_id peak = ''pale_ridge''"
  using skirmish_results by (auto simp: map_eq_Cons_conv)

lemma skirmish_boards: "occupancy_ok skirmish_board" "placement_ok skirmish_board"
  by code_simp+

section \<open>Properties of the movement phase\<close>

text \<open>C10: After the movement phase no two units stand in one region, whatever orders were submitted
  and whatever the recursion assumed about cycles: survivors (moved or not) have distinct final
  regions.\<close>

theorem movement_occupancy:
  assumes "resolve_movement st orders = Inr result"
  shows "occupancy_ok (apply_movement_result st result)"
  using assms by (rule movement_occupancy_lemma)

theorem movement_occupancy_witness:
  "occupancy_ok (apply_movement_result skirmish_board skirmish_result)"
  by (rule movement_occupancy [OF skirmish_resolves])

text \<open>C11: Adjudicating a movement phase always returns: the recursion of \<open>resolve_move\<close> ends on
  every order set, cyclic ones included, no dictionary lookup fails and the assertion holds; the
  result has exactly one entry per occupied region, in sorted order.\<close>

theorem movement_total:
  "\<exists>result. resolve_movement st orders = Inr result \<and>
     map r_region_id (unit_results result) = sorted_list_of_set (region_id ` set (units st))"
proof -
  obtain resolved where "resolve_movement st orders = Inr (movement_of st orders resolved)"
    by (rule resolve_movement_eq)
  then show ?thesis by (simp add: result_regions sort_ubr_keys)
qed

text \<open>C37: No unit is lost or created: on a board with at most one unit per region, the units after
  movement together with the dislodged ones are, by type and faction, the units before.\<close>

theorem movement_conserves_units:
  assumes "occupancy_ok st" and "resolve_movement st orders = Inr result"
  shows "mset (map (\<lambda>u. kind (unit_type u) (faction_id u)) (units st)) =
     mset (map (\<lambda>u. kind (unit_type u) (faction_id u)) (units (apply_movement_result st result))) +
     mset (map (\<lambda>r. kind (r_unit_type r) (r_faction_id r)) (dislodged_results result))"
  using assms by (rule movement_conserves_lemma)

theorem movement_conserves_units_witness:
  "mset (map (\<lambda>u. kind (unit_type u) (faction_id u)) (units skirmish_board)) =
     mset (map (\<lambda>u. kind (unit_type u) (faction_id u))
       (units (apply_movement_result skirmish_board skirmish_result))) +
     mset (map (\<lambda>r. kind (r_unit_type r) (r_faction_id r)) (dislodged_results skirmish_result))"
  by (rule movement_conserves_units [OF skirmish_boards(1) skirmish_resolves])

text \<open>Movement keeps every unit on terrain it can enter: no army at sea, no fleet inland, and no
  unit off the map.\<close>

theorem movement_placement:
  assumes "placement_ok st" and "resolve_movement st orders = Inr result"
  shows "placement_ok (apply_movement_result st result)"
  using assms by (rule movement_placement_lemma)

theorem movement_placement_witness:
  "placement_ok (apply_movement_result skirmish_board skirmish_result)"
  by (rule movement_placement [OF skirmish_boards(2) skirmish_resolves])

text \<open>A unit only moves where it was ordered to, to an adjacent region its type can enter; a
  unit that does not move stays where it is.\<close>

theorem movement_follows_orders:
  assumes "resolve_movement st orders = Inr result" and "rr \<in> set (unit_results result)"
  shows "if r_moved rr
     then map_of orders (r_region_id rr) = Some (MoveOrder (r_region_id rr) (r_final_region_id rr)) \<and>
          adjacent (r_region_id rr) (r_final_region_id rr) \<and>
          can_stand (regions st) (r_unit_type rr) (r_final_region_id rr)
     else r_final_region_id rr = r_region_id rr"
  using moved_result [OF assms] stayed_result(1) [OF assms] by simp

theorem movement_follows_orders_witness:
  "\<exists>rr\<in>set (unit_results skirmish_result). r_region_id rr = ''vet_peak'' \<and> r_moved rr \<and>
     map_of skirmish_orders ''vet_peak'' = Some (MoveOrder ''vet_peak'' ''pale_ridge'') \<and>
     adjacent ''vet_peak'' ''pale_ridge''"
proof -
  obtain ridge storm crucible heart peak where
    rs: "unit_results skirmish_result = [ridge, storm, crucible, heart, peak]"
      "r_region_id peak = ''vet_peak''" "r_moved peak" "r_final_region_id peak = ''pale_ridge''"
    by (rule skirmish_nth) blast
  then have "peak \<in> set (unit_results skirmish_result)" by simp
  from movement_follows_orders [OF skirmish_resolves this] rs show ?thesis by simp
qed

text \<open>C12: A unit is dislodged only by force: some other unit really moved into its region, it is
  recorded as \<open>dislodged_by\<close>, and if the dislodged unit was not itself ordered to move, the attack
  was strictly stronger than its hold strength and came from another faction.\<close>

theorem dislodgement_needs_force:
  assumes "resolve_movement st orders = Inr result" and "rr \<in> set (unit_results result)" and "r_dislodged rr"
  shows "\<exists>a\<in>set (unit_results result). r_moved a \<and> r_final_region_id a = r_region_id rr \<and>
     r_dislodged_by rr = Some (r_region_id a) \<and> \<not> r_moved rr \<and>
     (\<not> is_MoveOrder (r_order rr) \<longrightarrow>
        the (map_of (hold_table (effective_orders st orders)) (r_region_id rr)) <
        the (map_of (attack_table (effective_orders st orders)) (r_region_id a)) \<and>
        r_faction_id a \<noteq> r_faction_id rr)"
  using assms by (rule dislodged_result)

theorem dislodgement_needs_force_witness:
  "\<exists>a\<in>set (unit_results skirmish_result). r_moved a \<and> r_final_region_id a = ''pale_ridge'' \<and>
     Some (r_region_id a) = Some ''vet_peak''"
proof -
  obtain ridge storm crucible heart peak where
    rs: "unit_results skirmish_result = [ridge, storm, crucible, heart, peak]"
      "r_region_id ridge = ''pale_ridge''" "r_dislodged ridge" "r_dislodged_by ridge = Some ''vet_peak''"
    by (rule skirmish_nth) blast
  then have "ridge \<in> set (unit_results skirmish_result)" by simp
  from dislodgement_needs_force [OF skirmish_resolves this rs(3)] rs(2,4) show ?thesis by auto
qed

text \<open>Of two units ordered into the same region, one that gets there was strictly stronger; with
  equal strengths neither moves (a standoff).\<close>

theorem standoff:
  assumes "resolve_movement st orders = Inr result"
    and "a \<in> set (unit_results result)" and "r_order a = MoveOrder ra d"
    and "b \<in> set (unit_results result)" and "r_order b = MoveOrder rb d"
    and "r_region_id a \<noteq> r_region_id b"
    and "the (map_of (attack_table (effective_orders st orders)) (r_region_id a)) =
         the (map_of (attack_table (effective_orders st orders)) (r_region_id b))"
  shows "\<not> r_moved a \<and> \<not> r_moved b"
proof -
  have "\<not> r_moved a" using beaten_result [OF assms(1) assms(2,3) assms(4,5) assms(6)] assms(7) by linarith
  moreover have "\<not> r_moved b"
    using beaten_result [OF assms(1) assms(4,5) assms(2,3) assms(6) [symmetric]] assms(7) by linarith
  ultimately show ?thesis by simp
qed

definition standoff_orders :: "(string, Order) dict" where
  "standoff_orders =
     [(''vet_peak'', MoveOrder ''vet_peak'' ''pale_ridge''),
      (''the_crucible'', MoveOrder ''the_crucible'' ''pale_ridge'')]"

definition standoff_board :: GameState where
  "standoff_board = create_default_map\<lparr>units :=
     [mk_unit ARMY ''vet'' ''vet_peak'', mk_unit ARMY ''dsk'' ''the_crucible'']\<rparr>"

lemma standoff_strengths:
  "attack_table (effective_orders standoff_board standoff_orders) = [(''the_crucible'', 1), (''vet_peak'', 1)]"
  by code_simp

lemma standoff_effective:
  "effective_orders standoff_board standoff_orders =
     [(''the_crucible'', MoveOrder ''the_crucible'' ''pale_ridge''),
      (''vet_peak'', MoveOrder ''vet_peak'' ''pale_ridge'')]"
  by code_simp

theorem standoff_witness:
  "\<exists>result a b. resolve_movement standoff_board standoff_orders = Inr result \<and>
     unit_results result = [a, b] \<and> \<not> r_moved a \<and> \<not> r_moved b"
proof -
  obtain resolved where res: "resolve_movement standoff_board standoff_orders =
      Inr (movement_of standoff_board standoff_orders resolved)"
    by (rule resolve_movement_eq)
  let ?result = "movement_of standoff_board standoff_orders resolved"
  have "sort (map fst (units_by_region standoff_board)) = [''the_crucible'', ''vet_peak'']" by code_simp
  then obtain a b where ab: "unit_results ?result = [a, b]" "r_region_id a = ''the_crucible''"
      "r_region_id b = ''vet_peak''" "r_order a = MoveOrder ''the_crucible'' ''pale_ridge''"
      "r_order b = MoveOrder ''vet_peak'' ''pale_ridge''"
    by (simp add: movement_of_def result_of_def Let_def standoff_effective)
  have "\<not> r_moved a \<and> \<not> r_moved b"
    by (rule standoff [OF res _ ab(4) _ ab(5)]) (simp_all add: ab standoff_strengths)
  with res ab(1) show ?thesis by blast
qed

text \<open>Without cycles of moves the outcome obeys the adjudication rule at every unit: a unit
  ordered to move does so exactly if \<open>decide\<close> (defender, head-to-head and competitor tests) lets it,
  where an occupant counts as gone exactly if the outcome itself says that it moved.\<close>

theorem movement_fixpoint:
  assumes "resolve_movement st orders = Inr result" and "rank_ok (movement_env_of st orders) rank"
    and "rr \<in> set (unit_results result)" and "is_MoveOrder (r_order rr)"
  shows "r_moved rr \<longleftrightarrow>
     decide (movement_env_of st orders)
       (\<lambda>x. \<exists>a\<in>set (unit_results result). r_region_id a = x \<and> r_moved a) (r_region_id rr)"
  using assms by (rule movement_fixpoint_lemma)

definition skirmish_rank :: "string \<Rightarrow> nat" where
  "skirmish_rank r = (if r = ''stormveil'' then 1 else 0)"

lemma skirmish_ranked: "rank_ok (movement_env_of skirmish_board skirmish_orders) skirmish_rank"
  by (rule rank_check_ok) code_simp

lemma skirmish_move_orders:
  assumes "rr \<in> set (unit_results skirmish_result)" and "r_moved rr"
  shows "is_MoveOrder (r_order rr)"
proof -
  obtain resolved where "decided (movement_env_of skirmish_board skirmish_orders) resolved"
    and "r_order rr = the (map_of (effective_orders skirmish_board skirmish_orders) (r_region_id rr))"
    and "\<exists>d. moves (movement_env_of skirmish_board skirmish_orders) resolved (r_region_id rr) d"
    using result_moves_iff [OF skirmish_resolves] assms by metis
  then show ?thesis by (auto simp: moves_def mover_def)
qed

theorem movement_fixpoint_witness:
  "\<exists>rr\<in>set (unit_results skirmish_result). r_region_id rr = ''stormveil'' \<and>
     decide (movement_env_of skirmish_board skirmish_orders)
       (\<lambda>x. \<exists>a\<in>set (unit_results skirmish_result). r_region_id a = x \<and> r_moved a) ''stormveil''"
proof -
  obtain ridge storm crucible heart peak where
    rs: "unit_results skirmish_result = [ridge, storm, crucible, heart, peak]"
      "r_region_id storm = ''stormveil''" "r_moved storm"
    by (rule skirmish_nth) blast
  then have storm: "storm \<in> set (unit_results skirmish_result)" by simp
  from movement_fixpoint [OF skirmish_resolves skirmish_ranked storm skirmish_move_orders [OF storm rs(3)]]
    storm rs(2,3) show ?thesis by auto
qed

text \<open>C9: Without cycles of moves the memoised recursion computes the one and only solution of the
  adjudication rule: any assignment of success to the moves that satisfies the rule is the outcome,
  so any other correct implementation of the rule agrees with this one on every unit.\<close>

theorem movement_unique_solution:
  assumes "resolve_movement st orders = Inr result" and "rank_ok (movement_env_of st orders) rank"
    and "\<And>r d. mover (movement_env_of st orders) r d \<Longrightarrow> ok r = decide (movement_env_of st orders) ok r"
    and "rr \<in> set (unit_results result)" and "is_MoveOrder (r_order rr)"
  shows "r_moved rr \<longleftrightarrow> ok (r_region_id rr)"
  using assms by (rule movement_solution_lemma)

definition skirmish_solution :: "string \<Rightarrow> bool" where
  "skirmish_solution r = (r \<in> set [''vet_peak'', ''stormveil''])"

lemma skirmish_rule: "rule_check skirmish_board skirmish_orders skirmish_solution"
  by code_simp

theorem movement_unique_solution_witness:
  "\<exists>rr\<in>set (unit_results skirmish_result). r_region_id rr = ''vet_peak'' \<and>
     (r_moved rr \<longleftrightarrow> skirmish_solution ''vet_peak'')"
proof -
  obtain ridge storm crucible heart peak where
    rs: "unit_results skirmish_result = [ridge, storm, crucible, heart, peak]"
      "r_region_id peak = ''vet_peak''" "r_moved peak"
    by (rule skirmish_nth) blast
  then have peak: "peak \<in> set (unit_results skirmish_result)" by simp
  have "r_moved peak \<longleftrightarrow> skirmish_solution (r_region_id peak)"
    by (rule movement_unique_solution [OF skirmish_resolves skirmish_ranked _ peak
          skirmish_move_orders [OF peak rs(3)]])
      (rule rule_check_ok [OF skirmish_rule])
  with peak rs(2) show ?thesis by auto
qed

text \<open>An unopposed rotation succeeds: moves that compete with no other move and only enter
  empty regions or regions left by another of them, without swapping places, are all carried out.\<close>

theorem rotation_succeeds:
  assumes "resolve_movement st orders = Inr result" and "free_rotation (movement_env_of st orders) R"
    and "rr \<in> set (unit_results result)" and "r_region_id rr \<in> R"
  shows "r_moved rr"
  using assms by (rule rotation_lemma)

definition ring_board :: "Unit list \<Rightarrow> GameState" where
  "ring_board others = create_default_map\<lparr>units :=
     [mk_unit ARMY ''vet'' ''gloomfen'', mk_unit ARMY ''vet'' ''thr_heart'',
      mk_unit ARMY ''vet'' ''thr_cove''] @ others\<rparr>"

definition ring_orders :: "(string, Order) dict \<Rightarrow> (string, Order) dict" where
  "ring_orders others =
     [(''gloomfen'', MoveOrder ''gloomfen'' ''thr_heart''),
      (''thr_heart'', MoveOrder ''thr_heart'' ''thr_cove''),
      (''thr_cove'', MoveOrder ''thr_cove'' ''gloomfen'')] @ others"

lemma ring_effective:
  "effective_orders (ring_board []) (ring_orders []) =
     [(''gloomfen'', MoveOrder ''gloomfen'' ''thr_heart''),
      (''thr_cove'', MoveOrder ''thr_cove'' ''gloomfen''),
      (''thr_heart'', MoveOrder ''thr_heart'' ''thr_cove'')]"
  by code_simp

lemma ring_is_free:
  "free_rotation (movement_env_of (ring_board []) (ring_orders [])) {''gloomfen'', ''thr_heart'', ''thr_cove''}"
  by (auto simp: free_rotation_def mover_def ring_effective split: if_splits)

theorem rotation_succeeds_witness:
  "\<exists>result. resolve_movement (ring_board []) (ring_orders []) = Inr result \<and>
     (\<forall>rr\<in>set (unit_results result). r_moved rr) \<and> length (unit_results result) = 3"
proof -
  obtain resolved where res: "resolve_movement (ring_board []) (ring_orders []) =
      Inr (movement_of (ring_board []) (ring_orders []) resolved)"
    by (rule resolve_movement_eq)
  have keys: "sort (map fst (units_by_region (ring_board []))) = [''gloomfen'', ''thr_cove'', ''thr_heart'']"
    by code_simp
  have "r_moved rr" if rr: "rr \<in> set (unit_results (movement_of (ring_board []) (ring_orders []) resolved))" for rr
  proof -
    have "r_region_id rr \<in> set [''gloomfen'', ''thr_cove'', ''thr_heart'']"
      using rr unfolding keys [symmetric] result_regions [of "ring_board []" "ring_orders []" resolved, symmetric]
      by simp
    then show ?thesis by (intro rotation_succeeds [OF res ring_is_free rr]) auto
  qed
  moreover have "length (unit_results (movement_of (ring_board []) (ring_orders []) resolved)) = 3"
    by (simp add: movement_of_def keys)
  ultimately show ?thesis using res by blast
qed

section \<open>Where the recursion departs from the rule\<close>

text \<open>
  The guess "in progress, assume success" is kept in the memo even when the move it was made for
  fails. In an opposed ring this lets an attack of strength 1 dislodge a unit of strength 1, here
  one of the attacker's own faction; and the guard against dislodging one's own units is missing in
  head-to-head battles.
\<close>

definition intruder :: Unit where
  "intruder = mk_unit ARMY ''dsk'' ''the_crucible''"

definition intrusion :: "(string, Order) dict" where
  "intrusion = [(''the_crucible'', MoveOrder ''the_crucible'' ''thr_heart'')]"

text \<open>The opposed ring: a Duskhollow army attacks one region of a ring of three unsupported
  Vetharan armies. Every attack has strength 1, yet the Vetharan army in Gloomfen, which bounces, is
  dislodged by the Vetharan army from Briarcove.\<close>

theorem opposed_ring_dislodges:
  "outcome (resolve_movement (ring_board [intruder]) (ring_orders intrusion)) =
     [(''gloomfen'', False, ''gloomfen'', True, Some ''thr_cove''),
      (''the_crucible'', False, ''the_crucible'', False, None),
      (''thr_cove'', True, ''gloomfen'', False, None),
      (''thr_heart'', True, ''thr_cove'', False, None)] \<and>
   map snd (attack_table (effective_orders (ring_board [intruder]) (ring_orders intrusion))) = [1, 1, 1, 1]"
  by (rule conjI) code_simp+

definition swap_board :: GameState where
  "swap_board = create_default_map\<lparr>units :=
     [mk_unit ARMY ''vet'' ''vet_peak'', mk_unit ARMY ''vet'' ''pale_ridge'', mk_unit ARMY ''thr'' ''thr_heart'']\<rparr>"

definition swap_orders :: "(string, Order) dict" where
  "swap_orders =
     [(''vet_peak'', MoveOrder ''vet_peak'' ''pale_ridge''),
      (''pale_ridge'', MoveOrder ''pale_ridge'' ''vet_peak''),
      (''thr_heart'', SupportMoveOrder ''thr_heart'' ''vet_peak'' ''pale_ridge'')]"

text \<open>Head to head, a faction can dislodge its own unit: a supported Vetharan army enters Pale
  Ridge against a Vetharan army moving the other way, which is dislodged; had that army held, the
  attack would have failed.\<close>

theorem head_to_head_dislodges_own_unit:
  "outcome (resolve_movement swap_board swap_orders) =
     [(''pale_ridge'', False, ''pale_ridge'', True, Some ''vet_peak''),
      (''thr_heart'', False, ''thr_heart'', False, None),
      (''vet_peak'', True, ''pale_ridge'', False, None)] \<and>
   outcome (resolve_movement swap_board (AList.delete ''pale_ridge'' swap_orders)) =
     [(''pale_ridge'', False, ''pale_ridge'', False, None),
      (''thr_heart'', False, ''thr_heart'', False, None),
      (''vet_peak'', False, ''vet_peak'', False, None)]"
  by (rule conjI) code_simp+

end
