(* ===== verification/Retreat.thy ===== *)
theory Retreat
  imports Movement_Properties
begin

text \<open>
  The retreat phase of \<^verbatim>\<open>engine/adjudicator.py\<close>: \<open>get_retreat_options\<close>, \<open>resolve_retreats\<close> and
  \<open>apply_retreat_result\<close>. The lemmas read the loops as one rule, \<open>retreat_choice\<close> for the
  destination a dislodged unit asks for and gets if nobody else asks for it, and show that its tests are the
  rules of the game as \<open>retreat_legal\<close> states them over the movements; the properties say
  that retreats keep the board invariants, go only to legal regions, and account for every
  dislodged unit.
\<close>

section \<open>Result types and operations\<close>

record RetreatUnitResult =
  rr_region_id :: string
  rr_faction_id :: string
  rr_unit_type :: UnitType
  rr_destination_id :: "string option"
  rr_destroyed :: bool

type_synonym RetreatResult = "RetreatUnitResult list"

definition final_positions :: "MovementResult \<Rightarrow> string set" where
  "final_positions res = set (map r_final_region_id (filter (\<lambda>r. \<not> r_dislodged r) (unit_results res)))"

text \<open>The tests of the inner loop, in the order of its \<open>continue\<close> statements.\<close>

definition retreat_allowed :: "GameState \<Rightarrow> MovementResult \<Rightarrow> UnitOrderResult \<Rightarrow> string \<Rightarrow> bool" where
  "retreat_allowed st res r candidate =
     (if \<not> can_move_to st (mk_unit (r_unit_type r) (r_faction_id r) (r_region_id r)) candidate then False
      else if candidate \<in> final_positions res then False
      else if candidate \<in> contested_regions res then False
      else if Some candidate = r_dislodged_by r then False
      else True)"

definition get_retreat_options :: "GameState \<Rightarrow> MovementResult \<Rightarrow> (string, string list) dict" where
  "get_retreat_options st res =
     dict_comp r_region_id
       (\<lambda>r. filter (retreat_allowed st res r) (sort (neighbours (r_region_id r))))
       (filter r_dislodged (unit_results res))"

text \<open>One turn of the loop that fills \<open>chosen\<close>.\<close>

definition choose_destination ::
    "(string, string list) dict \<Rightarrow> (string, RetreatOrder) dict \<Rightarrow> UnitOrderResult \<Rightarrow> string option result" where
  "choose_destination options retreat_orders r =
     bind_result (lookup_or_raise options (r_region_id r)) (\<lambda>legal.
       Inr (case map_of retreat_orders (r_region_id r) of
              None \<Rightarrow> None
            | Some order \<Rightarrow>
                (case ro_destination_id order of
                   None \<Rightarrow> None
                 | Some d \<Rightarrow> if d \<in> set legal then Some d else None)))"

definition chosen_destinations ::
    "(string, string list) dict \<Rightarrow> (string, RetreatOrder) dict \<Rightarrow> UnitOrderResult list \<Rightarrow>
     (string, string option) dict result" where
  "chosen_destinations options retreat_orders dislodged =
     fold_result (\<lambda>r chosen.
         bind_result (choose_destination options retreat_orders r) (\<lambda>c.
           Inr (AList.update (r_region_id r) c chosen)))
       (sort_key r_region_id dislodged) []"

text \<open>\<open>Counter(d for d in chosen.values() if d is not None)[dest]\<close>.\<close>

definition dest_count :: "(string, string option) dict \<Rightarrow> string \<Rightarrow> nat" where
  "dest_count chosen dest = count_list (dict_values chosen) (Some dest)"

definition retreat_unit_result ::
    "(string, string option) dict \<Rightarrow> UnitOrderResult \<Rightarrow> RetreatUnitResult result" where
  "retreat_unit_result chosen r =
     bind_result (lookup_or_raise chosen (r_region_id r)) (\<lambda>dest0.
       let dest = (case dest0 of None \<Rightarrow> None | Some d \<Rightarrow> if 1 < dest_count chosen d then None else Some d)
       in Inr \<lparr>rr_region_id = r_region_id r, rr_faction_id = r_faction_id r, rr_unit_type = r_unit_type r,
               rr_destination_id = dest, rr_destroyed = (dest = None)\<rparr>)"

definition resolve_retreats ::
    "GameState \<Rightarrow> MovementResult \<Rightarrow> (string, RetreatOrder) dict \<Rightarrow> RetreatResult result" where
  "resolve_retreats st res retreat_orders =
     (let options = get_retreat_options st res;
          dislodged = filter r_dislodged (unit_results res)
      in bind_result (chosen_destinations options retreat_orders dislodged) (\<lambda>chosen.
           map_result (retreat_unit_result chosen) (sort_key r_region_id dislodged)))"

text \<open>
  \<open>Unit(..., region_id=r.destination_id)\<close> of a unit that is not destroyed. The dataclass allows a
  result that is not destroyed and has no destination, which \<open>resolve_retreats\<close> never builds.
\<close>

definition retreated_unit :: "RetreatUnitResult \<Rightarrow> Unit result" where
  "retreated_unit r =
     (case rr_destination_id r of
        None \<Rightarrow> Inl Unmodelled
      | Some d \<Rightarrow> Inr (mk_unit (rr_unit_type r) (rr_faction_id r) d))"

definition apply_retreat_result :: "GameState \<Rightarrow> RetreatResult \<Rightarrow> GameState result" where
  "apply_retreat_result st result =
     bind_result (map_result retreated_unit (filter (\<lambda>r. \<not> rr_destroyed r) result)) (\<lambda>retreated.
       Inr (st\<lparr>units := sort_key region_id (units st @ retreated)\<rparr>))"

section \<open>The loops as one rule\<close>

text \<open>Where a dislodged unit asks to go: an ordered destination that passes the tests of the loop.\<close>

definition retreat_choice ::
    "GameState \<Rightarrow> MovementResult \<Rightarrow> (string, RetreatOrder) dict \<Rightarrow> UnitOrderResult \<Rightarrow> string option" where
  "retreat_choice st res retreat_orders r =
     (case map_of retreat_orders (r_region_id r) of
        None \<Rightarrow> None
      | Some order \<Rightarrow>
          (case ro_destination_id order of
             None \<Rightarrow> None
           | Some d \<Rightarrow> if retreat_allowed st res r d then Some d else None))"

definition retreat_of ::
    "GameState \<Rightarrow> MovementResult \<Rightarrow> (string, RetreatOrder) dict \<Rightarrow> UnitOrderResult \<Rightarrow> RetreatUnitResult" where
  "retreat_of st res ords r =
     (let dest = (case retreat_choice st res ords r of
                    None \<Rightarrow> None
                  | Some d \<Rightarrow>
                      if \<exists>r'\<in>set (dislodged_results res). r' \<noteq> r \<and> retreat_choice st res ords r' = Some d
                      then None else Some d)
      in \<lparr>rr_region_id = r_region_id r, rr_faction_id = r_faction_id r, rr_unit_type = r_unit_type r,
          rr_destination_id = dest, rr_destroyed = (dest = None)\<rparr>)"

definition result_ok :: "MovementResult \<Rightarrow> bool" where
  "result_ok res \<longleftrightarrow> distinct (map r_region_id (unit_results res))"

lemma result_ok_movement: "resolve_movement st orders = Inr res \<Longrightarrow> result_ok res"
  by (metis movement_cases results_distinct result_ok_def)

lemma dislodged_distinct: "result_ok res \<Longrightarrow> distinct (map r_region_id (dislodged_results res))"
  by (simp add: result_ok_def dislodged_results_def distinct_map_filterI)

lemma retreat_allowed_neighbour: "retreat_allowed st res r d \<Longrightarrow> d \<in> set (neighbours (r_region_id r))"
  by (simp add: retreat_allowed_def can_move_to_conv neighbours_conv split: if_splits)

lemma choose_destination_eq:
  assumes "result_ok res" and "r \<in> set (dislodged_results res)"
  shows "choose_destination (get_retreat_options st res) ords r = Inr (retreat_choice st res ords r)"
proof -
  have "get_retreat_options st res =
      map (\<lambda>r. (r_region_id r, filter (retreat_allowed st res r) (sort (neighbours (r_region_id r)))))
        (dislodged_results res)"
    unfolding get_retreat_options_def dislodged_results_def [symmetric]
    by (rule dict_comp_distinct [OF dislodged_distinct [OF assms(1)]])
  then have "map_of (get_retreat_options st res) (r_region_id r) =
      Some (filter (retreat_allowed st res r) (sort (neighbours (r_region_id r))))"
    using assms dislodged_distinct [OF assms(1)] by (auto intro!: map_of_SomeI simp: comp_def)
  then have "lookup_or_raise (get_retreat_options st res) (r_region_id r) =
      Inr (filter (retreat_allowed st res r) (sort (neighbours (r_region_id r))))" by simp
  then show ?thesis
    by (auto simp: choose_destination_def retreat_choice_def retreat_allowed_neighbour
        split: option.splits)
qed

lemma chosen_destinations_eq:
  assumes "result_ok res"
  shows "chosen_destinations (get_retreat_options st res) ords (dislodged_results res) =
    Inr (map (\<lambda>r. (r_region_id r, retreat_choice st res ords r)) (sort_key r_region_id (dislodged_results res)))"
proof -
  let ?rs = "sort_key r_region_id (dislodged_results res)"
  have "fold_result (\<lambda>r chosen.
         bind_result (choose_destination (get_retreat_options st res) ords r) (\<lambda>c.
           Inr (AList.update (r_region_id r) c chosen))) xs d =
      Inr (fold (\<lambda>r d. AList.update (r_region_id r) (retreat_choice st res ords r) d) xs d)"
    if "set xs \<subseteq> set (dislodged_results res)" for xs d
    using that by (induction xs arbitrary: d) (simp_all add: choose_destination_eq [OF assms])
  from this [of ?rs "[]"] show ?thesis
    unfolding chosen_destinations_def
    using fold_update_distinct [of "[]" r_region_id ?rs] dislodged_distinct [OF assms] by simp
qed

lemma count_two:
  assumes "distinct xs" and "x \<in> set xs"
  shows "1 < count_list (map f xs) (f x) \<longleftrightarrow> (\<exists>y\<in>set xs. y \<noteq> x \<and> f y = f x)"
proof -
  have "count_list (map f xs) (f x) = card {y \<in> set xs. f y = f x}"
    using assms(1) by (simp add: count_list_eq_length_filter filter_map comp_def distinct_card
        [symmetric] eq_commute [of "f x"])
  moreover have "{y \<in> set xs. f y = f x} = insert x {y \<in> set xs. y \<noteq> x \<and> f y = f x}"
    using assms(2) by auto
  ultimately have "count_list (map f xs) (f x) = Suc (card {y \<in> set xs. y \<noteq> x \<and> f y = f x})" by simp
  then show ?thesis by (auto simp: card_gt_0_iff)
qed

lemma resolve_retreats_eq:
  assumes "result_ok res"
  shows "resolve_retreats st res ords =
    Inr (map (retreat_of st res ords) (sort_key r_region_id (dislodged_results res)))"
proof -
  let ?rs = "sort_key r_region_id (dislodged_results res)"
  let ?chosen = "map (\<lambda>r. (r_region_id r, retreat_choice st res ords r)) ?rs"
  have dist: "distinct ?rs" "distinct (map r_region_id ?rs)"
    using dislodged_distinct [OF assms] by (simp_all add: distinct_map)
  have "retreat_unit_result ?chosen r = Inr (retreat_of st res ords r)" if r: "r \<in> set ?rs" for r
  proof -
    have "map_of ?chosen (r_region_id r) = Some (retreat_choice st res ords r)"
      using r dist(2) by (intro map_of_SomeI) (auto simp: comp_def)
    moreover have "1 < dest_count ?chosen d \<longleftrightarrow>
        (\<exists>r'\<in>set (dislodged_results res). r' \<noteq> r \<and> retreat_choice st res ords r' = Some d)"
      if "retreat_choice st res ords r = Some d" for d
      using count_two [OF dist(1) r, of "retreat_choice st res ords"] that
      by (simp add: dest_count_def dict_values_def comp_def)
    ultimately show ?thesis
      by (auto simp: retreat_unit_result_def retreat_of_def Let_def split: option.splits)
  qed
  then have "map_result (retreat_unit_result ?chosen) ?rs = Inr (map (retreat_of st res ords) ?rs)"
    by (rule map_result_total)
  then show ?thesis
    unfolding resolve_retreats_def dislodged_results_def [symmetric] Let_def
    by (simp add: chosen_destinations_eq [OF assms])
qed

section \<open>What a retreat may and may not do\<close>

lemma retreat_of_sel [simp]:
  "rr_region_id (retreat_of st res ords r) = r_region_id r"
  "rr_faction_id (retreat_of st res ords r) = r_faction_id r"
  "rr_unit_type (retreat_of st res ords r) = r_unit_type r"
  "rr_destroyed (retreat_of st res ords r) \<longleftrightarrow> rr_destination_id (retreat_of st res ords r) = None"
  by (simp_all add: retreat_of_def Let_def)

lemma retreat_of_destination:
  "rr_destination_id (retreat_of st res ords r) = Some d \<longleftrightarrow>
     retreat_choice st res ords r = Some d \<and>
     (\<forall>r'\<in>set (dislodged_results res). r' \<noteq> r \<longrightarrow> retreat_choice st res ords r' \<noteq> Some d)"
  by (auto simp: retreat_of_def Let_def split: option.splits)

lemma retreat_choice_Some:
  "retreat_choice st res ords r = Some d \<longleftrightarrow>
     (\<exists>order. map_of ords (r_region_id r) = Some order \<and> ro_destination_id order = Some d) \<and>
     retreat_allowed st res r d"
  by (auto simp: retreat_choice_def split: option.splits)

lemma retreat_allowed_conv:
  "retreat_allowed st res r d \<longleftrightarrow>
     adjacent (r_region_id r) d \<and> can_stand (regions st) (r_unit_type r) d \<and>
     d \<notin> final_positions res \<and> d \<notin> contested_regions res \<and> r_dislodged_by r \<noteq> Some d"
  by (auto simp: retreat_allowed_def can_move_to_conv split: if_splits)

lemma final_positions_units:
  "final_positions res = region_id ` set (units (apply_movement_result st res))"
  by (simp add: final_positions_def apply_movement_result_def image_image)

lemma retreat_entry:
  assumes "result_ok res" "resolve_retreats st res ords = Inr rs" "rr \<in> set rs"
  obtains r where "r \<in> set (dislodged_results res)" "rr = retreat_of st res ords r"
  using assms by (auto simp: resolve_retreats_eq)

text \<open>The units that \<open>apply_retreat_result\<close> adds.\<close>

definition retreaters :: "RetreatResult \<Rightarrow> Unit list" where
  "retreaters rs =
     map (\<lambda>r. mk_unit (rr_unit_type r) (rr_faction_id r) (the (rr_destination_id r)))
       (filter (\<lambda>r. \<not> rr_destroyed r) rs)"

lemma apply_retreats_eq:
  assumes "result_ok res" "resolve_retreats st res ords = Inr rs"
  shows "apply_retreat_result st rs = Inr (st\<lparr>units := sort_key region_id (units st @ retreaters rs)\<rparr>)"
proof -
  have "map_result retreated_unit (filter (\<lambda>r. \<not> rr_destroyed r) rs) = Inr (retreaters rs)"
    unfolding retreaters_def
  proof (rule map_result_total)
    fix rr assume "rr \<in> set (filter (\<lambda>r. \<not> rr_destroyed r) rs)"
    with retreat_entry [OF assms] show "retreated_unit rr =
        Inr (mk_unit (rr_unit_type rr) (rr_faction_id rr) (the (rr_destination_id rr)))"
      by (auto simp: retreated_unit_def elim!: retreat_entry [OF assms])
  qed
  then show ?thesis by (simp add: apply_retreat_result_def)
qed

lemma retreater_entry:
  assumes "result_ok res" "resolve_retreats st res ords = Inr rs" "u \<in> set (retreaters rs)"
  obtains r where "r \<in> set (dislodged_results res)" "unit_type u = r_unit_type r"
    "faction_id u = r_faction_id r" "rr_destination_id (retreat_of st res ords r) = Some (region_id u)"
proof -
  obtain rr where rr: "rr \<in> set rs" "\<not> rr_destroyed rr"
    "u = mk_unit (rr_unit_type rr) (rr_faction_id rr) (the (rr_destination_id rr))"
    using assms(3) by (auto simp: retreaters_def)
  from retreat_entry [OF assms(1,2) rr(1)] obtain r
    where "r \<in> set (dislodged_results res)" "rr = retreat_of st res ords r" .
  with rr(2,3) that show ?thesis by auto
qed

lemma retreaters_distinct:
  assumes ok: "result_ok res" and rs: "resolve_retreats st res ords = Inr rs"
  shows "distinct (map region_id (retreaters rs))"
proof -
  let ?ds = "sort_key r_region_id (dislodged_results res)"
  let ?f = "retreat_of st res ords"
  have dist: "distinct ?ds" using dislodged_distinct [OF ok] by (simp add: distinct_map)
  have eq: "map region_id (retreaters rs) =
      map (\<lambda>r. the (rr_destination_id (?f r))) (filter (\<lambda>r. \<not> rr_destroyed (?f r)) ?ds)"
  proof -
    from rs have "rs = map ?f ?ds" by (simp add: resolve_retreats_eq [OF ok])
    then show ?thesis by (simp add: retreaters_def filter_map comp_def)
  qed
  have "inj_on (\<lambda>r. the (rr_destination_id (?f r))) (set (filter (\<lambda>r. \<not> rr_destroyed (?f r)) ?ds))"
  proof (rule inj_onI)
    fix x y
    assume "x \<in> set (filter (\<lambda>r. \<not> rr_destroyed (?f r)) ?ds)"
      "y \<in> set (filter (\<lambda>r. \<not> rr_destroyed (?f r)) ?ds)"
      and same: "the (rr_destination_id (?f x)) = the (rr_destination_id (?f y))"
    then obtain d where "rr_destination_id (?f x) = Some d" "rr_destination_id (?f y) = Some d"
      and mem: "x \<in> set (dislodged_results res)" "y \<in> set (dislodged_results res)" by auto
    then show "x = y" unfolding retreat_of_destination by metis
  qed
  with dist show ?thesis by (simp add: eq distinct_map)
qed

lemma retreat_occupancy_lemma:
  assumes mv: "resolve_movement st orders = Inr res"
    and rs: "resolve_retreats (apply_movement_result st res) res ords = Inr rs"
    and st': "apply_retreat_result (apply_movement_result st res) rs = Inr st'"
  shows "occupancy_ok st'"
proof -
  let ?st = "apply_movement_result st res"
  note ok = result_ok_movement [OF mv]
  have "region_id u \<notin> region_id ` set (units ?st)" if "u \<in> set (retreaters rs)" for u
    using that by (elim retreater_entry [OF ok rs])
      (auto simp: retreat_of_destination retreat_choice_Some retreat_allowed_conv
        final_positions_units [of res st])
  then have "region_id ` set (units ?st) \<inter> region_id ` set (retreaters rs) = {}"
    by (subst disjoint_iff) (metis imageE)
  then have "distinct (map region_id (units ?st @ retreaters rs))"
    using movement_occupancy_lemma [OF mv] retreaters_distinct [OF ok rs]
    by (simp add: occupancy_ok_def)
  with st' show ?thesis by (auto simp: apply_retreats_eq [OF ok rs] occupancy_ok_def)
qed

lemma retreat_placement_lemma:
  assumes mv: "resolve_movement st orders = Inr res" and pl: "placement_ok st"
    and rs: "resolve_retreats (apply_movement_result st res) res ords = Inr rs"
    and st': "apply_retreat_result (apply_movement_result st res) rs = Inr st'"
  shows "placement_ok st'"
proof -
  let ?st = "apply_movement_result st res"
  note ok = result_ok_movement [OF mv]
  have "can_stand (regions ?st) (unit_type u) (region_id u)" if "u \<in> set (retreaters rs)" for u
    using that by (elim retreater_entry [OF ok rs])
      (auto simp: retreat_of_destination retreat_choice_Some retreat_allowed_conv)
  with movement_placement_lemma [OF pl mv] st' show ?thesis
    by (auto simp: apply_retreats_eq [OF ok rs] placement_ok_def list_all_iff)
qed

section \<open>The rules of retreating\<close>

text \<open>The rules over what movement did, without the tables that the code keeps of it: a standoff at \<open>d\<close> are
  two units that were both to move there, and a unit may retreat to a neighbour it can enter where no unit
  stands after movement, where there was no standoff, and from where no unit moved into its region.\<close>

definition standoff_at :: "MovementResult \<Rightarrow> string \<Rightarrow> bool" where
  "standoff_at res d \<longleftrightarrow>
     (\<exists>a\<in>set (unit_results res). \<exists>b\<in>set (unit_results res). r_region_id a \<noteq> r_region_id b \<and>
        (\<exists>u v. r_order a = MoveOrder u d \<and> r_order b = MoveOrder v d))"

definition attacked_from :: "MovementResult \<Rightarrow> string \<Rightarrow> string \<Rightarrow> bool" where
  "attacked_from res region d \<longleftrightarrow>
     (\<exists>a\<in>set (unit_results res). r_moved a \<and> r_region_id a = d \<and> r_final_region_id a = region)"

definition retreat_legal ::
    "GameState \<Rightarrow> MovementResult \<Rightarrow> (string, RetreatOrder) dict \<Rightarrow> UnitOrderResult \<Rightarrow> string \<Rightarrow> bool" where
  "retreat_legal st res ords r d \<longleftrightarrow>
     (\<exists>order. map_of ords (r_region_id r) = Some order \<and> ro_destination_id order = Some d) \<and>
     adjacent (r_region_id r) d \<and> can_stand (regions st) (r_unit_type r) d \<and>
     d \<notin> region_id ` set (units (apply_movement_result st res)) \<and>
     \<not> standoff_at res d \<and> \<not> attacked_from res (r_region_id r) d"

lemma moved_order:
  assumes "resolve_movement st orders = Inr res" "a \<in> set (unit_results res)" "r_moved a"
  shows "r_order a = MoveOrder (r_region_id a) (r_final_region_id a)"
proof -
  obtain resolved where
    "r_moved a \<longleftrightarrow> (\<exists>d. moves (movement_env_of st orders) resolved (r_region_id a) d)"
    "\<forall>d. moves (movement_env_of st orders) resolved (r_region_id a) d \<longrightarrow> r_final_region_id a = d"
    using result_moves_iff [OF assms(1)] assms(2) by metis
  with assms(3) have "mover (movement_env_of st orders) (r_region_id a) (r_final_region_id a)"
    by (auto simp: moves_def)
  then obtain u where ord: "map_of (effective_orders st orders) (r_region_id a) = Some (MoveOrder u (r_final_region_id a))"
    by (auto simp: mover_def)
  then have "u = r_region_id a" using orders_ok_effective [of st orders] by (fastforce simp: orders_ok_def)
  with ord result_order_lookup [OF assms(1,2)] show ?thesis by simp
qed

lemma two_targets:
  assumes "distinct (map fst d)"
  shows "x \<in> contested_of d \<longleftrightarrow>
    (\<exists>r r' u v. map_of d r = Some (MoveOrder u x) \<and> map_of d r' = Some (MoveOrder v x) \<and> r \<noteq> r')"
proof -
  let ?ms = "filter (\<lambda>(r, ord). is_MoveOrder ord) d" and ?f = "\<lambda>(r, ord). destination_id ord"
  have dist: "distinct ?ms" using assms by (simp add: distinct_map)
  have mem: "(r, ord) \<in> set ?ms \<and> ?f (r, ord) = x \<longleftrightarrow> (\<exists>u. map_of d r = Some ord \<and> ord = MoveOrder u x)" for r ord
    using assms by (cases ord) auto
  have "x \<in> contested_of d \<longleftrightarrow> x \<in> ?f ` set ?ms \<and> 1 < count_list (map ?f ?ms) x"
    by (auto simp: contested_of_def Let_def)
  also have "\<dots> \<longleftrightarrow> (\<exists>p\<in>set ?ms. ?f p = x \<and> (\<exists>q\<in>set ?ms. q \<noteq> p \<and> ?f q = x))"
  proof -
    have "x \<in> ?f ` set ?ms \<and> 1 < count_list (map ?f ?ms) x \<longleftrightarrow>
        (\<exists>p\<in>set ?ms. ?f p = x \<and> 1 < count_list (map ?f ?ms) (?f p))" by blast
    also have "\<dots> \<longleftrightarrow> (\<exists>p\<in>set ?ms. ?f p = x \<and> (\<exists>q\<in>set ?ms. q \<noteq> p \<and> ?f q = ?f p))"
      using count_two [OF dist, of _ ?f] by (intro bex_cong refl conj_cong) blast+
    finally show ?thesis by metis
  qed
  also have "\<dots> \<longleftrightarrow> (\<exists>r r' u v. map_of d r = Some (MoveOrder u x) \<and> map_of d r' = Some (MoveOrder v x) \<and> r \<noteq> r')"
  proof
    assume "\<exists>p\<in>set ?ms. ?f p = x \<and> (\<exists>q\<in>set ?ms. q \<noteq> p \<and> ?f q = x)"
    then obtain r o1 r' o2 where "(r, o1) \<in> set ?ms \<and> ?f (r, o1) = x" "(r', o2) \<in> set ?ms \<and> ?f (r', o2) = x" "(r', o2) \<noteq> (r, o1)"
      by (auto simp del: set_filter)
    then show "\<exists>r r' u v. map_of d r = Some (MoveOrder u x) \<and> map_of d r' = Some (MoveOrder v x) \<and> r \<noteq> r'"
      unfolding mem by force
  next
    assume "\<exists>r r' u v. map_of d r = Some (MoveOrder u x) \<and> map_of d r' = Some (MoveOrder v x) \<and> r \<noteq> r'"
    then obtain r r' u v where m: "map_of d r = Some (MoveOrder u x)" "map_of d r' = Some (MoveOrder v x)" "r \<noteq> r'" by blast
    have "(r, MoveOrder u x) \<in> set ?ms \<and> ?f (r, MoveOrder u x) = x" unfolding mem using m(1) by simp
    moreover have "(r', MoveOrder v x) \<in> set ?ms \<and> ?f (r', MoveOrder v x) = x" unfolding mem using m(2) by simp
    ultimately show "\<exists>p\<in>set ?ms. ?f p = x \<and> (\<exists>q\<in>set ?ms. q \<noteq> p \<and> ?f q = x)"
      using m(3) by (intro bexI [of _ "(r, MoveOrder u x)"] conjI bexI [of _ "(r', MoveOrder v x)"]) simp_all
  qed
  finally show ?thesis .
qed

lemma contested_standoff:
  assumes res: "resolve_movement st orders = Inr res"
  shows "d \<in> contested_regions res \<longleftrightarrow> standoff_at res d"
proof -
  let ?eff = "effective_orders st orders"
  have entry: "(\<exists>a\<in>set (unit_results res). r_region_id a = r \<and> r_order a = ord) \<longleftrightarrow> map_of ?eff r = Some ord" for r ord
  proof
    assume "map_of ?eff r = Some ord"
    then have "r \<in> region_id ` set (units st)" by (auto simp: eff_lookup dest: ubr_lookup)
    then obtain a where "a \<in> set (unit_results res)" "r_region_id a = r" using result_moves_iff [OF res] by metis
    with result_order_lookup [OF res] \<open>map_of ?eff r = Some ord\<close>
    show "\<exists>a\<in>set (unit_results res). r_region_id a = r \<and> r_order a = ord" by fastforce
  qed (use result_order_lookup [OF res] in blast)
  have "distinct (map fst ?eff)" using ubr_ok [of st] by (simp only: eff_keys dict_ok_def)
  note two = two_targets [OF this, of d]
  have "contested_regions res = contested_of ?eff"
    using res by (rule movement_cases) (simp add: movement_of_def)
  then have "d \<in> contested_regions res \<longleftrightarrow>
      (\<exists>r r' u v. map_of ?eff r = Some (MoveOrder u d) \<and> map_of ?eff r' = Some (MoveOrder v d) \<and> r \<noteq> r')"
    using two by simp
  then show ?thesis unfolding standoff_at_def entry [symmetric] by blast
qed

lemma dislodged_attacker:
  assumes res: "resolve_movement st orders = Inr res" and r: "r \<in> set (dislodged_results res)"
  shows "r_dislodged_by r = Some d \<longleftrightarrow> attacked_from res (r_region_id r) d"
proof -
  have r': "r \<in> set (unit_results res)" "r_dislodged r" using r by (simp_all add: dislodged_results_def)
  from dislodged_result [OF res this] obtain a where
    a: "a \<in> set (unit_results res)" "r_moved a" "r_final_region_id a = r_region_id r" "r_dislodged_by r = Some (r_region_id a)" by blast
  have unique: "r_region_id b = r_region_id a"
    if b: "b \<in> set (unit_results res)" "r_moved b" "r_final_region_id b = r_region_id r" for b
  proof (rule ccontr)
    assume ne: "r_region_id b \<noteq> r_region_id a"
    note oa = moved_order [OF res a(1,2), unfolded a(3)] and ob = moved_order [OF res b(1,2), unfolded b(3)]
    from beaten_result [OF res a(1) oa b(1) ob ne [symmetric] a(2)] beaten_result [OF res b(1) ob a(1) oa ne b(2)]
    show False by simp
  qed
  then have "attacked_from res (r_region_id r) d \<longleftrightarrow> d = r_region_id a"
    unfolding attacked_from_def using a(1-3) by blast
  then show ?thesis using a(4) by auto
qed

lemma retreat_choice_legal:
  assumes res: "resolve_movement st orders = Inr res" and r: "r \<in> set (dislodged_results res)"
  shows "retreat_choice (apply_movement_result st res) res ords r = Some d \<longleftrightarrow> retreat_legal st res ords r d"
  using contested_standoff [OF res, of d] dislodged_attacker [OF res r, of d]
  by (auto simp: retreat_choice_Some retreat_allowed_conv retreat_legal_def final_positions_units [of res st])

section \<open>Properties of the retreat phase\<close>

text \<open>The army driven off the ridge in the skirmish has one retreat left: every other neighbour is
  occupied, contested, or where the attack came from.\<close>

definition skirmish_retreats :: "(string, RetreatOrder) dict" where
  "skirmish_retreats =
     [(''pale_ridge'', \<lparr>ro_unit_region_id = ''pale_ridge'', ro_destination_id = Some ''vet_shore''\<rparr>)]"

definition retreat_table :: "RetreatResult \<Rightarrow> (string \<times> string option \<times> bool) list" where
  "retreat_table rs = map (\<lambda>r. (rr_region_id r, rr_destination_id r, rr_destroyed r)) rs"

lemma skirmish_retreat_eval:
  "(case resolve_movement skirmish_board skirmish_orders of
      Inl _ \<Rightarrow> Inl KeyError
    | Inr res \<Rightarrow> map_sum id retreat_table
        (resolve_retreats (apply_movement_result skirmish_board res) res skirmish_retreats)) =
   Inr [(''pale_ridge'', Some ''vet_shore'', False)]"
  by code_simp

lemma skirmish_retreat:
  obtains rs rr st' where
    "resolve_retreats (apply_movement_result skirmish_board skirmish_result) skirmish_result
       skirmish_retreats = Inr rs"
    "rs = [rr]" "rr_region_id rr = ''pale_ridge''" "rr_destination_id rr = Some ''vet_shore''"
    "apply_retreat_result (apply_movement_result skirmish_board skirmish_result) rs = Inr st'"
proof -
  note ok = result_ok_movement [OF skirmish_resolves]
  obtain rs where rs: "resolve_retreats (apply_movement_result skirmish_board skirmish_result)
      skirmish_result skirmish_retreats = Inr rs"
    by (simp add: resolve_retreats_eq [OF ok])
  with skirmish_retreat_eval have "retreat_table rs = [(''pale_ridge'', Some ''vet_shore'', False)]"
    unfolding skirmish_resolves by simp
  with rs that apply_retreats_eq [OF ok rs] show ?thesis
    by (auto simp: retreat_table_def map_eq_Cons_conv)
qed

text \<open>Retreats keep the board sound: after the movement and the retreat phase there is still at
  most one unit in a region and every unit stands on terrain it can enter, whatever retreat orders
  were given; two units that ask for the same region both lose it.\<close>

theorem retreat_board:
  assumes "placement_ok st" and "resolve_movement st orders = Inr res"
    and "resolve_retreats (apply_movement_result st res) res ords = Inr rs"
    and "apply_retreat_result (apply_movement_result st res) rs = Inr st'"
  shows "occupancy_ok st' \<and> placement_ok st'"
  using retreat_occupancy_lemma [OF assms(2-4)] retreat_placement_lemma [OF assms(2,1,3,4)] by simp

theorem retreat_board_witness:
  "\<exists>rs st'. resolve_retreats (apply_movement_result skirmish_board skirmish_result) skirmish_result
       skirmish_retreats = Inr rs \<and>
     apply_retreat_result (apply_movement_result skirmish_board skirmish_result) rs = Inr st' \<and>
     occupancy_ok st' \<and> placement_ok st'"
  by (rule skirmish_retreat) (metis retreat_board [OF skirmish_boards(2) skirmish_resolves])

text \<open>C27: The retreat phase decides exactly by the rules: it always returns, with one result per
  dislodged unit in the order of their regions; a unit reaches the region it ordered if and only if
  it is a neighbour the unit can enter, no unit stands there after movement, no two units were both to move
  there, no unit moved from there into its own region, and no other dislodged unit has a legal order to it.
  Otherwise the unit is destroyed.\<close>

theorem retreat_rules:
  assumes "resolve_movement st orders = Inr res"
  shows "\<exists>rs. resolve_retreats (apply_movement_result st res) res ords = Inr rs \<and>
    map rr_region_id rs = map r_region_id (sort_key r_region_id (dislodged_results res)) \<and>
    (\<forall>rr\<in>set rs. \<exists>r\<in>set (dislodged_results res).
       r_region_id r = rr_region_id rr \<and> r_faction_id r = rr_faction_id rr \<and>
       r_unit_type r = rr_unit_type rr \<and> (rr_destroyed rr \<longleftrightarrow> rr_destination_id rr = None) \<and>
       (\<forall>d. rr_destination_id rr = Some d \<longleftrightarrow>
          retreat_legal st res ords r d \<and>
          (\<forall>r'\<in>set (dislodged_results res). r' \<noteq> r \<longrightarrow> \<not> retreat_legal st res ords r' d)))"
proof -
  let ?st = "apply_movement_result st res"
  have dest: "rr_destination_id (retreat_of ?st res ords r) = Some d \<longleftrightarrow> retreat_legal st res ords r d \<and>
      (\<forall>r'\<in>set (dislodged_results res). r' \<noteq> r \<longrightarrow> \<not> retreat_legal st res ords r' d)"
    if "r \<in> set (dislodged_results res)" for r d
    using retreat_choice_legal [OF assms] that by (simp add: retreat_of_destination)
  show ?thesis
    by (intro exI [of _ "map (retreat_of ?st res ords) (sort_key r_region_id (dislodged_results res))"] conjI)
      (auto simp: resolve_retreats_eq [OF result_ok_movement [OF assms]] comp_def dest)
qed

theorem retreat_rules_witness:
  "\<exists>r\<in>set (dislodged_results skirmish_result).
     retreat_legal skirmish_board skirmish_result skirmish_retreats r ''vet_shore''"
proof (rule skirmish_retreat)
  fix rs rr st'
  assume "resolve_retreats (apply_movement_result skirmish_board skirmish_result) skirmish_result
      skirmish_retreats = Inr rs" "rs = [rr]" "rr_destination_id rr = Some ''vet_shore''"
  with retreat_rules [OF skirmish_resolves, of skirmish_retreats] show ?thesis by auto
qed

text \<open>Retreats account for every unit: the units after the retreat phase are, by type and
  faction, the units that survived movement plus the dislodged units that were not destroyed.\<close>

theorem retreat_conserves_units:
  assumes "resolve_movement st orders = Inr res"
    and "resolve_retreats (apply_movement_result st res) res ords = Inr rs"
  shows "\<exists>st'. apply_retreat_result (apply_movement_result st res) rs = Inr st' \<and>
    mset (map (\<lambda>u. kind (unit_type u) (faction_id u)) (units st')) =
    mset (map (\<lambda>u. kind (unit_type u) (faction_id u)) (units (apply_movement_result st res))) +
    mset (map (\<lambda>r. kind (rr_unit_type r) (rr_faction_id r)) (filter (\<lambda>r. \<not> rr_destroyed r) rs))"
proof -
  note eq = apply_retreats_eq [OF result_ok_movement [OF assms(1)] assms(2)]
  show ?thesis by (simp add: eq retreaters_def comp_def multiset.map_comp)
qed

theorem retreat_conserves_units_witness:
  "\<exists>rs st'. resolve_retreats (apply_movement_result skirmish_board skirmish_result) skirmish_result
       skirmish_retreats = Inr rs \<and>
     apply_retreat_result (apply_movement_result skirmish_board skirmish_result) rs = Inr st' \<and>
     mset (map (\<lambda>u. kind (unit_type u) (faction_id u)) (units st')) =
       mset (map (\<lambda>u. kind (unit_type u) (faction_id u))
         (units (apply_movement_result skirmish_board skirmish_result))) +
       mset (map (\<lambda>r. kind (rr_unit_type r) (rr_faction_id r)) (filter (\<lambda>r. \<not> rr_destroyed r) rs))"
  by (rule skirmish_retreat) (use retreat_conserves_units [OF skirmish_resolves] in blast)

end
