(* ===== verification/Adjustment.thy ===== *)
theory Adjustment
  imports Board
begin

text \<open>
  Supply-center ownership and the adjustment phase of \<^verbatim>\<open>engine/adjudicator.py\<close>:
  \<open>update_supply_center_ownership\<close>, \<open>default_home_centers\<close>, \<open>compute_adjustment_deltas\<close>,
  \<open>resolve_adjustments\<close> (builds with their reasons of rejection, ordered and default disbands) and
  \<open>apply_adjustment_result\<close>. The properties say that ownership follows occupation, that builds are
  legal and as many as can be granted, and that afterwards no faction has more units than centers.
\<close>

section \<open>Supply-center ownership\<close>

definition update_supply_center_ownership :: "GameState \<Rightarrow> GameState" where
  "update_supply_center_ownership st =
     st\<lparr>supply_centers :=
       fold (\<lambda>u centers.
           case map_of (regions st) (region_id u) of
             Some reg \<Rightarrow> if is_supply_center reg then AList.update (region_id u) (faction_id u) centers else centers
           | None \<Rightarrow> centers)
         (sort_key region_id (units st)) (supply_centers st)\<rparr>"

text \<open>\<open>homes[faction_id].add(region_id)\<close> over the starting centers.\<close>

definition default_home_centers :: "(string, string set) dict" where
  "default_home_centers =
     fold (\<lambda>(r, f) homes. AList.update f (insert r (dict_get homes f {})) homes)
       STARTING_SUPPLY_CENTERS []"

section \<open>The adjustment phase\<close>

record BuildResult =
  br_faction_id :: string
  br_region_id :: string
  br_unit_type :: UnitType
  br_accepted :: bool
  br_reason :: string

record DisbandResult =
  dr_faction_id :: string
  dr_region_id :: string

record AdjustmentResult =
  ar_builds :: "BuildResult list"
  ar_disbands :: "DisbandResult list"

definition compute_adjustment_deltas :: "GameState \<Rightarrow> (string, int) dict" where
  "compute_adjustment_deltas st =
     dict_comp (\<lambda>f. f) (\<lambda>f. get_supply_center_count st f - int (length (get_units_for_faction st f)))
       (sort (dict_keys (factions st)))"

text \<open>The tests of the build loop in the order of its \<open>continue\<close> statements: the reason of the
  rejection, or \<open>None\<close> when the build is accepted.\<close>

definition build_refusal ::
    "GameState \<Rightarrow> (string, string set) dict \<Rightarrow> string set \<Rightarrow> string \<Rightarrow> int \<Rightarrow>
     string set \<Rightarrow> int \<Rightarrow> BuildOrder \<Rightarrow> string option" where
  "build_refusal st homes occupied f allowed used accepted_count order =
     (let r = bo_region_id order in
      if allowed \<le> accepted_count then Some ''build limit reached''
      else (case map_of (regions st) r of
          None \<Rightarrow> Some ''not a supply center''
        | Some reg \<Rightarrow>
            if \<not> is_supply_center reg then Some ''not a supply center''
            else if r \<notin> dict_get homes f {} then Some ''not a home center''
            else if map_of (supply_centers st) r \<noteq> Some f then Some ''center not controlled''
            else if r \<in> occupied \<or> r \<in> used then Some ''region occupied''
            else if bo_unit_type order = ARMY \<and> region_type reg = SEA then Some ''invalid terrain''
            else if bo_unit_type order = FLEET \<and> region_type reg = LAND then Some ''invalid terrain''
            else None))"

fun build_loop ::
    "GameState \<Rightarrow> (string, string set) dict \<Rightarrow> string set \<Rightarrow> string \<Rightarrow> int \<Rightarrow>
     string set \<Rightarrow> int \<Rightarrow> BuildOrder list \<Rightarrow> BuildResult list" where
  "build_loop st homes occupied f allowed used accepted_count [] = []"
| "build_loop st homes occupied f allowed used accepted_count (order # orders) =
     (case build_refusal st homes occupied f allowed used accepted_count order of
        Some reason \<Rightarrow>
          \<lparr>br_faction_id = f, br_region_id = bo_region_id order, br_unit_type = bo_unit_type order,
           br_accepted = False, br_reason = reason\<rparr>
          # build_loop st homes occupied f allowed used accepted_count orders
      | None \<Rightarrow>
          \<lparr>br_faction_id = f, br_region_id = bo_region_id order, br_unit_type = bo_unit_type order,
           br_accepted = True, br_reason = ''''\<rparr>
          # build_loop st homes occupied f allowed (insert (bo_region_id order) used)
              (accepted_count + 1) orders)"

text \<open>The two loops that fill \<open>chosen\<close>: the ordered disbands, then the default ones.\<close>

fun ordered_disbands :: "int \<Rightarrow> string list \<Rightarrow> DisbandOrder list \<Rightarrow> string list \<Rightarrow> string list" where
  "ordered_disbands required unit_regions [] chosen = chosen"
| "ordered_disbands required unit_regions (order # orders) chosen =
     (if required \<le> int (length chosen) then chosen
      else if do_region_id order \<in> set unit_regions \<and> do_region_id order \<notin> set chosen
      then ordered_disbands required unit_regions orders (chosen @ [do_region_id order])
      else ordered_disbands required unit_regions orders chosen)"

fun default_disbands :: "int \<Rightarrow> string list \<Rightarrow> string list \<Rightarrow> string list" where
  "default_disbands required [] chosen = chosen"
| "default_disbands required (r # rs) chosen =
     (if required \<le> int (length chosen) then chosen
      else default_disbands required rs (chosen @ [r]))"

definition faction_disbands :: "GameState \<Rightarrow> string \<Rightarrow> int \<Rightarrow> DisbandOrder list \<Rightarrow> DisbandResult list" where
  "faction_disbands st f required orders =
     (let unit_regions = map region_id (get_units_for_faction st f);
          chosen = ordered_disbands required unit_regions orders [];
          remaining = rev (sort (filter (\<lambda>r. r \<notin> set chosen) (remdups unit_regions)));
          chosen' = (if int (length chosen) < required then default_disbands required remaining chosen
                     else chosen)
      in map (\<lambda>r. \<lparr>dr_faction_id = f, dr_region_id = r\<rparr>) (sort chosen'))"

definition resolve_adjustments ::
    "GameState \<Rightarrow> BuildOrder list \<Rightarrow> DisbandOrder list \<Rightarrow> (string, string set) dict option \<Rightarrow> AdjustmentResult" where
  "resolve_adjustments st build_orders disband_orders home_centers =
     (let homes = (case home_centers of None \<Rightarrow> default_home_centers | Some h \<Rightarrow> h);
          deltas = compute_adjustment_deltas st;
          occupied = set (map region_id (units st));
          builds_by_faction = group_by bo_faction_id (\<lambda>b. b) build_orders;
          disbands_by_faction = group_by do_faction_id (\<lambda>d. d) disband_orders;
          faction_ids = sort (dict_keys (factions st))
      in \<lparr>ar_builds = concat (map (\<lambda>f.
             build_loop st homes occupied f (max (dict_get deltas f 0) 0) {} 0
               (dict_get builds_by_faction f [])) faction_ids),
          ar_disbands = concat (map (\<lambda>f.
             let required = max (- dict_get deltas f 0) 0
             in if required = 0 then []
                else faction_disbands st f required (dict_get disbands_by_faction f [])) faction_ids)\<rparr>)"

definition apply_adjustment_result :: "GameState \<Rightarrow> AdjustmentResult \<Rightarrow> GameState" where
  "apply_adjustment_result st result =
     (let disbanded = set (map dr_region_id (ar_disbands result));
          kept = filter (\<lambda>u. region_id u \<notin> disbanded) (units st);
          built = map (\<lambda>b. mk_unit (br_unit_type b) (br_faction_id b) (br_region_id b))
                    (filter br_accepted (ar_builds result))
      in st\<lparr>units := sort_key region_id (kept @ built)\<rparr>)"

section \<open>Ownership follows occupation\<close>

lemma ownership_fold:
  assumes "distinct (map region_id us)"
  shows "map_of (fold (\<lambda>u centers.
           case map_of regs (region_id u) of
             Some reg \<Rightarrow> if is_supply_center reg then AList.update (region_id u) (faction_id u) centers else centers
           | None \<Rightarrow> centers) us d) r =
    (case find (\<lambda>u. region_id u = r) us of
       Some u \<Rightarrow> if (\<exists>reg. map_of regs r = Some reg \<and> is_supply_center reg)
                 then Some (faction_id u) else map_of d r
     | None \<Rightarrow> map_of d r)"
  using assms
proof (induction us arbitrary: d)
  case Nil
  then show ?case by simp
next
  case (Cons u us)
  have "region_id u = r \<Longrightarrow> find (\<lambda>u. region_id u = r) us = None"
    using Cons.prems by (simp add: find_None_iff) (metis imageI)
  then show ?case
    using Cons by (auto simp: map_of_update split: option.splits)
qed

lemma find_key_iff:
  assumes "distinct (map f ys)"
  shows "find (\<lambda>x. f x = r) ys = Some x \<longleftrightarrow> x \<in> set ys \<and> f x = r"
  using assms
proof (induction ys)
  case Nil
  then show ?case by simp
next
  case (Cons y ys)
  then have "f z \<noteq> f y" if "z \<in> set ys" for z using that by (metis imageI distinct.simps(2) list.map(2) list.set_map)
  with Cons show ?case by auto
qed

lemma find_sort_key:
  assumes "distinct (map f xs)"
  shows "find (\<lambda>x. f x = r) (sort_key f xs) = find (\<lambda>x. f x = r) xs"
proof (cases "find (\<lambda>x. f x = r) xs")
  case None
  then have "find (\<lambda>x. f x = r) (sort_key f xs) = None" by (simp add: find_None_iff)
  with None show ?thesis by simp
next
  case (Some x)
  then have "x \<in> set (sort_key f xs) \<and> f x = r" using find_key_iff [OF assms] by simp
  moreover have "distinct (map f (sort_key f xs))" using assms by simp
  ultimately show ?thesis using Some find_key_iff by metis
qed

lemma regions_update_ownership [simp]:
  "regions (update_supply_center_ownership st) = regions st"
  "units (update_supply_center_ownership st) = units st"
  "factions (update_supply_center_ownership st) = factions st"
  by (simp_all add: update_supply_center_ownership_def)

lemma ownership_lookup:
  assumes "occupancy_ok st"
  shows "map_of (supply_centers (update_supply_center_ownership st)) r =
    (case get_unit_at st r of
       Some u \<Rightarrow> if (\<exists>reg. map_of (regions st) r = Some reg \<and> is_supply_center reg)
                 then Some (faction_id u) else map_of (supply_centers st) r
     | None \<Rightarrow> map_of (supply_centers st) r)"
proof -
  from assms have d: "distinct (map region_id (units st))" by (simp add: occupancy_ok_def)
  then have "distinct (map region_id (sort_key region_id (units st)))" by simp
  from ownership_fold [OF this, of "regions st" "supply_centers st" r] find_sort_key [OF d, of r]
  show ?thesis by (simp add: update_supply_center_ownership_def get_unit_at_def)
qed

section \<open>Builds\<close>

text \<open>What makes a build legal before the limit and the regions already used are looked at.\<close>

definition build_legal :: "GameState \<Rightarrow> (string, string set) dict \<Rightarrow> string \<Rightarrow> BuildOrder \<Rightarrow> bool" where
  "build_legal st homes f order \<longleftrightarrow>
     (let r = bo_region_id order in
      r \<in> dict_get homes f {} \<and> map_of (supply_centers st) r = Some f \<and>
      r \<notin> region_id ` set (units st) \<and> can_stand (regions st) (bo_unit_type order) r \<and>
      (\<exists>reg. map_of (regions st) r = Some reg \<and> is_supply_center reg))"

lemma build_refusal_None:
  "build_refusal st homes (set (map region_id (units st))) f allowed used n order = None \<longleftrightarrow>
     n < allowed \<and> build_legal st homes f order \<and> bo_region_id order \<notin> used"
  by (cases "bo_unit_type order"; cases "map_of (regions st) (bo_region_id order)")
    (auto simp: build_refusal_def build_legal_def Let_def can_stand_def)

definition accepted_regions :: "BuildResult list \<Rightarrow> string list" where
  "accepted_regions bs = map br_region_id (filter br_accepted bs)"

definition legal_regions :: "GameState \<Rightarrow> (string, string set) dict \<Rightarrow> string \<Rightarrow> BuildOrder list \<Rightarrow> string set" where
  "legal_regions st homes f orders = bo_region_id ` {order \<in> set orders. build_legal st homes f order}"

abbreviation builds_of ::
    "GameState \<Rightarrow> (string, string set) dict \<Rightarrow> string \<Rightarrow> int \<Rightarrow> string set \<Rightarrow> int \<Rightarrow> BuildOrder list \<Rightarrow> BuildResult list" where
  "builds_of st homes f allowed \<equiv> build_loop st homes (set (map region_id (units st))) f allowed"

lemma build_loop_orders:
  "map (\<lambda>b. (br_region_id b, br_unit_type b)) (builds_of st homes f allowed used n orders) =
     map (\<lambda>b. (bo_region_id b, bo_unit_type b)) orders"
  by (induction orders arbitrary: used n) (simp_all split: option.splits)

lemma build_loop_faction: "b \<in> set (builds_of st homes f allowed used n orders) \<Longrightarrow> br_faction_id b = f"
  by (induction orders arbitrary: used n) (auto split: option.splits)

lemma build_loop_accepted:
  "b \<in> set (builds_of st homes f allowed used n orders) \<Longrightarrow> br_accepted b \<Longrightarrow>
     build_legal st homes f \<lparr>bo_faction_id = f, bo_region_id = br_region_id b, bo_unit_type = br_unit_type b\<rparr>"
proof (induction orders arbitrary: used n)
  case Nil
  then show ?case by simp
next
  case (Cons order orders)
  show ?case
  proof (cases "build_refusal st homes (set (map region_id (units st))) f allowed used n order")
    case None
    then have "build_legal st homes f order" unfolding build_refusal_None by blast
    with None Cons show ?thesis by (auto simp: build_legal_def)
  qed (use Cons in auto)
qed

lemma build_loop_distinct:
  "distinct (accepted_regions (builds_of st homes f allowed used n orders)) \<and>
   set (accepted_regions (builds_of st homes f allowed used n orders)) \<inter> used = {}"
proof (induction orders arbitrary: used n)
  case Nil
  then show ?case by (simp add: accepted_regions_def)
next
  case (Cons order orders)
  show ?case
  proof (cases "build_refusal st homes (set (map region_id (units st))) f allowed used n order")
    case None
    then have "bo_region_id order \<notin> used" unfolding build_refusal_None by blast
    with None Cons [of "insert (bo_region_id order) used" "n + 1"] show ?thesis
      by (auto simp: accepted_regions_def)
  qed (use Cons in \<open>simp add: accepted_regions_def\<close>)
qed

text \<open>The greedy loop grants as many builds as the limit and the legal regions allow.\<close>

lemma build_loop_count:
  assumes "n \<le> allowed" and "finite used"
  shows "int (length (accepted_regions (builds_of st homes f allowed used n orders))) =
    min (allowed - n) (int (card (legal_regions st homes f orders - used)))"
  using assms
proof (induction orders arbitrary: used n)
  case Nil
  then show ?case by (simp add: accepted_regions_def legal_regions_def)
next
  case (Cons order orders)
  let ?r = "bo_region_id order" and ?L = "legal_regions st homes f orders"
  have fin: "finite ?L" by (simp add: legal_regions_def)
  have L: "legal_regions st homes f (order # orders) =
      (if build_legal st homes f order then insert ?r ?L else ?L)"
    by (auto simp: legal_regions_def)
  show ?case
  proof (cases "build_refusal st homes (set (map region_id (units st))) f allowed used n order")
    case None
    then have ok: "n < allowed" "build_legal st homes f order" "?r \<notin> used"
      unfolding build_refusal_None by blast+
    have "insert ?r ?L - used = insert ?r (?L - insert ?r used)" using ok(3) by auto
    then have "card (insert ?r ?L - used) = Suc (card (?L - insert ?r used))" using fin by simp
    with None ok Cons.IH [of "n + 1" "insert ?r used"] Cons.prems show ?thesis
      by (simp add: accepted_regions_def L)
  next
    case (Some reason)
    then have "\<not> (n < allowed \<and> build_legal st homes f order \<and> ?r \<notin> used)"
      using build_refusal_None by (metis option.distinct(1))
    then consider "n = allowed" | "\<not> build_legal st homes f order" | "?r \<in> used"
      using Cons.prems(1) by linarith
    then show ?thesis
      using Cons.IH [OF Cons.prems] Some
      by cases (auto simp: accepted_regions_def L insert_Diff_if)
  qed
qed

section \<open>Disbands\<close>

lemma ordered_disbands_spec:
  assumes "distinct chosen" "set chosen \<subseteq> set regs" "int (length chosen) \<le> required"
  shows "distinct (ordered_disbands required regs orders chosen) \<and>
    set (ordered_disbands required regs orders chosen) \<subseteq> set regs \<and>
    int (length (ordered_disbands required regs orders chosen)) \<le> required"
  using assms by (induction orders arbitrary: chosen) auto

lemma default_disbands_take:
  "int (length chosen) \<le> required \<Longrightarrow>
   default_disbands required rs chosen = chosen @ take (nat required - length chosen) rs"
proof (induction rs arbitrary: chosen)
  case Nil
  then show ?case by simp
next
  case (Cons r rs)
  show ?case
  proof (cases "required \<le> int (length chosen)")
    case True
    then show ?thesis using Cons.prems by simp
  next
    case False
    then have "nat required - length chosen = Suc (nat required - length (chosen @ [r]))" by simp
    with False Cons.IH [of "chosen @ [r]"] show ?thesis by simp
  qed
qed

text \<open>A faction that owes \<open>required\<close> disbands loses exactly that many different units of its own.\<close>

lemma faction_disbands_spec:
  assumes occ: "occupancy_ok st" and req: "0 \<le> required"
    and le: "required \<le> int (length (get_units_for_faction st f))"
  shows "distinct (map dr_region_id (faction_disbands st f required orders)) \<and>
    set (map dr_region_id (faction_disbands st f required orders)) \<subseteq> region_id ` set (get_units_for_faction st f) \<and>
    int (length (faction_disbands st f required orders)) = required"
proof -
  let ?regs = "map region_id (get_units_for_faction st f)"
  let ?c = "ordered_disbands required ?regs orders []"
  let ?rem = "rev (sort (filter (\<lambda>r. r \<notin> set ?c) (remdups ?regs)))"
  let ?d = "if int (length ?c) < required then default_disbands required ?rem ?c else ?c"
  have regs: "distinct ?regs"
    using occ by (simp add: occupancy_ok_def get_units_for_faction_def distinct_map_filterI)
  have c: "distinct ?c" "set ?c \<subseteq> set ?regs" "int (length ?c) \<le> required"
    using ordered_disbands_spec [of "[]" ?regs required orders] req by auto
  have "card (set ?regs - set ?c) = length ?regs - length ?c"
    using c regs by (simp add: card_Diff_subset distinct_card del: set_map)
  moreover have "length ?rem = card (set ?regs - set ?c)"
    by (simp add: distinct_card [symmetric] set_diff_eq del: set_map)
  ultimately have rem: "length ?rem = length ?regs - length ?c" by simp
  have "distinct ?d \<and> set ?d \<subseteq> set ?regs \<and> int (length ?d) = required"
  proof (cases "int (length ?c) < required")
    case True
    have dd: "default_disbands required ?rem ?c = ?c @ take (nat required - length ?c) ?rem"
      by (rule default_disbands_take [OF c(3)])
    have "set (take k ?rem) \<subseteq> set ?regs - set ?c" for k
      using set_take_subset [of k ?rem] by auto
    then have "distinct (?c @ take (nat required - length ?c) ?rem)"
      and "set (?c @ take (nat required - length ?c) ?rem) \<subseteq> set ?regs"
      using c by (auto simp del: set_map)
    moreover have "int (length (?c @ take (nat required - length ?c) ?rem)) = required"
      using True le rem by simp
    ultimately show ?thesis using True by (simp only: dd if_True)
  qed (use c in auto)
  then show ?thesis by (simp add: faction_disbands_def Let_def comp_def del: set_map) auto
qed

section \<open>All factions together\<close>

lemma filter_concat_key:
  assumes "distinct ks" "k \<in> set ks" "\<And>k x. k \<in> set ks \<Longrightarrow> x \<in> set (g k) \<Longrightarrow> key x = k"
  shows "filter (\<lambda>x. key x = k) (concat (map g ks)) = g k"
  using assms
proof (induction ks)
  case Nil
  then show ?case by simp
next
  case (Cons a ks)
  have own: "filter (\<lambda>x. key x = k) (g j) = (if j = k then g j else [])" if "j \<in> set (a # ks)" for j
    using Cons.prems(3) [OF that] by (auto intro: filter_True simp: filter_empty_conv)
  have rest: "k \<notin> set ks \<Longrightarrow> filter (\<lambda>x. key x = k) (concat (map g ks)) = []"
    using Cons.prems(3) by (fastforce simp: filter_empty_conv)
  show ?case
  proof (cases "a = k")
    case True
    with Cons.prems(1) own [of a] rest show ?thesis by simp
  next
    case False
    with Cons own [of a] show ?thesis by simp
  qed
qed

lemma distinct_concat_key:
  assumes "distinct ks" "\<And>k. k \<in> set ks \<Longrightarrow> distinct (g k)"
    "\<And>k x. k \<in> set ks \<Longrightarrow> x \<in> set (g k) \<Longrightarrow> key x = k"
  shows "distinct (concat (map g ks))"
  using assms
proof (induction ks)
  case Nil
  then show ?case by simp
next
  case (Cons a ks)
  have "x \<notin> set (concat (map g ks))" if "x \<in> set (g a)" for x
  proof
    assume "x \<in> set (concat (map g ks))"
    then obtain k where "k \<in> set ks" "x \<in> set (g k)" by auto
    then have "k = a" using Cons.prems(3) [of k x] Cons.prems(3) [of a x] \<open>x \<in> set (g a)\<close> by simp
    with \<open>k \<in> set ks\<close> Cons.prems(1) show False by simp
  qed
  then have "set (g a) \<inter> set (concat (map g ks)) = {}" by (simp only: disjoint_iff) blast
  moreover have "distinct (concat (map g ks))"
    using Cons.prems by (intro Cons.IH) auto
  ultimately show ?case using Cons.prems(2) by simp
qed

definition home_table :: "(string, string set) dict option \<Rightarrow> (string, string set) dict" where
  "home_table home_centers = (case home_centers of None \<Rightarrow> default_home_centers | Some h \<Rightarrow> h)"

definition delta_of :: "GameState \<Rightarrow> string \<Rightarrow> int" where
  "delta_of st f = get_supply_center_count st f - int (length (get_units_for_faction st f))"

definition faction_builds ::
    "GameState \<Rightarrow> BuildOrder list \<Rightarrow> (string, string set) dict option \<Rightarrow> string \<Rightarrow> BuildResult list" where
  "faction_builds st bos hc f =
     builds_of st (home_table hc) f (max (delta_of st f) 0) {} 0 (filter (\<lambda>b. bo_faction_id b = f) bos)"

definition disbands_of :: "GameState \<Rightarrow> DisbandOrder list \<Rightarrow> string \<Rightarrow> DisbandResult list" where
  "disbands_of st dos f =
     (if 0 \<le> delta_of st f then []
      else faction_disbands st f (- delta_of st f) (filter (\<lambda>d. do_faction_id d = f) dos))"

lemma deltas_lookup:
  "f \<in> set (dict_keys (factions st)) \<Longrightarrow> dict_get (compute_adjustment_deltas st) f 0 = delta_of st f"
proof -
  assume "f \<in> set (dict_keys (factions st))"
  then have "find (\<lambda>x. x = f) (rev (sort (dict_keys (factions st)))) = Some f"
    by (cases "find (\<lambda>x. x = f) (rev (sort (dict_keys (factions st))))")
      (auto simp: find_None_iff find_Some_iff)
  then show ?thesis
    by (simp add: compute_adjustment_deltas_def dict_get_def map_of_dict_comp delta_of_def)
qed

lemma resolve_adjustments_eq:
  "ar_builds (resolve_adjustments st bos dos hc) =
     concat (map (faction_builds st bos hc) (sort (dict_keys (factions st))))"
  "ar_disbands (resolve_adjustments st bos dos hc) =
     concat (map (disbands_of st dos) (sort (dict_keys (factions st))))"
proof -
  let ?ks = "sort (dict_keys (factions st))"
  have "ar_builds (resolve_adjustments st bos dos hc) = concat (map (\<lambda>f.
      builds_of st (home_table hc) f (max (dict_get (compute_adjustment_deltas st) f 0) 0) {} 0
        (filter (\<lambda>b. bo_faction_id b = f) bos)) ?ks)"
    by (simp add: resolve_adjustments_def Let_def home_table_def dict_get_group_by)
  also have "map (\<lambda>f.
      builds_of st (home_table hc) f (max (dict_get (compute_adjustment_deltas st) f 0) 0) {} 0
        (filter (\<lambda>b. bo_faction_id b = f) bos)) ?ks = map (faction_builds st bos hc) ?ks"
    by (rule map_cong) (simp_all add: deltas_lookup faction_builds_def)
  finally show "ar_builds (resolve_adjustments st bos dos hc) = concat (map (faction_builds st bos hc) ?ks)" .
  have "(let required = max (- dict_get (compute_adjustment_deltas st) f 0) 0
      in if required = 0 then []
         else faction_disbands st f required (dict_get (group_by do_faction_id (\<lambda>d. d) dos) f [])) =
      disbands_of st dos f" if "f \<in> set ?ks" for f
    using that by (auto simp: deltas_lookup disbands_of_def dict_get_group_by max_def)
  then have "map (\<lambda>f. let required = max (- dict_get (compute_adjustment_deltas st) f 0) 0
      in if required = 0 then []
         else faction_disbands st f required (dict_get (group_by do_faction_id (\<lambda>d. d) dos) f [])) ?ks =
      map (disbands_of st dos) ?ks" by (intro map_cong) auto
  from arg_cong [OF this, of concat] show "ar_disbands (resolve_adjustments st bos dos hc) = concat (map (disbands_of st dos) ?ks)"
    by (simp add: resolve_adjustments_def Let_def)
qed

lemma supply_center_count_nonneg: "0 \<le> get_supply_center_count st f"
  by (simp add: get_supply_center_count_def)

lemma disbands_of_spec:
  assumes "occupancy_ok st"
  shows "distinct (map dr_region_id (disbands_of st dos f)) \<and>
    set (map dr_region_id (disbands_of st dos f)) \<subseteq> region_id ` set (get_units_for_faction st f) \<and>
    int (length (disbands_of st dos f)) = max (- delta_of st f) 0"
proof (cases "0 \<le> delta_of st f")
  case True
  then show ?thesis by (simp add: disbands_of_def)
next
  case False
  moreover have "- delta_of st f \<le> int (length (get_units_for_faction st f))"
    using supply_center_count_nonneg [of st f] by (simp add: delta_of_def)
  ultimately show ?thesis
    using faction_disbands_spec [OF assms, of "- delta_of st f" f] by (simp add: disbands_of_def)
qed

lemma faction_builds_accepted:
  assumes "b \<in> set (faction_builds st bos hc f)" "br_accepted b"
  shows "build_legal st (home_table hc) f
    \<lparr>bo_faction_id = f, bo_region_id = br_region_id b, bo_unit_type = br_unit_type b\<rparr>"
  using assms unfolding faction_builds_def by (rule build_loop_accepted)

lemma faction_builds_faction: "b \<in> set (faction_builds st bos hc f) \<Longrightarrow> br_faction_id b = f"
  by (simp add: faction_builds_def build_loop_faction)

lemma faction_builds_count:
  "int (length (accepted_regions (faction_builds st bos hc f))) =
     min (max (delta_of st f) 0)
       (int (card (legal_regions st (home_table hc) f (filter (\<lambda>b. bo_faction_id b = f) bos))))"
  using build_loop_count [of 0 "max (delta_of st f) 0" "{}" st "home_table hc" f]
  by (simp add: faction_builds_def)

text \<open>All accepted builds stand in different regions: each region has one owner.\<close>

lemma accepted_builds_distinct:
  assumes "dict_ok (factions st)"
  shows "distinct (accepted_regions (ar_builds (resolve_adjustments st bos dos hc)))"
proof -
  have "accepted_regions (ar_builds (resolve_adjustments st bos dos hc)) =
      concat (map (\<lambda>f. accepted_regions (faction_builds st bos hc f)) (sort (dict_keys (factions st))))"
    by (simp add: resolve_adjustments_eq accepted_regions_def map_concat filter_concat comp_def)
  moreover have "distinct \<dots>"
  proof (rule distinct_concat_key [where key = "\<lambda>r. the (map_of (supply_centers st) r)"])
    show "distinct (sort (dict_keys (factions st)))"
      using assms by (simp add: dict_ok_def dict_keys_def)
    fix f assume "f \<in> set (sort (dict_keys (factions st)))"
    show "distinct (accepted_regions (faction_builds st bos hc f))"
      using build_loop_distinct by (metis faction_builds_def)
    fix r assume "r \<in> set (accepted_regions (faction_builds st bos hc f))"
    then obtain b where "b \<in> set (faction_builds st bos hc f)" "br_accepted b" "r = br_region_id b"
      by (auto simp: accepted_regions_def)
    from faction_builds_accepted [OF this(1,2)] this(3)
    show "the (map_of (supply_centers st) r) = f" by (simp add: build_legal_def Let_def)
  qed
  ultimately show ?thesis by simp
qed

lemma build_entry:
  assumes "b \<in> set (ar_builds (resolve_adjustments st bos dos hc))"
  shows "b \<in> set (faction_builds st bos hc (br_faction_id b))"
    and "br_faction_id b \<in> set (dict_keys (factions st))"
  using assms faction_builds_faction by (auto simp: resolve_adjustments_eq)

section \<open>Applying the adjustments\<close>

lemma length_filter_removed:
  assumes "distinct (map f xs)" "distinct ds" "set ds \<subseteq> f ` set xs"
  shows "int (length (filter (\<lambda>x. f x \<notin> set ds) xs)) = int (length xs) - int (length ds)"
proof -
  have "distinct (map f (filter (\<lambda>x. f x \<notin> set ds) xs))" using assms(1) by (rule distinct_map_filterI)
  then have "length (filter (\<lambda>x. f x \<notin> set ds) xs) = card (f ` set (filter (\<lambda>x. f x \<notin> set ds) xs))"
    by (metis distinct_card length_map list.set_map)
  also have "f ` set (filter (\<lambda>x. f x \<notin> set ds) xs) = f ` set xs - set ds" by auto
  also have "card (f ` set xs - set ds) = card (f ` set xs) - card (set ds)"
    by (rule card_Diff_subset) (use assms(3) in simp_all)
  also have "card (f ` set xs) = length xs" using assms(1) by (metis distinct_card length_map list.set_map)
  finally have "length (filter (\<lambda>x. f x \<notin> set ds) xs) = length xs - length ds"
    by (simp add: distinct_card assms(2))
  moreover have "length ds \<le> length xs"
    using assms by (metis card_length card_mono distinct_card finite_set le_trans length_map list.set_map)
  ultimately show ?thesis by simp
qed

lemma disbanded_own:
  assumes "occupancy_ok st" "u \<in> set (units st)" "faction_id u \<in> set (dict_keys (factions st))"
  shows "region_id u \<in> set (map dr_region_id (ar_disbands (resolve_adjustments st bos dos hc))) \<longleftrightarrow>
    region_id u \<in> set (map dr_region_id (disbands_of st dos (faction_id u)))"
proof
  assume "region_id u \<in> set (map dr_region_id (ar_disbands (resolve_adjustments st bos dos hc)))"
  then obtain f where f: "region_id u \<in> set (map dr_region_id (disbands_of st dos f))"
    by (auto simp: resolve_adjustments_eq)
  then have "region_id u \<in> region_id ` set (get_units_for_faction st f)"
    using disbands_of_spec [OF assms(1), of dos f] by blast
  then obtain v where v: "v \<in> set (units st)" "faction_id v = f" "region_id v = region_id u"
    by (auto simp: get_units_for_faction_def)
  then have "v = u" using assms(1,2) by (auto simp: occupancy_ok_def distinct_map dest: inj_onD)
  with f v show "region_id u \<in> set (map dr_region_id (disbands_of st dos (faction_id u)))" by simp
next
  assume "region_id u \<in> set (map dr_region_id (disbands_of st dos (faction_id u)))"
  with assms(3) show "region_id u \<in> set (map dr_region_id (ar_disbands (resolve_adjustments st bos dos hc)))"
    by (auto simp: resolve_adjustments_eq)
qed

lemma units_of_adjusted:
  assumes occ: "occupancy_ok st" and fac: "dict_ok (factions st)" and f: "f \<in> set (dict_keys (factions st))"
  shows "int (length (get_units_for_faction
      (apply_adjustment_result st (resolve_adjustments st bos dos hc)) f)) =
    int (length (get_units_for_faction st f)) - int (length (disbands_of st dos f)) +
    int (length (accepted_regions (faction_builds st bos hc f)))"
proof -
  let ?res = "resolve_adjustments st bos dos hc"
  let ?D = "set (map dr_region_id (ar_disbands ?res))" and ?Df = "set (map dr_region_id (disbands_of st dos f))"
  have "filter (\<lambda>u. faction_id u = f) (filter (\<lambda>u. region_id u \<notin> ?D) (units st)) =
      filter (\<lambda>u. region_id u \<notin> ?Df) (get_units_for_faction st f)"
    using disbanded_own [OF occ, of _ bos dos hc] f
    unfolding get_units_for_faction_def filter_filter by (intro filter_cong) auto
  moreover have "int (length (filter (\<lambda>u. region_id u \<notin> ?Df) (get_units_for_faction st f))) =
      int (length (get_units_for_faction st f)) - int (length (map dr_region_id (disbands_of st dos f)))"
    using occ disbands_of_spec [OF occ, of dos f]
    by (intro length_filter_removed)
      (auto simp: occupancy_ok_def get_units_for_faction_def distinct_map_filterI)
  moreover have "length (filter (\<lambda>u. faction_id u = f)
      (map (\<lambda>b. mk_unit (br_unit_type b) (br_faction_id b) (br_region_id b)) (filter br_accepted (ar_builds ?res)))) =
      length (accepted_regions (filter (\<lambda>b. br_faction_id b = f) (ar_builds ?res)))"
    by (simp add: accepted_regions_def filter_map comp_def conj_commute)
  moreover have "filter (\<lambda>b. br_faction_id b = f) (ar_builds ?res) = faction_builds st bos hc f"
    unfolding resolve_adjustments_eq
    by (rule filter_concat_key)
      (use fac f faction_builds_faction in \<open>auto simp: dict_ok_def dict_keys_def\<close>)
  moreover have "length (get_units_for_faction (apply_adjustment_result st ?res) f) =
      length (filter (\<lambda>u. faction_id u = f) (filter (\<lambda>u. region_id u \<notin> ?D) (units st))) +
      length (filter (\<lambda>u. faction_id u = f)
        (map (\<lambda>b. mk_unit (br_unit_type b) (br_faction_id b) (br_region_id b)) (filter br_accepted (ar_builds ?res))))"
    unfolding get_units_for_faction_def apply_adjustment_result_def Let_def
    by (simp add: length_filter_sort_key del: set_map)
  ultimately show ?thesis by simp
qed

lemma adjustment_occupancy_lemma:
  assumes occ: "occupancy_ok st" and fac: "dict_ok (factions st)"
  shows "occupancy_ok (apply_adjustment_result st (resolve_adjustments st bos dos hc))"
proof -
  let ?res = "resolve_adjustments st bos dos hc"
  have "accepted_regions (ar_builds ?res) =
      map region_id (map (\<lambda>b. mk_unit (br_unit_type b) (br_faction_id b) (br_region_id b))
        (filter br_accepted (ar_builds ?res)))"
    by (simp add: accepted_regions_def comp_def)
  moreover have "r \<notin> region_id ` set (units st)" if "r \<in> set (accepted_regions (ar_builds ?res))" for r
  proof -
    from that obtain b where b: "b \<in> set (ar_builds ?res)" "br_accepted b" "r = br_region_id b"
      by (auto simp: accepted_regions_def)
    from faction_builds_accepted [OF build_entry(1) [OF b(1)] b(2)] b(3)
    show ?thesis by (simp add: build_legal_def Let_def)
  qed
  ultimately show ?thesis
    using accepted_builds_distinct [OF fac, of bos dos hc] occ
    by (auto simp: occupancy_ok_def apply_adjustment_result_def Let_def distinct_map_filterI)
qed

lemma adjustment_placement_lemma:
  assumes "placement_ok st"
  shows "placement_ok (apply_adjustment_result st (resolve_adjustments st bos dos hc))"
proof -
  let ?res = "resolve_adjustments st bos dos hc"
  have "can_stand (regions st) (br_unit_type b) (br_region_id b)"
    if "b \<in> set (ar_builds ?res)" "br_accepted b" for b
    using faction_builds_accepted [OF build_entry(1) [OF that(1)] that(2)]
    by (simp add: build_legal_def Let_def)
  with assms show ?thesis
    by (auto simp: placement_ok_def list_all_iff apply_adjustment_result_def Let_def)
qed

lemma apply_adjustment_same [simp]:
  "regions (apply_adjustment_result st res) = regions st"
  "factions (apply_adjustment_result st res) = factions st"
  "supply_centers (apply_adjustment_result st res) = supply_centers st"
  by (simp_all add: apply_adjustment_result_def Let_def)

section \<open>Properties of ownership and adjustments\<close>

text \<open>A board on which Vethara may build one unit and Thornveil, with a third unit abroad, owes one.\<close>

definition winter_board :: GameState where
  "winter_board = create_default_map\<lparr>units :=
     [mk_unit ARMY ''vet'' ''stormveil'', mk_unit ARMY ''thr'' ''thr_heart'',
      mk_unit FLEET ''thr'' ''thr_cove'', mk_unit ARMY ''thr'' ''dsk_mire'']\<rparr>"

definition winter_builds :: "BuildOrder list" where
  "winter_builds =
     [\<lparr>bo_faction_id = ''vet'', bo_region_id = ''thr_heart'', bo_unit_type = ARMY\<rparr>,
      \<lparr>bo_faction_id = ''vet'', bo_region_id = ''vet_peak'', bo_unit_type = ARMY\<rparr>,
      \<lparr>bo_faction_id = ''vet'', bo_region_id = ''vet_shore'', bo_unit_type = FLEET\<rparr>]"

lemma winter_ok:
  "occupancy_ok winter_board" "placement_ok winter_board" "dict_ok (factions winter_board)"
  by code_simp+

text \<open>Centers belong to whoever stands on them: after \<open>update_supply_center_ownership\<close> the owner
  of a center occupied by a unit is that unit's faction, and every other entry is unchanged.\<close>

theorem ownership_follows_occupation:
  assumes "occupancy_ok st"
  shows "map_of (supply_centers (update_supply_center_ownership st)) r =
    (case get_unit_at st r of
       Some u \<Rightarrow> if (\<exists>reg. map_of (regions st) r = Some reg \<and> is_supply_center reg)
                 then Some (faction_id u) else map_of (supply_centers st) r
     | None \<Rightarrow> map_of (supply_centers st) r)"
  using assms by (rule ownership_lookup)

theorem ownership_follows_occupation_witness:
  "map_of (supply_centers (update_supply_center_ownership winter_board)) ''dsk_mire'' = Some ''thr''"
proof -
  have "get_unit_at winter_board ''dsk_mire'' = Some (mk_unit ARMY ''thr'' ''dsk_mire'')"
    "map_option is_supply_center (map_of (regions winter_board) ''dsk_mire'') = Some True"
    by code_simp+
  with ownership_follows_occupation [OF winter_ok(1), of "''dsk_mire''"] show ?thesis by auto
qed

text \<open>C28: Adjustments balance the books: with \<open>c\<close> centers and \<open>n\<close> units, a faction with too many
  units ends with exactly \<open>c\<close>; otherwise it gains as many units as the surplus and the number of
  distinct home regions for which it sent a legal build order allow. So it never has more units than
  centers afterwards, and no legal build is refused while the surplus lasts.\<close>

theorem adjustment_balance:
  assumes "occupancy_ok st" and "dict_ok (factions st)" and "f \<in> set (dict_keys (factions st))"
  shows "int (length (get_units_for_faction
      (apply_adjustment_result st (resolve_adjustments st bos dos hc)) f)) =
    (let c = get_supply_center_count st f; n = int (length (get_units_for_faction st f)) in
     if c \<le> n then c
     else n + min (c - n) (int (card
       (legal_regions st (home_table hc) f (filter (\<lambda>b. bo_faction_id b = f) bos)))))"
  using units_of_adjusted [OF assms] disbands_of_spec [OF assms(1), of dos f] faction_builds_count [of st bos hc f]
  by (simp add: Let_def delta_of_def)

theorem adjustment_balance_witness:
  "int (length (get_units_for_faction (apply_adjustment_result winter_board
     (resolve_adjustments winter_board winter_builds [] None)) ''thr'')) = 2"
proof -
  have thr: "''thr'' \<in> set (dict_keys (factions winter_board))" by code_simp
  have "get_supply_center_count winter_board ''thr'' = 2"
    "length (get_units_for_faction winter_board ''thr'') = 3" by code_simp+
  with adjustment_balance [OF winter_ok(1,3) thr, of winter_builds "[]" None] show ?thesis
    by (simp add: Let_def)
qed

text \<open>C29: Every accepted build is legal: it was ordered, in a home center that the faction controls,
  empty, and with terrain the unit can stand on; no two accepted builds share a region; and every
  build order of a faction on the board is answered exactly once, in order.\<close>

theorem adjustment_builds_legal:
  assumes "dict_ok (factions st)"
  shows "(\<forall>b\<in>set (ar_builds (resolve_adjustments st bos dos hc)). br_accepted b \<longrightarrow>
      build_legal st (home_table hc) (br_faction_id b)
        \<lparr>bo_faction_id = br_faction_id b, bo_region_id = br_region_id b, bo_unit_type = br_unit_type b\<rparr>) \<and>
    distinct (accepted_regions (ar_builds (resolve_adjustments st bos dos hc))) \<and>
    (\<forall>f\<in>set (dict_keys (factions st)).
      map (\<lambda>b. (br_region_id b, br_unit_type b))
        (filter (\<lambda>b. br_faction_id b = f) (ar_builds (resolve_adjustments st bos dos hc))) =
      map (\<lambda>b. (bo_region_id b, bo_unit_type b)) (filter (\<lambda>b. bo_faction_id b = f) bos))"
proof (intro conjI ballI impI)
  fix b assume "b \<in> set (ar_builds (resolve_adjustments st bos dos hc))" "br_accepted b"
  then show "build_legal st (home_table hc) (br_faction_id b)
      \<lparr>bo_faction_id = br_faction_id b, bo_region_id = br_region_id b, bo_unit_type = br_unit_type b\<rparr>"
    by (blast intro: faction_builds_accepted build_entry)
next
  show "distinct (accepted_regions (ar_builds (resolve_adjustments st bos dos hc)))"
    by (rule accepted_builds_distinct [OF assms])
next
  fix f assume "f \<in> set (dict_keys (factions st))"
  then have "filter (\<lambda>b. br_faction_id b = f) (ar_builds (resolve_adjustments st bos dos hc)) =
      faction_builds st bos hc f"
    unfolding resolve_adjustments_eq using assms faction_builds_faction
    by (intro filter_concat_key) (auto simp: dict_ok_def dict_keys_def)
  then show "map (\<lambda>b. (br_region_id b, br_unit_type b))
        (filter (\<lambda>b. br_faction_id b = f) (ar_builds (resolve_adjustments st bos dos hc))) =
      map (\<lambda>b. (bo_region_id b, bo_unit_type b)) (filter (\<lambda>b. bo_faction_id b = f) bos)"
    by (simp only: faction_builds_def build_loop_orders)
qed

theorem adjustment_builds_legal_witness:
  "map (\<lambda>b. (br_region_id b, br_unit_type b)) (filter (\<lambda>b. br_faction_id b = ''vet'')
     (ar_builds (resolve_adjustments winter_board winter_builds [] None))) =
   [(''thr_heart'', ARMY), (''vet_peak'', ARMY), (''vet_shore'', FLEET)]"
proof -
  have "''vet'' \<in> set (dict_keys (factions winter_board))" by code_simp
  with adjustment_builds_legal [OF winter_ok(3), of winter_builds "[]" None]
  show ?thesis by (simp add: winter_builds_def)
qed

text \<open>Adjustments keep the board sound: at most one unit in a region, and every unit on terrain
  it can enter, whatever builds and disbands were ordered.\<close>

theorem adjustment_board:
  assumes "occupancy_ok st" and "placement_ok st" and "dict_ok (factions st)"
  shows "occupancy_ok (apply_adjustment_result st (resolve_adjustments st bos dos hc)) \<and>
    placement_ok (apply_adjustment_result st (resolve_adjustments st bos dos hc))"
  using adjustment_occupancy_lemma [OF assms(1,3)] adjustment_placement_lemma [OF assms(2)] by simp

theorem adjustment_board_witness:
  "occupancy_ok (apply_adjustment_result winter_board
     (resolve_adjustments winter_board winter_builds [] None))"
  using adjustment_board [OF winter_ok] by simp

end
