(* ===== verification/Turn.thy ===== *)
theory Turn
  imports Retreat Adjustment
begin

text \<open>
  What one call of \<open>MatchCoordinator.advance_phase\<close> (\<^verbatim>\<open>coordinator/match.py\<close>) computes on the board:
  the movement branch, the retreat branch (which adjudicates the movement again from the state at the
  start of the turn) and the adjustment branch. The locale \<open>board_phase\<close> is the contract the
  coordinator relies on: a phase always returns, keeps the board sound and does not touch the map.
\<close>

section \<open>The contract of a phase\<close>

definition board_ok :: "GameState \<Rightarrow> bool" where
  "board_ok st \<longleftrightarrow> occupancy_ok st \<and> placement_ok st \<and> dict_ok (factions st)"

locale board_phase =
  fixes step :: "'i \<Rightarrow> GameState \<Rightarrow> GameState result"
  assumes step_total: "\<exists>st'. step i st = Inr st'"
    and step_sound: "board_ok st \<Longrightarrow> step i st = Inr st' \<Longrightarrow> board_ok st'"
    and step_map: "step i st = Inr st' \<Longrightarrow> regions st' = regions st \<and> factions st' = factions st"
begin

lemma run_sound:
  assumes "board_ok st"
  shows "\<exists>st'. fold_result step is st = Inr st' \<and> board_ok st' \<and>
    regions st' = regions st \<and> factions st' = factions st"
  using assms
proof (induction "is" arbitrary: st)
  case Nil
  then show ?case by simp
next
  case (Cons i js)
  obtain t where t: "step i st = Inr t" using step_total by blast
  obtain st' where "fold_result step js t = Inr st'" "board_ok st'" "regions st' = regions t"
    "factions st' = factions t"
    using Cons.IH [OF step_sound [OF Cons.prems t]] by blast
  with t step_map [OF t] show ?case by simp
qed

end

section \<open>The three branches\<close>

text \<open>\<open>bool(movement_result.dislodged())\<close>.\<close>

definition has_dislodged :: "MovementResult \<Rightarrow> bool" where
  "has_dislodged res \<longleftrightarrow> dislodged_results res \<noteq> []"

definition movement_phase :: "(string, Order) dict \<Rightarrow> GameState \<Rightarrow> (GameState \<times> bool) result" where
  "movement_phase effective pre_movement_state =
     bind_result (resolve_movement pre_movement_state effective) (\<lambda>movement_result.
       let game_state = apply_movement_result pre_movement_state movement_result;
           game_state = update_supply_center_ownership game_state
       in Inr (game_state, has_dislodged movement_result))"

definition retreat_phase :: "(string, Order) dict \<Rightarrow> GameState \<Rightarrow> GameState result" where
  "retreat_phase effective pre_movement_state =
     bind_result (resolve_movement pre_movement_state effective) (\<lambda>movement_result.
       let post_movement = apply_movement_result pre_movement_state movement_result
       in bind_result (resolve_retreats post_movement movement_result []) (\<lambda>retreat_result.
          bind_result (apply_retreat_result post_movement retreat_result) (\<lambda>game_state.
            Inr (update_supply_center_ownership game_state))))"

definition build_phase :: "GameState \<Rightarrow> GameState" where
  "build_phase game_state =
     apply_adjustment_result game_state (resolve_adjustments game_state [] [] None)"

definition adjustment_needed :: "GameState \<Rightarrow> bool" where
  "adjustment_needed game_state \<longleftrightarrow>
     list_ex (\<lambda>delta. delta \<noteq> 0) (dict_values (compute_adjustment_deltas game_state))"

text \<open>The branch taken by a phase, with the orders it adjudicates.\<close>

datatype phase_input = OrdersPhase "(string, Order) dict" | RetreatPhase "(string, Order) dict" | BuildPhase

fun resolve_phase :: "phase_input \<Rightarrow> GameState \<Rightarrow> GameState result" where
  "resolve_phase (OrdersPhase effective) st =
     bind_result (movement_phase effective st) (\<lambda>(st', _). Inr st')"
| "resolve_phase (RetreatPhase effective) st = retreat_phase effective st"
| "resolve_phase BuildPhase st = Inr (build_phase st)"

lemma board_ok_ownership [simp]: "board_ok (update_supply_center_ownership st) \<longleftrightarrow> board_ok st"
  by (simp add: board_ok_def occupancy_ok_def placement_ok_def)

lemma factions_apply_movement [simp]: "factions (apply_movement_result st res) = factions st"
  by (simp add: apply_movement_result_def)

lemma movement_phase_eq:
  obtains res where "resolve_movement st effective = Inr res"
    "movement_phase effective st =
       Inr (update_supply_center_ownership (apply_movement_result st res), has_dislodged res)"
proof -
  obtain resolved where "resolve_movement st effective = Inr (movement_of st effective resolved)"
    by (rule resolve_movement_eq)
  with that show thesis by (simp add: movement_phase_def Let_def)
qed

lemma retreat_phase_eq:
  obtains res rs st0 where "resolve_movement st effective = Inr res"
    "resolve_retreats (apply_movement_result st res) res [] = Inr rs"
    "apply_retreat_result (apply_movement_result st res) rs = Inr st0"
    "regions st0 = regions st" "factions st0 = factions st"
    "retreat_phase effective st = Inr (update_supply_center_ownership st0)"
proof -
  obtain resolved where mv: "resolve_movement st effective = Inr (movement_of st effective resolved)"
    by (rule resolve_movement_eq)
  let ?res = "movement_of st effective resolved" and ?st = "apply_movement_result st (movement_of st effective resolved)"
  note ok = result_ok_movement [OF mv]
  obtain rs where rs: "resolve_retreats ?st ?res [] = Inr rs" by (simp add: resolve_retreats_eq [OF ok])
  note eq = apply_retreats_eq [OF ok rs]
  show thesis by (rule that [OF mv rs eq]) (simp_all add: retreat_phase_def mv rs eq Let_def)
qed

lemma movement_phase_sound:
  assumes "movement_phase effective st = Inr (st', dislodged)"
  shows "board_ok st \<Longrightarrow> board_ok st'" "regions st' = regions st" "factions st' = factions st"
    "dislodged \<Longrightarrow> \<exists>res. resolve_movement st effective = Inr res \<and> dislodged_results res \<noteq> []"
proof -
  obtain res where res: "resolve_movement st effective = Inr res"
    and "movement_phase effective st =
      Inr (update_supply_center_ownership (apply_movement_result st res), has_dislodged res)"
    by (rule movement_phase_eq)
  with assms have st': "st' = update_supply_center_ownership (apply_movement_result st res)"
    "dislodged = has_dislodged res" by simp_all
  show "board_ok st \<Longrightarrow> board_ok st'"
    using movement_occupancy_lemma [OF res] movement_placement_lemma [OF _ res]
    by (simp only: st' board_ok_ownership) (simp add: board_ok_def)
  show "regions st' = regions st" "factions st' = factions st" by (simp_all add: st')
  show "dislodged \<Longrightarrow> \<exists>res. resolve_movement st effective = Inr res \<and> dislodged_results res \<noteq> []"
    using res st'(2) by (auto simp: has_dislodged_def)
qed

lemma retreat_phase_sound:
  assumes "retreat_phase effective st = Inr st'"
  shows "board_ok st \<Longrightarrow> board_ok st'" "regions st' = regions st" "factions st' = factions st"
proof -
  obtain res rs st0 where res: "resolve_movement st effective = Inr res"
    and rs: "resolve_retreats (apply_movement_result st res) res [] = Inr rs"
    and st0: "apply_retreat_result (apply_movement_result st res) rs = Inr st0"
      "regions st0 = regions st" "factions st0 = factions st"
    and "retreat_phase effective st = Inr (update_supply_center_ownership st0)"
    by (rule retreat_phase_eq)
  with assms have st': "st' = update_supply_center_ownership st0" by simp
  show "board_ok st'" if "board_ok st"
  proof -
    have "board_ok st0"
      using that retreat_occupancy_lemma [OF res rs st0(1)]
        retreat_placement_lemma [OF res _ rs st0(1)] st0(3)
      by (simp add: board_ok_def)
    then show ?thesis by (simp add: st')
  qed
  show "regions st' = regions st" "factions st' = factions st" by (simp_all add: st' st0)
qed

lemma build_phase_sound:
  assumes "board_ok st"
  shows "board_ok (build_phase st)"
  using assms adjustment_occupancy_lemma adjustment_placement_lemma
  by (auto simp: board_ok_def build_phase_def)

text \<open>The three branches keep the contract, so \<open>run_sound\<close> holds of every sequence of phases.\<close>

interpretation phases: board_phase resolve_phase
proof
  fix i st
  show "\<exists>st'. resolve_phase i st = Inr st'"
    by (cases i) (auto intro: movement_phase_eq [of st] retreat_phase_eq [of st])
next
  fix i st st'
  assume ok: "board_ok st" and step: "resolve_phase i st = Inr st'"
  then show "board_ok st'"
    by (cases i) (auto intro: movement_phase_sound retreat_phase_sound build_phase_sound)
next
  fix i st st'
  assume "resolve_phase i st = Inr st'"
  then show "regions st' = regions st \<and> factions st' = factions st"
    by (cases i) (auto simp: build_phase_def movement_phase_sound retreat_phase_sound)
qed

section \<open>Properties of whole seasons\<close>

text \<open>C8: Any season is sound: starting from a sound board, every sequence of movement, retreat and
  adjustment phases, with whatever orders, is adjudicated without an exception, leaves at most one
  unit in a region and every unit on terrain it can enter, and never changes the map.\<close>

theorem season_sound:
  assumes "occupancy_ok st" and "placement_ok st" and "dict_ok (factions st)"
  shows "\<exists>st'. fold_result resolve_phase inputs st = Inr st' \<and>
    occupancy_ok st' \<and> placement_ok st' \<and> regions st' = regions st \<and> factions st' = factions st"
  using phases.run_sound [of st inputs] assms by (auto simp: board_ok_def)

theorem season_sound_witness:
  "\<exists>st'. fold_result resolve_phase
       [OrdersPhase [(''vet_peak'', MoveOrder ''vet_peak'' ''stormveil'')], RetreatPhase [], BuildPhase]
       create_default_map = Inr st' \<and> occupancy_ok st'"
proof -
  have "occupancy_ok create_default_map" "placement_ok create_default_map"
    "dict_ok (factions create_default_map)" by code_simp+
  from season_sound [OF this] show ?thesis by blast
qed

end
