(* ===== verification/Externals.thy ===== *)
theory Externals
  imports Model
begin

text \<open>
  The code outside the repository that the program calls, as one record of functions: msgpack
  (\<open>packb\<close>, \<open>unpackb\<close>), SHA-256, and the operations of \<open>RNS.Identity\<close> that \<^verbatim>\<open>shared/identity.py\<close>
  wraps. Nothing is defined about them; what the program relies on is stated as the predicates
  \<open>codec_ok\<close>, \<open>digest_ok\<close> and \<open>identity_ok\<close>, which repeat documented behaviour. The theory
  \<^verbatim>\<open>Reference_Codec\<close> gives one concrete instance that satisfies all of them: the witnesses of the
  development run on it.
\<close>

section \<open>The external functions\<close>

text \<open>
  \<open>packb\<close> raises on values msgpack cannot represent, \<open>unpackb\<close> on bytes that are no msgpack value.
  An identity is represented by its exported private key. \<open>encrypt_for\<close> raises when the public key
  cannot be loaded.
\<close>

record externals =
  packb :: "canonical \<Rightarrow> bytes result"
  unpackb :: "bytes \<Rightarrow> canonical result"
  sha256 :: "bytes \<Rightarrow> bytes"
  public_key_of :: "bytes \<Rightarrow> bytes"
  sign_with :: "bytes \<Rightarrow> bytes \<Rightarrow> bytes"
  validate_signature :: "bytes \<Rightarrow> bytes \<Rightarrow> bytes \<Rightarrow> bool"
  encrypt_for :: "bytes \<Rightarrow> bytes \<Rightarrow> bytes result"
  decrypt_with :: "bytes \<Rightarrow> bytes \<Rightarrow> bytes result"

text \<open>\<open>unpackb(packb(v, use_bin_type=True), raw=False) == v\<close>.\<close>

definition codec_ok :: "externals \<Rightarrow> bool" where
  "codec_ok X \<longleftrightarrow> (\<forall>v b. packb X v = Inr b \<longrightarrow> unpackb X b = Inr v)"

text \<open>A SHA-256 digest has 32 bytes.\<close>

definition digest_ok :: "externals \<Rightarrow> bool" where
  "digest_ok X \<longleftrightarrow> (\<forall>b. length (sha256 X b) = 32)"

text \<open>A signature made with a private key is valid under its public key.\<close>

definition identity_ok :: "externals \<Rightarrow> bool" where
  "identity_ok X \<longleftrightarrow> (\<forall>key m. validate_signature X (public_key_of X key) (sign_with X key m) m)"

text \<open>\<open>s.encode("utf-8")\<close>: the code units.\<close>

definition utf8_encode :: "string \<Rightarrow> bytes" where
  "utf8_encode s = map (\<lambda>c. of_nat (of_char c)) s"

definition utf8_decode :: "bytes \<Rightarrow> string" where
  "utf8_decode b = map (\<lambda>w. char_of (unat w)) b"

lemma utf8_roundtrip [simp]: "utf8_decode (utf8_encode s) = s"
proof -
  have "char_of (unat (of_nat (of_char c) :: 8 word)) = c" for c
  proof -
    have "(of_char c :: nat) < 256" by simp
    then have "unat (of_nat (of_char c) :: 8 word) = of_char c" by (simp add: unat_of_nat)
    then show ?thesis by simp
  qed
  then show ?thesis by (simp add: utf8_decode_def utf8_encode_def comp_def)
qed

section \<open>Hexadecimal\<close>

text \<open>
  \<open>bytes.hex()\<close>, and \<open>bytes.fromhex\<close>, which skips whitespace between bytes, accepts both cases and
  raises \<open>ValueError\<close> on anything else.
\<close>

definition hex_digits :: string where
  "hex_digits = ''0123456789abcdef''"

definition hex_digit :: "nat \<Rightarrow> char" where
  "hex_digit n = hex_digits ! (n mod 16)"

definition hex_byte :: "8 word \<Rightarrow> string" where
  "hex_byte w = [hex_digit (unat w div 16), hex_digit (unat w)]"

definition hex_of :: "bytes \<Rightarrow> string" where
  "hex_of b = concat (map hex_byte b)"

definition digit_value :: "char \<Rightarrow> nat option" where
  "digit_value c = map_of (zip ''0123456789abcdefABCDEF'' ([0..<16] @ [10..<16])) c"

definition is_space :: "char \<Rightarrow> bool" where
  "is_space c \<longleftrightarrow> c \<in> set [CHR '' '', CHR 0x09, CHR 0x0A, CHR 0x0B, CHR 0x0C, CHR 0x0D]"

fun fromhex :: "string \<Rightarrow> bytes result" where
  "fromhex [] = Inr []"
| "fromhex [c] = (if is_space c then Inr [] else Inl ValueError)"
| "fromhex (c # d # cs) =
     (if is_space c then fromhex (d # cs)
      else (case (digit_value c, digit_value d) of
          (Some a, Some b) \<Rightarrow> bind_result (fromhex cs) (\<lambda>rest. Inr (of_nat (16 * a + b) # rest))
        | _ \<Rightarrow> Inl ValueError))"

lemma digit_value_hex: "n < 16 \<Longrightarrow> digit_value (hex_digit n) = Some n \<and> \<not> is_space (hex_digit n)"
proof -
  have "list_all (\<lambda>n. digit_value (hex_digit n) = Some n \<and> \<not> is_space (hex_digit n)) [0..<16]"
    by code_simp
  then show "n < 16 \<Longrightarrow> digit_value (hex_digit n) = Some n \<and> \<not> is_space (hex_digit n)"
    by (simp add: list_all_iff)
qed

lemma hex_digit_mod: "hex_digit n = hex_digit (n mod 16)"
  by (simp add: hex_digit_def)

lemma fromhex_hex: "fromhex (hex_of b) = Inr b"
proof (induction b)
  case Nil
  then show ?case by (simp add: hex_of_def)
next
  case (Cons w b)
  have "unat w < 2 ^ LENGTH(8)" by (rule unsigned_less)
  then have lt: "unat w < 256" by simp
  then have "unat w div 16 < 16" by simp
  note hi = digit_value_hex [OF this]
  have "unat w mod 16 < 16" by simp
  note lo = digit_value_hex [OF this, folded hex_digit_mod]
  have "16 * (unat w div 16) + unat w mod 16 = unat w" by simp
  then have "(of_nat (16 * (unat w div 16) + unat w mod 16) :: 8 word) = w" by simp
  then show ?case using Cons hi lo by (simp add: hex_of_def hex_byte_def)
qed

lemma hex_of_inj: "hex_of a = hex_of b \<longleftrightarrow> a = b"
  by (metis fromhex_hex sum.inject(2))

lemma hex_of_Nil_iff [simp]: "hex_of b = [] \<longleftrightarrow> b = []"
  by (cases b) (simp_all add: hex_of_def hex_byte_def)

end
