(* ===== verification/Reference_Codec.thy ===== *)
theory Reference_Codec
  imports Externals
begin

text \<open>
  A concrete instance of the external functions: a small self-delimiting codec in the place of
  msgpack, a 32-byte digest, and identities whose public key is their private key. It exists to show
  that the hypotheses about the external functions can hold together; no theorem about the program
  is proved from it, only their witnesses.
\<close>

section \<open>Numbers and tagged values\<close>

definition enc_nat :: "nat \<Rightarrow> bytes" where
  "enc_nat n = replicate n 1 @ [0]"

fun dec_nat :: "bytes \<Rightarrow> (nat \<times> bytes) option" where
  "dec_nat [] = None"
| "dec_nat (w # ws) =
     (if w = 0 then Some (0, ws) else map_option (\<lambda>(n, r). (Suc n, r)) (dec_nat ws))"

definition enc_int :: "int \<Rightarrow> bytes" where
  "enc_int i = (if i < 0 then 1 else 0) # enc_nat (nat \<bar>i\<bar>)"

fun dec_int :: "bytes \<Rightarrow> (int \<times> bytes) option" where
  "dec_int [] = None"
| "dec_int (s # ws) = map_option (\<lambda>(n, r). (if s = 0 then int n else - int n, r)) (dec_nat ws)"

definition enc_bytes :: "bytes \<Rightarrow> bytes" where
  "enc_bytes b = enc_nat (length b) @ b"

definition dec_bytes :: "bytes \<Rightarrow> (bytes \<times> bytes) option" where
  "dec_bytes ws =
     (case dec_nat ws of None \<Rightarrow> None
      | Some (n, r) \<Rightarrow> if n \<le> length r then Some (take n r, drop n r) else None)"

fun enc :: "canonical \<Rightarrow> bytes" where
  "enc CNone = [0]"
| "enc (CBool b) = [if b then 1 else 2]"
| "enc (CInt i) = 3 # enc_int i"
| "enc (CFloat q) = 4 # enc_int (fst (quotient_of q)) @ enc_int (snd (quotient_of q))"
| "enc (CStr s) = 5 # enc_bytes (utf8_encode s)"
| "enc (CBytes b) = 6 # enc_bytes b"
| "enc (CList xs) = 7 # enc_nat (length xs) @ concat (map enc xs)"
| "enc (CDict d) = 8 # enc_nat (length d) @ concat (map (\<lambda>(k, v). enc_bytes (utf8_encode k) @ enc v) d)"

fun dec_many :: "(bytes \<Rightarrow> ('a \<times> bytes) option) \<Rightarrow> nat \<Rightarrow> bytes \<Rightarrow> ('a list \<times> bytes) option" where
  "dec_many p 0 ws = Some ([], ws)"
| "dec_many p (Suc n) ws =
     (case p ws of None \<Rightarrow> None
      | Some (x, r) \<Rightarrow> map_option (\<lambda>(xs, r'). (x # xs, r')) (dec_many p n r))"

fun dec_pair :: "(bytes \<Rightarrow> (canonical \<times> bytes) option) \<Rightarrow> bytes \<Rightarrow> ((string \<times> canonical) \<times> bytes) option" where
  "dec_pair p ws =
     (case dec_bytes ws of None \<Rightarrow> None
      | Some (k, r) \<Rightarrow> map_option (\<lambda>(v, r'). ((utf8_decode k, v), r')) (p r))"

text \<open>The first argument is fuel; the length of the input is enough.\<close>

fun dec :: "nat \<Rightarrow> bytes \<Rightarrow> (canonical \<times> bytes) option" where
  "dec 0 ws = None"
| "dec (Suc k) [] = None"
| "dec (Suc k) (t # ws) =
     (if t = 0 then Some (CNone, ws)
      else if t = 1 then Some (CBool True, ws)
      else if t = 2 then Some (CBool False, ws)
      else if t = 3 then map_option (\<lambda>(i, r). (CInt i, r)) (dec_int ws)
      else if t = 4 then
        (case dec_int ws of None \<Rightarrow> None
         | Some (a, r) \<Rightarrow> map_option (\<lambda>(b, r'). (CFloat (Fract a b), r')) (dec_int r))
      else if t = 5 then map_option (\<lambda>(b, r). (CStr (utf8_decode b), r)) (dec_bytes ws)
      else if t = 6 then map_option (\<lambda>(b, r). (CBytes b, r)) (dec_bytes ws)
      else if t = 7 then
        (case dec_nat ws of None \<Rightarrow> None
         | Some (n, r) \<Rightarrow> map_option (\<lambda>(xs, r'). (CList xs, r')) (dec_many (dec k) n r))
      else if t = 8 then
        (case dec_nat ws of None \<Rightarrow> None
         | Some (n, r) \<Rightarrow> map_option (\<lambda>(d, r'). (CDict d, r')) (dec_many (dec_pair (dec k)) n r))
      else None)"

section \<open>Decoding inverts encoding\<close>

lemma dec_enc_nat [simp]: "dec_nat (enc_nat n @ r) = Some (n, r)"
  by (induction n) (simp_all add: enc_nat_def)

lemma dec_enc_int [simp]: "dec_int (enc_int i @ r) = Some (i, r)"
  by (simp add: enc_int_def)

lemma dec_enc_bytes [simp]: "dec_bytes (enc_bytes b @ r) = Some (b, r)"
  by (simp add: dec_bytes_def enc_bytes_def)

lemma dec_many_concat:
  assumes "\<And>x r. x \<in> set xs \<Longrightarrow> p (e x @ r) = Some (x, r)"
  shows "dec_many p (length xs) (concat (map e xs) @ r) = Some (xs, r)"
  using assms by (induction xs arbitrary: r) simp_all

lemma length_enc_pos: "0 < length (enc c)"
  by (cases c) simp_all

lemma length_concat_mem: "x \<in> set xs \<Longrightarrow> length (e x) \<le> length (concat (map e xs))"
  by (induction xs) auto

lemma dec_enc: "length (enc c) \<le> k \<Longrightarrow> dec k (enc c @ r) = Some (c, r)"
proof (induction k arbitrary: c r)
  case 0
  then show ?case using length_enc_pos [of c] by simp
next
  case (Suc k)
  show ?case
  proof (cases c)
    case (CFloat q)
    have "Fract (fst (quotient_of q)) (snd (quotient_of q)) = q"
      using quotient_of_div [of q "fst (quotient_of q)" "snd (quotient_of q)"]
      by (simp add: Fract_of_int_quotient)
    with CFloat show ?thesis by simp
  next
    case (CList xs)
    have "dec k (enc x @ s) = Some (x, s)" if "x \<in> set xs" for x s
      using Suc.prems length_concat_mem [OF that, of enc] by (intro Suc.IH) (simp add: CList)
    then have "dec_many (dec k) (length xs) (concat (map enc xs) @ r) = Some (xs, r)"
      by (rule dec_many_concat)
    then show ?thesis by (simp add: CList)
  next
    case (CDict d)
    let ?e = "\<lambda>(k, v). enc_bytes (utf8_encode k) @ enc v"
    have "dec_pair (dec k) (?e p @ s) = Some (p, s)" if "p \<in> set d" for p s
    proof -
      obtain key v where p: "p = (key, v)" by (cases p)
      have "length (enc v) \<le> k"
        using Suc.prems length_concat_mem [OF that, of ?e] by (simp add: CDict p)
      then show ?thesis by (simp add: p Suc.IH)
    qed
    then have "dec_many (dec_pair (dec k)) (length d) (concat (map ?e d) @ r) = Some (d, r)"
      by (rule dec_many_concat)
    then show ?thesis by (simp add: CDict)
  qed simp_all
qed

section \<open>The instance\<close>

definition reference_unpackb :: "bytes \<Rightarrow> canonical result" where
  "reference_unpackb b = (case dec (length b) b of Some (c, []) \<Rightarrow> Inr c | _ \<Rightarrow> Inl ValueError)"

definition reference_sha :: "bytes \<Rightarrow> bytes" where
  "reference_sha b = take 32 (rev b @ replicate 32 0)"

definition reference :: externals where
  "reference =
     \<lparr>packb = (\<lambda>v. Inr (enc v)),
      unpackb = reference_unpackb,
      sha256 = reference_sha,
      public_key_of = (\<lambda>key. key),
      sign_with = (\<lambda>key m. key @ m),
      validate_signature = (\<lambda>key sig m. sig = key @ m),
      encrypt_for = (\<lambda>key m. if key = [] then Inl KeyError else Inr m),
      decrypt_with = (\<lambda>key c. Inr c)\<rparr>"

lemma reference_sel [simp]:
  "packb reference v = Inr (enc v)"
  "encrypt_for reference key m = (if key = [] then Inl KeyError else Inr m)"
  "public_key_of reference key = key"
  by (simp_all add: reference_def)

lemma reference_ok: "codec_ok reference" "digest_ok reference" "identity_ok reference"
proof -
  have "dec (length (enc v)) (enc v @ []) = Some (v, [])" for v by (rule dec_enc) simp
  then show "codec_ok reference" by (simp add: codec_ok_def reference_def reference_unpackb_def)
  show "digest_ok reference" by (auto simp: digest_ok_def reference_def reference_sha_def min_def)
  show "identity_ok reference" by (simp add: identity_ok_def reference_def)
qed

section \<open>The size of an encoding\<close>

fun esize :: "canonical \<Rightarrow> nat" where
  "esize CNone = 1"
| "esize (CBool b) = 1"
| "esize (CInt i) = 3 + nat \<bar>i\<bar>"
| "esize (CFloat q) = length (enc (CFloat q))"
| "esize (CStr s) = 2 + 2 * length s"
| "esize (CBytes b) = 2 + 2 * length b"
| "esize (CList xs) = 2 + length xs + sum_list (map esize xs)"
| "esize (CDict d) = 2 + length d + sum_list (map (\<lambda>(k, v). 1 + 2 * length k + esize v) d)"

lemma length_utf8 [simp]: "length (utf8_encode s) = length s" by (simp add: utf8_encode_def)

lemma length_enc: "length (enc c) = esize c"
proof (induction c)
qed (auto simp: enc_bytes_def enc_nat_def enc_int_def length_concat comp_def intro!: arg_cong [of _ _ sum_list])

end
