(* ===== verification/Canonical.thy ===== *)
theory Canonical
  imports Reference_Codec Board "HOL-Library.Product_Lexorder"
begin

text \<open>
  \<^verbatim>\<open>engine/hashing.py\<close>: the canonical form of game states and of dataclasses, its inverse, the chained
  state hash, \<open>verify_chain\<close> and \<open>hash_orders\<close>. The lemmas show that the canonical form decides
  equality of states up to the order of dictionaries and unit lists, that it round trips, and that two
  different histories cannot share a chain without a collision of the hash function.
\<close>

section \<open>Canonicalization\<close>

definition unit_sort_key :: "Unit \<Rightarrow> string \<times> string \<times> string" where
  "unit_sort_key u = (region_id u, faction_id u, unit_type_value (unit_type u))"

text \<open>\<open>{str(k): canonicalize(v) for k, v in sorted(value.items())}\<close> with string keys.\<close>

definition sorted_dict :: "('a \<Rightarrow> canonical) \<Rightarrow> (string, 'a) dict \<Rightarrow> canonical" where
  "sorted_dict f d = CDict (map (\<lambda>(k, v). (k, f v)) (sort_key fst d))"

definition canonicalize_unit :: "Unit \<Rightarrow> canonical" where
  "canonicalize_unit u = CDict
     [(''unit_type'', CStr (unit_type_value (unit_type u))),
      (''faction_id'', CStr (faction_id u)),
      (''region_id'', CStr (region_id u))]"

definition canonicalize_region :: "Region \<Rightarrow> canonical" where
  "canonicalize_region r = CDict
     [(''id'', CStr (rg_id r)),
      (''name'', CStr (rg_name r)),
      (''region_type'', CStr (region_type_value (region_type r))),
      (''is_supply_center'', CBool (is_supply_center r)),
      (''abbreviation'', CStr (rg_abbreviation r))]"

definition canonicalize_faction :: "Faction \<Rightarrow> canonical" where
  "canonicalize_faction f = CDict
     [(''id'', CStr (fa_id f)),
      (''name'', CStr (fa_name f)),
      (''color'', CStr (fa_color f)),
      (''abbreviation'', CStr (fa_abbreviation f))]"

definition canonicalize_state :: "GameState \<Rightarrow> canonical" where
  "canonicalize_state st = CDict
     [(''regions'', sorted_dict canonicalize_region (regions st)),
      (''factions'', sorted_dict canonicalize_faction (factions st)),
      (''units'', CList (map canonicalize_unit (sort_key unit_sort_key (units st)))),
      (''supply_centers'', sorted_dict CStr (supply_centers st)),
      (''phase'', CStr (phase_value (phase st))),
      (''turn'', CInt (turn st)),
      (''year'', CInt (year st))]"

text \<open>
  The values that \<open>canonicalize\<close> is called on, one constructor per test of its \<open>isinstance\<close> chain.
  A dataclass is the list of its fields; \<open>asdict\<close> turns nested dataclasses into dictionaries, which
  canonicalize to the same value.
\<close>

datatype py =
    PyGameState GameState
  | PyUnit Unit
  | PyRegion Region
  | PyFaction Faction
  | PyDict "(string \<times> py) list"
  | PyList "py list"
  | PyEnum string
  | PyDataclass "(string \<times> py) list"
  | PyAtom canonical

fun canonicalize :: "py \<Rightarrow> canonical" where
  "canonicalize (PyGameState st) = canonicalize_state st"
| "canonicalize (PyUnit u) = canonicalize_unit u"
| "canonicalize (PyRegion r) = canonicalize_region r"
| "canonicalize (PyFaction f) = canonicalize_faction f"
| "canonicalize (PyDict d) = CDict (sort_key fst (map (\<lambda>(k, v). (k, canonicalize v)) d))"
| "canonicalize (PyList xs) = CList (map canonicalize xs)"
| "canonicalize (PyEnum s) = CStr s"
| "canonicalize (PyDataclass fs) = CDict (sort_key fst (map (\<lambda>(k, v). (k, canonicalize v)) fs))"
| "canonicalize (PyAtom c) = c"

text \<open>The dataclass fields of an order.\<close>

fun py_order :: "Order \<Rightarrow> py" where
  "py_order (HoldOrder u) = PyDataclass
     [(''unit_region_id'', PyAtom (CStr u)), (''order_type'', PyEnum (order_type_value HOLD))]"
| "py_order (MoveOrder u d) = PyDataclass
     [(''unit_region_id'', PyAtom (CStr u)), (''destination_id'', PyAtom (CStr d)),
      (''order_type'', PyEnum (order_type_value MOVE))]"
| "py_order (SupportHoldOrder u s) = PyDataclass
     [(''unit_region_id'', PyAtom (CStr u)), (''supported_region_id'', PyAtom (CStr s)),
      (''order_type'', PyEnum (order_type_value SUPPORT_HOLD))]"
| "py_order (SupportMoveOrder u s d) = PyDataclass
     [(''unit_region_id'', PyAtom (CStr u)), (''supported_region_id'', PyAtom (CStr s)),
      (''supported_destination_id'', PyAtom (CStr d)),
      (''order_type'', PyEnum (order_type_value SUPPORT_MOVE))]"

definition canonical_bytes :: "externals \<Rightarrow> GameState \<Rightarrow> bytes result" where
  "canonical_bytes X st = packb X (canonicalize (PyGameState st))"

section \<open>Reading a state back\<close>

text \<open>
  \<open>data[k]\<close>, \<open>data.items()\<close> and iteration on a decoded value. A field whose type is not the annotated
  one is not noticed by the dataclass constructors: there the model stops with \<^const>\<open>Unmodelled\<close>.
\<close>

fun item :: "canonical \<Rightarrow> string \<Rightarrow> canonical result" where
  "item (CDict d) k = lookup_or_raise d k"
| "item _ k = Inl TypeError"

fun items_of :: "canonical \<Rightarrow> (string \<times> canonical) list result" where
  "items_of (CDict d) = Inr d"
| "items_of _ = Inl AttributeError"

fun iterate :: "canonical \<Rightarrow> canonical list result" where
  "iterate (CList xs) = Inr xs"
| "iterate (CDict d) = Inr (map (\<lambda>(k, _). CStr k) d)"
| "iterate (CStr s) = Inr (map (\<lambda>c. CStr [c]) s)"
| "iterate (CBytes b) = Inr (map (\<lambda>w. CInt (uint w)) b)"
| "iterate _ = Inl TypeError"

fun as_str :: "canonical \<Rightarrow> string result" where
  "as_str (CStr s) = Inr s"
| "as_str _ = Inl Unmodelled"

fun as_int :: "canonical \<Rightarrow> int result" where
  "as_int (CInt i) = Inr i"
| "as_int _ = Inl Unmodelled"

fun as_bool :: "canonical \<Rightarrow> bool result" where
  "as_bool (CBool b) = Inr b"
| "as_bool _ = Inl Unmodelled"

text \<open>\<open>Enum(value)\<close> on a decoded value: only a string can be a member's value.\<close>

fun enum_of :: "(string \<Rightarrow> 'a result) \<Rightarrow> canonical \<Rightarrow> 'a result" where
  "enum_of of_value (CStr s) = of_value s"
| "enum_of of_value _ = Inl ValueError"

definition str_item :: "canonical \<Rightarrow> string \<Rightarrow> string result" where
  "str_item data k = bind_result (item data k) as_str"

definition region_from :: "canonical \<Rightarrow> Region result" where
  "region_from r =
     bind_result (str_item r ''id'') (\<lambda>i.
     bind_result (str_item r ''name'') (\<lambda>n.
     bind_result (bind_result (item r ''region_type'') (enum_of region_type_of_value)) (\<lambda>t.
     bind_result (bind_result (item r ''is_supply_center'') as_bool) (\<lambda>sc.
     bind_result (str_item r ''abbreviation'') (\<lambda>a.
       Inr \<lparr>rg_id = i, rg_name = n, region_type = t, is_supply_center = sc, rg_abbreviation = a\<rparr>)))))"

definition faction_from :: "canonical \<Rightarrow> Faction result" where
  "faction_from f =
     bind_result (str_item f ''id'') (\<lambda>i.
     bind_result (str_item f ''name'') (\<lambda>n.
     bind_result (str_item f ''color'') (\<lambda>c.
     bind_result (str_item f ''abbreviation'') (\<lambda>a.
       Inr \<lparr>fa_id = i, fa_name = n, fa_color = c, fa_abbreviation = a\<rparr>))))"

definition unit_from :: "canonical \<Rightarrow> Unit result" where
  "unit_from u =
     bind_result (bind_result (item u ''unit_type'') (enum_of unit_type_of_value)) (\<lambda>t.
     bind_result (str_item u ''faction_id'') (\<lambda>f.
     bind_result (str_item u ''region_id'') (\<lambda>r. Inr (mk_unit t f r))))"

definition dict_values_from :: "(canonical \<Rightarrow> 'a result) \<Rightarrow> (string \<times> canonical) list \<Rightarrow> (string \<times> 'a) list result" where
  "dict_values_from f d = map_result (\<lambda>(k, v). bind_result (f v) (\<lambda>x. Inr (k, x))) d"

text \<open>\<open>dict(value)\<close>: a copy of a dictionary. On a list or string of pairs Python builds a dictionary
  from the pairs; the model stops there.\<close>

fun dict_of :: "canonical \<Rightarrow> (string \<times> canonical) list result" where
  "dict_of (CDict d) = Inr d"
| "dict_of (CList _) = Inl Unmodelled"
| "dict_of (CStr _) = Inl Unmodelled"
| "dict_of (CBytes _) = Inl Unmodelled"
| "dict_of _ = Inl TypeError"

definition game_state_from_canonical :: "canonical \<Rightarrow> GameState result" where
  "game_state_from_canonical data =
     bind_result (bind_result (bind_result (item data ''regions'') items_of)
       (dict_values_from region_from)) (\<lambda>rs.
     bind_result (bind_result (bind_result (item data ''factions'') items_of)
       (dict_values_from faction_from)) (\<lambda>fs.
     bind_result (bind_result (bind_result (item data ''units'') iterate)
       (map_result unit_from)) (\<lambda>us.
     bind_result (bind_result (bind_result (item data ''supply_centers'') dict_of)
       (dict_values_from as_str)) (\<lambda>scs.
     bind_result (bind_result (item data ''phase'') (enum_of phase_of_value)) (\<lambda>p.
     bind_result (bind_result (item data ''turn'') as_int) (\<lambda>t.
     bind_result (bind_result (item data ''year'') as_int) (\<lambda>y.
       Inr \<lparr>regions = rs, factions = fs, units = us, supply_centers = scs, phase = p, turn = t, year = y\<rparr>)))))))"

definition game_state_from_canonical_bytes :: "externals \<Rightarrow> bytes \<Rightarrow> GameState result" where
  "game_state_from_canonical_bytes X payload =
     bind_result (unpackb X payload) game_state_from_canonical"

section \<open>Hashes\<close>

text \<open>\<open>previous_hash or b""\<close>, then the canonical bytes.\<close>

definition hash_game_state :: "externals \<Rightarrow> GameState \<Rightarrow> bytes option \<Rightarrow> bytes result" where
  "hash_game_state X st previous_hash =
     bind_result (canonical_bytes X st) (\<lambda>b.
       Inr (sha256 X ((case previous_hash of None \<Rightarrow> [] | Some h \<Rightarrow> h) @ b)))"

definition hash_game_state_hex :: "externals \<Rightarrow> GameState \<Rightarrow> bytes option \<Rightarrow> string result" where
  "hash_game_state_hex X st previous_hash = bind_result (hash_game_state X st previous_hash) (\<lambda>h. Inr (hex_of h))"

fun verify_links :: "externals \<Rightarrow> bytes option \<Rightarrow> (GameState \<times> bytes) list \<Rightarrow> bool result" where
  "verify_links X previous [] = Inr True"
| "verify_links X previous ((st, expected) # links) =
     bind_result (hash_game_state X st previous) (\<lambda>h.
       if h \<noteq> expected then Inr False else verify_links X (Some expected) links)"

definition verify_chain :: "externals \<Rightarrow> GameState list \<Rightarrow> bytes list \<Rightarrow> bool result" where
  "verify_chain X states hashes =
     (if length states \<noteq> length hashes then Inr False
      else verify_links X None (zip states hashes))"

definition hash_orders :: "externals \<Rightarrow> Order list \<Rightarrow> string result" where
  "hash_orders X orders =
     bind_result (packb X (CList (map (\<lambda>ord. canonicalize (py_order ord)) orders))) (\<lambda>payload.
       Inr (hex_of (sha256 X payload)))"

section \<open>Round trips\<close>

text \<open>The state with its dictionaries and its unit list in canonical order.\<close>

definition state_norm :: "GameState \<Rightarrow> GameState" where
  "state_norm st = st\<lparr>regions := sort_key fst (regions st), factions := sort_key fst (factions st),
     units := sort_key unit_sort_key (units st), supply_centers := sort_key fst (supply_centers st)\<rparr>"

lemma region_from_canonical: "region_from (canonicalize_region r) = Inr r"
  by (simp add: region_from_def canonicalize_region_def str_item_def lookup_or_raise_def)

lemma faction_from_canonical: "faction_from (canonicalize_faction f) = Inr f"
  by (simp add: faction_from_def canonicalize_faction_def str_item_def lookup_or_raise_def)

lemma unit_from_canonical: "unit_from (canonicalize_unit u) = Inr u"
  by (simp add: unit_from_def canonicalize_unit_def str_item_def lookup_or_raise_def)

lemma dict_values_from_sorted:
  assumes "\<And>x. f (g x) = Inr x"
  shows "dict_values_from f (map (\<lambda>(k, v). (k, g v)) d) = Inr d"
  unfolding dict_values_from_def using assms by (induction d) auto

lemma units_from_canonical: "map_result unit_from (map canonicalize_unit us) = Inr us"
  by (induction us) (simp_all add: unit_from_canonical)

lemma from_canonicalize: "game_state_from_canonical (canonicalize_state st) = Inr (state_norm st)"
  by (simp add: game_state_from_canonical_def canonicalize_state_def sorted_dict_def lookup_or_raise_def
      dict_values_from_sorted region_from_canonical faction_from_canonical units_from_canonical state_norm_def)

text \<open>Orders: \<open>order_from_dict\<close> reads back what \<open>canonicalize\<close> wrote.\<close>

fun order_dict :: "Order \<Rightarrow> (string \<times> canonical) list" where
  "order_dict (HoldOrder u) = [(''order_type'', CStr ''hold''), (''unit_region_id'', CStr u)]"
| "order_dict (MoveOrder u d) =
     [(''destination_id'', CStr d), (''order_type'', CStr ''move''), (''unit_region_id'', CStr u)]"
| "order_dict (SupportHoldOrder u s) =
     [(''order_type'', CStr ''support_hold''), (''supported_region_id'', CStr s), (''unit_region_id'', CStr u)]"
| "order_dict (SupportMoveOrder u s d) =
     [(''order_type'', CStr ''support_move''), (''supported_destination_id'', CStr d),
      (''supported_region_id'', CStr s), (''unit_region_id'', CStr u)]"

lemma canonicalize_order [simp]: "canonicalize (py_order ord) = CDict (order_dict ord)"
  by (cases ord) simp_all

lemma order_roundtrip [simp]: "order_from_dict (order_dict ord) = Inr ord"
  by (cases ord)
    (simp_all add: order_from_dict_def order_type_of_value_def enum_of_value_def kwargs_match_def str_field_def)

section \<open>The canonical form decides equality\<close>

definition state_ok :: "GameState \<Rightarrow> bool" where
  "state_ok st \<longleftrightarrow> dict_ok (regions st) \<and> dict_ok (factions st) \<and> dict_ok (supply_centers st)"

text \<open>Equal up to the order of dictionary entries and of the unit list.\<close>

definition state_equiv :: "GameState \<Rightarrow> GameState \<Rightarrow> bool" where
  "state_equiv st st' \<longleftrightarrow>
     map_of (regions st) = map_of (regions st') \<and> map_of (factions st) = map_of (factions st') \<and>
     map_of (supply_centers st) = map_of (supply_centers st') \<and> mset (units st) = mset (units st') \<and>
     phase st = phase st' \<and> turn st = turn st' \<and> year st = year st'"

lemma sort_dict_unique:
  assumes "dict_ok d" "dict_ok d'"
  shows "sort_key fst d = sort_key fst d' \<longleftrightarrow> map_of d = map_of d'"
proof
  assume "sort_key fst d = sort_key fst d'"
  then have "mset d = mset d'" by (metis mset_sort)
  then have "set d = set d'" by (rule mset_eq_setD)
  then show "map_of d = map_of d'" using assms unfolding dict_ok_def by (intro map_of_inject_set [THEN iffD2]) 
next
  assume "map_of d = map_of d'"
  then have "set d = set d'" using assms unfolding dict_ok_def by (intro map_of_inject_set [THEN iffD1])
  moreover have "distinct d" "distinct d'" using assms by (auto simp: dict_ok_def distinct_map)
  ultimately have "mset d = mset d'" by (simp add: set_eq_iff_mset_eq_distinct)
  moreover have "inj_on fst (set d)" using assms(1) by (simp add: dict_ok_def distinct_map)
  ultimately show "sort_key fst d = sort_key fst d'" by (rule sort_key_unique)
qed

lemma unit_sort_key_inj: "inj unit_sort_key"
  by (rule injI) (auto simp: unit_sort_key_def unit_type_value_inj intro: Unit_eqI)

lemma sort_units_unique:
  "sort_key unit_sort_key us = sort_key unit_sort_key us' \<longleftrightarrow> mset us = mset us'"
  by (metis mset_sort sort_key_unique inj_on_subset subset_UNIV unit_sort_key_inj)

lemma state_norm_eq_iff:
  assumes "state_ok st" "state_ok st'"
  shows "state_norm st = state_norm st' \<longleftrightarrow> state_equiv st st'"
  using assms
  by (cases st; cases st')
    (auto simp: state_norm_def state_ok_def state_equiv_def sort_dict_unique sort_units_unique)

lemma map_of_sort_key: "dict_ok d \<Longrightarrow> map_of (sort_key fst d) = map_of d"
  unfolding dict_ok_def by (intro map_of_inject_set [THEN iffD2]) simp_all

lemma state_equiv_norm: "state_ok st \<Longrightarrow> state_equiv st (state_norm st)"
  by (simp add: state_equiv_def state_norm_def state_ok_def map_of_sort_key)

lemma canonicalize_norm: "canonicalize_state (state_norm st) = canonicalize_state st"
  by (simp add: state_norm_def canonicalize_state_def sorted_dict_def sort_key_sorted_id)

lemma canonicalize_eq_iff: "canonicalize_state st = canonicalize_state st' \<longleftrightarrow> state_norm st = state_norm st'"
  by (metis canonicalize_norm from_canonicalize sum.inject(2))

section \<open>Hash chains\<close>

lemma canonical_bytes_inj:
  assumes "codec_ok X" "canonical_bytes X st = Inr b" "canonical_bytes X st' = Inr b"
  shows "state_norm st = state_norm st'"
proof -
  have "canonicalize_state st = canonicalize_state st'"
    using assms unfolding codec_ok_def canonical_bytes_def by (metis canonicalize.simps(1) sum.inject(2))
  then show ?thesis by (simp add: canonicalize_eq_iff)
qed

definition previous_of :: "(GameState \<times> bytes) list \<Rightarrow> bytes option" where
  "previous_of links = (if links = [] then None else Some (snd (last links)))"

lemma verify_links_append:
  "verify_links X p (links @ [(st, h)]) = Inr True \<longleftrightarrow>
     verify_links X p links = Inr True \<and>
     hash_game_state X st (if links = [] then p else Some (snd (last links))) = Inr h"
proof (induction links arbitrary: p)
  case Nil
  then show ?case by (auto split: if_splits)
next
  case (Cons a links)
  then show ?case by (cases a) (auto split: if_splits)
qed

lemma hash_game_state_Inr:
  "hash_game_state X st p = Inr h \<longleftrightarrow>
     (\<exists>b. canonical_bytes X st = Inr b \<and> h = sha256 X ((case p of None \<Rightarrow> [] | Some q \<Rightarrow> q) @ b))"
  by (auto simp: hash_game_state_def)

text \<open>Two valid chains of one length that end in the same hash are the same chain, unless the hash
  function collides.\<close>

lemma chains_agree:
  assumes "codec_ok X" "digest_ok X" and coll: "\<And>a b. sha256 X a = sha256 X b \<Longrightarrow> a = b"
    and "length links = length links'"
    and "verify_links X None links = Inr True" "verify_links X None links' = Inr True"
    and "previous_of links = previous_of links'"
  shows "map snd links = map snd links' \<and> map (state_norm \<circ> fst) links = map (state_norm \<circ> fst) links'"
  using assms(4-)
proof (induction links arbitrary: links' rule: rev_induct)
  case Nil
  then show ?case by simp
next
  case (snoc l links)
  obtain st h where l: "l = (st, h)" by (cases l)
  from snoc.prems(1) obtain links2 st2 h2 where l2: "links' = links2 @ [(st2, h2)]"
    by (cases links' rule: rev_cases) auto
  have len: "length links = length links2" using snoc.prems(1) l2 by simp
  have v: "verify_links X None links = Inr True" "hash_game_state X st (previous_of links) = Inr h"
    using snoc.prems(2) unfolding l verify_links_append previous_of_def by auto
  have v2: "verify_links X None links2 = Inr True" "hash_game_state X st2 (previous_of links2) = Inr h2"
    using snoc.prems(3) unfolding l2 verify_links_append previous_of_def by auto
  have h: "h2 = h" using snoc.prems(4) by (simp add: l l2 previous_of_def)
  obtain b where b: "canonical_bytes X st = Inr b"
    "h = sha256 X ((case previous_of links of None \<Rightarrow> [] | Some q \<Rightarrow> q) @ b)"
    using v(2) unfolding hash_game_state_Inr by blast
  obtain b2 where b2: "canonical_bytes X st2 = Inr b2"
    "h = sha256 X ((case previous_of links2 of None \<Rightarrow> [] | Some q \<Rightarrow> q) @ b2)"
    using v2(2) unfolding hash_game_state_Inr h by blast
  have digest: "length q = 32"
    if "verify_links X None ls = Inr True" "previous_of ls = Some q" for ls q
    using that assms(2) by (cases ls rule: rev_cases)
      (auto simp: previous_of_def verify_links_append hash_game_state_Inr digest_ok_def)
  have inputs: "(case previous_of links of None \<Rightarrow> [] | Some q \<Rightarrow> q) @ b =
      (case previous_of links2 of None \<Rightarrow> [] | Some q \<Rightarrow> q) @ b2"
    by (rule coll) (use b(2) b2(2) in simp)
  have "previous_of links = previous_of links2 \<and> b = b2"
  proof (cases "previous_of links")
    case None
    then have "links = []" by (simp add: previous_of_def split: if_splits)
    with len inputs show ?thesis by (simp add: previous_of_def)
  next
    case (Some q)
    then have "links2 \<noteq> []" using len by (auto simp: previous_of_def split: if_splits)
    then obtain q2 where q2: "previous_of links2 = Some q2" by (simp add: previous_of_def)
    have "length q = length q2" using digest [OF v(1) Some] digest [OF v2(1) q2] by simp
    with inputs Some q2 show ?thesis by simp
  qed
  with snoc.IH [OF len v(1) v2(1)] canonical_bytes_inj [OF assms(1) b(1)] b2(1) h
  show ?case by (simp add: l l2)
qed

lemma zip_links:
  assumes "length states = length hashes"
  shows "map snd (zip states hashes) = hashes" "map (f \<circ> fst) (zip states hashes) = map f states"
    "previous_of (zip states hashes) = (if hashes = [] then None else Some (last hashes))"
proof -
  show "map snd (zip states hashes) = hashes" using assms by simp
  show "map (f \<circ> fst) (zip states hashes) = map f states" using assms by (metis map_fst_zip map_map)
  show "previous_of (zip states hashes) = (if hashes = [] then None else Some (last hashes))"
    using assms by (auto simp: previous_of_def last_zip)
qed

lemma verify_links_nth:
  "verify_links X p links = Inr True \<longleftrightarrow>
     (\<forall>i<length links. hash_game_state X (fst (links ! i))
        (if i = 0 then p else Some (snd (links ! (i - 1)))) = Inr (snd (links ! i)))"
proof (induction links rule: rev_induct)
  case Nil
  then show ?case by simp
next
  case (snoc l links)
  obtain st h where l: "l = (st, h)" by (cases l)
  have "(\<forall>i<length (links @ [l]). hash_game_state X (fst ((links @ [l]) ! i))
        (if i = 0 then p else Some (snd ((links @ [l]) ! (i - 1)))) = Inr (snd ((links @ [l]) ! i))) \<longleftrightarrow>
      (\<forall>i<length links. hash_game_state X (fst (links ! i))
        (if i = 0 then p else Some (snd (links ! (i - 1)))) = Inr (snd (links ! i))) \<and>
      hash_game_state X st (if links = [] then p else Some (snd (last links))) = Inr h"
    by (auto simp: less_Suc_eq nth_append l last_conv_nth)
  with snoc show ?case by (simp add: l verify_links_append)
qed

lemma decode_canonical:
  assumes "codec_ok X" "canonical_bytes X st = Inr b"
  shows "game_state_from_canonical_bytes X b = Inr (state_norm st)"
proof -
  have "unpackb X b = Inr (canonicalize_state st)"
    using assms by (simp add: codec_ok_def canonical_bytes_def)
  then show ?thesis by (simp add: game_state_from_canonical_bytes_def from_canonicalize)
qed

section \<open>Properties of the canonical form and of the chain\<close>

text \<open>The starting position, and the same position with its units listed in another order.\<close>

definition start_state :: GameState where
  "start_state = create_default_map"

definition shuffled_state :: GameState where
  "shuffled_state = create_default_map\<lparr>units := rev (units create_default_map)\<rparr>"

lemma start_states: "state_ok start_state" "state_ok shuffled_state" "state_equiv start_state shuffled_state"
proof -
  have "dict_ok REGIONS" "dict_ok FACTIONS" "dict_ok STARTING_SUPPLY_CENTERS" by code_simp+
  then show "state_ok start_state" "state_ok shuffled_state"
    by (simp_all add: state_ok_def start_state_def shuffled_state_def create_default_map_def)
  show "state_equiv start_state shuffled_state"
    by (simp add: state_equiv_def start_state_def shuffled_state_def)
qed

lemma start_bytes:
  "canonical_bytes reference start_state = Inr (enc (canonicalize_state start_state))"
  "canonical_bytes reference shuffled_state = Inr (enc (canonicalize_state start_state))"
proof -
  show "canonical_bytes reference start_state = Inr (enc (canonicalize_state start_state))"
    by (simp add: canonical_bytes_def)
  have "canonicalize_state shuffled_state = canonicalize_state start_state"
    using start_states by (metis canonicalize_eq_iff state_norm_eq_iff)
  then show "canonical_bytes reference shuffled_state = Inr (enc (canonicalize_state start_state))"
    by (simp add: canonical_bytes_def)
qed

text \<open>C24: A state survives serialization: \<open>game_state_from_canonical_bytes\<close> reads back from the
  canonical bytes a state equal to the original one, with its dictionaries and units in canonical
  order; none of the enum values or keys is lost.\<close>

theorem state_roundtrip:
  assumes "codec_ok X" and "state_ok st" and "canonical_bytes X st = Inr b"
  shows "\<exists>st'. game_state_from_canonical_bytes X b = Inr st' \<and> state_equiv st st' \<and>
    canonical_bytes X st' = Inr b"
proof -
  have "game_state_from_canonical_bytes X b = Inr (state_norm st)"
    by (rule decode_canonical [OF assms(1,3)])
  moreover have "state_equiv st (state_norm st)" using assms(2) by (rule state_equiv_norm)
  moreover have "canonical_bytes X (state_norm st) = Inr b"
    using assms(3) by (simp add: canonical_bytes_def canonicalize_norm)
  ultimately show ?thesis by blast
qed

theorem state_roundtrip_witness:
  "\<exists>st'. game_state_from_canonical_bytes reference (enc (canonicalize_state start_state)) = Inr st' \<and>
     state_equiv start_state st'"
  using state_roundtrip [OF reference_ok(1) start_states(1) start_bytes(1)] by blast

text \<open>C25: The canonical bytes decide equality of states: two states have the same bytes exactly when
  they agree on every region, faction, center owner, unit, phase, turn and year, whatever the order of
  their dictionaries and unit lists.\<close>

theorem canonical_bytes_decide:
  assumes "codec_ok X" and "state_ok st" and "state_ok st'" and "canonical_bytes X st = Inr b"
  shows "canonical_bytes X st' = Inr b \<longleftrightarrow> state_equiv st st'"
proof
  assume "canonical_bytes X st' = Inr b"
  from canonical_bytes_inj [OF assms(1,4) this] show "state_equiv st st'"
    by (simp add: state_norm_eq_iff [OF assms(2,3)])
next
  assume "state_equiv st st'"
  then have "canonicalize_state st' = canonicalize_state st"
    by (simp add: canonicalize_eq_iff state_norm_eq_iff [OF assms(2,3)] eq_commute)
  with assms(4) show "canonical_bytes X st' = Inr b" by (simp add: canonical_bytes_def)
qed

theorem canonical_bytes_decide_witness:
  "canonical_bytes reference shuffled_state = Inr (enc (canonicalize_state start_state))"
  by (rule canonical_bytes_decide [OF reference_ok(1) start_states(1,2) start_bytes(1), THEN iffD2])
    (rule start_states(3))

text \<open>\<open>verify_chain\<close> accepts exactly the chains in which every hash is the hash of its state
  chained from the hash before it, and the first one from nothing.\<close>

theorem verify_chain_exact:
  "verify_chain X states hashes = Inr True \<longleftrightarrow>
     length states = length hashes \<and>
     (\<forall>i<length hashes. hash_game_state X (states ! i)
        (if i = 0 then None else Some (hashes ! (i - 1))) = Inr (hashes ! i))"
  by (auto simp: verify_chain_def verify_links_nth)

theorem verify_chain_exact_witness:
  "verify_chain reference [start_state, start_state]
     [sha256 reference (enc (canonicalize_state start_state)),
      sha256 reference (sha256 reference (enc (canonicalize_state start_state)) @
        enc (canonicalize_state start_state))] = Inr True"
  by (rule verify_chain_exact [THEN iffD2])
    (auto simp: hash_game_state_def start_bytes less_Suc_eq)

text \<open>C26: The chain is tamper evident: two accepted histories of the same length that end in the same
  hash consist of the same hashes and of equal states at every step, or they exhibit two different
  inputs with the same SHA-256 digest.\<close>

theorem chain_tamper_evident:
  assumes "codec_ok X" and "digest_ok X"
    and "verify_chain X states hashes = Inr True" and "verify_chain X states' hashes' = Inr True"
    and "length hashes = length hashes'" and "hashes \<noteq> []" and "last hashes = last hashes'"
  shows "(hashes = hashes' \<and> map state_norm states = map state_norm states') \<or>
    (\<exists>a b. a \<noteq> b \<and> sha256 X a = sha256 X b)"
proof (rule disjCI)
  assume "\<nexists>a b. a \<noteq> b \<and> sha256 X a = sha256 X b"
  then have coll: "\<And>a b. sha256 X a = sha256 X b \<Longrightarrow> a = b" by blast
  have len: "length states = length hashes" "length states' = length hashes'"
    and links: "verify_links X None (zip states hashes) = Inr True"
      "verify_links X None (zip states' hashes') = Inr True"
    using assms(3,4) by (auto simp: verify_chain_def split: if_splits)
  have "length (zip states hashes) = length (zip states' hashes')"
    "previous_of (zip states hashes) = previous_of (zip states' hashes')"
    using assms(5-7) len by (auto simp: zip_links(3))
  from chains_agree [OF assms(1,2) coll this(1) links this(2)]
  show "hashes = hashes' \<and> map state_norm states = map state_norm states'"
    by (simp only: zip_links(1,2) [OF len(1)] zip_links(1,2) [OF len(2)])
qed

theorem chain_tamper_evident_witness:
  "\<exists>h. verify_chain reference [start_state] [h] = Inr True \<and>
     verify_chain reference [shuffled_state] [h] = Inr True \<and>
     (map state_norm [start_state] = map state_norm [shuffled_state] \<or>
      (\<exists>a b. a \<noteq> b \<and> sha256 reference a = sha256 reference b))"
proof -
  let ?h = "sha256 reference (enc (canonicalize_state start_state))"
  have v: "verify_chain reference [start_state] [?h] = Inr True"
    "verify_chain reference [shuffled_state] [?h] = Inr True"
    by (simp_all add: verify_chain_def hash_game_state_def start_bytes)
  from chain_tamper_evident [OF reference_ok(1,2) v] v show ?thesis by auto
qed

end
