(* ===== verification/Game_Rules.thy ===== *)
theory Game_Rules
  imports Turn Canonical
begin

text \<open>
  The rules of a match as an abstract system, without coordinator, database or network: the record of
  play is a list of positions, each with the board that a phase starts from, and \<open>game\<close> says how a record
  may be continued. Retreats are computed from the board at the start of the turn, by the same orders
  as the movement before them. Boards are as they are read back from their canonical bytes
  (\<open>state_norm\<close>). The theory shows what the rules promise; \<open>Game_Play\<close> shows that the coordinator follows them.
\<close>

section \<open>Positions\<close>

record position =
  po_turn :: int
  po_phase :: Phase
  po_board :: GameState

abbreviation pos :: "int \<Rightarrow> Phase \<Rightarrow> GameState \<Rightarrow> position" where
  "pos t ph b \<equiv> \<lparr>po_turn = t, po_phase = ph, po_board = b\<rparr>"

definition start_board :: GameState where
  "start_board = state_norm create_default_map"

text \<open>Where the match stands after a phase: retreats after a dislodgement, builds when some faction's units
  and centers differ, else the orders of the next turn.\<close>

definition next_place :: "int \<Rightarrow> Phase \<Rightarrow> bool \<Rightarrow> bool \<Rightarrow> int \<times> Phase" where
  "next_place t ph dislodged needed =
     (if ph = ORDERS \<and> dislodged then (t, RETREAT)
      else if ph \<noteq> BUILD \<and> needed then (t, BUILD)
      else (t + 1, ORDERS))"

text \<open>Orders are given to units on the board.\<close>

definition orders_on_board :: "GameState \<Rightarrow> (string, Order) dict \<Rightarrow> bool" where
  "orders_on_board b eff \<longleftrightarrow>
     (\<forall>r ord. map_of eff r = Some ord \<longrightarrow> unit_region_id ord = r \<and> r \<in> region_id ` set (units b))"

inductive game :: "position list \<Rightarrow> bool" where
  start: "game [pos 1 DIPLOMACY start_board, pos 1 ORDERS start_board]"
| movement: "game (g @ [pos t ORDERS b]) \<Longrightarrow> orders_on_board b eff \<Longrightarrow>
    movement_phase eff b = Inr (b', dislodged) \<Longrightarrow> next_place t ORDERS dislodged (adjustment_needed b') = (t', ph') \<Longrightarrow>
    game (g @ [pos t ORDERS b, pos t' ph' (state_norm b')])"
| retreats: "game (g @ [pos t ORDERS b, pos t RETREAT (state_norm b1)]) \<Longrightarrow> orders_on_board b eff \<Longrightarrow>
    movement_phase eff b = Inr (b1, True) \<Longrightarrow> retreat_phase eff b = Inr b' \<Longrightarrow>
    next_place t RETREAT False (adjustment_needed b') = (t', ph') \<Longrightarrow>
    game (g @ [pos t ORDERS b, pos t RETREAT (state_norm b1), pos t' ph' (state_norm b')])"
| adjustment: "game (g @ [pos t BUILD b]) \<Longrightarrow>
    game (g @ [pos t BUILD b, pos (t + 1) ORDERS (state_norm (build_phase b))])"

section \<open>What the rules promise\<close>

text \<open>A phase does not touch the fields \<open>phase\<close>, \<open>turn\<close> and \<open>year\<close> of the board: they stay as the map sets them.\<close>

lemma movement_phase_stamps:
  assumes "movement_phase eff st = Inr (st', d)"
  shows "phase st' = phase st \<and> turn st' = turn st \<and> year st' = year st"
  using assms by (auto simp: movement_phase_def Let_def apply_movement_result_def update_supply_center_ownership_def)

lemma retreat_phase_stamps:
  assumes "retreat_phase eff st = Inr st'"
  shows "phase st' = phase st \<and> turn st' = turn st \<and> year st' = year st"
  using assms
  by (auto simp: retreat_phase_def Let_def apply_movement_result_def apply_retreat_result_def
      update_supply_center_ownership_def)

lemma build_phase_stamps: "phase (build_phase st) = phase st \<and> turn (build_phase st) = turn st \<and> year (build_phase st) = year st"
  by (simp add: build_phase_def apply_adjustment_result_def)

definition sound_board :: "GameState \<Rightarrow> bool" where
  "sound_board b \<longleftrightarrow> board_ok b \<and> regions b = regions start_board \<and> factions b = factions start_board \<and>
     phase b = DIPLOMACY \<and> turn b = 1 \<and> year b = 1"

lemma sound_start: "sound_board start_board"
proof -
  have "occupancy_ok start_board" "placement_ok start_board" "dict_ok (factions start_board)" by code_simp+
  then show ?thesis
    by (simp add: sound_board_def board_ok_def) (simp add: start_board_def state_norm_def create_default_map_def)
qed

lemma start_sorted: "sort_key fst (regions start_board) = regions start_board"
  "sort_key fst (factions start_board) = factions start_board"
  by (simp_all add: start_board_def state_norm_def sort_key_sorted_id)

lemma sound_norm:
  assumes "board_ok b" "regions b = regions start_board" "factions b = factions start_board"
    and "phase b = DIPLOMACY \<and> turn b = 1 \<and> year b = 1"
  shows "sound_board (state_norm b)"
proof -
  have "distinct (map region_id (units (state_norm b)))"
    using assms(1) by (simp add: board_ok_def occupancy_ok_def state_norm_def distinct_map_sort_key)
  moreover have "list_all (\<lambda>u. can_stand (regions (state_norm b)) (unit_type u) (region_id u)) (units (state_norm b))"
    using assms(1,2) start_sorted by (simp add: board_ok_def placement_ok_def state_norm_def list_all_iff)
  ultimately show ?thesis
    using assms start_sorted by (simp add: sound_board_def board_ok_def occupancy_ok_def placement_ok_def) (simp add: state_norm_def)
qed

lemma sound_after:
  assumes "sound_board b"
  shows "movement_phase eff b = Inr (b', d) \<Longrightarrow> sound_board (state_norm b')"
    and "retreat_phase eff b = Inr b' \<Longrightarrow> sound_board (state_norm b')"
    and "sound_board (state_norm (build_phase b))"
proof -
  note b = assms [unfolded sound_board_def]
  show "sound_board (state_norm b')" if mv: "movement_phase eff b = Inr (b', d)"
    using movement_phase_sound [OF mv] movement_phase_stamps [OF mv] b by (intro sound_norm) simp_all
  show "sound_board (state_norm b')" if rt: "retreat_phase eff b = Inr b'"
    using retreat_phase_sound [OF rt] retreat_phase_stamps [OF rt] b by (intro sound_norm) simp_all
  show "sound_board (state_norm (build_phase b))"
    using build_phase_sound [of b] build_phase_stamps [of b] phases.step_map [of BuildPhase b] b by (intro sound_norm) simp_all
qed

text \<open>Every position of a game has a sound board, and the positions are in the order of play.\<close>

lemma game_sound: "game g \<Longrightarrow> list_all (\<lambda>p. sound_board (po_board p)) g"
  by (induction rule: game.induct) (auto simp: sound_start dest: sound_after)

definition place_rank :: "position \<Rightarrow> int" where
  "place_rank p = 3 * po_turn p + (case po_phase p of DIPLOMACY \<Rightarrow> - 1 | ORDERS \<Rightarrow> 0 | RETREAT \<Rightarrow> 1 | _ \<Rightarrow> 2)"

lemma game_ordered: "game g \<Longrightarrow> sorted_wrt (<) (map place_rank g)"
  by (induction rule: game.induct)
    (auto simp: sorted_wrt_append place_rank_def next_place_def split: if_splits)

text \<open>Each turn of a game begins with its orders, and its phases are those of the state machine.\<close>

lemma game_nonempty: "game g \<Longrightarrow> \<exists>g' p. g = g' @ [p] \<and> po_phase p \<in> {ORDERS, RETREAT, BUILD}"
  by (induction rule: game.induct) (auto simp: next_place_def split: if_splits)

end
