(* ===== verification/Effects.thy ===== *)
theory Effects
  imports Prelude
begin

text \<open>
  Code with effects: an action takes the state and returns its result or exception together with the
  state it leaves behind, so that the writes before an exception stay visible, as they do in the
  program (every write to the store is a transaction of its own, every message sent has left). The
  locale \<open>preserved\<close> is the contract of a relation that holds across any sequence of writes.
\<close>

section \<open>Actions\<close>

type_synonym ('s, 'a) act = "'s \<Rightarrow> 'a result \<times> 's"

definition act_return :: "'a \<Rightarrow> ('s, 'a) act" where
  "act_return x s = (Inr x, s)"

definition act_raise :: "exn \<Rightarrow> ('s, 'a) act" where
  "act_raise e s = (Inl e, s)"

definition act_bind :: "('s, 'a) act \<Rightarrow> ('a \<Rightarrow> ('s, 'b) act) \<Rightarrow> ('s, 'b) act" where
  "act_bind m f s = (case m s of (Inl e, s') \<Rightarrow> (Inl e, s') | (Inr x, s') \<Rightarrow> f x s')"

text \<open>A value computed from the state, one that may raise, and a write that may raise.\<close>

definition act_get :: "('s \<Rightarrow> 'a) \<Rightarrow> ('s, 'a) act" where
  "act_get f s = (Inr (f s), s)"

definition act_try :: "('s \<Rightarrow> 'a result) \<Rightarrow> ('s, 'a) act" where
  "act_try f s = (f s, s)"

definition act_write :: "('s \<Rightarrow> 's result) \<Rightarrow> ('s, unit) act" where
  "act_write f s = (case f s of Inl e \<Rightarrow> (Inl e, s) | Inr s' \<Rightarrow> (Inr (), s'))"

text \<open>\<open>for x in xs: body(x)\<close>.\<close>

fun act_for :: "'a list \<Rightarrow> ('a \<Rightarrow> ('s, unit) act) \<Rightarrow> ('s, unit) act" where
  "act_for [] body = act_return ()"
| "act_for (x # xs) body = act_bind (body x) (\<lambda>_. act_for xs body)"

text \<open>An action on a component of the state.\<close>

definition act_zoom :: "('s \<Rightarrow> 't) \<Rightarrow> ('t \<Rightarrow> 's \<Rightarrow> 's) \<Rightarrow> ('t, 'a) act \<Rightarrow> ('s, 'a) act" where
  "act_zoom get put m s = (case m (get s) of (r, t) \<Rightarrow> (r, put t s))"

named_theorems act_simps \<open>running an action\<close>

lemma act_run [act_simps]:
  "act_return x s = (Inr x, s)"
  "act_raise e s = (Inl e, s)"
  "act_get f s = (Inr (f s), s)"
  "act_try g s = (g s, s)"
  by (simp_all add: act_return_def act_raise_def act_get_def act_try_def)

lemma act_bind_run [act_simps]:
  "m s = (Inr x, s') \<Longrightarrow> act_bind m f s = f x s'"
  "m s = (Inl e, s') \<Longrightarrow> act_bind m f s = (Inl e, s')"
  by (simp_all add: act_bind_def)

lemma act_write_run [act_simps]:
  "f s = Inr s' \<Longrightarrow> act_write f s = (Inr (), s')"
  "f s = Inl e \<Longrightarrow> act_write f s = (Inl e, s)"
  by (simp_all add: act_write_def)

lemma act_bind_get [act_simps]:
  "act_bind (act_get f) g s = g (f s) s"
  "act_bind (act_return x) h s = h x s"
  "act_bind (act_raise e) h s = (Inl e, s)"
  by (simp_all add: act_bind_def act_get_def act_return_def act_raise_def)

lemma act_bind_try [act_simps]:
  "r s = Inr x \<Longrightarrow> act_bind (act_try r) f s = f x s"
  "r s = Inl e \<Longrightarrow> act_bind (act_try r) f s = (Inl e, s)"
  by (simp_all add: act_bind_def act_try_def)

lemma act_bind_write [act_simps]:
  "w s = Inr s' \<Longrightarrow> act_bind (act_write w) f s = f () s'"
  "w s = Inl e \<Longrightarrow> act_bind (act_write w) f s = (Inl e, s)"
  by (simp_all add: act_bind_def act_write_def)

lemma act_bind_Inr:
  "act_bind m f s = (Inr y, s'') \<longleftrightarrow> (\<exists>x s'. m s = (Inr x, s') \<and> f x s' = (Inr y, s''))"
  by (auto simp: act_bind_def split: prod.splits sum.splits)

lemma act_write_Inr: "act_write f s = (Inr x, s') \<longleftrightarrow> f s = Inr s'"
  by (auto simp: act_write_def split: sum.splits)

section \<open>Relations kept by every action\<close>

locale preserved =
  fixes R :: "'s \<Rightarrow> 's \<Rightarrow> bool"
  assumes R_refl [intro]: "R s s" and R_trans: "R s t \<Longrightarrow> R t u \<Longrightarrow> R s u"
begin

lemma keep_pure:
  "R s (snd (act_return x s))" "R s (snd (act_raise e s))" "R s (snd (act_get f s))" "R s (snd (act_try g s))"
  by (simp_all add: act_run R_refl)

lemma keep_write: "(\<And>s'. f s = Inr s' \<Longrightarrow> R s s') \<Longrightarrow> R s (snd (act_write f s))"
  by (cases "f s") (simp_all add: act_write_def R_refl)

lemma keep_bind:
  assumes "R s (snd (m s))" "\<And>x s'. m s = (Inr x, s') \<Longrightarrow> R s' (snd (f x s'))"
  shows "R s (snd (act_bind m f s))"
proof (cases "m s")
  case (Pair r s')
  with assms show ?thesis by (cases r) (auto simp: act_bind_def intro: R_trans)
qed

lemma keep_for:
  assumes "\<And>x s. x \<in> set xs \<Longrightarrow> R s (snd (body x s))"
  shows "R s (snd (act_for xs body s))"
  using assms
proof (induction xs arbitrary: s)
  case Nil
  then show ?case by (simp add: keep_pure)
next
  case (Cons x xs)
  then show ?case by (simp del: split_paired_All add: keep_bind)
qed

lemma keep_if: "(b \<Longrightarrow> R s (snd (m s))) \<Longrightarrow> (\<not> b \<Longrightarrow> R s (snd (n s))) \<Longrightarrow> R s (snd ((if b then m else n) s))"
  by simp

lemma keep_case_option:
  "(x = None \<Longrightarrow> R s (snd (m s))) \<Longrightarrow> (\<And>y. x = Some y \<Longrightarrow> R s (snd (f y s))) \<Longrightarrow>
   R s (snd ((case x of None \<Rightarrow> m | Some y \<Rightarrow> f y) s))"
  by (cases x) simp_all

lemma keep_case_prod:
  "(\<And>y z. x = (y, z) \<Longrightarrow> R s (snd (g y z s))) \<Longrightarrow> R s (snd ((case x of (y, z) \<Rightarrow> g y z) s))"
  by (cases x) simp

lemma keep_let: "R s (snd (f x s)) \<Longrightarrow> R s (snd ((let y = x in f y) s))"
  by (simp add: Let_def)

lemmas keeps = keep_bind keep_pure keep_if keep_case_option keep_case_prod keep_let

lemma keep_iterate:
  assumes "\<And>m s. m \<in> set ms \<Longrightarrow> R s (snd (m s))"
  shows "R s (fold (\<lambda>m s. snd (m s)) ms s)"
  using assms
proof (induction ms arbitrary: s)
  case Nil
  then show ?case by (simp add: R_refl)
next
  case (Cons m ms)
  have "R s (snd (m s))" by (rule Cons.prems) simp
  moreover have "R (snd (m s)) (fold (\<lambda>m s. snd (m s)) ms (snd (m s)))"
    by (rule Cons.IH) (use Cons.prems in simp)
  ultimately show ?case by (simp add: R_trans [of s "snd (m s)"])
qed

end

end
