(* ===== verification/Messages.thy ===== *)
theory Messages
  imports Canonical
begin

text \<open>
  \<^verbatim>\<open>protocol/constants.py\<close> and \<^verbatim>\<open>protocol/messages.py\<close>: the enums, the fields of every message class
  with their type hints, and messages themselves. Dataclass constructors do not check types, and
  \<^verbatim>\<open>protocol/encoding.py\<close> leaves most fields of a received message as they were unpacked, so a message
  is its class and the list of its field values, whatever their types.
\<close>

section \<open>Constants and enums\<close>

definition PROTOCOL_VERSION :: int where
  "PROTOCOL_VERSION = 1"

definition MAX_MESSAGE_SIZE :: nat where
  "MAX_MESSAGE_SIZE = 64 * 1024"

definition MAX_PLAYERS :: nat where
  "MAX_PLAYERS = 7"

definition DEFAULT_MOVEMENT_PHASE_SECONDS :: int where
  "DEFAULT_MOVEMENT_PHASE_SECONDS = 24 * 60 * 60"

definition DEFAULT_RETREAT_PHASE_SECONDS :: int where
  "DEFAULT_RETREAT_PHASE_SECONDS = 12 * 60 * 60"

definition DEFAULT_ADJUSTMENT_PHASE_SECONDS :: int where
  "DEFAULT_ADJUSTMENT_PHASE_SECONDS = 12 * 60 * 60"

definition DEADLINE_WARNING_LEAD_SECONDS :: rat where
  "DEADLINE_WARNING_LEAD_SECONDS = 60 * 60"


datatype MessageType =
    DISCOVER_GAME
  | GAME_INFO
  | JOIN_REQUEST
  | JOIN_ACCEPTED
  | JOIN_REJECTED
  | NEGOTIATION
  | NEGOTIATION_ACK
  | ORDER_SUBMIT
  | ORDER_RECEIPT
  | ORDER_UPDATE
  | ORDER_CANCEL
  | ORDER_STATUS
  | PHASE_START
  | PHASE_RESULT
  | PHASE_DEADLINE_WARNING
  | STATE_REQUEST
  | STATE_RESPONSE
  | STATE_HASH
  | DRAW_PROPOSE
  | DRAW_VOTE
  | DRAW_RESULT
  | MATCH_START
  | MATCH_END
  | ERROR

fun message_type_value :: "MessageType \<Rightarrow> string" where
  "message_type_value DISCOVER_GAME = ''DISCOVER_GAME''"
| "message_type_value GAME_INFO = ''GAME_INFO''"
| "message_type_value JOIN_REQUEST = ''JOIN_REQUEST''"
| "message_type_value JOIN_ACCEPTED = ''JOIN_ACCEPTED''"
| "message_type_value JOIN_REJECTED = ''JOIN_REJECTED''"
| "message_type_value NEGOTIATION = ''NEGOTIATION''"
| "message_type_value NEGOTIATION_ACK = ''NEGOTIATION_ACK''"
| "message_type_value ORDER_SUBMIT = ''ORDER_SUBMIT''"
| "message_type_value ORDER_RECEIPT = ''ORDER_RECEIPT''"
| "message_type_value ORDER_UPDATE = ''ORDER_UPDATE''"
| "message_type_value ORDER_CANCEL = ''ORDER_CANCEL''"
| "message_type_value ORDER_STATUS = ''ORDER_STATUS''"
| "message_type_value PHASE_START = ''PHASE_START''"
| "message_type_value PHASE_RESULT = ''PHASE_RESULT''"
| "message_type_value PHASE_DEADLINE_WARNING = ''PHASE_DEADLINE_WARNING''"
| "message_type_value STATE_REQUEST = ''STATE_REQUEST''"
| "message_type_value STATE_RESPONSE = ''STATE_RESPONSE''"
| "message_type_value STATE_HASH = ''STATE_HASH''"
| "message_type_value DRAW_PROPOSE = ''DRAW_PROPOSE''"
| "message_type_value DRAW_VOTE = ''DRAW_VOTE''"
| "message_type_value DRAW_RESULT = ''DRAW_RESULT''"
| "message_type_value MATCH_START = ''MATCH_START''"
| "message_type_value MATCH_END = ''MATCH_END''"
| "message_type_value ERROR = ''ERROR''"

definition message_types :: "MessageType list" where
  "message_types =
     [DISCOVER_GAME, GAME_INFO, JOIN_REQUEST, JOIN_ACCEPTED, JOIN_REJECTED,
      NEGOTIATION, NEGOTIATION_ACK, ORDER_SUBMIT, ORDER_RECEIPT, ORDER_UPDATE,
      ORDER_CANCEL, ORDER_STATUS, PHASE_START, PHASE_RESULT, PHASE_DEADLINE_WARNING,
      STATE_REQUEST, STATE_RESPONSE, STATE_HASH, DRAW_PROPOSE, DRAW_VOTE,
      DRAW_RESULT, MATCH_START, MATCH_END, ERROR]"

definition message_type_of_value :: "string \<Rightarrow> MessageType result" where
  "message_type_of_value = enum_of_value message_type_value message_types"

datatype MatchStatus = LOBBY | ACTIVE | COMPLETED

fun match_status_value :: "MatchStatus \<Rightarrow> string" where
  "match_status_value LOBBY = ''lobby''"
| "match_status_value ACTIVE = ''active''"
| "match_status_value COMPLETED = ''completed''"

datatype OrderState = SENT | DELIVERED | ACCEPTED | REJECTED | SUPERSEDED

fun order_state_value :: "OrderState \<Rightarrow> string" where
  "order_state_value SENT = ''sent''"
| "order_state_value DELIVERED = ''delivered''"
| "order_state_value ACCEPTED = ''accepted''"
| "order_state_value REJECTED = ''rejected''"
| "order_state_value SUPERSEDED = ''superseded''"

definition order_state_of_value :: "string \<Rightarrow> OrderState result" where
  "order_state_of_value = enum_of_value order_state_value [SENT, DELIVERED, ACCEPTED, REJECTED, SUPERSEDED]"

lemma order_state_roundtrip [simp]: "order_state_of_value (order_state_value s) = Inr s"
  by (cases s) (simp_all add: order_state_of_value_def enum_of_value_def)

lemma order_state_value_inj [simp]: "order_state_value s = order_state_value t \<longleftrightarrow> s = t"
  by (cases s; cases t) simp_all

lemma message_type_value_inj: "inj message_type_value"
  by (rule injI) (case_tac x; case_tac y; simp)

lemma message_types_all: "t \<in> set message_types"
  by (cases t) (simp_all add: message_types_def)

lemma message_type_roundtrip [simp]: "message_type_of_value (message_type_value t) = Inr t"
  unfolding message_type_of_value_def
  by (rule enum_of_value_value) (auto intro: inj_on_subset [OF message_type_value_inj] simp: message_types_all)

definition phase_values :: "string list" where
  "phase_values = map phase_value [DIPLOMACY, ORDERS, RESOLUTION, RETREAT, BUILD]"

definition match_status_values :: "string list" where
  "match_status_values = map match_status_value [LOBBY, ACTIVE, COMPLETED]"

definition order_state_values :: "string list" where
  "order_state_values = map order_state_value [SENT, DELIVERED, ACCEPTED, REJECTED, SUPERSEDED]"

lemma enum_values [simp]:
  "phase_value p \<in> set phase_values" "match_status_value m \<in> set match_status_values"
  "order_state_value s \<in> set order_state_values"
proof -
  show "phase_value p \<in> set phase_values" by (cases p) (simp_all add: phase_values_def)
  show "match_status_value m \<in> set match_status_values"
    by (cases m) (simp_all add: match_status_values_def)
  show "order_state_value s \<in> set order_state_values"
    by (cases s) (simp_all add: order_state_values_def)
qed

section \<open>Type hints and classes\<close>

text \<open>The type hints that occur. An enum hint is the list of its values.\<close>

datatype hint =
    HInt | HFloat | HStr | HBytes | HBool | HDict | HOrder
  | HEnum "string list" | HOptional hint | HTuple hint

text \<open>The fields of each class with their hints, without \<open>message_type\<close>: first those of the
  envelope \<open>Message\<close>.\<close>

definition envelope_fields :: "(string \<times> hint) list" where
  "envelope_fields =
     [(''sequence_number'', HInt), (''timestamp'', HFloat), (''protocol_version'', HInt)]"

named_theorems body_defs \<open>the fields of each class\<close>

definition discover_game_fields :: "(string \<times> hint) list" where
  [body_defs]: "discover_game_fields = []"

definition game_info_fields :: "(string \<times> hint) list" where
  [body_defs]: "game_info_fields =
     [(''match_id'', HStr), (''status'', HEnum match_status_values), (''player_count'', HInt),
      (''max_players'', HInt), (''phase'', HOptional (HEnum phase_values))]"

definition join_request_fields :: "(string \<times> hint) list" where
  [body_defs]: "join_request_fields =
     [(''match_id'', HStr), (''player_public_key'', HBytes),
      (''display_name'', HOptional HStr)]"

definition join_accepted_fields :: "(string \<times> hint) list" where
  [body_defs]: "join_accepted_fields =
     [(''match_id'', HStr), (''encrypted_faction'', HBytes), (''faction_names'', HTuple HStr),
      (''match_parameters'', HDict)]"

definition join_rejected_fields :: "(string \<times> hint) list" where
  [body_defs]: "join_rejected_fields =
     [(''match_id'', HStr), (''reason'', HStr)]"

definition negotiation_fields :: "(string \<times> hint) list" where
  [body_defs]: "negotiation_fields =
     [(''match_id'', HStr), (''content'', HStr)]"

definition negotiation_ack_fields :: "(string \<times> hint) list" where
  [body_defs]: "negotiation_ack_fields =
     [(''match_id'', HStr), (''acked_sequence_number'', HInt)]"

definition order_submit_fields :: "(string \<times> hint) list" where
  [body_defs]: "order_submit_fields =
     [(''match_id'', HStr), (''revision'', HInt), (''orders'', HTuple HOrder)]"

definition order_receipt_fields :: "(string \<times> hint) list" where
  [body_defs]: "order_receipt_fields =
     [(''match_id'', HStr), (''revision'', HInt), (''order_hash'', HStr),
      (''state'', HEnum order_state_values)]"

definition order_update_fields :: "(string \<times> hint) list" where
  [body_defs]: "order_update_fields =
     [(''match_id'', HStr), (''revision'', HInt), (''orders'', HTuple HOrder)]"

definition order_cancel_fields :: "(string \<times> hint) list" where
  [body_defs]: "order_cancel_fields =
     [(''match_id'', HStr), (''revision'', HInt)]"

definition order_status_fields :: "(string \<times> hint) list" where
  [body_defs]: "order_status_fields =
     [(''match_id'', HStr), (''revision'', HInt), (''state'', HEnum order_state_values),
      (''order_hash'', HOptional HStr)]"

definition phase_start_fields :: "(string \<times> hint) list" where
  [body_defs]: "phase_start_fields =
     [(''match_id'', HStr), (''phase'', HEnum phase_values), (''turn'', HInt),
      (''year'', HInt), (''deadline'', HFloat)]"

definition phase_result_fields :: "(string \<times> hint) list" where
  [body_defs]: "phase_result_fields =
     [(''match_id'', HStr), (''phase'', HEnum phase_values), (''turn'', HInt),
      (''year'', HInt), (''canonical_state'', HBytes), (''state_hash'', HStr),
      (''previous_state_hash'', HOptional HStr), (''signature'', HBytes)]"

definition phase_deadline_warning_fields :: "(string \<times> hint) list" where
  [body_defs]: "phase_deadline_warning_fields =
     [(''match_id'', HStr), (''phase'', HEnum phase_values), (''seconds_remaining'', HFloat)]"

definition state_request_fields :: "(string \<times> hint) list" where
  [body_defs]: "state_request_fields =
     [(''match_id'', HStr), (''turn'', HOptional HInt)]"

definition state_response_fields :: "(string \<times> hint) list" where
  [body_defs]: "state_response_fields =
     [(''match_id'', HStr), (''turn'', HInt), (''canonical_state'', HBytes),
      (''state_hash'', HStr), (''previous_state_hash'', HOptional HStr),
      (''signature'', HBytes)]"

definition state_hash_fields :: "(string \<times> hint) list" where
  [body_defs]: "state_hash_fields =
     [(''match_id'', HStr), (''turn'', HInt), (''state_hash'', HStr)]"

definition draw_propose_fields :: "(string \<times> hint) list" where
  [body_defs]: "draw_propose_fields =
     [(''match_id'', HStr), (''turn'', HInt)]"

definition draw_vote_fields :: "(string \<times> hint) list" where
  [body_defs]: "draw_vote_fields =
     [(''match_id'', HStr), (''turn'', HInt), (''vote'', HBool)]"

definition draw_result_fields :: "(string \<times> hint) list" where
  [body_defs]: "draw_result_fields =
     [(''match_id'', HStr), (''turn'', HInt), (''accepted'', HBool), (''votes'', HDict)]"

definition match_start_fields :: "(string \<times> hint) list" where
  [body_defs]: "match_start_fields =
     [(''match_id'', HStr), (''faction_names'', HTuple HStr), (''canonical_state'', HBytes),
      (''state_hash'', HStr), (''signature'', HBytes), (''deadline'', HFloat)]"

definition match_end_fields :: "(string \<times> hint) list" where
  [body_defs]: "match_end_fields =
     [(''match_id'', HStr), (''reason'', HStr), (''winner'', HOptional HStr),
      (''final_state_hash'', HOptional HStr)]"

definition error_fields :: "(string \<times> hint) list" where
  [body_defs]: "error_fields =
     [(''code'', HStr), (''description'', HStr),
      (''related_sequence_number'', HOptional HInt)]"

fun body_fields :: "MessageType \<Rightarrow> (string \<times> hint) list" where
  "body_fields DISCOVER_GAME = discover_game_fields"
| "body_fields GAME_INFO = game_info_fields"
| "body_fields JOIN_REQUEST = join_request_fields"
| "body_fields JOIN_ACCEPTED = join_accepted_fields"
| "body_fields JOIN_REJECTED = join_rejected_fields"
| "body_fields NEGOTIATION = negotiation_fields"
| "body_fields NEGOTIATION_ACK = negotiation_ack_fields"
| "body_fields ORDER_SUBMIT = order_submit_fields"
| "body_fields ORDER_RECEIPT = order_receipt_fields"
| "body_fields ORDER_UPDATE = order_update_fields"
| "body_fields ORDER_CANCEL = order_cancel_fields"
| "body_fields ORDER_STATUS = order_status_fields"
| "body_fields PHASE_START = phase_start_fields"
| "body_fields PHASE_RESULT = phase_result_fields"
| "body_fields PHASE_DEADLINE_WARNING = phase_deadline_warning_fields"
| "body_fields STATE_REQUEST = state_request_fields"
| "body_fields STATE_RESPONSE = state_response_fields"
| "body_fields STATE_HASH = state_hash_fields"
| "body_fields DRAW_PROPOSE = draw_propose_fields"
| "body_fields DRAW_VOTE = draw_vote_fields"
| "body_fields DRAW_RESULT = draw_result_fields"
| "body_fields MATCH_START = match_start_fields"
| "body_fields MATCH_END = match_end_fields"
| "body_fields ERROR = error_fields"

declare body_defs [simp]

definition class_fields :: "MessageType \<Rightarrow> (string \<times> hint) list" where
  "class_fields t = envelope_fields @ body_fields t"

section \<open>Messages\<close>

datatype field_value = VRaw canonical | VEnum string | VOrder Order | VTuple "field_value list"

record message =
  message_type :: MessageType
  fields_of :: "(string \<times> field_value) list"

text \<open>A keyword-only constructor call: the envelope, with the default \<open>protocol_version\<close>, and the body.\<close>

definition mk_message :: "MessageType \<Rightarrow> int \<Rightarrow> rat \<Rightarrow> (string \<times> field_value) list \<Rightarrow> message" where
  "mk_message t sequence_number timestamp fs =
     \<lparr>message_type = t,
      fields_of = [(''sequence_number'', VRaw (CInt sequence_number)), (''timestamp'', VRaw (CFloat timestamp)),
         (''protocol_version'', VRaw (CInt PROTOCOL_VERSION))] @ fs\<rparr>"

definition field_of :: "message \<Rightarrow> string \<Rightarrow> field_value option" where
  "field_of msg k = map_of (fields_of msg) k"

lemma message_type_mk [simp]: "message_type (mk_message t s ts fs) = t"
  by (simp add: mk_message_def)

lemma field_of_mk [simp]:
  "field_of (mk_message t s ts fs) k =
     (if k = ''sequence_number'' then Some (VRaw (CInt s))
      else if k = ''timestamp'' then Some (VRaw (CFloat ts))
      else if k = ''protocol_version'' then Some (VRaw (CInt PROTOCOL_VERSION))
      else map_of fs k)"
  by (simp add: field_of_def mk_message_def)

fun str_value :: "string option \<Rightarrow> field_value" where
  "str_value None = VRaw CNone"
| "str_value (Some s) = VRaw (CStr s)"

lemma class_keys: "distinct (map fst (class_fields t))" "''message_type'' \<notin> set (map fst (class_fields t))"
  by (cases t; simp add: class_fields_def envelope_fields_def) (cases t; simp add: class_fields_def envelope_fields_def)

end
