(* ===== verification/Phases.thy ===== *)
theory Phases
  imports Messages "HOL-Library.Transitive_Closure_Table"
begin

text \<open>
  The match state machine, \<^verbatim>\<open>coordinator/phases.py\<close>: three transitions that raise
  \<open>InvalidTransitionError\<close> outside their source states. The step relation collects them; the
  properties are an invariant of the reachable states and the bound on the length of a turn.
\<close>

section \<open>States and transitions\<close>

record MatchState =
  ms_status :: MatchStatus
  ms_phase :: Phase
  ms_turn :: int
  ms_year :: int

definition initial_match_state :: MatchState where
  "initial_match_state = \<lparr>ms_status = LOBBY, ms_phase = DIPLOMACY, ms_turn = 1, ms_year = 1\<rparr>"

definition fsm_start_match :: "MatchState \<Rightarrow> MatchState result" where
  "fsm_start_match state =
     (if ms_status state \<noteq> LOBBY then Inl InvalidTransitionError
      else Inr (state\<lparr>ms_status := ACTIVE, ms_phase := DIPLOMACY, ms_turn := 1, ms_year := 1\<rparr>))"

definition fsm_end_match :: "MatchState \<Rightarrow> MatchState result" where
  "fsm_end_match state =
     (if ms_status state \<noteq> ACTIVE then Inl InvalidTransitionError
      else Inr (state\<lparr>ms_status := COMPLETED\<rparr>))"

definition next_turn :: "MatchState \<Rightarrow> MatchState" where
  "next_turn state =
     state\<lparr>ms_phase := DIPLOMACY, ms_turn := ms_turn state + 1, ms_year := ms_year state + 1\<rparr>"

definition fsm_advance_phase :: "bool \<Rightarrow> bool \<Rightarrow> MatchState \<Rightarrow> MatchState result" where
  "fsm_advance_phase has_dislodgements adjustment_needed state =
     (if ms_status state \<noteq> ACTIVE then Inl InvalidTransitionError
      else (case ms_phase state of
          DIPLOMACY \<Rightarrow> Inr (state\<lparr>ms_phase := ORDERS\<rparr>)
        | ORDERS \<Rightarrow> Inr (state\<lparr>ms_phase := RESOLUTION\<rparr>)
        | RESOLUTION \<Rightarrow>
            if has_dislodgements then Inr (state\<lparr>ms_phase := RETREAT\<rparr>)
            else if adjustment_needed then Inr (state\<lparr>ms_phase := BUILD\<rparr>)
            else Inr (next_turn state)
        | RETREAT \<Rightarrow>
            if adjustment_needed then Inr (state\<lparr>ms_phase := BUILD\<rparr>) else Inr (next_turn state)
        | BUILD \<Rightarrow> Inr (next_turn state)))"

section \<open>The machine as a step relation\<close>

inductive match_step :: "MatchState \<Rightarrow> MatchState \<Rightarrow> bool" where
  start: "fsm_start_match s = Inr s' \<Longrightarrow> match_step s s'"
| advance: "fsm_advance_phase d a s = Inr s' \<Longrightarrow> match_step s s'"
| finish: "fsm_end_match s = Inr s' \<Longrightarrow> match_step s s'"

inductive_cases match_stepE: "match_step s s'"

inductive_simps match_step_iff: "match_step s s'"

definition reachable :: "MatchState \<Rightarrow> bool" where
  "reachable s \<longleftrightarrow> match_step\<^sup>*\<^sup>* initial_match_state s"

text \<open>Turn and year agree, start at one, and a match in the lobby is at its very beginning.\<close>

definition match_invariant :: "MatchState \<Rightarrow> bool" where
  "match_invariant s \<longleftrightarrow>
     1 \<le> ms_turn s \<and> ms_year s = ms_turn s \<and>
     (ms_status s = LOBBY \<longrightarrow> s = initial_match_state)"

lemma match_invariant_initial: "match_invariant initial_match_state"
  by (simp add: match_invariant_def initial_match_state_def)

lemma match_invariant_step:
  assumes "match_step s s'" "match_invariant s"
  shows "match_invariant s'"
  using assms
  by (auto elim!: match_stepE split: if_splits Phase.splits
      simp: match_invariant_def fsm_start_match_def fsm_advance_phase_def fsm_end_match_def next_turn_def)

text \<open>How far a phase is from the next turn.\<close>

fun phase_rank :: "Phase \<Rightarrow> nat" where
  "phase_rank DIPLOMACY = 5"
| "phase_rank ORDERS = 4"
| "phase_rank RESOLUTION = 3"
| "phase_rank RETREAT = 2"
| "phase_rank BUILD = 1"

lemma match_step_status:
  assumes "match_step s s'"
  shows "ms_status s = LOBBY \<and> ms_status s' = ACTIVE \<or>
    ms_status s = ACTIVE \<and> (ms_status s' = ACTIVE \<or> ms_status s' = COMPLETED)"
  using assms
  by (auto elim!: match_stepE split: if_splits Phase.splits
      simp: match_invariant_def fsm_start_match_def fsm_advance_phase_def fsm_end_match_def next_turn_def)

text \<open>The kinds of step, by what they do to the state.\<close>

lemma match_step_effect:
  assumes "match_step s s'"
  obtains (started) "ms_status s = LOBBY" "s' = initial_match_state\<lparr>ms_status := ACTIVE\<rparr>"
    | (advanced) "ms_status s = ACTIVE" "s' = s\<lparr>ms_phase := ms_phase s'\<rparr>" "phase_rank (ms_phase s') < phase_rank (ms_phase s)"
    | (next_turn) "ms_status s = ACTIVE" "s' = next_turn s"
    | (ended) "ms_status s = ACTIVE" "s' = s\<lparr>ms_status := COMPLETED\<rparr>"
  using assms
proof cases
  case start
  then have "s' = initial_match_state\<lparr>ms_status := ACTIVE\<rparr>" "ms_status s = LOBBY"
    by (auto simp: fsm_start_match_def initial_match_state_def split: if_splits)
  then show thesis by (intro started)
next
  case (advance d a)
  then show thesis
    by (auto simp: fsm_advance_phase_def split: if_splits Phase.splits intro: advanced next_turn)
next
  case finish
  then show thesis by (auto simp: fsm_end_match_def split: if_splits intro: ended)
qed

lemma advance_progress:
  assumes "fsm_advance_phase d a s = Inr s'"
  shows "ms_status s' = ACTIVE \<and>
    (ms_turn s' = ms_turn s \<and> phase_rank (ms_phase s') < phase_rank (ms_phase s) \<or>
     ms_turn s' = ms_turn s + 1 \<and> ms_phase s' = DIPLOMACY)"
  using assms
  by (cases "ms_phase s") (auto simp: fsm_advance_phase_def next_turn_def split: if_splits)

text \<open>A sequence of advances, with the outcome of adjudication before each of them.\<close>

definition advances :: "(bool \<times> bool) list \<Rightarrow> MatchState \<Rightarrow> MatchState result" where
  "advances flags s = fold_result (\<lambda>(d, a) s. fsm_advance_phase d a s) flags s"

lemma advances_total:
  "ms_status s = ACTIVE \<Longrightarrow> \<exists>s'. advances flags s = Inr s' \<and> ms_status s' = ACTIVE"
proof (induction flags arbitrary: s)
  case Nil
  then show ?case by (simp add: advances_def)
next
  case (Cons f flags)
  obtain d a where f: "f = (d, a)" by (cases f)
  have "\<exists>t. fsm_advance_phase d a s = Inr t"
    using Cons.prems by (cases "ms_phase s"; cases d; cases a) (simp_all add: fsm_advance_phase_def)
  then obtain t where t: "fsm_advance_phase d a s = Inr t" ..
  with Cons.IH [of t] advance_progress [OF t] show ?case by (auto simp: advances_def f)
qed

lemma next_turn_within:
  assumes "ms_status s = ACTIVE" "phase_rank (ms_phase s) \<le> length flags"
  shows "\<exists>n\<ge>1. n \<le> phase_rank (ms_phase s) \<and> advances (take n flags) s = Inr (next_turn s)"
  using assms
proof (induction flags arbitrary: s)
  case Nil
  then show ?case by (cases "ms_phase s") simp_all
next
  case (Cons f flags)
  obtain d a where f: "f = (d, a)" by (cases f)
  obtain t where t: "fsm_advance_phase d a s = Inr t"
    using Cons.prems(1) by (cases "ms_phase s"; cases d; cases a) (simp_all add: fsm_advance_phase_def)
  consider "t = next_turn s" | "ms_status t = ACTIVE" "next_turn t = next_turn s" "phase_rank (ms_phase t) < phase_rank (ms_phase s)"
    using t by (cases "ms_phase s") (auto simp: fsm_advance_phase_def next_turn_def split: if_splits)
  then show ?case
  proof cases
    case 1
    have "1 \<le> phase_rank (ms_phase s)" by (cases "ms_phase s") simp_all
    with 1 t f show ?thesis by (intro exI [of _ 1]) (simp add: advances_def)
  next
    case 2
    with Cons.prems(2) have "phase_rank (ms_phase t) \<le> length flags" by simp
    with Cons.IH [OF 2(1)] obtain n where
      "n \<le> phase_rank (ms_phase t)" "advances (take n flags) t = Inr (next_turn t)" by blast
    with 2 t f show ?thesis by (intro exI [of _ "Suc n"]) (simp add: advances_def)
  qed
qed

section \<open>Properties of the machine\<close>

definition midgame :: MatchState where
  "midgame = \<lparr>ms_status = ACTIVE, ms_phase = ORDERS, ms_turn = 1, ms_year = 1\<rparr>"

lemma midgame_reachable: "reachable midgame"
proof -
  let ?s = "initial_match_state\<lparr>ms_status := ACTIVE\<rparr>"
  have "match_step initial_match_state ?s"
    by (rule match_step.start) (simp add: fsm_start_match_def initial_match_state_def)
  moreover have "match_step ?s midgame"
    by (rule match_step.advance [of False False])
      (simp add: fsm_advance_phase_def initial_match_state_def midgame_def)
  ultimately show ?thesis unfolding reachable_def by (meson rtranclp.simps)
qed

text \<open>C21: A match goes from lobby to active to completed and never back. In every reachable state the turn is at
  least one and equals the year, and a match in the lobby is in its initial state. The only step out of the
  lobby makes the match active in its first turn; a step of an active match goes on to a later phase of
  the turn, begins the next turn, or completes the match and changes nothing else; nothing leaves a completed
  match.\<close>

theorem match_lifecycle:
  assumes "reachable s"
  shows "1 \<le> ms_turn s \<and> ms_year s = ms_turn s \<and> (ms_status s = LOBBY \<longrightarrow> s = initial_match_state) \<and>
    (\<forall>s'. match_step s s' \<longrightarrow>
       (case ms_status s of
          LOBBY \<Rightarrow> s' = \<lparr>ms_status = ACTIVE, ms_phase = DIPLOMACY, ms_turn = 1, ms_year = 1\<rparr>
        | ACTIVE \<Rightarrow>
            s' = s\<lparr>ms_status := COMPLETED\<rparr> \<or>
            s' = s\<lparr>ms_phase := ms_phase s'\<rparr> \<and> phase_rank (ms_phase s') < phase_rank (ms_phase s) \<or>
            s' = \<lparr>ms_status = ACTIVE, ms_phase = DIPLOMACY, ms_turn = ms_turn s + 1, ms_year = ms_turn s + 1\<rparr>
        | COMPLETED \<Rightarrow> False))"
proof -
  have inv: "match_invariant s"
    using assms unfolding reachable_def
    by (induction rule: rtranclp_induct) (simp_all add: match_invariant_initial match_invariant_step)
  show ?thesis
  proof (intro conjI allI impI)
    fix s' assume "match_step s s'"
    then show "case ms_status s of
          LOBBY \<Rightarrow> s' = \<lparr>ms_status = ACTIVE, ms_phase = DIPLOMACY, ms_turn = 1, ms_year = 1\<rparr>
        | ACTIVE \<Rightarrow>
            s' = s\<lparr>ms_status := COMPLETED\<rparr> \<or>
            s' = s\<lparr>ms_phase := ms_phase s'\<rparr> \<and> phase_rank (ms_phase s') < phase_rank (ms_phase s) \<or>
            s' = \<lparr>ms_status = ACTIVE, ms_phase = DIPLOMACY, ms_turn = ms_turn s + 1, ms_year = ms_turn s + 1\<rparr>
        | COMPLETED \<Rightarrow> False"
    proof (cases rule: match_step_effect)
      case next_turn
      then show ?thesis using inv by (simp add: next_turn_def match_invariant_def)
    qed (simp_all add: initial_match_state_def)
  qed (use inv in \<open>simp_all add: match_invariant_def\<close>)
qed

theorem match_lifecycle_witness:
  "ms_year midgame = ms_turn midgame \<and> (\<nexists>s'. match_step midgame s' \<and> ms_status s' = LOBBY)"
proof -
  have "ms_status s' \<noteq> LOBBY" if "match_step midgame s'" for s'
  proof -
    have "s' = midgame\<lparr>ms_status := COMPLETED\<rparr> \<or> s' = midgame\<lparr>ms_phase := ms_phase s'\<rparr> \<or>
        s' = \<lparr>ms_status = ACTIVE, ms_phase = DIPLOMACY, ms_turn = 2, ms_year = 2\<rparr>"
      using match_lifecycle [OF midgame_reachable] that by (auto simp: midgame_def)
    then show ?thesis by (elim disjE) (simp, erule ssubst, simp_all add: midgame_def)
  qed
  then show ?thesis by (auto simp: midgame_def)
qed

text \<open>C22: A turn always ends, and the next one follows: an active match can be advanced any number of times
  without an exception, and among the first five advances, whatever adjudication said before each of them,
  there is one that ends in the diplomacy phase of the turn after the present one.\<close>

theorem turn_ends:
  assumes "ms_status s = ACTIVE" and "5 \<le> length flags"
  shows "(\<exists>s'. advances flags s = Inr s' \<and> ms_status s' = ACTIVE) \<and>
    (\<exists>n\<ge>1. n \<le> 5 \<and> advances (take n flags) s =
       Inr \<lparr>ms_status = ACTIVE, ms_phase = DIPLOMACY, ms_turn = ms_turn s + 1, ms_year = ms_year s + 1\<rparr>)"
proof -
  have "phase_rank (ms_phase s) \<le> 5" by (cases "ms_phase s") simp_all
  moreover from this assms(2) have "phase_rank (ms_phase s) \<le> length flags" by simp
  ultimately obtain n where "1 \<le> n" "n \<le> 5" "advances (take n flags) s = Inr (next_turn s)"
    using next_turn_within [OF assms(1)] by (meson order_trans)
  moreover have "next_turn s = \<lparr>ms_status = ACTIVE, ms_phase = DIPLOMACY, ms_turn = ms_turn s + 1, ms_year = ms_year s + 1\<rparr>"
    using assms(1) by (cases s) (simp add: next_turn_def)
  ultimately show ?thesis using advances_total [OF assms(1)] by metis
qed

theorem turn_ends_witness:
  "\<exists>n\<ge>1. n \<le> 5 \<and> advances (take n [(False, False), (True, False), (False, True), (False, True), (False, False)]) midgame =
     Inr \<lparr>ms_status = ACTIVE, ms_phase = DIPLOMACY, ms_turn = 2, ms_year = 2\<rparr>"
  using turn_ends [of midgame "[(False, False), (True, False), (False, True), (False, True), (False, False)]"]
  by (simp add: midgame_def)

end
