(* ===== verification/Store.thy ===== *)
theory Store
  imports Phases Externals
begin

text \<open>
  The persistence layer, \<^verbatim>\<open>coordinator/persistence.py\<close>: the SQLite tables as lists of rows in
  insertion order, with their primary keys, unique constraints and foreign keys (the \<open>IntegrityError\<close>
  of sqlite3), the 64-bit range of bound integers (its \<open>OverflowError\<close>) and the \<open>KeyError\<close> of the
  updates that touch no row. A write returns the new store or the exception; since every write is one
  transaction, a failed write leaves the store as it was. Enum columns are typed: they are written
  with \<open>.value\<close> and read with \<open>Enum(value)\<close>, which \<open>phase_roundtrip\<close> and its like show to be inverse.
  Only the \<open>status\<close> column of orders, which the code compares as a string, is one here.
\<close>

section \<open>Rows and tables\<close>

record match_row =
  mr_state :: MatchState
  mr_private_key :: bytes
  mr_deadline :: "rat option"
  mr_paused :: "rat option"
  mr_created_at :: rat

record player_row =
  pl_match :: string
  pl_public_key :: bytes
  pl_faction :: string
  pl_name :: "string option"
  pl_joined_at :: rat

record order_row =
  or_match :: string
  or_public_key :: bytes
  or_turn :: int
  or_revision :: int
  or_blob :: bytes
  or_hash :: string
  or_status :: string
  or_submitted_at :: rat

record phase_row =
  ph_match :: string
  ph_turn :: int
  ph_phase :: Phase
  ph_state :: bytes
  ph_hash :: string
  ph_previous :: "string option"
  ph_signature :: bytes
  ph_resolved_at :: rat

record vote_row =
  vo_match :: string
  vo_turn :: int
  vo_public_key :: bytes
  vo_vote :: bool
  vo_voted_at :: rat

record admin_row =
  ad_id :: nat
  ad_match :: string
  ad_command :: string
  ad_payload :: string
  ad_created_at :: rat
  ad_processed_at :: "rat option"

record seq_row =
  sq_match :: string
  sq_public_key :: bytes
  sq_last :: int

record store =
  t_matches :: "(string, match_row) dict"
  t_players :: "player_row list"
  t_orders :: "order_row list"
  t_phases :: "phase_row list"
  t_votes :: "vote_row list"
  t_admin :: "admin_row list"
  t_seqs :: "seq_row list"

definition empty_store :: store where
  "empty_store = \<lparr>t_matches = [], t_players = [], t_orders = [], t_phases = [], t_votes = [],
     t_admin = [], t_seqs = []\<rparr>"

section \<open>SQLite's part\<close>

definition sql_range :: "int \<Rightarrow> bool" where
  "sql_range i \<longleftrightarrow> - (2 ^ 63) \<le> i \<and> i < 2 ^ 63"

text \<open>A statement with bound integers.\<close>

definition with_ints :: "int list \<Rightarrow> 'a result \<Rightarrow> 'a result" where
  "with_ints is r = (if list_all sql_range is then r else Inl OverflowError)"

definition insert_row :: "('r \<Rightarrow> 'k) \<Rightarrow> 'r \<Rightarrow> 'r list \<Rightarrow> 'r list result" where
  "insert_row key row rows =
     (if key row \<in> set (map key rows) then Inl IntegrityError else Inr (rows @ [row]))"

text \<open>\<open>INSERT ... ON CONFLICT (key) DO UPDATE SET\<close> all other columns.\<close>

definition upsert_row :: "('r \<Rightarrow> 'k) \<Rightarrow> 'r \<Rightarrow> 'r list \<Rightarrow> 'r list" where
  "upsert_row key row rows =
     (if key row \<in> set (map key rows) then map (\<lambda>r. if key r = key row then row else r) rows
      else rows @ [row])"

text \<open>\<open>REFERENCES matches(match_id)\<close> with \<open>PRAGMA foreign_keys = ON\<close>.\<close>

definition check_match :: "store \<Rightarrow> string \<Rightarrow> 'a result \<Rightarrow> 'a result" where
  "check_match s match_id r = (if match_id \<in> set (map fst (t_matches s)) then r else Inl IntegrityError)"

section \<open>Match lifecycle\<close>

definition create_match :: "string \<Rightarrow> bytes \<Rightarrow> rat \<Rightarrow> store \<Rightarrow> store result" where
  "create_match match_id private_key created_at s =
     (if match_id \<in> set (map fst (t_matches s)) then Inl IntegrityError
      else Inr (s\<lparr>t_matches := t_matches s @
        [(match_id, \<lparr>mr_state = initial_match_state, mr_private_key = private_key, mr_deadline = None,
            mr_paused = None, mr_created_at = created_at\<rparr>)]\<rparr>))"

definition get_match :: "store \<Rightarrow> string \<Rightarrow> (MatchState \<times> rat) option" where
  "get_match s match_id = map_option (\<lambda>r. (mr_state r, mr_created_at r)) (map_of (t_matches s) match_id)"

text \<open>\<open>UPDATE matches SET ... WHERE match_id = ?\<close>, \<open>KeyError\<close> when no row matched.\<close>

definition update_match :: "string \<Rightarrow> (match_row \<Rightarrow> match_row) \<Rightarrow> store \<Rightarrow> store result" where
  "update_match match_id f s =
     (case map_of (t_matches s) match_id of
        None \<Rightarrow> Inl KeyError
      | Some r \<Rightarrow> Inr (s\<lparr>t_matches := AList.update match_id (f r) (t_matches s)\<rparr>))"

definition save_match_state :: "string \<Rightarrow> MatchState \<Rightarrow> store \<Rightarrow> store result" where
  "save_match_state match_id st s =
     with_ints [ms_turn st, ms_year st] (update_match match_id (\<lambda>r. r\<lparr>mr_state := st\<rparr>) s)"

definition match_column :: "(match_row \<Rightarrow> 'a) \<Rightarrow> store \<Rightarrow> string \<Rightarrow> 'a result" where
  "match_column col s match_id =
     (case map_of (t_matches s) match_id of None \<Rightarrow> Inl KeyError | Some r \<Rightarrow> Inr (col r))"

definition load_coordinator_identity :: "store \<Rightarrow> string \<Rightarrow> bytes result" where
  "load_coordinator_identity = match_column mr_private_key"

definition set_deadline :: "string \<Rightarrow> rat option \<Rightarrow> store \<Rightarrow> store result" where
  "set_deadline match_id deadline = update_match match_id (\<lambda>r. r\<lparr>mr_deadline := deadline\<rparr>)"

definition get_deadline :: "store \<Rightarrow> string \<Rightarrow> rat option result" where
  "get_deadline = match_column mr_deadline"

definition set_paused_remaining_seconds :: "string \<Rightarrow> rat option \<Rightarrow> store \<Rightarrow> store result" where
  "set_paused_remaining_seconds match_id remaining = update_match match_id (\<lambda>r. r\<lparr>mr_paused := remaining\<rparr>)"

definition get_paused_remaining_seconds :: "store \<Rightarrow> string \<Rightarrow> rat option result" where
  "get_paused_remaining_seconds = match_column mr_paused"

section \<open>Players\<close>

definition player_key :: "player_row \<Rightarrow> string \<times> bytes" where
  "player_key r = (pl_match r, pl_public_key r)"

definition add_player ::
    "string \<Rightarrow> bytes \<Rightarrow> string \<Rightarrow> string option \<Rightarrow> rat \<Rightarrow> store \<Rightarrow> store result" where
  "add_player match_id public_key faction display_name joined_at s =
     check_match s match_id
       (bind_result (insert_row player_key
          \<lparr>pl_match = match_id, pl_public_key = public_key, pl_faction = faction, pl_name = display_name,
           pl_joined_at = joined_at\<rparr> (t_players s)) (\<lambda>rows. Inr (s\<lparr>t_players := rows\<rparr>)))"

text \<open>\<open>ORDER BY joined_at\<close>; SQL leaves the order of rows with the same time open, here they stay in insertion
  order.\<close>

definition list_players :: "store \<Rightarrow> string \<Rightarrow> player_row list" where
  "list_players s match_id = sort_key pl_joined_at (filter (\<lambda>r. pl_match r = match_id) (t_players s))"

definition get_player_faction :: "store \<Rightarrow> string \<Rightarrow> bytes \<Rightarrow> string option" where
  "get_player_faction s match_id public_key =
     map_option pl_faction (find (\<lambda>r. player_key r = (match_id, public_key)) (t_players s))"

section \<open>Orders\<close>

definition order_key :: "order_row \<Rightarrow> (string \<times> bytes) \<times> int \<times> int" where
  "order_key r = ((or_match r, or_public_key r), or_turn r, or_revision r)"

definition record_order_submission ::
    "string \<Rightarrow> bytes \<Rightarrow> int \<Rightarrow> int \<Rightarrow> bytes \<Rightarrow> string \<Rightarrow> string \<Rightarrow> rat \<Rightarrow> store \<Rightarrow> store result" where
  "record_order_submission match_id public_key trn revision blob order_hash status submitted_at s =
     with_ints [trn, revision] (check_match s match_id
       (bind_result (insert_row order_key
          \<lparr>or_match = match_id, or_public_key = public_key, or_turn = trn, or_revision = revision,
           or_blob = blob, or_hash = order_hash, or_status = status, or_submitted_at = submitted_at\<rparr>
          (t_orders s)) (\<lambda>rows. Inr (s\<lparr>t_orders := rows\<rparr>))))"

definition update_order_status ::
    "string \<Rightarrow> bytes \<Rightarrow> int \<Rightarrow> int \<Rightarrow> string \<Rightarrow> store \<Rightarrow> store result" where
  "update_order_status match_id public_key trn revision status s =
     with_ints [trn, revision]
       (let key = ((match_id, public_key), trn, revision) in
        if key \<notin> set (map order_key (t_orders s)) then Inl KeyError
        else Inr (s\<lparr>t_orders := map (\<lambda>r. if order_key r = key then r\<lparr>or_status := status\<rparr> else r) (t_orders s)\<rparr>))"

text \<open>The rows of one player in one turn, \<open>ORDER BY revision\<close>.\<close>

definition order_revisions :: "store \<Rightarrow> string \<Rightarrow> bytes \<Rightarrow> int \<Rightarrow> order_row list" where
  "order_revisions s match_id public_key trn =
     sort_key or_revision (filter (\<lambda>r. or_match r = match_id \<and> or_public_key r = public_key \<and> or_turn r = trn)
       (t_orders s))"

definition get_order_revisions :: "store \<Rightarrow> string \<Rightarrow> bytes \<Rightarrow> int \<Rightarrow> order_row list result" where
  "get_order_revisions s match_id public_key trn =
     with_ints [trn] (Inr (order_revisions s match_id public_key trn))"

text \<open>\<open>ORDER BY revision DESC LIMIT 1\<close>.\<close>

definition latest_order :: "store \<Rightarrow> string \<Rightarrow> bytes \<Rightarrow> int \<Rightarrow> order_row option" where
  "latest_order s match_id public_key trn =
     (let rows = order_revisions s match_id public_key trn in if rows = [] then None else Some (last rows))"

definition get_latest_order :: "store \<Rightarrow> string \<Rightarrow> bytes \<Rightarrow> int \<Rightarrow> order_row option result" where
  "get_latest_order s match_id public_key trn =
     with_ints [trn] (Inr (latest_order s match_id public_key trn))"

text \<open>The rows whose revision is the maximum of their player and turn, \<open>ORDER BY public_key\<close> (bytes
  compare as unsigned numbers).\<close>

definition latest_orders_for_turn :: "store \<Rightarrow> string \<Rightarrow> int \<Rightarrow> order_row list" where
  "latest_orders_for_turn s match_id trn =
     sort_key (\<lambda>r. map unat (or_public_key r))
       (filter (\<lambda>r. or_match r = match_id \<and> or_turn r = trn \<and>
          list_all (\<lambda>r2. or_match r2 = or_match r \<and> or_public_key r2 = or_public_key r \<and> or_turn r2 = or_turn r
             \<longrightarrow> or_revision r2 \<le> or_revision r) (t_orders s)) (t_orders s))"

definition get_latest_orders_for_turn :: "store \<Rightarrow> string \<Rightarrow> int \<Rightarrow> order_row list result" where
  "get_latest_orders_for_turn s match_id trn =
     with_ints [trn] (Inr (latest_orders_for_turn s match_id trn))"

section \<open>Phase results: the hash chain\<close>

definition phase_key :: "phase_row \<Rightarrow> string \<times> int \<times> Phase" where
  "phase_key r = (ph_match r, ph_turn r, ph_phase r)"

definition record_phase_result ::
    "string \<Rightarrow> int \<Rightarrow> Phase \<Rightarrow> bytes \<Rightarrow> string \<Rightarrow> string option \<Rightarrow> bytes \<Rightarrow> rat \<Rightarrow> store \<Rightarrow> store result" where
  "record_phase_result match_id trn phs canonical_state state_hash previous signature resolved_at s =
     with_ints [trn] (check_match s match_id
       (bind_result (insert_row phase_key
          \<lparr>ph_match = match_id, ph_turn = trn, ph_phase = phs, ph_state = canonical_state,
           ph_hash = state_hash, ph_previous = previous, ph_signature = signature, ph_resolved_at = resolved_at\<rparr>
          (t_phases s)) (\<lambda>rows. Inr (s\<lparr>t_phases := rows\<rparr>))))"

definition get_phase_result :: "store \<Rightarrow> string \<Rightarrow> int \<Rightarrow> Phase \<Rightarrow> phase_row option result" where
  "get_phase_result s match_id trn phs =
     with_ints [trn] (Inr (find (\<lambda>r. phase_key r = (match_id, trn, phs)) (t_phases s)))"

text \<open>\<open>ORDER BY id\<close>: the order of insertion.\<close>

definition get_hash_chain :: "store \<Rightarrow> string \<Rightarrow> phase_row list" where
  "get_hash_chain s match_id = filter (\<lambda>r. ph_match r = match_id) (t_phases s)"

definition get_latest_phase_result :: "store \<Rightarrow> string \<Rightarrow> phase_row option" where
  "get_latest_phase_result s match_id =
     (let chain = get_hash_chain s match_id in if chain = [] then None else Some (last chain))"

section \<open>Draw votes, operator commands, sequence numbers\<close>

definition vote_key :: "vote_row \<Rightarrow> string \<times> int \<times> bytes" where
  "vote_key r = (vo_match r, vo_turn r, vo_public_key r)"

definition record_draw_vote :: "string \<Rightarrow> int \<Rightarrow> bytes \<Rightarrow> bool \<Rightarrow> rat \<Rightarrow> store \<Rightarrow> store result" where
  "record_draw_vote match_id trn public_key vote voted_at s =
     with_ints [trn] (check_match s match_id
       (Inr (s\<lparr>t_votes := upsert_row vote_key
          \<lparr>vo_match = match_id, vo_turn = trn, vo_public_key = public_key, vo_vote = vote, vo_voted_at = voted_at\<rparr>
          (t_votes s)\<rparr>)))"

definition draw_votes :: "store \<Rightarrow> string \<Rightarrow> int \<Rightarrow> (bytes, bool) dict" where
  "draw_votes s match_id trn =
     dict_comp vo_public_key vo_vote (filter (\<lambda>r. vo_match r = match_id \<and> vo_turn r = trn) (t_votes s))"

definition get_draw_votes :: "store \<Rightarrow> string \<Rightarrow> int \<Rightarrow> (bytes, bool) dict result" where
  "get_draw_votes s match_id trn = with_ints [trn] (Inr (draw_votes s match_id trn))"

text \<open>\<open>AUTOINCREMENT\<close>: no row is ever deleted, so the next id is the number of rows plus one.\<close>

definition enqueue_admin_command :: "string \<Rightarrow> string \<Rightarrow> string \<Rightarrow> rat \<Rightarrow> store \<Rightarrow> (nat \<times> store) result" where
  "enqueue_admin_command match_id command payload created_at s =
     check_match s match_id
       (let i = length (t_admin s) + 1 in
        Inr (i, s\<lparr>t_admin := t_admin s @
          [\<lparr>ad_id = i, ad_match = match_id, ad_command = command, ad_payload = payload,
            ad_created_at = created_at, ad_processed_at = None\<rparr>]\<rparr>))"

definition get_pending_admin_commands :: "store \<Rightarrow> string \<Rightarrow> admin_row list" where
  "get_pending_admin_commands s match_id =
     sort_key ad_id (filter (\<lambda>r. ad_match r = match_id \<and> ad_processed_at r = None) (t_admin s))"

definition get_admin_command :: "store \<Rightarrow> nat \<Rightarrow> admin_row option" where
  "get_admin_command s i = find (\<lambda>r. ad_id r = i) (t_admin s)"

definition mark_admin_command_processed :: "nat \<Rightarrow> rat \<Rightarrow> store \<Rightarrow> store result" where
  "mark_admin_command_processed i processed_at s =
     Inr (s\<lparr>t_admin := map (\<lambda>r. if ad_id r = i then r\<lparr>ad_processed_at := Some processed_at\<rparr> else r) (t_admin s)\<rparr>)"

definition seq_key :: "seq_row \<Rightarrow> string \<times> bytes" where
  "seq_key r = (sq_match r, sq_public_key r)"

definition get_last_sequence_number :: "store \<Rightarrow> string \<Rightarrow> bytes \<Rightarrow> int option" where
  "get_last_sequence_number s match_id public_key =
     map_option sq_last (find (\<lambda>r. seq_key r = (match_id, public_key)) (t_seqs s))"

definition record_sequence_number :: "string \<Rightarrow> bytes \<Rightarrow> int \<Rightarrow> store \<Rightarrow> store result" where
  "record_sequence_number match_id public_key n s =
     with_ints [n] (check_match s match_id
       (Inr (s\<lparr>t_seqs := upsert_row seq_key
          \<lparr>sq_match = match_id, sq_public_key = public_key, sq_last = n\<rparr> (t_seqs s)\<rparr>)))"

end
