(* ===== verification/Store_Facts.thy ===== *)
theory Store_Facts
  imports Store
begin

text \<open>
  What the tables guarantee. \<open>store_ok\<close> collects the primary keys, the unique constraints and the
  foreign keys; \<open>store_write\<close> is the relation of all write methods, and every one of them keeps
  \<open>store_ok\<close>. The locale \<open>key_value\<close> is the contract of a table that is written by upsert and read
  by key; the vote table and the sequence numbers are its instances.
\<close>

section \<open>The upsert contract\<close>

locale key_value =
  fixes look :: "'s \<Rightarrow> 'k \<Rightarrow> 'v option" and put :: "'k \<Rightarrow> 'v \<Rightarrow> 's \<Rightarrow> 's result"
  assumes look_put: "put k v s = Inr s' \<Longrightarrow> look s' j = (if j = k then Some v else look s j)"
begin

lemma look_puts:
  "fold_result (\<lambda>(k, v) s. put k v s) kvs s = Inr s' \<Longrightarrow>
   look s' j = (case map_of (rev kvs) j of Some v \<Rightarrow> Some v | None \<Rightarrow> look s j)"
proof (induction kvs arbitrary: s' rule: rev_induct)
  case Nil
  then show ?case by simp
next
  case (snoc kv kvs)
  then obtain t where t: "fold_result (\<lambda>(k, v) s. put k v s) kvs s = Inr t" "put (fst kv) (snd kv) t = Inr s'"
    by (cases kv) (auto simp: fold_result_append)
  from snoc.IH [OF t(1)] look_put [OF t(2)] show ?case by (cases kv) auto
qed

text \<open>A later write to another key never disturbs what was written.\<close>

lemma look_stable:
  assumes "put k v s = Inr s'" "fold_result (\<lambda>(k, v) s. put k v s) kvs s' = Inr s''" "k \<notin> set (map fst kvs)"
  shows "look s'' k = Some v"
proof -
  from assms(3) have "map_of (rev kvs) k = None" by (simp add: map_of_eq_None_iff)
  with look_puts [OF assms(2), of k] look_put [OF assms(1), of k] show ?thesis by simp
qed

end

section \<open>Rows by key\<close>

lemma keys_upsert_row:
  "map key (upsert_row key row rows) =
     (if key row \<in> set (map key rows) then map key rows else map key rows @ [key row])"
  by (induction rows) (auto simp: upsert_row_def)

lemma distinct_upsert_row: "distinct (map key rows) \<Longrightarrow> distinct (map key (upsert_row key row rows))"
  by (simp only: keys_upsert_row) simp

lemma find_map_replace:
  assumes "key row = k'"
  shows "find (\<lambda>r. key r = k) (map (\<lambda>r. if key r = k' then row else r) rows) =
    (if k = k' then (if k' \<in> set (map key rows) then Some row else None) else find (\<lambda>r. key r = k) rows)"
  using assms by (induction rows) auto

lemma find_upsert_row:
  "find (\<lambda>r. key r = k) (upsert_row key row rows) =
     (if k = key row then Some row else find (\<lambda>r. key r = k) rows)"
proof (cases "key row \<in> set (map key rows)")
  case True
  then have "upsert_row key row rows = map (\<lambda>r. if key r = key row then row else r) rows"
    by (simp add: upsert_row_def)
  with True show ?thesis using find_map_replace [of key row "key row" k rows] by simp
next
  case False
  moreover have "find (\<lambda>r. key r = k) (rows @ [row]) =
      (case find (\<lambda>r. key r = k) rows of None \<Rightarrow> if key row = k then Some row else None | Some r \<Rightarrow> Some r)"
    by (induction rows) auto
  moreover have "find (\<lambda>r. key r = key row) rows = None" using False by (simp add: find_None_iff) (metis imageI)
  ultimately show ?thesis by (auto simp: upsert_row_def split: option.splits)
qed

lemma insert_row_Inr:
  "insert_row key row rows = Inr rows' \<longleftrightarrow> key row \<notin> set (map key rows) \<and> rows' = rows @ [row]"
  by (auto simp: insert_row_def)

lemma with_ints_Inr [simp]: "with_ints is r = Inr x \<longleftrightarrow> list_all sql_range is \<and> r = Inr x"
  by (simp add: with_ints_def)

lemma check_match_Inr [simp]:
  "check_match s match_id r = Inr x \<longleftrightarrow> match_id \<in> set (map fst (t_matches s)) \<and> r = Inr x"
  by (simp add: check_match_def)

interpretation sequence_numbers: key_value
  "\<lambda>s (m, k). get_last_sequence_number s m k" "\<lambda>(m, k) n. record_sequence_number m k n"
proof
  fix k :: "string \<times> bytes" and v s s' and j :: "string \<times> bytes"
  assume "(case k of (m, k) \<Rightarrow> \<lambda>n. record_sequence_number m k n) v s = Inr s'"
  then have "t_seqs s' = upsert_row seq_key \<lparr>sq_match = fst k, sq_public_key = snd k, sq_last = v\<rparr> (t_seqs s)"
    by (auto simp: record_sequence_number_def case_prod_beta)
  then show "(case j of (m, k) \<Rightarrow> get_last_sequence_number s' m k) =
      (if j = k then Some v else (case j of (m, k) \<Rightarrow> get_last_sequence_number s m k))"
    by (cases j; cases k) (simp add: get_last_sequence_number_def find_upsert_row, simp add: seq_key_def)
qed

definition look_vote :: "store \<Rightarrow> string \<times> int \<times> bytes \<Rightarrow> bool option" where
  "look_vote s k = map_option vo_vote (find (\<lambda>r. vote_key r = k) (t_votes s))"

interpretation votes: key_value look_vote "\<lambda>(m, t, k) v. record_draw_vote m t k v voted_at" for voted_at
proof
  fix k :: "string \<times> int \<times> bytes" and v s s' and j :: "string \<times> int \<times> bytes"
  assume "(case k of (m, t, k) \<Rightarrow> \<lambda>v. record_draw_vote m t k v voted_at) v s = Inr s'"
  then have "t_votes s' = upsert_row vote_key \<lparr>vo_match = fst k, vo_turn = fst (snd k),
      vo_public_key = snd (snd k), vo_vote = v, vo_voted_at = voted_at\<rparr> (t_votes s)"
    by (auto simp: record_draw_vote_def case_prod_beta)
  then show "look_vote s' j = (if j = k then Some v else look_vote s j)"
    by (cases k) (simp add: look_vote_def find_upsert_row, simp add: vote_key_def)
qed

section \<open>Integrity\<close>

definition all_in_matches :: "store \<Rightarrow> ('r \<Rightarrow> string) \<Rightarrow> 'r list \<Rightarrow> bool" where
  "all_in_matches s match_of rows \<longleftrightarrow> (\<forall>r\<in>set rows. match_of r \<in> set (map fst (t_matches s)))"

definition store_ok :: "store \<Rightarrow> bool" where
  "store_ok s \<longleftrightarrow>
     dict_ok (t_matches s) \<and>
     distinct (map player_key (t_players s)) \<and> all_in_matches s pl_match (t_players s) \<and>
     distinct (map order_key (t_orders s)) \<and> all_in_matches s or_match (t_orders s) \<and>
     distinct (map phase_key (t_phases s)) \<and> all_in_matches s ph_match (t_phases s) \<and>
     distinct (map vote_key (t_votes s)) \<and> all_in_matches s vo_match (t_votes s) \<and>
     map ad_id (t_admin s) = [1..<length (t_admin s) + 1] \<and> all_in_matches s ad_match (t_admin s) \<and>
     distinct (map seq_key (t_seqs s)) \<and> all_in_matches s sq_match (t_seqs s)"

inductive store_write :: "store \<Rightarrow> store \<Rightarrow> bool" where
  w_create: "create_match m k t s = Inr s' \<Longrightarrow> store_write s s'"
| w_state: "save_match_state m st s = Inr s' \<Longrightarrow> store_write s s'"
| w_deadline: "set_deadline m d s = Inr s' \<Longrightarrow> store_write s s'"
| w_paused: "set_paused_remaining_seconds m d s = Inr s' \<Longrightarrow> store_write s s'"
| w_player: "add_player m k f n t s = Inr s' \<Longrightarrow> store_write s s'"
| w_order: "record_order_submission m k tn rv b h st t s = Inr s' \<Longrightarrow> store_write s s'"
| w_order_status: "update_order_status m k tn rv st s = Inr s' \<Longrightarrow> store_write s s'"
| w_phase: "record_phase_result m tn ph cs h p sg t s = Inr s' \<Longrightarrow> store_write s s'"
| w_vote: "record_draw_vote m tn k v t s = Inr s' \<Longrightarrow> store_write s s'"
| w_enqueue: "enqueue_admin_command m c p t s = Inr (i, s') \<Longrightarrow> store_write s s'"
| w_processed: "mark_admin_command_processed i t s = Inr s' \<Longrightarrow> store_write s s'"
| w_sequence: "record_sequence_number m k n s = Inr s' \<Longrightarrow> store_write s s'"

inductive_cases store_writeE: "store_write s s'"

lemma keys_update_present: "k \<in> set (map fst d) \<Longrightarrow> map fst (AList.update k v d) = map fst d"
  by (induction d) auto

lemma update_match_Inr:
  assumes "update_match m f s = Inr s'"
  obtains r where "map_of (t_matches s) m = Some r" "s' = s\<lparr>t_matches := AList.update m (f r) (t_matches s)\<rparr>"
    "map fst (t_matches s') = map fst (t_matches s)"
proof -
  obtain r where r: "map_of (t_matches s) m = Some r" "s' = s\<lparr>t_matches := AList.update m (f r) (t_matches s)\<rparr>"
    using assms by (auto simp: update_match_def split: option.splits)
  have "m \<in> set (map fst (t_matches s))" using r(1) by (force dest: map_of_SomeD)
  with r that keys_update_present show thesis by (metis store.select_convs(1) store.surjective store.update_convs(1))
qed

lemma store_ok_matches:
  assumes "store_ok s" "s' = s\<lparr>t_matches := ms\<rparr>" "map fst ms = map fst (t_matches s)"
  shows "store_ok s'"
  using assms by (simp add: store_ok_def all_in_matches_def dict_ok_def)

lemma store_ok_update_match:
  assumes "update_match m f s = Inr s'" "store_ok s"
  shows "store_ok s'"
  using assms by (elim update_match_Inr) (auto intro: store_ok_matches)

lemma order_key_status: "map order_key (map (\<lambda>r. if P r then r\<lparr>or_status := st\<rparr> else r) rows) = map order_key rows"
  by (induction rows) (auto simp: order_key_def)

lemma upsert_row_mem: "r \<in> set (upsert_row key row rows) \<Longrightarrow> r = row \<or> r \<in> set rows"
  by (auto simp: upsert_row_def split: if_splits)

lemma store_ok_tables:
  assumes "store_ok s"
  shows "distinct (map player_key ps) \<Longrightarrow> all_in_matches s pl_match ps \<Longrightarrow> store_ok (s\<lparr>t_players := ps\<rparr>)"
    and "distinct (map order_key os) \<Longrightarrow> all_in_matches s or_match os \<Longrightarrow> store_ok (s\<lparr>t_orders := os\<rparr>)"
    and "distinct (map phase_key hs) \<Longrightarrow> all_in_matches s ph_match hs \<Longrightarrow> store_ok (s\<lparr>t_phases := hs\<rparr>)"
    and "distinct (map vote_key vs) \<Longrightarrow> all_in_matches s vo_match vs \<Longrightarrow> store_ok (s\<lparr>t_votes := vs\<rparr>)"
    and "map ad_id as = [1..<length as + 1] \<Longrightarrow> all_in_matches s ad_match as \<Longrightarrow> store_ok (s\<lparr>t_admin := as\<rparr>)"
    and "distinct (map seq_key qs) \<Longrightarrow> all_in_matches s sq_match qs \<Longrightarrow> store_ok (s\<lparr>t_seqs := qs\<rparr>)"
  using assms by (simp_all add: store_ok_def all_in_matches_def)

lemma store_okD:
  assumes "store_ok s"
  shows "dict_ok (t_matches s)"
    and "distinct (map player_key (t_players s))" "all_in_matches s pl_match (t_players s)"
    and "distinct (map order_key (t_orders s))" "all_in_matches s or_match (t_orders s)"
    and "distinct (map phase_key (t_phases s))" "all_in_matches s ph_match (t_phases s)"
    and "distinct (map vote_key (t_votes s))" "all_in_matches s vo_match (t_votes s)"
    and "map ad_id (t_admin s) = [1..<length (t_admin s) + 1]" "all_in_matches s ad_match (t_admin s)"
    and "distinct (map seq_key (t_seqs s))" "all_in_matches s sq_match (t_seqs s)"
  using assms by (simp_all add: store_ok_def)

lemma all_in_matches_append [simp]:
  "all_in_matches s f (rows @ [row]) \<longleftrightarrow> all_in_matches s f rows \<and> f row \<in> set (map fst (t_matches s))"
  by (auto simp: all_in_matches_def)

lemma all_in_matches_upsert:
  "all_in_matches s f rows \<Longrightarrow> f row \<in> set (map fst (t_matches s)) \<Longrightarrow> all_in_matches s f (upsert_row key row rows)"
  by (auto simp: all_in_matches_def dest!: upsert_row_mem)

lemma all_in_matches_map:
  "(\<And>r. f (g r) = f r) \<Longrightarrow> all_in_matches s f (map g rows) \<longleftrightarrow> all_in_matches s f rows"
  by (simp add: all_in_matches_def)

lemma create_match_ok: "create_match m k t s = Inr s' \<Longrightarrow> store_ok s \<Longrightarrow> store_ok s'"
  by (auto simp: create_match_def store_ok_def all_in_matches_def dict_ok_def split: if_splits)

lemma add_player_ok: "add_player m k f n t s = Inr s' \<Longrightarrow> store_ok s \<Longrightarrow> store_ok s'"
  by (auto simp: add_player_def insert_row_Inr simp del: set_map intro!: store_ok_tables(1)
      dest: store_okD(2,3))

lemma record_order_ok: "record_order_submission m k tn rv b h st t s = Inr s' \<Longrightarrow> store_ok s \<Longrightarrow> store_ok s'"
  by (auto simp: record_order_submission_def insert_row_Inr simp del: set_map intro!: store_ok_tables(2)
      dest: store_okD(4,5))

lemma update_order_ok: "update_order_status m k tn rv st s = Inr s' \<Longrightarrow> store_ok s \<Longrightarrow> store_ok s'"
  by (auto simp: update_order_status_def Let_def order_key_status all_in_matches_map simp del: set_map map_map
      intro!: store_ok_tables(2) dest: store_okD(4,5) split: if_splits)

lemma record_phase_ok: "record_phase_result m tn ph cs h p sg t s = Inr s' \<Longrightarrow> store_ok s \<Longrightarrow> store_ok s'"
  by (auto simp: record_phase_result_def insert_row_Inr simp del: set_map intro!: store_ok_tables(3)
      dest: store_okD(6,7))

lemma record_vote_ok: "record_draw_vote m tn k v t s = Inr s' \<Longrightarrow> store_ok s \<Longrightarrow> store_ok s'"
  by (auto simp: record_draw_vote_def simp del: set_map
      intro!: store_ok_tables(4) distinct_upsert_row all_in_matches_upsert dest: store_okD(8,9))

lemma record_sequence_ok: "record_sequence_number m k n s = Inr s' \<Longrightarrow> store_ok s \<Longrightarrow> store_ok s'"
  by (auto simp: record_sequence_number_def simp del: set_map
      intro!: store_ok_tables(6) distinct_upsert_row all_in_matches_upsert dest: store_okD(12,13))

lemma enqueue_ok: "enqueue_admin_command m c p t s = Inr (i, s') \<Longrightarrow> store_ok s \<Longrightarrow> store_ok s'"
  by (auto simp: enqueue_admin_command_def Let_def simp del: set_map intro!: store_ok_tables(5)
      dest: store_okD(10,11))

lemma processed_ok: "mark_admin_command_processed i t s = Inr s' \<Longrightarrow> store_ok s \<Longrightarrow> store_ok s'"
proof -
  assume eq: "mark_admin_command_processed i t s = Inr s'" and ok: "store_ok s"
  let ?f = "\<lambda>r. if ad_id r = i then r\<lparr>ad_processed_at := Some t\<rparr> else r"
  have ids: "map ad_id (map ?f (t_admin s)) = map ad_id (t_admin s)" by simp
  have "s' = s\<lparr>t_admin := map ?f (t_admin s)\<rparr>" using eq by (simp add: mark_admin_command_processed_def)
  moreover have "store_ok (s\<lparr>t_admin := map ?f (t_admin s)\<rparr>)"
  proof (rule store_ok_tables(5) [OF ok])
    show "map ad_id (map ?f (t_admin s)) = [1..<length (map ?f (t_admin s)) + 1]"
      unfolding ids by (simp add: store_okD(10) [OF ok])
    show "all_in_matches s ad_match (map ?f (t_admin s))"
      using store_okD(11) [OF ok] by (simp add: all_in_matches_map)
  qed
  ultimately show ?thesis by simp
qed

lemma match_updates_ok:
  "save_match_state m st s = Inr s' \<Longrightarrow> store_ok s \<Longrightarrow> store_ok s'"
  "set_deadline m d s = Inr s' \<Longrightarrow> store_ok s \<Longrightarrow> store_ok s'"
  "set_paused_remaining_seconds m d s = Inr s' \<Longrightarrow> store_ok s \<Longrightarrow> store_ok s'"
  by (auto simp: save_match_state_def set_deadline_def set_paused_remaining_seconds_def
      intro: store_ok_update_match)

lemma store_write_ok: "store_write s s' \<Longrightarrow> store_ok s \<Longrightarrow> store_ok s'"
  by (elim store_writeE) (blast intro: create_match_ok add_player_ok record_order_ok update_order_ok
      record_phase_ok record_vote_ok record_sequence_ok enqueue_ok processed_ok match_updates_ok)+

section \<open>Reading the order table\<close>

lemma sort_key_Nil_iff [simp]: "sort_key f xs = [] \<longleftrightarrow> xs = []"
  by (metis length_0_conv length_sort)

lemma order_revisions_set:
  "r \<in> set (order_revisions s m k t) \<longleftrightarrow>
     r \<in> set (t_orders s) \<and> or_match r = m \<and> or_public_key r = k \<and> or_turn r = t"
  by (auto simp: order_revisions_def)

lemma order_revisions_distinct:
  assumes "store_ok s"
  shows "distinct (map or_revision (order_revisions s m k t))"
proof -
  let ?P = "\<lambda>r. or_match r = m \<and> or_public_key r = k \<and> or_turn r = t"
  have d: "distinct (t_orders s)" "inj_on order_key (set (t_orders s))"
    using store_okD(4) [OF assms] by (simp_all add: distinct_map)
  have "inj_on or_revision (set (filter ?P (t_orders s)))"
    using d(2) by (auto simp: inj_on_def order_key_def)
  with d(1) show ?thesis by (simp add: order_revisions_def distinct_map)
qed

lemma last_sort_key_max:
  assumes "xs \<noteq> []"
  shows "last (sort_key f xs) \<in> set xs" "x \<in> set xs \<Longrightarrow> f x \<le> f (last (sort_key f xs))"
proof -
  have ne: "sort_key f xs \<noteq> []" using assms by (metis set_empty set_sort)
  then show "last (sort_key f xs) \<in> set xs" using last_in_set [OF ne] by simp
  assume "x \<in> set xs"
  then obtain i where i: "i < length (sort_key f xs)" "sort_key f xs ! i = x"
    by (metis in_set_conv_nth set_sort)
  then have "f (sort_key f xs ! i) \<le> f (sort_key f xs ! (length (sort_key f xs) - 1))"
    using sorted_nth_mono [of "map f (sort_key f xs)" i "length (sort_key f xs) - 1"] by simp
  with i ne show "f x \<le> f (last (sort_key f xs))" by (simp add: last_conv_nth)
qed

definition is_latest :: "store \<Rightarrow> string \<Rightarrow> bytes \<Rightarrow> int \<Rightarrow> order_row \<Rightarrow> bool" where
  "is_latest s m k t r \<longleftrightarrow>
     r \<in> set (t_orders s) \<and> or_match r = m \<and> or_public_key r = k \<and> or_turn r = t \<and>
     (\<forall>r2\<in>set (t_orders s). or_match r2 = m \<and> or_public_key r2 = k \<and> or_turn r2 = t \<longrightarrow>
        or_revision r2 \<le> or_revision r)"

lemma is_latest_unique:
  assumes "store_ok s" "is_latest s m k t r" "is_latest s m k t r'"
  shows "r = r'"
proof -
  have "or_revision r' \<le> or_revision r" "or_revision r \<le> or_revision r'"
    using assms(2,3) unfolding is_latest_def by blast+
  then have "or_revision r = or_revision r'" by (rule order_antisym [rotated])
  then have "order_key r = order_key r'" using assms(2,3) by (simp add: is_latest_def order_key_def)
  moreover have "inj_on order_key (set (t_orders s))" using store_okD(4) [OF assms(1)] by (simp add: distinct_map)
  ultimately show ?thesis using assms(2,3) unfolding is_latest_def by (blast dest: inj_onD)
qed

lemma latest_order_iff:
  assumes "store_ok s"
  shows "latest_order s m k t = Some r \<longleftrightarrow> is_latest s m k t r"
proof -
  let ?rows = "filter (\<lambda>r. or_match r = m \<and> or_public_key r = k \<and> or_turn r = t) (t_orders s)"
  have some: "is_latest s m k t (last (sort_key or_revision ?rows))" if "?rows \<noteq> []"
    using last_sort_key_max(1) [OF that, of or_revision] last_sort_key_max(2) [OF that, of _ or_revision]
    by (auto simp: is_latest_def)
  have eq: "latest_order s m k t =
      (if ?rows = [] then None else Some (last (sort_key or_revision ?rows)))"
    by (simp add: latest_order_def order_revisions_def Let_def)
  show ?thesis
  proof (cases "?rows = []")
    case True
    moreover have "\<not> is_latest s m k t r" using True by (auto simp: is_latest_def filter_empty_conv)
    ultimately show ?thesis by (simp add: eq)
  next
    case False
    then show ?thesis unfolding eq using some [OF False] is_latest_unique [OF assms] by auto
  qed
qed

lemma latest_order_None:
  "latest_order s m k t = None \<longleftrightarrow>
     (\<forall>r\<in>set (t_orders s). \<not> (or_match r = m \<and> or_public_key r = k \<and> or_turn r = t))"
proof -
  have "order_revisions s m k t = [] \<longleftrightarrow>
      (\<forall>r\<in>set (t_orders s). \<not> (or_match r = m \<and> or_public_key r = k \<and> or_turn r = t))"
    by (auto simp: order_revisions_def filter_empty_conv)
  then show ?thesis by (simp add: latest_order_def Let_def)
qed

lemma latest_orders_for_turn_set:
  assumes "store_ok s"
  shows "r \<in> set (latest_orders_for_turn s m t) \<longleftrightarrow>
    latest_order s m (or_public_key r) t = Some r"
  unfolding latest_order_iff [OF assms] by (auto simp: latest_orders_for_turn_def is_latest_def list_all_iff)

text \<open>A new revision above all others becomes the latest one and hides none of the other players'.\<close>

lemma latest_after_record:
  assumes ok: "store_ok s" and rec: "record_order_submission m k t rv b h st tm s = Inr s'"
    and top: "\<And>r. latest_order s m k t = Some r \<Longrightarrow> or_revision r < rv"
  shows "latest_order s' m k t = Some \<lparr>or_match = m, or_public_key = k, or_turn = t, or_revision = rv,
      or_blob = b, or_hash = h, or_status = st, or_submitted_at = tm\<rparr>"
    and "(m', k', t') \<noteq> (m, k, t) \<Longrightarrow> latest_order s' m' k' t' = latest_order s m' k' t'"
proof -
  let ?row = "\<lparr>or_match = m, or_public_key = k, or_turn = t, or_revision = rv,
      or_blob = b, or_hash = h, or_status = st, or_submitted_at = tm\<rparr>"
  have s': "t_orders s' = t_orders s @ [?row]"
    using rec by (auto simp: record_order_submission_def insert_row_Inr)
  have ok': "store_ok s'" using record_order_ok [OF rec ok] .
  have "or_revision r \<le> rv" if r: "r \<in> set (t_orders s)" "or_match r = m" "or_public_key r = k" "or_turn r = t" for r
  proof -
    obtain r0 where r0: "latest_order s m k t = Some r0"
      using r latest_order_None [of s m k t] by (cases "latest_order s m k t") auto
    then have "or_revision r \<le> or_revision r0" using r unfolding latest_order_iff [OF ok] is_latest_def by blast
    with top [OF r0] show ?thesis by simp
  qed
  then show "latest_order s' m k t = Some ?row"
    unfolding latest_order_iff [OF ok'] is_latest_def s' by auto
  show "latest_order s' m' k' t' = latest_order s m' k' t'" if "(m', k', t') \<noteq> (m, k, t)"
  proof -
    have "order_revisions s' m' k' t' = order_revisions s m' k' t'"
      using that by (auto simp: order_revisions_def s')
    then show ?thesis by (simp add: latest_order_def)
  qed
qed

lemma sort_key_map_id:
  assumes "\<And>x. f (g x) = f x"
  shows "sort_key f (map g xs) = map g (sort_key f xs)"
proof -
  have "insort_key f (g x) (map g ys) = map g (insort_key f x ys)" for x ys
    using assms by (induction ys) auto
  then show ?thesis by (induction xs) auto
qed

lemma latest_after_status:
  assumes "update_order_status m k t rv st s = Inr s'"
  shows "latest_order s' m' k' t' = map_option
    (\<lambda>r. if order_key r = ((m, k), t, rv) then r\<lparr>or_status := st\<rparr> else r) (latest_order s m' k' t')"
proof -
  let ?g = "\<lambda>r. if order_key r = ((m, k), t, rv) then r\<lparr>or_status := st\<rparr> else r"
  have s': "t_orders s' = map ?g (t_orders s)"
    using assms by (auto simp: update_order_status_def Let_def split: if_splits)
  have "order_revisions s' m' k' t' = map ?g (order_revisions s m' k' t')"
    unfolding order_revisions_def s' filter_map
    by (subst sort_key_map_id) (auto intro!: arg_cong [where f = "map ?g"] arg_cong [where f = "sort_key or_revision"]
        filter_cong)
  then show ?thesis by (auto simp: latest_order_def Let_def last_map)
qed

section \<open>What each write leaves alone\<close>

lemma frame_update_match:
  assumes "update_match m f s = Inr s'"
  shows "t_players s' = t_players s" "t_orders s' = t_orders s" "t_phases s' = t_phases s"
    "t_votes s' = t_votes s" "t_admin s' = t_admin s" "t_seqs s' = t_seqs s"
    "map fst (t_matches s') = map fst (t_matches s)"
    "map_of (t_matches s') m' = (if m' = m then map_option f (map_of (t_matches s) m) else map_of (t_matches s) m')"
proof -
  obtain r where r: "map_of (t_matches s) m = Some r" "s' = s\<lparr>t_matches := AList.update m (f r) (t_matches s)\<rparr>"
    and keys: "map fst (t_matches s') = map fst (t_matches s)"
    using assms by (rule update_match_Inr)
  show "t_players s' = t_players s" "t_orders s' = t_orders s" "t_phases s' = t_phases s"
    "t_votes s' = t_votes s" "t_admin s' = t_admin s" "t_seqs s' = t_seqs s"
    by (simp_all add: r(2))
  show "map fst (t_matches s') = map fst (t_matches s)" by (rule keys)
  show "map_of (t_matches s') m' = (if m' = m then map_option f (map_of (t_matches s) m) else map_of (t_matches s) m')"
    using r(1) by (simp add: r(2) map_of_update)
qed

lemma save_match_state_conv: "save_match_state m st s = Inr s' \<Longrightarrow> update_match m (\<lambda>r. r\<lparr>mr_state := st\<rparr>) s = Inr s'"
  by (simp add: save_match_state_def)

lemma set_deadline_conv: "set_deadline m d s = Inr s' \<Longrightarrow> update_match m (\<lambda>r. r\<lparr>mr_deadline := d\<rparr>) s = Inr s'"
  by (simp add: set_deadline_def)

lemma set_paused_conv:
  "set_paused_remaining_seconds m d s = Inr s' \<Longrightarrow> update_match m (\<lambda>r. r\<lparr>mr_paused := d\<rparr>) s = Inr s'"
  by (simp add: set_paused_remaining_seconds_def)

lemmas frame_save = frame_update_match [OF save_match_state_conv]
lemmas frame_deadline = frame_update_match [OF set_deadline_conv]
lemmas frame_paused = frame_update_match [OF set_paused_conv]

lemma frame_record_phase:
  assumes "record_phase_result m t ph cs h p sg tm s = Inr s'"
  shows "t_players s' = t_players s" "t_orders s' = t_orders s" "t_matches s' = t_matches s"
    "t_votes s' = t_votes s" "t_admin s' = t_admin s" "t_seqs s' = t_seqs s"
    "t_phases s' = t_phases s @ [\<lparr>ph_match = m, ph_turn = t, ph_phase = ph, ph_state = cs, ph_hash = h,
       ph_previous = p, ph_signature = sg, ph_resolved_at = tm\<rparr>]"
    "(m, t, ph) \<notin> set (map phase_key (t_phases s))" "sql_range t"
  using assms by (auto simp: record_phase_result_def insert_row_Inr phase_key_def)

lemma frame_add_player:
  assumes "add_player m k f n tm s = Inr s'"
  shows "t_orders s' = t_orders s" "t_matches s' = t_matches s" "t_phases s' = t_phases s"
    "t_votes s' = t_votes s" "t_admin s' = t_admin s" "t_seqs s' = t_seqs s"
  using assms by (auto simp: add_player_def)

lemma frame_record_order:
  assumes "record_order_submission m k t rv b h st tm s = Inr s'"
  shows "t_players s' = t_players s" "t_matches s' = t_matches s" "t_phases s' = t_phases s"
    "t_votes s' = t_votes s" "t_admin s' = t_admin s" "t_seqs s' = t_seqs s"
  using assms by (auto simp: record_order_submission_def)

lemma frame_order_status:
  assumes "update_order_status m k t rv st s = Inr s'"
  shows "t_players s' = t_players s" "t_matches s' = t_matches s" "t_phases s' = t_phases s"
    "t_votes s' = t_votes s" "t_admin s' = t_admin s" "t_seqs s' = t_seqs s"
  using assms by (auto simp: update_order_status_def Let_def split: if_splits)

lemma frame_vote:
  assumes "record_draw_vote m t k v tm s = Inr s'"
  shows "t_players s' = t_players s" "t_matches s' = t_matches s" "t_phases s' = t_phases s"
    "t_orders s' = t_orders s" "t_admin s' = t_admin s" "t_seqs s' = t_seqs s"
  using assms by (auto simp: record_draw_vote_def)

lemma frame_sequence:
  assumes "record_sequence_number m k n s = Inr s'"
  shows "t_players s' = t_players s" "t_matches s' = t_matches s" "t_phases s' = t_phases s"
    "t_orders s' = t_orders s" "t_admin s' = t_admin s" "t_votes s' = t_votes s"
  using assms by (auto simp: record_sequence_number_def)

lemma get_match_save:
  assumes "save_match_state m st s = Inr s'"
  shows "get_match s' m' = (if m' = m then map_option (\<lambda>(_, c). (st, c)) (get_match s m) else get_match s m')"
  by (auto simp: get_match_def frame_save(8) [OF assms] option.map_comp comp_def)

end
