(* ===== verification/Encoding.thy ===== *)
theory Encoding
  imports Messages
begin

text \<open>
  \<^verbatim>\<open>protocol/encoding.py\<close>: packing a message, and unpacking bytes into a message by the type hints of
  its class. The exceptions that \<open>decode_message\<close> catches and the ones it lets through are kept
  apart: the theorem at the end is the round trip over all message classes.
\<close>

section \<open>Encoding\<close>

text \<open>The Python value of a decoded field: raw dictionaries and lists are plain dictionaries and lists.\<close>

fun py_of_canonical :: "canonical \<Rightarrow> py" where
  "py_of_canonical (CDict d) = PyDict (map (\<lambda>(k, v). (k, py_of_canonical v)) d)"
| "py_of_canonical (CList xs) = PyList (map py_of_canonical xs)"
| "py_of_canonical c = PyAtom c"

fun py_of_value :: "field_value \<Rightarrow> py" where
  "py_of_value (VRaw c) = py_of_canonical c"
| "py_of_value (VEnum s) = PyEnum s"
| "py_of_value (VOrder ord) = py_order ord"
| "py_of_value (VTuple vs) = PyList (map py_of_value vs)"

definition py_message :: "message \<Rightarrow> py" where
  "py_message msg = PyDataclass
     ((''message_type'', PyEnum (message_type_value (message_type msg)))
      # map (\<lambda>(k, v). (k, py_of_value v)) (fields_of msg))"

text \<open>\<open>except (TypeError, ValueError) as exc: raise EncodingError\<close>; other exceptions pass.\<close>

definition encode_message :: "externals \<Rightarrow> message \<Rightarrow> bytes result" where
  "encode_message X msg =
     bind_result
       (case packb X (canonicalize (py_message msg)) of
          Inl e \<Rightarrow> Inl (if e \<in> {TypeError, ValueError} then EncodingError else e)
        | Inr data \<Rightarrow> Inr data)
       (\<lambda>data. if MAX_MESSAGE_SIZE < length data then Inl MessageTooLargeError else Inr data)"

section \<open>Decoding\<close>

fun decode_order :: "canonical \<Rightarrow> field_value result" where
  "decode_order (CDict raw) =
     (if map_of raw ''order_type'' = None then Inl DecodingError
      else (case order_from_dict raw of
          Inl e \<Rightarrow> Inl (if e \<in> {KeyError, ValueError, TypeError} then DecodingError else e)
        | Inr ord \<Rightarrow> Inr (VOrder ord)))"
| "decode_order _ = Inl DecodingError"

text \<open>\<open>expected(raw)\<close> for an enum: \<open>ValueError\<close> unless the value is one of the members'.\<close>

fun decode_enum :: "string list \<Rightarrow> canonical \<Rightarrow> field_value result" where
  "decode_enum vals (CStr s) = (if s \<in> set vals then Inr (VEnum s) else Inl ValueError)"
| "decode_enum vals _ = Inl ValueError"

fun convert_value :: "hint \<Rightarrow> canonical \<Rightarrow> field_value result" where
  "convert_value HOrder raw = decode_order raw"
| "convert_value (HOptional h) raw = (if raw = CNone then Inr (VRaw CNone) else convert_value h raw)"
| "convert_value (HEnum vals) raw = decode_enum vals raw"
| "convert_value (HTuple h) raw =
     bind_result (iterate raw) (\<lambda>vs. bind_result (map_result (convert_value h) vs) (\<lambda>xs. Inr (VTuple xs)))"
| "convert_value HDict raw = bind_result (dict_of raw) (\<lambda>d. Inr (VRaw (CDict d)))"
| "convert_value HInt raw = Inr (VRaw raw)"
| "convert_value HFloat raw = Inr (VRaw raw)"
| "convert_value HStr raw = Inr (VRaw raw)"
| "convert_value HBytes raw = Inr (VRaw raw)"
| "convert_value HBool raw = Inr (VRaw raw)"

text \<open>The loop over \<open>dataclasses.fields(cls)\<close>.\<close>

fun decode_fields ::
    "(string \<times> canonical) list \<Rightarrow> (string \<times> hint) list \<Rightarrow> (string \<times> field_value) list result" where
  "decode_fields raw [] = Inr []"
| "decode_fields raw ((name, h) # fs) =
     (case map_of raw name of
        None \<Rightarrow> Inl DecodingError
      | Some c \<Rightarrow>
          bind_result (convert_value h c) (\<lambda>v.
          bind_result (decode_fields raw fs) (\<lambda>rest. Inr ((name, v) # rest))))"

definition decode_envelope :: "canonical \<Rightarrow> message result" where
  "decode_envelope raw =
     (case raw of
        CDict d \<Rightarrow>
          (case map_of d ''message_type'' of
             None \<Rightarrow> Inl DecodingError
           | Some tag \<Rightarrow>
               (case enum_of message_type_of_value tag of
                  Inl e \<Rightarrow> Inl (if e = ValueError then DecodingError else e)
                | Inr t \<Rightarrow>
                    bind_result (decode_fields d (class_fields t)) (\<lambda>fs.
                      Inr \<lparr>message_type = t, fields_of = fs\<rparr>)))
      | _ \<Rightarrow> Inl DecodingError)"

text \<open>The last \<open>try\<close> of the source cannot raise: every keyword argument is a field of the class.\<close>

definition decode_message :: "externals \<Rightarrow> bytes \<Rightarrow> message result" where
  "decode_message X data =
     (if MAX_MESSAGE_SIZE < length data then Inl MessageTooLargeError
      else (case unpackb X data of
          Inl e \<Rightarrow> Inl (if e \<in> {UnpackException, ValueError, TypeError} then DecodingError else e)
        | Inr raw \<Rightarrow> decode_envelope raw))"

section \<open>The round trip\<close>

text \<open>A value of the annotated type. Raw values must be canonical already: their dictionaries sorted.\<close>

fun fits :: "hint \<Rightarrow> field_value \<Rightarrow> bool" where
  "fits HOrder v = (case v of VOrder _ \<Rightarrow> True | _ \<Rightarrow> False)"
| "fits (HOptional h) v = (v = VRaw CNone \<or> fits h v \<and> canonicalize (py_of_value v) \<noteq> CNone)"
| "fits (HEnum vals) v = (case v of VEnum s \<Rightarrow> s \<in> set vals | _ \<Rightarrow> False)"
| "fits (HTuple h) v = (case v of VTuple vs \<Rightarrow> list_all (fits h) vs | _ \<Rightarrow> False)"
| "fits HDict v = (case v of VRaw (CDict d) \<Rightarrow> canonicalize (py_of_canonical (CDict d)) = CDict d | _ \<Rightarrow> False)"
| "fits HInt v = (case v of VRaw (CInt _) \<Rightarrow> True | _ \<Rightarrow> False)"
| "fits HFloat v = (case v of VRaw (CFloat _) \<Rightarrow> True | _ \<Rightarrow> False)"
| "fits HStr v = (case v of VRaw (CStr _) \<Rightarrow> True | _ \<Rightarrow> False)"
| "fits HBytes v = (case v of VRaw (CBytes _) \<Rightarrow> True | _ \<Rightarrow> False)"
| "fits HBool v = (case v of VRaw (CBool _) \<Rightarrow> True | _ \<Rightarrow> False)"

definition well_typed :: "message \<Rightarrow> bool" where
  "well_typed msg \<longleftrightarrow>
     list_all2 (\<lambda>(k, v) (name, h). k = name \<and> fits h v) (fields_of msg) (class_fields (message_type msg))"

lemma convert_canonicalize: "fits h v \<Longrightarrow> convert_value h (canonicalize (py_of_value v)) = Inr v"
proof (induction h arbitrary: v)
  case HOrder
  have "map_of (order_dict ord) ''order_type'' \<noteq> None" for ord by (cases ord) simp_all
  with HOrder show ?case by (cases v) auto
next
  case (HTuple h)
  then obtain vs where v: "v = VTuple vs" "list_all (fits h) vs" by (cases v) auto
  then have "map_result (convert_value h) (map (\<lambda>x. canonicalize (py_of_value x)) vs) = Inr vs"
    using HTuple.IH by (induction vs arbitrary: v) auto
  then show ?case by (simp add: v(1) comp_def)
qed (auto split: field_value.splits canonical.splits)

lemma list_all2_keys:
  "list_all2 (\<lambda>(k, v) (name, h). k = name \<and> P h v) vs hs \<Longrightarrow> map fst vs = map fst hs"
  by (induction rule: list_all2_induct) auto

lemma decode_fields_eq:
  assumes "list_all2 (\<lambda>(k, v) (name, h). k = name \<and> fits h v) vs hs"
    and "\<And>k v. (k, v) \<in> set vs \<Longrightarrow> map_of raw k = Some (canonicalize (py_of_value v))"
  shows "decode_fields raw hs = Inr vs"
  using assms
proof (induction rule: list_all2_induct)
  case Nil
  then show ?case by simp
next
  case (Cons x xs y ys)
  obtain k v h where x: "x = (k, v)" "y = (k, h)" "fits h v" using Cons.hyps by (cases x; cases y) auto
  have "decode_fields raw ys = Inr xs" by (rule Cons.IH) (simp add: Cons.prems)
  moreover have "map_of raw k = Some (canonicalize (py_of_value v))" by (rule Cons.prems) (simp add: x)
  ultimately show ?case by (simp add: x convert_canonicalize)
qed

lemma decode_encoded:
  assumes "well_typed msg"
  shows "decode_envelope (canonicalize (py_message msg)) = Inr msg"
proof -
  let ?fs = "fields_of msg"
  let ?d = "(''message_type'', CStr (message_type_value (message_type msg)))
      # map (\<lambda>(k, v). (k, canonicalize (py_of_value v))) ?fs"
  have c: "canonicalize (py_message msg) = CDict (sort_key fst ?d)"
    by (simp add: py_message_def comp_def case_prod_beta')
  have keys: "map fst ?fs = map fst (class_fields (message_type msg))"
    using assms unfolding well_typed_def by (rule list_all2_keys)
  have "map fst ?d = ''message_type'' # map fst ?fs" by (simp add: comp_def case_prod_beta)
  then have d: "dict_ok ?d" using class_keys [of "message_type msg"] keys by (simp only: dict_ok_def) simp
  then have "map_of (sort_key fst ?d) = map_of ?d" by (rule map_of_sort_key)
  moreover have "map_of ?d k = Some (canonicalize (py_of_value v))" if "(k, v) \<in> set ?fs" for k v
    using d that unfolding dict_ok_def by (intro map_of_SomeI) (auto simp: rev_image_eqI)
  ultimately have "decode_fields (sort_key fst ?d) (class_fields (message_type msg)) = Inr ?fs"
    using assms unfolding well_typed_def by (intro decode_fields_eq) simp_all
  moreover have "map_of (sort_key fst ?d) ''message_type'' = Some (CStr (message_type_value (message_type msg)))"
    using \<open>map_of (sort_key fst ?d) = map_of ?d\<close> by simp
  ultimately show ?thesis by (simp add: c decode_envelope_def)
qed

end
