(* ===== verification/Validation.thy ===== *)
theory Validation
  imports Encoding
begin

text \<open>
  \<^verbatim>\<open>protocol/validation.py\<close>: the envelope checks and the validators of each message type, on decoded
  messages whose field values may have any type. Python's truth value, its numeric comparisons (with
  \<open>TypeError\<close> on values that are no numbers) and attribute access are written out.
\<close>

section \<open>Python values in conditions\<close>

fun truthy_raw :: "canonical \<Rightarrow> bool" where
  "truthy_raw CNone = False"
| "truthy_raw (CBool b) = b"
| "truthy_raw (CInt i) = (i \<noteq> 0)"
| "truthy_raw (CFloat q) = (q \<noteq> 0)"
| "truthy_raw (CStr s) = (s \<noteq> [])"
| "truthy_raw (CBytes b) = (b \<noteq> [])"
| "truthy_raw (CList xs) = (xs \<noteq> [])"
| "truthy_raw (CDict d) = (d \<noteq> [])"

fun truthy :: "field_value \<Rightarrow> bool" where
  "truthy (VRaw c) = truthy_raw c"
| "truthy (VEnum _) = True"
| "truthy (VOrder _) = True"
| "truthy (VTuple vs) = (vs \<noteq> [])"

text \<open>The numeric value of an \<open>int\<close>, \<open>float\<close> or \<open>bool\<close>.\<close>

fun number_of :: "field_value \<Rightarrow> rat option" where
  "number_of (VRaw (CInt i)) = Some (of_int i)"
| "number_of (VRaw (CFloat q)) = Some q"
| "number_of (VRaw (CBool b)) = Some (if b then 1 else 0)"
| "number_of _ = None"

text \<open>A comparison with a number: \<open>TypeError\<close> when the value is no number.\<close>

definition compare_number :: "(rat \<Rightarrow> bool) \<Rightarrow> field_value \<Rightarrow> bool result" where
  "compare_number p v = (case number_of v of None \<Rightarrow> Inl TypeError | Some q \<Rightarrow> Inr (p q))"

definition attribute :: "message \<Rightarrow> string \<Rightarrow> field_value result" where
  "attribute msg name = (case field_of msg name of None \<Rightarrow> Inl AttributeError | Some v \<Rightarrow> Inr v)"

section \<open>The checks\<close>

definition require :: "field_value \<Rightarrow> unit result" where
  "require v = (if \<not> truthy v then Inl ValidationError else Inr ())"

definition require_non_negative :: "field_value \<Rightarrow> unit result" where
  "require_non_negative v =
     bind_result (compare_number (\<lambda>q. q < 0) v) (\<lambda>b. if b then Inl ValidationError else Inr ())"

definition require_positive :: "field_value \<Rightarrow> unit result" where
  "require_positive v =
     bind_result (compare_number (\<lambda>q. q \<le> 0) v) (\<lambda>b. if b then Inl ValidationError else Inr ())"

datatype check = Require string | RequireNonNegative string | RequirePositive string

fun run_check :: "message \<Rightarrow> check \<Rightarrow> unit result" where
  "run_check msg (Require name) = bind_result (attribute msg name) require"
| "run_check msg (RequireNonNegative name) = bind_result (attribute msg name) require_non_negative"
| "run_check msg (RequirePositive name) = bind_result (attribute msg name) require_positive"

text \<open>\<open>_PER_TYPE_VALIDATORS.get(message_type, ())\<close>.\<close>

fun validators :: "MessageType \<Rightarrow> check list" where
  "validators JOIN_REQUEST = [Require ''player_public_key'']"
| "validators JOIN_ACCEPTED = [Require ''encrypted_faction'']"
| "validators JOIN_REJECTED = [Require ''reason'']"
| "validators ORDER_SUBMIT = [RequireNonNegative ''revision'']"
| "validators ORDER_UPDATE = [RequireNonNegative ''revision'']"
| "validators ORDER_CANCEL = [RequireNonNegative ''revision'']"
| "validators ORDER_RECEIPT = [Require ''order_hash'']"
| "validators PHASE_START = [RequirePositive ''deadline'']"
| "validators PHASE_RESULT = [Require ''state_hash'']"
| "validators STATE_RESPONSE = [Require ''state_hash'']"
| "validators STATE_HASH = [Require ''state_hash'']"
| "validators MATCH_START = [Require ''state_hash'', RequirePositive ''deadline'']"
| "validators MATCH_END = [Require ''reason'']"
| "validators ERROR = [Require ''code'']"
| "validators _ = []"

definition types_without_match_id :: "MessageType list" where
  "types_without_match_id = [DISCOVER_GAME, ERROR]"

fun run_checks :: "message \<Rightarrow> check list \<Rightarrow> unit result" where
  "run_checks msg [] = Inr ()"
| "run_checks msg (c # cs) = bind_result (run_check msg c) (\<lambda>_. run_checks msg cs)"

text \<open>\<open>protocol_version != 1\<close> is true of every value that is no number.\<close>

definition validate_envelope :: "message \<Rightarrow> unit result" where
  "validate_envelope msg =
     bind_result (attribute msg ''protocol_version'') (\<lambda>v.
     if number_of v \<noteq> Some (of_int PROTOCOL_VERSION) then Inl VersionMismatchError
     else
       bind_result (attribute msg ''sequence_number'') (\<lambda>s.
       bind_result (compare_number (\<lambda>q. q < 0) s) (\<lambda>negative.
       if negative then Inl ValidationError
       else
         bind_result (attribute msg ''timestamp'') (\<lambda>t.
         bind_result (compare_number (\<lambda>q. q \<le> 0) t) (\<lambda>not_positive.
         if not_positive then Inl ValidationError else Inr ())))))"

definition validate_message :: "message \<Rightarrow> unit result" where
  "validate_message msg =
     bind_result (validate_envelope msg) (\<lambda>_.
     bind_result
       (if message_type msg \<notin> set types_without_match_id
        then require (case field_of msg ''match_id'' of None \<Rightarrow> VRaw CNone | Some v \<Rightarrow> v) else Inr ())
       (\<lambda>_. run_checks msg (validators (message_type msg))))"

section \<open>Messages built by the program\<close>

lemma attribute_mk [simp]:
  "attribute (mk_message t s ts fs) k =
     (if k = ''sequence_number'' then Inr (VRaw (CInt s))
      else if k = ''timestamp'' then Inr (VRaw (CFloat ts))
      else if k = ''protocol_version'' then Inr (VRaw (CInt PROTOCOL_VERSION))
      else (case map_of fs k of None \<Rightarrow> Inl AttributeError | Some v \<Rightarrow> Inr v))"
  by (simp add: attribute_def)

lemma validate_mk:
  "validate_message (mk_message t s ts fs) =
     (if s < 0 \<or> ts \<le> 0 then Inl ValidationError
      else bind_result
        (if t \<notin> set types_without_match_id
         then require (case map_of fs ''match_id'' of None \<Rightarrow> VRaw CNone | Some v \<Rightarrow> v) else Inr ())
        (\<lambda>_. run_checks (mk_message t s ts fs) (validators t)))"
  by (auto simp: validate_message_def validate_envelope_def compare_number_def PROTOCOL_VERSION_def)

lemma well_typed_mk:
  assumes "list_all2 (\<lambda>(k, v) (name, h). k = name \<and> fits h v) fs (body_fields t)"
  shows "well_typed (mk_message t s ts fs)"
  using assms by (simp add: well_typed_def mk_message_def class_fields_def envelope_fields_def)

section \<open>Properties of the wire format\<close>

definition sample_vote :: message where
  "sample_vote = mk_message DRAW_VOTE 1 1
     [(''match_id'', VRaw (CStr ''m'')), (''turn'', VRaw (CInt 1)), (''vote'', VRaw (CBool True))]"

lemma sample_vote_canonical:
  "canonicalize (py_message sample_vote) = CDict
     [(''match_id'', CStr ''m''), (''message_type'', CStr ''DRAW_VOTE''), (''protocol_version'', CInt 1),
      (''sequence_number'', CInt 1), (''timestamp'', CFloat 1), (''turn'', CInt 1), (''vote'', CBool True)]"
  by (simp add: sample_vote_def py_message_def mk_message_def PROTOCOL_VERSION_def)

lemma sample_vote_encodes: "\<exists>b. encode_message reference sample_vote = Inr b"
proof -
  have "length (enc (canonicalize (py_message sample_vote))) \<le> MAX_MESSAGE_SIZE"
    by (simp add: sample_vote_canonical enc_bytes_def enc_nat_def enc_int_def utf8_encode_def
        MAX_MESSAGE_SIZE_def)
  then show ?thesis by (simp add: encode_message_def)
qed

lemma decode_encode:
  assumes "codec_ok X" "well_typed msg" "encode_message X msg = Inr b"
  shows "decode_message X b = Inr msg"
proof -
  have "packb X (canonicalize (py_message msg)) = Inr b" and len: "length b \<le> MAX_MESSAGE_SIZE"
    using assms(3) by (auto simp: encode_message_def split: sum.splits if_splits)
  then have "unpackb X b = Inr (canonicalize (py_message msg))"
    using assms(1) by (simp add: codec_ok_def)
  then show ?thesis using len decode_encoded [OF assms(2)] by (simp add: decode_message_def)
qed

text \<open>C23: Whatever message of whatever class is sent is the message received: decoding the encoded
  bytes of a message whose fields have their annotated types returns the same message, orders, enums,
  optional fields and tuples included.\<close>

theorem message_roundtrip:
  assumes "codec_ok X" and "well_typed msg" and "encode_message X msg = Inr b"
  shows "decode_message X b = Inr msg"
  using assms by (rule decode_encode)

theorem message_roundtrip_witness:
  "\<exists>b. encode_message reference sample_vote = Inr b \<and> decode_message reference b = Inr sample_vote"
proof -
  have "well_typed sample_vote" unfolding sample_vote_def by (rule well_typed_mk) simp
  with sample_vote_encodes show ?thesis using message_roundtrip [OF reference_ok(1)] by blast
qed

end
