(* ===== verification/Lobby.thy ===== *)
theory Lobby
  imports Effects Store_Facts Validation
begin

text \<open>
  \<^verbatim>\<open>coordinator/lobby.py\<close>: the join flow, the check that a match can start, and the transition into
  active play. The random choice of a faction takes its index from outside. The invariant
  \<open>lobby_ok\<close> says that the players of a match hold different factions of the map.
\<close>

section \<open>Joining\<close>

record join_request =
  jr_public_key :: bytes
  jr_display_name :: "string option"

definition sorted_faction_ids :: "string list" where
  "sorted_faction_ids = sort (map fst FACTIONS)"

definition faction_name_of :: "string \<Rightarrow> string result" where
  "faction_name_of f = bind_result (lookup_or_raise FACTIONS f) (\<lambda>fa. Inr (fa_name fa))"

definition all_faction_names :: "string list" where
  "all_faction_names = map (\<lambda>f. fa_name (the (map_of FACTIONS f))) sorted_faction_ids"

definition names_value :: "string list \<Rightarrow> field_value" where
  "names_value names = VTuple (map (\<lambda>n. VRaw (CStr n)) names)"

definition join_rejected :: "string \<Rightarrow> int \<Rightarrow> rat \<Rightarrow> string \<Rightarrow> message" where
  "join_rejected match_id sequence_number timestamp reason =
     mk_message JOIN_REJECTED sequence_number timestamp
       [(''match_id'', VRaw (CStr match_id)), (''reason'', VRaw (CStr reason))]"

definition join_accepted :: "string \<Rightarrow> int \<Rightarrow> rat \<Rightarrow> bytes \<Rightarrow> message" where
  "join_accepted match_id sequence_number timestamp encrypted_faction =
     mk_message JOIN_ACCEPTED sequence_number timestamp
       [(''match_id'', VRaw (CStr match_id)), (''encrypted_faction'', VRaw (CBytes encrypted_faction)),
        (''faction_names'', names_value all_faction_names),
        (''match_parameters'', VRaw (CDict
          [(''max_players'', CInt (int MAX_PLAYERS)),
           (''movement_phase_seconds'', CInt DEFAULT_MOVEMENT_PHASE_SECONDS),
           (''retreat_phase_seconds'', CInt DEFAULT_RETREAT_PHASE_SECONDS),
           (''adjustment_phase_seconds'', CInt DEFAULT_ADJUSTMENT_PHASE_SECONDS)]))]"

text \<open>\<open>sorted(fid for fid in FACTIONS if fid not in taken)\<close>.\<close>

definition available_factions :: "player_row list \<Rightarrow> string list" where
  "available_factions players =
     sort (filter (\<lambda>f. f \<notin> set (map pl_faction players)) (map fst FACTIONS))"

text \<open>The answer for a player who holds a faction.\<close>

definition accept_join :: "externals \<Rightarrow> string \<Rightarrow> bytes \<Rightarrow> string \<Rightarrow> int \<Rightarrow> rat \<Rightarrow> (store, message) act" where
  "accept_join X match_id public_key faction sequence_number timestamp =
     act_bind (act_try (\<lambda>_. faction_name_of faction)) (\<lambda>faction_name.
     act_bind (act_try (\<lambda>_. encrypt_for X public_key (utf8_encode faction_name))) (\<lambda>encrypted.
       act_return (join_accepted match_id sequence_number timestamp encrypted)))"

text \<open>\<open>pick\<close> is the number from which \<open>random.choice\<close> takes its index.\<close>

definition handle_join_request ::
    "externals \<Rightarrow> string \<Rightarrow> join_request \<Rightarrow> int \<Rightarrow> rat \<Rightarrow> nat \<Rightarrow> (store, message) act" where
  "handle_join_request X match_id request sequence_number timestamp pick =
     act_bind (act_get (\<lambda>s. get_match s match_id)) (\<lambda>mtch.
     case mtch of
       None \<Rightarrow> act_return (join_rejected match_id sequence_number timestamp ''no such match'')
     | Some (state, _) \<Rightarrow>
         if ms_status state \<noteq> LOBBY
         then act_return (join_rejected match_id sequence_number timestamp ''match already started'')
         else
           act_bind (act_get (\<lambda>s. get_player_faction s match_id (jr_public_key request))) (\<lambda>existing.
           act_bind (act_get (\<lambda>s. list_players s match_id)) (\<lambda>players.
           case existing of
             Some f \<Rightarrow> accept_join X match_id (jr_public_key request) f sequence_number timestamp
           | None \<Rightarrow>
               if MAX_PLAYERS \<le> length players
               then act_return (join_rejected match_id sequence_number timestamp ''match full'')
               else
                 let available = available_factions players in
                 if available = []
                 then act_return (join_rejected match_id sequence_number timestamp ''match full'')
                 else
                   let faction = available ! (pick mod length available) in
                   act_bind (act_write (add_player match_id (jr_public_key request) faction
                       (jr_display_name request) timestamp)) (\<lambda>_.
                     accept_join X match_id (jr_public_key request) faction sequence_number timestamp))))"

section \<open>Starting\<close>

definition can_start_match :: "store \<Rightarrow> string \<Rightarrow> bool" where
  "can_start_match s match_id =
     (case get_match s match_id of
        None \<Rightarrow> False
      | Some (state, _) \<Rightarrow>
          if ms_status state \<noteq> LOBBY then False else length (list_players s match_id) = MAX_PLAYERS)"

definition match_start_message ::
    "string \<Rightarrow> int \<Rightarrow> rat \<Rightarrow> string list \<Rightarrow> bytes \<Rightarrow> string \<Rightarrow> bytes \<Rightarrow> rat \<Rightarrow> message" where
  "match_start_message match_id sequence_number timestamp names canonical state_hash signature deadline =
     mk_message MATCH_START sequence_number timestamp
       [(''match_id'', VRaw (CStr match_id)), (''faction_names'', names_value names),
        (''canonical_state'', VRaw (CBytes canonical)), (''state_hash'', VRaw (CStr state_hash)),
        (''signature'', VRaw (CBytes signature)), (''deadline'', VRaw (CFloat deadline))]"

definition lobby_start_match ::
    "externals \<Rightarrow> string \<Rightarrow> bytes \<Rightarrow> int \<Rightarrow> rat \<Rightarrow> rat \<Rightarrow> (store, message) act" where
  "lobby_start_match X match_id coordinator_key sequence_number timestamp deadline =
     act_bind (act_get (\<lambda>s. get_match s match_id)) (\<lambda>mtch.
     case mtch of
       None \<Rightarrow> act_raise InvalidTransitionError
     | Some (state, _) \<Rightarrow>
         act_bind (act_get (\<lambda>s. list_players s match_id)) (\<lambda>players.
         if length players \<noteq> MAX_PLAYERS then act_raise InvalidTransitionError
         else
           act_bind (act_try (\<lambda>_. fsm_start_match state)) (\<lambda>new_state.
           act_bind (act_write (save_match_state match_id new_state)) (\<lambda>_.
           act_bind (act_try (\<lambda>_. canonical_bytes X create_default_map)) (\<lambda>canonical.
           act_bind (act_try (\<lambda>_. hash_game_state_hex X create_default_map None)) (\<lambda>state_hash.
           let signature = sign_with X coordinator_key (utf8_encode state_hash) in
           act_bind (act_write (record_phase_result match_id (ms_turn new_state) (ms_phase new_state)
               canonical state_hash None signature timestamp)) (\<lambda>_.
           act_bind (act_write (set_deadline match_id (Some deadline))) (\<lambda>_.
           act_bind (act_get (\<lambda>s. list_players s match_id)) (\<lambda>players'.
           act_bind (act_try (\<lambda>_. map_result (\<lambda>p. faction_name_of (pl_faction p)) players')) (\<lambda>names.
             act_return (match_start_message match_id sequence_number timestamp names canonical state_hash
               signature deadline)))))))))))"

section \<open>Who holds what\<close>

definition match_players :: "store \<Rightarrow> string \<Rightarrow> player_row list" where
  "match_players s m = filter (\<lambda>r. pl_match r = m) (t_players s)"

definition lobby_ok :: "store \<Rightarrow> string \<Rightarrow> bool" where
  "lobby_ok s m \<longleftrightarrow>
     distinct (map pl_faction (match_players s m)) \<and>
     set (map pl_faction (match_players s m)) \<subseteq> set (map fst FACTIONS)"

lemma list_players_set: "set (list_players s m) = set (match_players s m)"
  by (simp add: list_players_def match_players_def)

lemma length_list_players: "length (list_players s m) = length (match_players s m)"
  by (simp add: list_players_def match_players_def)

lemma available_factions_set:
  "f \<in> set (available_factions players) \<longleftrightarrow> f \<in> set (map fst FACTIONS) \<and> f \<notin> pl_faction ` set players"
  by (auto simp: available_factions_def)

lemma pick_available:
  "available_factions players \<noteq> [] \<Longrightarrow>
   available_factions players ! (pick mod length (available_factions players)) \<in> set (available_factions players)"
  by (intro nth_mem) simp

lemma accept_join_store: "snd (accept_join X m k f q ts s) = s"
  by (auto simp: accept_join_def act_bind_def act_run split: sum.splits)

lemma add_player_rows:
  assumes "add_player m k f n t s = Inr s'"
  shows "t_players s' = t_players s @ [\<lparr>pl_match = m, pl_public_key = k, pl_faction = f, pl_name = n, pl_joined_at = t\<rparr>]"
    "(m, k) \<notin> set (map player_key (t_players s))"
  using assms by (auto simp: add_player_def insert_row_Inr player_key_def)

text \<open>What a join request does to the store: nothing, or one new player with a free faction.\<close>

lemma join_cases:
  obtains (same) "snd (handle_join_request X m rq q ts pick s) = s"
    | (joined) f s' where "snd (handle_join_request X m rq q ts pick s) = s'"
        "add_player m (jr_public_key rq) f (jr_display_name rq) ts s = Inr s'"
        "f \<in> set (map fst FACTIONS)" "f \<notin> pl_faction ` set (match_players s m)"
        "length (match_players s m) < MAX_PLAYERS" "get_player_faction s m (jr_public_key rq) = None"
        "handle_join_request X m rq q ts pick s = accept_join X m (jr_public_key rq) f q ts s'"
proof -
  let ?h = "handle_join_request X m rq q ts pick s"
  consider "snd ?h = s"
    | f where "?h = act_bind (act_write (add_player m (jr_public_key rq) f (jr_display_name rq) ts))
          (\<lambda>_. accept_join X m (jr_public_key rq) f q ts) s"
        "f \<in> set (available_factions (list_players s m))" "length (list_players s m) < MAX_PLAYERS"
        "get_player_faction s m (jr_public_key rq) = None"
  proof (cases "get_match s m")
    case None
    then have "snd ?h = s" by (simp add: handle_join_request_def act_simps)
    then show ?thesis by (rule that(1))
  next
    case (Some rec)
    note open_match = Some
    obtain state created where rec: "rec = (state, created)" by (cases rec)
    show ?thesis
    proof (cases "ms_status state \<noteq> LOBBY \<or> get_player_faction s m (jr_public_key rq) \<noteq> None \<or>
        MAX_PLAYERS \<le> length (list_players s m) \<or> available_factions (list_players s m) = []")
      case True
      then have "snd ?h = s"
        using open_match rec
        by (cases "get_player_faction s m (jr_public_key rq)")
          (auto simp: handle_join_request_def act_simps Let_def accept_join_store)
      then show ?thesis by (rule that(1))
    next
      case False
      let ?f = "available_factions (list_players s m) ! (pick mod length (available_factions (list_players s m)))"
      from False have "?h = act_bind (act_write (add_player m (jr_public_key rq) ?f (jr_display_name rq) ts))
          (\<lambda>_. accept_join X m (jr_public_key rq) ?f q ts) s"
        using open_match rec by (simp add: handle_join_request_def act_simps Let_def)
      with False show ?thesis
        using pick_available [of "list_players s m" pick] by (intro that(2) [of ?f]) auto
    qed
  qed
  then show thesis
  proof cases
    case 1
    then show thesis by (rule same)
  next
    case (2 f)
    show thesis
    proof (cases "add_player m (jr_public_key rq) f (jr_display_name rq) ts s")
      case (Inl e)
      with 2(1) have "snd ?h = s" by (simp add: act_simps)
      then show thesis by (rule same)
    next
      case (Inr s')
      then have h: "?h = accept_join X m (jr_public_key rq) f q ts s'" using 2(1) by (simp add: act_simps)
      then have "snd ?h = s'" by (simp add: accept_join_store)
      from joined [OF this Inr _ _ _ 2(4) h] 2(2,3) show thesis
        by (simp add: available_factions_set list_players_set length_list_players)
    qed
  qed
qed

lemma match_players_add:
  assumes "add_player m k f n t s = Inr s'"
  shows "match_players s' m = match_players s m @ [\<lparr>pl_match = m, pl_public_key = k, pl_faction = f, pl_name = n, pl_joined_at = t\<rparr>]"
    "m' \<noteq> m \<Longrightarrow> match_players s' m' = match_players s m'"
  using add_player_rows(1) [OF assms] by (simp_all add: match_players_def)

lemma join_lobby_ok:
  assumes "lobby_ok s m'"
  shows "lobby_ok (snd (handle_join_request X m rq q ts pick s)) m'"
proof (cases rule: join_cases [of X m rq q ts pick s])
  case same
  with assms show ?thesis by simp
next
  case (joined f s')
  show ?thesis
  proof (cases "m' = m")
    case True
    with assms joined(1,3,4) show ?thesis
      by (auto simp: lobby_ok_def match_players_add(1) [OF joined(2)])
  next
    case False
    with assms joined(1) match_players_add(2) [OF joined(2) False] show ?thesis by (simp add: lobby_ok_def)
  qed
qed

lemma lobby_bounded:
  assumes "lobby_ok s m"
  shows "length (match_players s m) \<le> 7"
    and "length (match_players s m) = 7 \<Longrightarrow> pl_faction ` set (match_players s m) = set (map fst FACTIONS)"
proof -
  have seven: "card (set (map fst FACTIONS)) = 7"
    using faction_keys by (simp add: distinct_card del: set_map)
  have d: "distinct (map pl_faction (match_players s m))"
    "set (map pl_faction (match_players s m)) \<subseteq> set (map fst FACTIONS)"
    using assms by (simp_all add: lobby_ok_def)
  have len: "length (match_players s m) = card (set (map pl_faction (match_players s m)))"
    using d(1) by (metis distinct_card length_map)
  then show "length (match_players s m) \<le> 7" using card_mono [OF _ d(2)] seven by simp
  assume "length (match_players s m) = 7"
  then have "card (set (map pl_faction (match_players s m))) = card (set (map fst FACTIONS))"
    using len seven by simp
  from card_subset_eq [OF _ d(2) this] show "pl_faction ` set (match_players s m) = set (map fst FACTIONS)" by simp
qed

lemma find_append: "find P (xs @ ys) = (case find P xs of None \<Rightarrow> find P ys | Some x \<Rightarrow> Some x)"
  by (induction xs) auto

lemma faction_after_add:
  assumes "add_player m k f n t s = Inr s'"
  shows "get_player_faction s' m k = Some f"
    and "get_player_faction s m' k' = Some f' \<Longrightarrow> get_player_faction s' m' k' = Some f'"
proof -
  note rows = add_player_rows [OF assms]
  have "find (\<lambda>r. player_key r = (m, k)) (t_players s) = None"
    using rows(2) by (simp add: find_None_iff) (metis imageI)
  then show "get_player_faction s' m k = Some f"
    by (simp add: get_player_faction_def rows(1) find_append player_key_def)
  show "get_player_faction s m' k' = Some f' \<Longrightarrow> get_player_faction s' m' k' = Some f'"
    by (auto simp: get_player_faction_def rows(1) find_append)
qed

lemma accept_join_Inr:
  assumes "accept_join X m k f q ts s = (Inr msg, s')"
  obtains name c where "s' = s" "faction_name_of f = Inr name" "encrypt_for X k (utf8_encode name) = Inr c"
    "msg = join_accepted m q ts c"
  using assms by (auto simp: accept_join_def act_bind_Inr act_run)

lemma message_type_join [simp]:
  "message_type (join_rejected m q ts r) = JOIN_REJECTED" "message_type (join_accepted m q ts c) = JOIN_ACCEPTED"
  "field_of (join_accepted m q ts c) ''encrypted_faction'' = Some (VRaw (CBytes c))"
  by (simp_all add: join_rejected_def join_accepted_def)

text \<open>An accepted answer without a write goes to a player who held a faction already.\<close>

lemma join_accepted_same:
  assumes "handle_join_request X m rq q ts pick s = (Inr msg, s')" "message_type msg = JOIN_ACCEPTED"
    and "get_player_faction s m (jr_public_key rq) = Some f"
  shows "accept_join X m (jr_public_key rq) f q ts s = (Inr msg, s')"
  using assms by (auto simp: handle_join_request_def act_simps split: option.splits prod.splits if_splits)

lemma join_accepted_new:
  assumes "handle_join_request X m rq q ts pick s = (Inr msg, s')" "message_type msg = JOIN_ACCEPTED"
    and "get_player_faction s m (jr_public_key rq) = None"
  obtains f s1 where "add_player m (jr_public_key rq) f (jr_display_name rq) ts s = Inr s1"
    "accept_join X m (jr_public_key rq) f q ts s1 = (Inr msg, s')"
  using assms
  by (auto simp: handle_join_request_def act_simps Let_def act_bind_Inr act_write_Inr
      split: option.splits prod.splits if_splits)

section \<open>Running a start\<close>

lemma start_match_Inr:
  assumes "lobby_start_match X m key q ts dl s = (Inr msg, s')"
  obtains state created canonical h s1 s2 names where
    "get_match s m = Some (state, created)" "length (match_players s m) = MAX_PLAYERS"
    "ms_status state = LOBBY" "canonical_bytes X create_default_map = Inr canonical"
    "hash_game_state_hex X create_default_map None = Inr h"
    "save_match_state m (state\<lparr>ms_status := ACTIVE, ms_phase := DIPLOMACY, ms_turn := 1, ms_year := 1\<rparr>) s = Inr s1"
    "record_phase_result m 1 DIPLOMACY canonical h None (sign_with X key (utf8_encode h)) ts s1 = Inr s2"
    "set_deadline m (Some dl) s2 = Inr s'"
    "msg = match_start_message m q ts names canonical h (sign_with X key (utf8_encode h)) dl"
    "map_result (\<lambda>p. faction_name_of (pl_faction p)) (list_players s' m) = Inr names"
proof -
  obtain state created where m: "get_match s m = Some (state, created)"
    using assms by (cases "get_match s m") (auto simp: lobby_start_match_def act_simps)
  have full: "length (list_players s m) = MAX_PLAYERS"
    using assms m by (auto simp: lobby_start_match_def act_simps split: if_splits)
  have lobby: "ms_status state = LOBBY"
    using assms m full by (auto simp: lobby_start_match_def act_simps act_bind_Inr act_run fsm_start_match_def
        split: if_splits)
  then have fsm: "fsm_start_match state =
      Inr (state\<lparr>ms_status := ACTIVE, ms_phase := DIPLOMACY, ms_turn := 1, ms_year := 1\<rparr>)"
    by (simp add: fsm_start_match_def)
  from assms m full fsm show thesis
    unfolding lobby_start_match_def Let_def
    by (auto simp: act_bind_Inr act_run act_write_Inr length_list_players intro!: that [OF m _ lobby])
qed

section \<open>A lobby\<close>

definition waiting_match :: match_row where
  "waiting_match = \<lparr>mr_state = initial_match_state, mr_private_key = [7], mr_deadline = None,
     mr_paused = None, mr_created_at = 1\<rparr>"

definition seat :: "8 word \<Rightarrow> string \<Rightarrow> player_row" where
  "seat k f = \<lparr>pl_match = ''m'', pl_public_key = [k], pl_faction = f, pl_name = None, pl_joined_at = 1\<rparr>"

definition half_lobby :: store where
  "half_lobby = empty_store\<lparr>t_matches := [(''m'', waiting_match)],
     t_players := [seat 1 ''vet'', seat 2 ''ash'']\<rparr>"

definition full_lobby :: store where
  "full_lobby = empty_store\<lparr>t_matches := [(''m'', waiting_match)],
     t_players := [seat 1 ''vet'', seat 2 ''thr'', seat 3 ''dsk'', seat 4 ''sol'', seat 5 ''ash'',
       seat 6 ''kho'', seat 7 ''irn'']\<rparr>"

lemma lobbies_ok: "lobby_ok half_lobby ''m''" "lobby_ok full_lobby ''m''"
  by (simp_all add: lobby_ok_def match_players_def half_lobby_def full_lobby_def seat_def FACTIONS_def)

definition newcomer :: join_request where
  "newcomer = \<lparr>jr_public_key = [9], jr_display_name = None\<rparr>"

lemma available_half: "available_factions (list_players half_lobby ''m'') = [''dsk'', ''irn'', ''kho'', ''sol'', ''thr'']"
  by (simp add: available_factions_def list_players_def half_lobby_def seat_def FACTIONS_def)

lemma newcomer_joins:
  "\<exists>s'. handle_join_request reference ''m'' newcomer 1 2 0 half_lobby =
     (Inr (join_accepted ''m'' 1 2 (utf8_encode ''Duskhollow'')), s')"
proof -
  have "\<exists>s'. add_player ''m'' [9] ''dsk'' None 2 half_lobby = Inr s'"
    by (simp add: add_player_def check_match_def insert_row_def half_lobby_def seat_def player_key_def)
  then obtain s' where "add_player ''m'' [9] ''dsk'' None 2 half_lobby = Inr s'" ..
  moreover have "get_match half_lobby ''m'' = Some (initial_match_state, 1)"
    by (simp add: get_match_def half_lobby_def waiting_match_def)
  moreover have "get_player_faction half_lobby ''m'' [9] = None"
    by (simp add: get_player_faction_def half_lobby_def seat_def player_key_def)
  moreover have "\<not> MAX_PLAYERS \<le> length (list_players half_lobby ''m'')"
    by (simp add: MAX_PLAYERS_def list_players_def half_lobby_def seat_def)
  moreover have "faction_name_of ''dsk'' = Inr ''Duskhollow''"
    by (simp add: faction_name_of_def FACTIONS_def lookup_or_raise_def)
  ultimately show ?thesis
    by (simp add: handle_join_request_def newcomer_def act_simps Let_def available_half accept_join_def
        initial_match_state_def)
qed

section \<open>Properties of the lobby\<close>

text \<open>C31: Joining assigns a faction of one's own: when the answer is JOIN_ACCEPTED, the player holds a
  faction of the map, its name is what the answer carries, encrypted to the player's key; the players
  of the match still hold different factions and are at most seven; and nobody who held a faction
  before holds another one now.\<close>

theorem join_assigns:
  assumes "lobby_ok s m" and "handle_join_request X m rq q ts pick s = (Inr msg, s')"
    and "message_type msg = JOIN_ACCEPTED"
  shows "lobby_ok s' m \<and> length (match_players s' m) \<le> 7 \<and>
    (\<exists>f name c. get_player_faction s' m (jr_public_key rq) = Some f \<and> faction_name_of f = Inr name \<and>
      encrypt_for X (jr_public_key rq) (utf8_encode name) = Inr c \<and>
      field_of msg ''encrypted_faction'' = Some (VRaw (CBytes c))) \<and>
    (\<forall>m' k f. get_player_faction s m' k = Some f \<longrightarrow> get_player_faction s' m' k = Some f)"
proof -
  have ok: "lobby_ok s' m" using join_lobby_ok [OF assms(1), of X m rq q ts pick] assms(2) by simp
  have "(\<exists>f name c. get_player_faction s' m (jr_public_key rq) = Some f \<and> faction_name_of f = Inr name \<and>
      encrypt_for X (jr_public_key rq) (utf8_encode name) = Inr c \<and>
      field_of msg ''encrypted_faction'' = Some (VRaw (CBytes c))) \<and>
    (\<forall>m' k f. get_player_faction s m' k = Some f \<longrightarrow> get_player_faction s' m' k = Some f)"
  proof (cases "get_player_faction s m (jr_public_key rq)")
    case (Some f)
    from accept_join_Inr [OF join_accepted_same [OF assms(2,3) Some]] obtain name c where
      "s' = s" "faction_name_of f = Inr name" "encrypt_for X (jr_public_key rq) (utf8_encode name) = Inr c"
      "msg = join_accepted m q ts c" .
    with Some show ?thesis by auto
  next
    case None
    obtain f s1 where add: "add_player m (jr_public_key rq) f (jr_display_name rq) ts s = Inr s1"
      and acc: "accept_join X m (jr_public_key rq) f q ts s1 = (Inr msg, s')"
      by (rule join_accepted_new [OF assms(2,3) None])
    from accept_join_Inr [OF acc] obtain name c where
      "s' = s1" "faction_name_of f = Inr name" "encrypt_for X (jr_public_key rq) (utf8_encode name) = Inr c"
      "msg = join_accepted m q ts c" .
    with faction_after_add [OF add] show ?thesis by auto
  qed
  with ok lobby_bounded(1) [OF ok] show ?thesis by blast
qed

theorem join_assigns_witness:
  "\<exists>s' f name. handle_join_request reference ''m'' newcomer 1 2 0 half_lobby =
       (Inr (join_accepted ''m'' 1 2 (utf8_encode ''Duskhollow'')), s') \<and>
     get_player_faction s' ''m'' [9] = Some f \<and> faction_name_of f = Inr name \<and>
     utf8_encode name = utf8_encode ''Duskhollow''"
proof -
  obtain s' where "handle_join_request reference ''m'' newcomer 1 2 0 half_lobby =
     (Inr (join_accepted ''m'' 1 2 (utf8_encode ''Duskhollow'')), s')" using newcomer_joins ..
  with join_assigns [OF lobbies_ok(1) this] show ?thesis by (auto simp: newcomer_def split: if_splits)
qed

text \<open>C30: A match starts with a full table: when \<open>start_match\<close> returns, seven players were there and
  hold the seven factions; the match is active in turn one, its deadline is set, and the hash chain
  has got one link, the starting position with its hash, no predecessor, and a signature that is valid
  under the coordinator's key.\<close>

theorem start_needs_all_factions:
  assumes "identity_ok X" and "lobby_ok s m"
    and "lobby_start_match X m key q ts dl s = (Inr msg, s')"
  shows "length (match_players s m) = 7 \<and> pl_faction ` set (match_players s' m) = set (map fst FACTIONS) \<and>
    (\<exists>st c. get_match s' m = Some (st, c) \<and> ms_status st = ACTIVE \<and> ms_turn st = 1 \<and> ms_phase st = DIPLOMACY) \<and>
    get_deadline s' m = Inr (Some dl) \<and>
    (\<exists>row. get_hash_chain s' m = get_hash_chain s m @ [row] \<and> ph_previous row = None \<and>
      canonical_bytes X create_default_map = Inr (ph_state row) \<and>
      hash_game_state_hex X create_default_map None = Inr (ph_hash row) \<and>
      validate_signature X (public_key_of X key) (ph_signature row) (utf8_encode (ph_hash row)))"
proof -
  obtain state created canonical h s1 s2 names where
    m: "get_match s m = Some (state, created)" and full: "length (match_players s m) = MAX_PLAYERS" and
    canon: "canonical_bytes X create_default_map = Inr canonical" and
    h: "hash_game_state_hex X create_default_map None = Inr h" and
    s1: "save_match_state m (state\<lparr>ms_status := ACTIVE, ms_phase := DIPLOMACY, ms_turn := 1, ms_year := 1\<rparr>) s = Inr s1" and
    s2: "record_phase_result m 1 DIPLOMACY canonical h None (sign_with X key (utf8_encode h)) ts s1 = Inr s2" and
    s': "set_deadline m (Some dl) s2 = Inr s'"
    by (rule start_match_Inr [OF assms(3)])
  note f1 = frame_save [OF s1] and f2 = frame_record_phase [OF s2] and f3 = frame_deadline [OF s']
  have seven: "length (match_players s m) = 7" using full by (simp add: MAX_PLAYERS_def)
  have players: "match_players s' m = match_players s m" by (simp add: match_players_def f1 f2 f3)
  obtain r where r: "map_of (t_matches s) m = Some r" using m by (auto simp: get_match_def)
  have row': "map_of (t_matches s') m = Some (r\<lparr>mr_state := state\<lparr>ms_status := ACTIVE, ms_phase := DIPLOMACY,
      ms_turn := 1, ms_year := 1\<rparr>, mr_deadline := Some dl\<rparr>)"
    by (simp add: f3(8) f2(3) f1(8) r)
  have chain: "get_hash_chain s' m = get_hash_chain s m @ [\<lparr>ph_match = m, ph_turn = 1, ph_phase = DIPLOMACY,
      ph_state = canonical, ph_hash = h, ph_previous = None, ph_signature = sign_with X key (utf8_encode h),
      ph_resolved_at = ts\<rparr>]"
    by (simp add: get_hash_chain_def f3(3) f2(7) f1(3))
  have "validate_signature X (public_key_of X key) (sign_with X key (utf8_encode h)) (utf8_encode h)"
    using assms(1) by (simp add: identity_ok_def)
  with seven lobby_bounded(2) [OF assms(2) seven] canon h show ?thesis
    by (simp add: players chain get_match_def get_deadline_def match_column_def row')
qed

lemma full_lobby_starts:
  "\<exists>msg s'. lobby_start_match reference ''m'' [7] q ts dl full_lobby = (Inr msg, s')"
proof -
  let ?st = "initial_match_state\<lparr>ms_status := ACTIVE, ms_phase := DIPLOMACY, ms_turn := 1, ms_year := 1\<rparr>"
  have m: "get_match full_lobby ''m'' = Some (initial_match_state, 1)"
    by (simp add: get_match_def full_lobby_def waiting_match_def)
  have full: "length (list_players full_lobby ''m'') = MAX_PLAYERS"
    by (simp add: MAX_PLAYERS_def list_players_def full_lobby_def seat_def)
  obtain s1 where s1: "save_match_state ''m'' ?st full_lobby = Inr s1"
    by (simp add: save_match_state_def with_ints_def sql_range_def update_match_def full_lobby_def)
  obtain b where b: "canonical_bytes reference create_default_map = Inr b" by (simp add: canonical_bytes_def)
  then obtain h where h: "hash_game_state_hex reference create_default_map None = Inr h"
    by (simp add: hash_game_state_hex_def hash_game_state_def)
  have "t_phases s1 = []" "''m'' \<in> set (map fst (t_matches s1))"
    by (simp_all add: frame_save [OF s1] full_lobby_def empty_store_def del: set_map)
  then obtain s2 where s2: "record_phase_result ''m'' 1 DIPLOMACY b h None
      (sign_with reference [7] (utf8_encode h)) ts s1 = Inr s2"
    by (simp add: record_phase_result_def with_ints_def sql_range_def check_match_def insert_row_def)
  have "map_of (t_matches s2) ''m'' \<noteq> None"
    by (simp add: frame_record_phase [OF s2] frame_save(8) [OF s1]) (simp add: full_lobby_def)
  then obtain s3 where s3: "set_deadline ''m'' (Some dl) s2 = Inr s3"
    by (auto simp: set_deadline_def update_match_def split: option.splits)
  have "list_players s3 ''m'' = list_players full_lobby ''m''"
    by (simp add: list_players_def frame_save [OF s1] frame_record_phase [OF s2] frame_deadline [OF s3])
  moreover have "\<exists>names. map_result (\<lambda>p. faction_name_of (pl_faction p)) (list_players full_lobby ''m'') = Inr names"
    by (simp add: list_players_def full_lobby_def seat_def faction_name_of_def FACTIONS_def lookup_or_raise_def)
  ultimately obtain names where "map_result (\<lambda>p. faction_name_of (pl_faction p)) (list_players s3 ''m'') = Inr names"
    by auto
  then show ?thesis
    using m full b h s1 s2 s3
    by (simp add: lobby_start_match_def act_simps Let_def fsm_start_match_def initial_match_state_def)
qed

theorem start_needs_all_factions_witness:
  "\<exists>msg s'. lobby_start_match reference ''m'' [7] 1 2 10 full_lobby = (Inr msg, s') \<and>
     get_deadline s' ''m'' = Inr (Some 10)"
  using full_lobby_starts start_needs_all_factions [OF reference_ok(3) lobbies_ok(2)] by blast

text \<open>A match that is not full does not start, and the store stays as it is.\<close>

lemma start_refused:
  assumes "get_match s m = Some (state, c)" "length (match_players s m) \<noteq> 7"
  shows "lobby_start_match X m key q ts dl s = (Inl InvalidTransitionError, s)"
  using assms by (simp add: lobby_start_match_def act_simps MAX_PLAYERS_def length_list_players)

text \<open>Joining again is idempotent in the lobby only: once the match is active, a player who holds a
  faction and joins again, as after a dropped connection, is rejected.\<close>

lemma rejoin_after_start_rejected:
  assumes "get_match s m = Some (state, c)" "ms_status state \<noteq> LOBBY"
    and "get_player_faction s m (jr_public_key rq) = Some f"
  shows "handle_join_request X m rq q ts pick s = (Inr (join_rejected m q ts ''match already started''), s)"
  using assms by (simp add: handle_join_request_def act_simps)

text \<open>A newcomer whose key cannot be encrypted to takes a seat all the same: the row is committed
  before the encryption raises.\<close>

lemma bad_key_takes_seat:
  assumes "get_match s m = Some (state, c)" "ms_status state = LOBBY"
    and "get_player_faction s m (jr_public_key rq) = None" "length (list_players s m) < MAX_PLAYERS"
    and "available_factions (list_players s m) \<noteq> []"
    and "add_player m (jr_public_key rq) (available_factions (list_players s m) !
        (pick mod length (available_factions (list_players s m)))) (jr_display_name rq) ts s = Inr s'"
    and "faction_name_of (available_factions (list_players s m) !
        (pick mod length (available_factions (list_players s m)))) = Inr name"
    and "encrypt_for X (jr_public_key rq) (utf8_encode name) = Inl e"
  shows "handle_join_request X m rq q ts pick s = (Inl e, s')"
  using assms by (simp add: handle_join_request_def act_simps Let_def accept_join_def)

end
