(* ===== verification/Draws.thy ===== *)
theory Draws
  imports Lobby
begin

text \<open>
  \<^verbatim>\<open>coordinator/draws.py\<close>: a proposal is a vote in favour, every vote re-evaluates the outcome over
  the joined players, and an accepted draw ends the match. The facts about votes are those of the
  upsert contract \<open>key_value\<close> in its instance for the vote table.
\<close>

section \<open>The code\<close>

datatype DrawRule = UNANIMOUS | MAJORITY

fun draw_rule_value :: "DrawRule \<Rightarrow> string" where
  "draw_rule_value UNANIMOUS = ''unanimous''"
| "draw_rule_value MAJORITY = ''majority''"

text \<open>\<open>votes.get(key, False)\<close>.\<close>

definition vote_of :: "(bytes, bool) dict \<Rightarrow> bytes \<Rightarrow> bool" where
  "vote_of votes key = (case map_of votes key of Some v \<Rightarrow> v | None \<Rightarrow> False)"

definition draw_accepted :: "DrawRule \<Rightarrow> player_row list \<Rightarrow> (bytes, bool) dict \<Rightarrow> bool" where
  "draw_accepted rule players votes =
     (let yes_votes = length (filter (\<lambda>p. vote_of votes (pl_public_key p)) players);
          total = length players
      in case rule of
           UNANIMOUS \<Rightarrow> 0 < total \<and> yes_votes = total
         | MAJORITY \<Rightarrow> (of_nat total :: rat) / 2 < of_nat yes_votes)"

definition draw_result_message ::
    "int \<Rightarrow> rat \<Rightarrow> string \<Rightarrow> int \<Rightarrow> bool \<Rightarrow> (string, bool) dict \<Rightarrow> message" where
  "draw_result_message sequence_number timestamp match_id trn accepted votes =
     mk_message DRAW_RESULT sequence_number timestamp
       [(''match_id'', VRaw (CStr match_id)), (''turn'', VRaw (CInt trn)), (''accepted'', VRaw (CBool accepted)),
        (''votes'', VRaw (CDict (map (\<lambda>(name, v). (name, CBool v)) votes)))]"

definition evaluate_draw :: "string \<Rightarrow> int \<Rightarrow> int \<Rightarrow> rat \<Rightarrow> DrawRule \<Rightarrow> (store, message) act" where
  "evaluate_draw match_id trn sequence_number timestamp rule =
     act_bind (act_get (\<lambda>s. list_players s match_id)) (\<lambda>players.
     act_bind (act_try (\<lambda>s. get_draw_votes s match_id trn)) (\<lambda>votes.
     act_bind (act_try (\<lambda>_. map_result (\<lambda>p. faction_name_of (pl_faction p)) players)) (\<lambda>names.
       act_return (draw_result_message sequence_number timestamp match_id trn (draw_accepted rule players votes)
         (dict_comp fst snd (zip names (map (\<lambda>p. vote_of votes (pl_public_key p)) players)))))))"

definition match_is_active :: "store \<Rightarrow> string \<Rightarrow> bool" where
  "match_is_active s match_id =
     (case get_match s match_id of None \<Rightarrow> False | Some (state, _) \<Rightarrow> ms_status state = ACTIVE)"

text \<open>\<open>handle_draw_vote\<close>, of which \<open>handle_draw_propose\<close> is the vote in favour.\<close>

definition handle_draw_vote ::
    "string \<Rightarrow> bytes \<Rightarrow> int \<Rightarrow> bool \<Rightarrow> int \<Rightarrow> rat \<Rightarrow> DrawRule \<Rightarrow> (store, message) act" where
  "handle_draw_vote match_id public_key trn vote sequence_number timestamp rule =
     act_bind (act_get (\<lambda>s. match_is_active s match_id)) (\<lambda>active.
     act_bind (if active then act_write (record_draw_vote match_id trn public_key vote timestamp) else act_return ())
       (\<lambda>_. evaluate_draw match_id trn sequence_number timestamp rule))"

definition handle_draw_propose ::
    "string \<Rightarrow> bytes \<Rightarrow> int \<Rightarrow> int \<Rightarrow> rat \<Rightarrow> DrawRule \<Rightarrow> (store, message) act" where
  "handle_draw_propose match_id public_key trn sequence_number timestamp rule =
     act_bind (act_get (\<lambda>s. match_is_active s match_id)) (\<lambda>active.
     act_bind (if active then act_write (record_draw_vote match_id trn public_key True timestamp) else act_return ())
       (\<lambda>_. evaluate_draw match_id trn sequence_number timestamp rule))"

text \<open>\<open>result.accepted\<close>.\<close>

definition is_accepted :: "message \<Rightarrow> bool" where
  "is_accepted result \<longleftrightarrow> field_of result ''accepted'' = Some (VRaw (CBool True))"

definition apply_result :: "string \<Rightarrow> MatchState \<Rightarrow> message \<Rightarrow> (store, MatchState) act" where
  "apply_result match_id state result =
     (if \<not> is_accepted result then act_return state
      else
        act_bind (act_try (\<lambda>_. fsm_end_match state)) (\<lambda>new_state.
        act_bind (act_write (save_match_state match_id new_state)) (\<lambda>_.
          act_return new_state)))"

section \<open>Reading the votes\<close>

lemma propose_is_vote: "handle_draw_propose m k t q ts rule = handle_draw_vote m k t True q ts rule"
  by (simp add: handle_draw_propose_def handle_draw_vote_def)

lemma find_same_key:
  assumes "distinct (map key xs)" "x \<in> set xs"
  shows "find (\<lambda>y. key y = key x) xs = Some x"
  using assms by (induction xs) auto

lemma find_injective:
  assumes "distinct (map key xs)"
  shows "find (\<lambda>x. key x = k) (rev xs) = find (\<lambda>x. key x = k) xs"
proof (cases "\<exists>x\<in>set xs. key x = k")
  case True
  then obtain x where x: "x \<in> set xs" "k = key x" by auto
  have "distinct (map key (rev xs))" using assms by (simp flip: rev_map)
  with x find_same_key [OF assms x(1)] find_same_key [of key "rev xs" x] show ?thesis by simp
next
  case False
  then have "find (\<lambda>x. key x = k) (rev xs) = None" "find (\<lambda>x. key x = k) xs = None" by (simp_all add: find_None_iff)
  then show ?thesis by simp
qed

lemma find_filter: "find P (filter Q xs) = find (\<lambda>x. Q x \<and> P x) xs"
  by (induction xs) auto

text \<open>Over a table with its primary key, the dictionary of votes is the lookup by key.\<close>

lemma vote_of_look:
  assumes "store_ok s"
  shows "vote_of (draw_votes s m t) k \<longleftrightarrow> look_vote s (m, t, k) = Some True"
proof -
  let ?rows = "filter (\<lambda>r. vo_match r = m \<and> vo_turn r = t) (t_votes s)"
  have dist: "distinct (map vote_key (t_votes s))" using assms by (rule store_okD(8))
  then have "distinct (map vote_key ?rows)" by (rule distinct_map_filter)
  then have "distinct (map vo_public_key ?rows)"
    by (auto simp: distinct_map inj_on_def vote_key_def)
  then have "map_of (draw_votes s m t) k = map_option vo_vote (find (\<lambda>r. vo_public_key r = k) ?rows)"
    by (simp add: draw_votes_def map_of_dict_comp find_injective)
  also have "find (\<lambda>r. vo_public_key r = k) ?rows = find (\<lambda>r. vote_key r = (m, t, k)) (t_votes s)"
    by (simp add: find_filter vote_key_def conj_assoc)
  finally show ?thesis by (simp add: vote_of_def look_vote_def split: option.splits)
qed

text \<open>The joined players in favour, from the tables alone.\<close>

definition in_favour :: "store \<Rightarrow> string \<Rightarrow> int \<Rightarrow> player_row list" where
  "in_favour s m t = filter (\<lambda>p. look_vote s (m, t, pl_public_key p) = Some True) (match_players s m)"

fun draw_carried :: "DrawRule \<Rightarrow> store \<Rightarrow> string \<Rightarrow> int \<Rightarrow> bool" where
  "draw_carried UNANIMOUS s m t \<longleftrightarrow> match_players s m \<noteq> [] \<and>
     (\<forall>p\<in>set (match_players s m). look_vote s (m, t, pl_public_key p) = Some True)"
| "draw_carried MAJORITY s m t \<longleftrightarrow> length (match_players s m) < 2 * length (in_favour s m t)"

lemma length_filter_list_players:
  "length (filter P (list_players s m)) = length (filter P (match_players s m))"
  by (simp add: list_players_def match_players_def filter_sort)

lemma length_filter_all: "length (filter P xs) = length xs \<longleftrightarrow> (\<forall>x\<in>set xs. P x)"
proof (induction xs)
  case (Cons x xs)
  have "length (filter P xs) \<le> length xs" by (rule length_filter_le)
  then have "length (filter P xs) \<noteq> Suc (length xs)" by linarith
  with Cons show ?case by simp
qed simp

lemma half_less: "(of_nat a :: rat) / 2 < of_nat b \<longleftrightarrow> a < 2 * b"
proof -
  have "(of_nat a :: rat) / 2 < of_nat b \<longleftrightarrow> (of_nat a :: rat) < of_nat (2 * b)" by (simp add: field_simps)
  also have "\<dots> \<longleftrightarrow> a < 2 * b" by (rule of_nat_less_iff)
  finally show ?thesis .
qed

lemma draw_accepted_carried:
  assumes "store_ok s"
  shows "draw_accepted rule (list_players s m) (draw_votes s m t) = draw_carried rule s m t"
proof -
  have yes: "length (filter (\<lambda>p. vote_of (draw_votes s m t) (pl_public_key p)) (list_players s m)) =
      length (in_favour s m t)"
    by (simp add: vote_of_look [OF assms] length_filter_list_players in_favour_def)
  show ?thesis
  proof (cases rule)
    case UNANIMOUS
    have "length (in_favour s m t) = length (match_players s m) \<longleftrightarrow>
        (\<forall>p\<in>set (match_players s m). look_vote s (m, t, pl_public_key p) = Some True)"
      by (simp add: in_favour_def length_filter_all)
    then show ?thesis using UNANIMOUS by (simp add: draw_accepted_def Let_def yes length_list_players)
  next
    case MAJORITY
    then show ?thesis
      using half_less [of "length (match_players s m)" "length (in_favour s m t)"]
      by (simp add: draw_accepted_def Let_def yes length_list_players)
  qed
qed

lemma evaluate_draw_Inr:
  assumes "store_ok s" "evaluate_draw m t q ts rule s = (Inr msg, s')"
  shows "s' = s" "field_of msg ''accepted'' = Some (VRaw (CBool (draw_carried rule s m t)))"
    "message_type msg = DRAW_RESULT"
  using assms
  by (auto simp: evaluate_draw_def act_bind_Inr act_run get_draw_votes_def draw_accepted_carried draw_result_message_def)

lemma vote_recorded:
  assumes "handle_draw_vote m k t v q ts rule s = (Inr msg, s')" "match_is_active s m"
  obtains "record_draw_vote m t k v ts s = Inr s'" "evaluate_draw m t q ts rule s' = (Inr msg, s')"
proof -
  obtain s1 where s1: "record_draw_vote m t k v ts s = Inr s1" "evaluate_draw m t q ts rule s1 = (Inr msg, s')"
    using assms by (auto simp: handle_draw_vote_def act_bind_get act_bind_Inr act_write_Inr)
  moreover have "snd (evaluate_draw m t q ts rule s1) = s1"
    by (simp add: evaluate_draw_def act_bind_def act_run split: sum.splits)
  ultimately show thesis using that by simp
qed

lemma frame_match_players: "t_players s' = t_players s \<Longrightarrow> match_players s' m = match_players s m"
  by (simp add: match_players_def)

section \<open>Properties of draws\<close>

text \<open>The outcome looks at joined players only: a vote of anybody else changes nothing.\<close>

lemma outsider_vote_ignored:
  assumes "record_draw_vote m t k v ts s = Inr s'" "k \<notin> pl_public_key ` set (match_players s m)"
  shows "draw_carried rule s' m t' = draw_carried rule s m t'"
proof -
  have look: "look_vote s' (m, t', pl_public_key p) = look_vote s (m, t', pl_public_key p)"
    if "p \<in> set (match_players s m)" for p
    using votes.look_put [of ts "(m, t, k)" v s s' "(m, t', pl_public_key p)"] assms that by auto
  have players: "match_players s' m = match_players s m"
    by (rule frame_match_players [OF frame_vote(1) [OF assms(1)]])
  have "in_favour s' m t' = in_favour s m t'"
    unfolding in_favour_def players by (rule filter_cong [OF refl]) (simp add: look)
  then show ?thesis by (cases rule) (simp_all add: players look)
qed

text \<open>C32: A draw vote in an active match counts exactly: it becomes the sender's vote for that turn,
  replacing an earlier one, every other vote stays, and the answer says "accepted" exactly when the
  rule is met by the joined players after it: all of them, at least one, in favour (unanimous), or more
  than half of them (majority). A proposal is such a vote in favour.\<close>

theorem draw_outcome:
  assumes "store_ok s" and "match_is_active s m"
    and "handle_draw_vote m k t v q ts rule s = (Inr msg, s')"
  shows "(\<forall>j. look_vote s' j = (if j = (m, t, k) then Some v else look_vote s j)) \<and>
    match_players s' m = match_players s m \<and> message_type msg = DRAW_RESULT \<and>
    field_of msg ''accepted'' = Some (VRaw (CBool
      (case rule of
         UNANIMOUS \<Rightarrow> match_players s m \<noteq> [] \<and>
           (\<forall>p\<in>set (match_players s m). look_vote s' (m, t, pl_public_key p) = Some True)
       | MAJORITY \<Rightarrow> length (match_players s m) < 2 * length (in_favour s' m t)))) \<and>
    handle_draw_propose m k t q ts rule s = handle_draw_vote m k t True q ts rule s"
proof -
  from vote_recorded [OF assms(3,2)] have rec: "record_draw_vote m t k v ts s = Inr s'"
    and ev: "evaluate_draw m t q ts rule s' = (Inr msg, s')" by blast+
  have "store_ok s'" by (rule record_vote_ok [OF rec assms(1)])
  note msg = evaluate_draw_Inr [OF this ev]
  have look: "\<forall>j. look_vote s' j = (if j = (m, t, k) then Some v else look_vote s j)"
    using votes.look_put [of ts "(m, t, k)" v s s'] rec by simp
  have players: "match_players s' m = match_players s m"
    by (rule frame_match_players [OF frame_vote(1) [OF rec]])
  have "draw_carried rule s' m t = (case rule of
      UNANIMOUS \<Rightarrow> match_players s m \<noteq> [] \<and>
        (\<forall>p\<in>set (match_players s m). look_vote s' (m, t, pl_public_key p) = Some True)
    | MAJORITY \<Rightarrow> length (match_players s m) < 2 * length (in_favour s' m t))"
    by (cases rule) (simp_all add: players)
  with msg(2,3) look players show ?thesis by (simp add: propose_is_vote)
qed

definition playing_match :: match_row where
  "playing_match = waiting_match\<lparr>mr_state := \<lparr>ms_status = ACTIVE, ms_phase = ORDERS, ms_turn = 1, ms_year = 1\<rparr>\<rparr>"

definition duel :: store where
  "duel = empty_store\<lparr>t_matches := [(''m'', playing_match)],
     t_players := [seat 1 ''vet'', seat 2 ''ash''],
     t_votes := [\<lparr>vo_match = ''m'', vo_turn = 1, vo_public_key = [1], vo_vote = True, vo_voted_at = 1\<rparr>]\<rparr>"

lemma duel_ok: "store_ok duel" "match_is_active duel ''m''"
  by (simp_all add: store_ok_def duel_def empty_store_def dict_ok_def player_key_def seat_def all_in_matches_def
      order_key_def phase_key_def vote_key_def seq_key_def match_is_active_def get_match_def playing_match_def)

lemma duel_vote:
  "\<exists>msg s'. handle_draw_vote ''m'' [2] 1 True 1 2 UNANIMOUS duel = (Inr msg, s')"
proof -
  obtain s1 where s1: "record_draw_vote ''m'' 1 [2] True 2 duel = Inr s1"
    by (simp add: record_draw_vote_def sql_range_def with_ints_def check_match_def duel_def)
  have "list_players s1 ''m'' = list_players duel ''m''"
    by (simp add: list_players_def frame_vote [OF s1])
  moreover have "\<exists>names. map_result (\<lambda>p. faction_name_of (pl_faction p)) (list_players duel ''m'') = Inr names"
    by (simp add: list_players_def duel_def seat_def faction_name_of_def FACTIONS_def lookup_or_raise_def)
  ultimately obtain names where "map_result (\<lambda>p. faction_name_of (pl_faction p)) (list_players s1 ''m'') = Inr names"
    by auto
  then show ?thesis using duel_ok(2) s1
    by (simp add: handle_draw_vote_def evaluate_draw_def act_simps get_draw_votes_def with_ints_def sql_range_def)
qed

theorem draw_outcome_witness:
  "\<exists>msg s'. handle_draw_vote ''m'' [2] 1 True 1 2 UNANIMOUS duel = (Inr msg, s') \<and>
     field_of msg ''accepted'' = Some (VRaw (CBool True))"
proof -
  obtain msg s' where vote: "handle_draw_vote ''m'' [2] 1 True 1 2 UNANIMOUS duel = (Inr msg, s')"
    using duel_vote by blast
  have "match_players duel ''m'' = [seat 1 ''vet'', seat 2 ''ash'']"
    by (simp add: match_players_def duel_def seat_def)
  moreover have "look_vote duel (''m'', 1, [1]) = Some True"
    by (simp add: look_vote_def duel_def vote_key_def)
  ultimately have "field_of msg ''accepted'' = Some (VRaw (CBool True))"
    using draw_outcome [OF duel_ok vote] by (simp add: seat_def)
  with vote show ?thesis by blast
qed

text \<open>An accepted draw ends the match once and for all: applied to an active match it stores the
  completed state and touches nothing else; but the votes stay, so the next vote of the same turn is
  answered as accepted again, and applying that answer raises an exception that no handler catches.\<close>

theorem draw_ends_match:
  assumes "store_ok s" and "get_match s m = Some (st, c)" and "ms_status st = ACTIVE"
    and "sql_range (ms_turn st)" and "sql_range (ms_year st)"
    and "draw_carried rule s m t" and "is_accepted result"
  shows "\<exists>s'. apply_result m st result s = (Inr (st\<lparr>ms_status := COMPLETED\<rparr>), s') \<and>
    get_match s' m = Some (st\<lparr>ms_status := COMPLETED\<rparr>, c) \<and> (\<forall>m'. m' \<noteq> m \<longrightarrow> get_match s' m' = get_match s m') \<and>
    (\<forall>k v q ts msg s''. handle_draw_vote m k t v q ts rule s' = (Inr msg, s'') \<longrightarrow>
       s'' = s' \<and> is_accepted msg \<and>
       apply_result m (st\<lparr>ms_status := COMPLETED\<rparr>) msg s' = (Inl InvalidTransitionError, s'))"
proof -
  let ?st = "st\<lparr>ms_status := COMPLETED\<rparr>"
  obtain r where "map_of (t_matches s) m = Some r" using assms(2) by (auto simp: get_match_def)
  then obtain s' where s': "save_match_state m ?st s = Inr s'"
    using assms(4,5) by (simp add: save_match_state_def with_ints_def update_match_def)
  have run: "apply_result m st result s = (Inr ?st, s')"
    using assms(3,7) s' by (simp add: apply_result_def fsm_end_match_def act_simps)
  have get: "get_match s' m = Some (?st, c)" "\<forall>m'. m' \<noteq> m \<longrightarrow> get_match s' m' = get_match s m'"
    using assms(2) by (simp_all add: get_match_save [OF s'])
  have ok: "store_ok s'" by (rule match_updates_ok(1) [OF s' assms(1)])
  have look: "look_vote s' j = look_vote s j" for j by (simp add: look_vote_def frame_save [OF s'])
  have players: "match_players s' m = match_players s m" by (simp add: match_players_def frame_save [OF s'])
  have "in_favour s' m t = in_favour s m t" by (simp add: in_favour_def look players)
  then have carried: "draw_carried rule s' m t" using assms(6) by (cases rule) (simp_all add: look players)
  have "s'' = s' \<and> is_accepted msg \<and> apply_result m ?st msg s' = (Inl InvalidTransitionError, s')"
    if vote: "handle_draw_vote m k t v q ts rule s' = (Inr msg, s'')" for k v q ts msg s''
  proof -
    have "evaluate_draw m t q ts rule s' = (Inr msg, s'')"
      using vote get(1) by (simp add: handle_draw_vote_def match_is_active_def act_simps)
    from evaluate_draw_Inr [OF ok this] carried have "s'' = s'" "is_accepted msg" by (simp_all add: is_accepted_def)
    then show ?thesis by (simp add: apply_result_def fsm_end_match_def act_simps)
  qed
  with run get show ?thesis by blast
qed

definition agreed :: store where
  "agreed = duel\<lparr>t_votes := map (\<lambda>k. \<lparr>vo_match = ''m'', vo_turn = 1, vo_public_key = [k], vo_vote = True,
     vo_voted_at = 1\<rparr>) [1, 2]\<rparr>"

theorem draw_ends_match_witness:
  "\<exists>s'. apply_result ''m'' (mr_state playing_match) (draw_result_message 1 1 ''m'' 1 True []) agreed =
       (Inr ((mr_state playing_match)\<lparr>ms_status := COMPLETED\<rparr>), s') \<and>
     get_match s' ''m'' = Some ((mr_state playing_match)\<lparr>ms_status := COMPLETED\<rparr>, 1)"
proof -
  have ok: "store_ok agreed"
    unfolding agreed_def by (rule store_ok_tables(4) [OF duel_ok(1)])
      (simp_all add: vote_key_def all_in_matches_def duel_def)
  have m: "get_match agreed ''m'' = Some (mr_state playing_match, 1)"
    by (simp add: get_match_def agreed_def duel_def playing_match_def waiting_match_def)
  have carried: "draw_carried UNANIMOUS agreed ''m'' 1"
    by (simp add: match_players_def agreed_def duel_def seat_def look_vote_def vote_key_def)
  have acc: "is_accepted (draw_result_message 1 1 ''m'' 1 True [])"
    by (simp add: is_accepted_def draw_result_message_def)
  show ?thesis
    using draw_ends_match [OF ok m _ _ _ carried acc] by (auto simp: playing_match_def sql_range_def)
qed

end
