(* ===== verification/Order_Intake.thy ===== *)
theory Order_Intake
  imports Effects Store_Facts Validation
begin

text \<open>
  \<^verbatim>\<open>coordinator/orders.py\<close>: submissions, cancellations and status requests against the order table,
  and the orders that adjudication takes from it. The properties say what an accepted revision
  guarantees, what the effective orders are, and two places where the code departs from its
  documentation: a later rejected revision drops the accepted orders, and a cancellation that reuses a
  revision fails halfway.
\<close>

section \<open>Encoding of an order set\<close>

definition encode_orders :: "externals \<Rightarrow> Order list \<Rightarrow> bytes result" where
  "encode_orders X orders = packb X (CList (map (\<lambda>ord. canonicalize (py_order ord)) orders))"

text \<open>\<open>order_from_dict(item)\<close>: a value that is no dictionary cannot be subscripted by a string.\<close>

fun order_from_item :: "canonical \<Rightarrow> Order result" where
  "order_from_item (CDict d) = order_from_dict d"
| "order_from_item _ = Inl TypeError"

definition decode_orders :: "externals \<Rightarrow> bytes \<Rightarrow> Order list result" where
  "decode_orders X blob =
     bind_result (unpackb X blob) (\<lambda>raw. bind_result (iterate raw) (map_result order_from_item))"

section \<open>Requests and receipts\<close>

record order_request =
  rq_match_id :: string
  rq_revision :: int
  rq_orders :: "Order list"

definition order_receipt :: "int \<Rightarrow> rat \<Rightarrow> string \<Rightarrow> int \<Rightarrow> string \<Rightarrow> OrderState \<Rightarrow> message" where
  "order_receipt sequence_number timestamp match_id revision order_hash state =
     mk_message ORDER_RECEIPT sequence_number timestamp
       [(''match_id'', VRaw (CStr match_id)), (''revision'', VRaw (CInt revision)),
        (''order_hash'', VRaw (CStr order_hash)), (''state'', VEnum (order_state_value state))]"

definition rejected_receipt :: "externals \<Rightarrow> order_request \<Rightarrow> int \<Rightarrow> rat \<Rightarrow> message result" where
  "rejected_receipt X request sequence_number timestamp =
     bind_result (hash_orders X (rq_orders request)) (\<lambda>h.
       Inr (order_receipt sequence_number timestamp (rq_match_id request) (rq_revision request) h REJECTED))"

definition handle_order_submit ::
    "externals \<Rightarrow> GameState \<Rightarrow> string \<Rightarrow> bytes \<Rightarrow> order_request \<Rightarrow> int \<Rightarrow> Phase \<Rightarrow> int \<Rightarrow> rat \<Rightarrow>
     (store, message) act" where
  "handle_order_submit X game_state match_id public_key request current_turn current_phase
       sequence_number timestamp =
     act_bind (act_get (\<lambda>s. get_player_faction s match_id public_key)) (\<lambda>faction.
     case faction of
       None \<Rightarrow> act_try (\<lambda>_. rejected_receipt X request sequence_number timestamp)
     | Some f \<Rightarrow>
         if current_phase \<noteq> ORDERS then act_try (\<lambda>_. rejected_receipt X request sequence_number timestamp)
         else
           act_bind (act_try (\<lambda>s. get_latest_order s match_id public_key current_turn)) (\<lambda>previous.
           if (case previous of None \<Rightarrow> False | Some p \<Rightarrow> rq_revision request \<le> or_revision p)
           then act_try (\<lambda>_. rejected_receipt X request sequence_number timestamp)
           else
             act_bind (act_try (\<lambda>_. hash_orders X (rq_orders request))) (\<lambda>order_hash.
             let errors = validate_orders game_state f (rq_orders request);
                 status = (if errors \<noteq> [] then REJECTED else ACCEPTED)
             in act_bind
                  (case previous of
                     None \<Rightarrow> act_return ()
                   | Some p \<Rightarrow>
                       if status = ACCEPTED
                       then act_write (update_order_status match_id public_key current_turn (or_revision p)
                              (order_state_value SUPERSEDED))
                       else act_return ())
                  (\<lambda>_.
                act_bind (act_try (\<lambda>_. encode_orders X (rq_orders request))) (\<lambda>blob.
                act_bind (act_write (record_order_submission match_id public_key current_turn
                    (rq_revision request) blob order_hash (order_state_value status) timestamp)) (\<lambda>_.
                  act_return (order_receipt sequence_number timestamp (rq_match_id request)
                    (rq_revision request) order_hash status)))))))"

definition handle_order_cancel ::
    "externals \<Rightarrow> string \<Rightarrow> bytes \<Rightarrow> order_request \<Rightarrow> int \<Rightarrow> Phase \<Rightarrow> int \<Rightarrow> rat \<Rightarrow> (store, message) act" where
  "handle_order_cancel X match_id public_key request current_turn current_phase sequence_number timestamp =
     act_bind (act_get (\<lambda>s. get_player_faction s match_id public_key)) (\<lambda>faction.
     if faction = None \<or> current_phase \<noteq> ORDERS
     then act_return (order_receipt sequence_number timestamp (rq_match_id request) (rq_revision request)
            '''' REJECTED)
     else
       act_bind (act_try (\<lambda>s. get_latest_order s match_id public_key current_turn)) (\<lambda>previous.
       act_bind
         (case previous of
            None \<Rightarrow> act_return ()
          | Some p \<Rightarrow>
              if or_status p = order_state_value ACCEPTED
              then act_write (update_order_status match_id public_key current_turn (or_revision p)
                     (order_state_value SUPERSEDED))
              else act_return ())
         (\<lambda>_.
       act_bind (act_try (\<lambda>_. hash_orders X [])) (\<lambda>empty_order_hash.
       act_bind (act_try (\<lambda>_. encode_orders X [])) (\<lambda>blob.
       act_bind (act_write (record_order_submission match_id public_key current_turn
           (rq_revision request) blob empty_order_hash (order_state_value SUPERSEDED) timestamp)) (\<lambda>_.
         act_return (order_receipt sequence_number timestamp (rq_match_id request)
           (rq_revision request) empty_order_hash SUPERSEDED)))))))"

definition order_status_message ::
    "int \<Rightarrow> rat \<Rightarrow> string \<Rightarrow> int \<Rightarrow> OrderState \<Rightarrow> string option \<Rightarrow> message" where
  "order_status_message sequence_number timestamp match_id revision state order_hash =
     mk_message ORDER_STATUS sequence_number timestamp
       [(''match_id'', VRaw (CStr match_id)), (''revision'', VRaw (CInt revision)),
        (''state'', VEnum (order_state_value state)), (''order_hash'', str_value order_hash)]"

definition handle_order_status ::
    "string \<Rightarrow> bytes \<Rightarrow> int \<Rightarrow> int \<Rightarrow> rat \<Rightarrow> (store, message) act" where
  "handle_order_status match_id public_key trn sequence_number timestamp =
     act_bind (act_try (\<lambda>s. get_latest_order s match_id public_key trn)) (\<lambda>latest.
     case latest of
       None \<Rightarrow> act_return (order_status_message sequence_number timestamp match_id 0 SENT None)
     | Some r \<Rightarrow>
         act_bind (act_try (\<lambda>_. order_state_of_value (or_status r))) (\<lambda>state.
           act_return (order_status_message sequence_number timestamp match_id (or_revision r) state
             (Some (or_hash r)))))"

text \<open>The loop of \<open>get_effective_orders\<close>: only accepted records, later records overwrite.\<close>

definition add_record ::
    "externals \<Rightarrow> order_row \<Rightarrow> (string, Order) dict \<Rightarrow> (string, Order) dict result" where
  "add_record X record effective =
     (if or_status record \<noteq> order_state_value ACCEPTED then Inr effective
      else bind_result (decode_orders X (or_blob record)) (\<lambda>orders.
        Inr (fold (\<lambda>ord d. AList.update (unit_region_id ord) ord d) orders effective)))"

definition get_effective_orders :: "externals \<Rightarrow> store \<Rightarrow> string \<Rightarrow> int \<Rightarrow> (string, Order) dict result" where
  "get_effective_orders X s match_id trn =
     bind_result (get_latest_orders_for_turn s match_id trn) (\<lambda>records. fold_result (add_record X) records [])"

section \<open>Round trip of the blob\<close>

lemma decode_encode_orders:
  assumes "codec_ok X" "encode_orders X orders = Inr b"
  shows "decode_orders X b = Inr orders"
proof -
  have "unpackb X b = Inr (CList (map (\<lambda>ord. canonicalize (py_order ord)) orders))"
    using assms by (simp add: codec_ok_def encode_orders_def)
  moreover have "map_result order_from_item (map (\<lambda>ord. canonicalize (py_order ord)) orders) = Inr orders"
    by (induction orders) simp_all
  ultimately show ?thesis by (simp add: decode_orders_def)
qed

section \<open>Running a submission\<close>

lemma range_latest: "get_latest_order s m k t = Inr p \<longleftrightarrow> sql_range t \<and> p = latest_order s m k t"
  by (auto simp: get_latest_order_def with_ints_def)

definition is_rejected :: "message \<Rightarrow> bool" where
  "is_rejected msg \<longleftrightarrow> field_of msg ''state'' = Some (VEnum (order_state_value REJECTED))"

lemma receipt_state:
  "field_of (order_receipt q ts m rv h st) ''state'' = Some (VEnum (order_state_value st))"
  "field_of (order_receipt q ts m rv h st) ''order_hash'' = Some (VRaw (CStr h))"
  by (simp_all add: order_receipt_def)

text \<open>Everything that can happen to a submission that is answered.\<close>

lemma submit_answered:
  assumes "handle_order_submit X gs m k rq trn ph q ts s = (Inr msg, s')"
  obtains (refused) "s' = s" "is_rejected msg"
    | (recorded) f h b st s1 where "get_player_faction s m k = Some f" "ph = ORDERS" "sql_range trn"
        "\<And>p. latest_order s m k trn = Some p \<Longrightarrow> or_revision p < rq_revision rq"
        "hash_orders X (rq_orders rq) = Inr h" "encode_orders X (rq_orders rq) = Inr b"
        "st = (if validate_orders gs f (rq_orders rq) \<noteq> [] then REJECTED else ACCEPTED)"
        "(case latest_order s m k trn of
            Some p \<Rightarrow> if st = ACCEPTED
              then update_order_status m k trn (or_revision p) (order_state_value SUPERSEDED) s = Inr s1
              else s1 = s
          | None \<Rightarrow> s1 = s)"
        "record_order_submission m k trn (rq_revision rq) b h (order_state_value st) ts s1 = Inr s'"
        "msg = order_receipt q ts (rq_match_id rq) (rq_revision rq) h st"
proof -
  have reject: "thesis" if "act_try (\<lambda>_. rejected_receipt X rq q ts) s = (Inr msg, s')"
  proof -
    from that have "s' = s" "is_rejected msg"
      by (auto simp: act_run rejected_receipt_def is_rejected_def receipt_state)
    then show thesis by (rule refused)
  qed
  show thesis
  proof (cases "get_player_faction s m k")
    case None
    with assms reject show thesis by (simp add: handle_order_submit_def act_simps)
  next
    case (Some f)
    show thesis
    proof (cases "ph = ORDERS")
      case False
      with assms Some reject show thesis by (simp add: handle_order_submit_def act_simps)
    next
      case True
      let ?prev = "latest_order s m k trn"
      have range: "sql_range trn" using assms Some True
        by (auto simp: handle_order_submit_def act_bind_def act_run get_latest_order_def with_ints_def
            split: if_splits)
      then have prev: "get_latest_order s m k trn = Inr ?prev" by (simp add: range_latest)
      show thesis
      proof (cases "case ?prev of None \<Rightarrow> False | Some p \<Rightarrow> rq_revision rq \<le> or_revision p")
        case stale: True
        with assms Some True prev reject show thesis by (simp add: handle_order_submit_def act_simps)
      next
        case False
        let ?st = "if validate_orders gs f (rq_orders rq) \<noteq> [] then REJECTED else ACCEPTED"
        from assms Some True prev False obtain h s1 b where
          h: "hash_orders X (rq_orders rq) = Inr h"
          and s1: "(case ?prev of None \<Rightarrow> act_return ()
            | Some p \<Rightarrow> if ?st = ACCEPTED
                then act_write (update_order_status m k trn (or_revision p) (order_state_value SUPERSEDED))
                else act_return ()) s = (Inr (), s1)"
          and b: "encode_orders X (rq_orders rq) = Inr b"
          and s': "record_order_submission m k trn (rq_revision rq) b h (order_state_value ?st) ts s1 = Inr s'"
          and msg: "msg = order_receipt q ts (rq_match_id rq) (rq_revision rq) h ?st"
          unfolding handle_order_submit_def Let_def
          by (auto simp: act_bind_Inr act_run act_write_Inr)
        have "case ?prev of
            Some p \<Rightarrow> if ?st = ACCEPTED
              then update_order_status m k trn (or_revision p) (order_state_value SUPERSEDED) s = Inr s1
              else s1 = s
          | None \<Rightarrow> s1 = s"
          using s1 by (auto simp: act_run act_write_Inr split: option.splits if_splits)
        moreover have "or_revision p < rq_revision rq" if "?prev = Some p" for p
          using False that by simp
        ultimately show thesis using recorded [OF Some True range _ h b refl _ s' msg] by blast
      qed
    qed
  qed
qed

lemma update_order_status_ok:
  assumes "update_order_status m k t rv st s = Inr s'" "store_ok s"
  shows "store_ok s'"
  using assms by (rule update_order_ok)

text \<open>The store between the two writes of a submission still has the player's latest revision.\<close>

lemma submit_middle:
  assumes "store_ok s"
    and "case latest_order s m k t of
        Some p \<Rightarrow> if st = ACCEPTED
          then update_order_status m k t (or_revision p) (order_state_value SUPERSEDED) s = Inr s1
          else s1 = s
      | None \<Rightarrow> s1 = s"
  shows "store_ok s1"
    and "latest_order s1 m k t = Some r \<Longrightarrow> \<exists>p. latest_order s m k t = Some p \<and> or_revision r = or_revision p"
    and "(m', k', t') \<noteq> (m, k, t) \<Longrightarrow> latest_order s1 m' k' t' = latest_order s m' k' t'"
proof -
  consider "s1 = s"
    | p where "latest_order s m k t = Some p"
        "update_order_status m k t (or_revision p) (order_state_value SUPERSEDED) s = Inr s1"
    using assms(2) by (auto split: option.splits if_splits)
  then have "store_ok s1 \<and> (\<forall>r. latest_order s1 m k t = Some r \<longrightarrow>
      (\<exists>p. latest_order s m k t = Some p \<and> or_revision r = or_revision p)) \<and>
    ((m', k', t') \<noteq> (m, k, t) \<longrightarrow> latest_order s1 m' k' t' = latest_order s m' k' t')"
  proof cases
    case 1
    with assms(1) show ?thesis by simp
  next
    case (2 p)
    note upd = latest_after_status [OF 2(2)]
    have "latest_order s1 m' k' t' = latest_order s m' k' t'" if "(m', k', t') \<noteq> (m, k, t)"
    proof -
      have "order_key r \<noteq> ((m, k), t, or_revision p)" if "latest_order s m' k' t' = Some r" for r
        using that \<open>(m', k', t') \<noteq> (m, k, t)\<close>
        unfolding latest_order_iff [OF assms(1)] is_latest_def order_key_def by auto
      then show ?thesis unfolding upd by (cases "latest_order s m' k' t'") auto
    qed
    moreover have "\<exists>p. latest_order s m k t = Some p \<and> or_revision r = or_revision p"
      if "latest_order s1 m k t = Some r" for r
      using that unfolding upd by (auto split: if_splits)
    ultimately show ?thesis using update_order_ok [OF 2(2) assms(1)] by blast
  qed
  then show "store_ok s1"
    and "latest_order s1 m k t = Some r \<Longrightarrow> \<exists>p. latest_order s m k t = Some p \<and> or_revision r = or_revision p"
    and "(m', k', t') \<noteq> (m, k, t) \<Longrightarrow> latest_order s1 m' k' t' = latest_order s m' k' t'" by blast+
qed

lemma submit_recorded_latest:
  assumes "store_ok s"
    and "\<And>p. latest_order s m k t = Some p \<Longrightarrow> or_revision p < rv"
    and "case latest_order s m k t of
        Some p \<Rightarrow> if st = ACCEPTED
          then update_order_status m k t (or_revision p) (order_state_value SUPERSEDED) s = Inr s1
          else s1 = s
      | None \<Rightarrow> s1 = s"
    and "record_order_submission m k t rv b h (order_state_value st) ts s1 = Inr s'"
  shows "latest_order s' m k t = Some \<lparr>or_match = m, or_public_key = k, or_turn = t, or_revision = rv,
      or_blob = b, or_hash = h, or_status = order_state_value st, or_submitted_at = ts\<rparr>"
    and "store_ok s'"
    and "(m', k', t') \<noteq> (m, k, t) \<Longrightarrow> latest_order s' m' k' t' = latest_order s m' k' t'"
proof -
  note mid = submit_middle [OF assms(1,3)]
  have "or_revision r < rv" if "latest_order s1 m k t = Some r" for r
    using mid(2) [OF that] assms(2) by auto
  note rec = latest_after_record [OF mid(1) assms(4) this]
  show "latest_order s' m k t = Some \<lparr>or_match = m, or_public_key = k, or_turn = t, or_revision = rv,
      or_blob = b, or_hash = h, or_status = order_state_value st, or_submitted_at = ts\<rparr>"
    by (rule rec(1))
  show "store_ok s'" by (rule record_order_ok [OF assms(4) mid(1)])
  show "(m', k', t') \<noteq> (m, k, t) \<Longrightarrow> latest_order s' m' k' t' = latest_order s m' k' t'"
    using rec(2) mid(3) by metis
qed

section \<open>The effective orders\<close>

lemma fold_update_orders:
  "map_of (fold (\<lambda>ord d. AList.update (unit_region_id ord) ord d) ords d) r = Some ord \<Longrightarrow>
     ord \<in> set ords \<and> unit_region_id ord = r \<or> map_of d r = Some ord"
  by (induction ords arbitrary: d) (fastforce simp: map_of_update split: if_splits)+

lemma fold_update_dom:
  "map_of d r \<noteq> None \<or> (\<exists>ord\<in>set ords. unit_region_id ord = r) \<Longrightarrow>
     map_of (fold (\<lambda>ord d. AList.update (unit_region_id ord) ord d) ords d) r \<noteq> None"
  by (induction ords arbitrary: d) (auto simp: map_of_update)

definition contributes :: "externals \<Rightarrow> order_row \<Rightarrow> Order \<Rightarrow> bool" where
  "contributes X row ord \<longleftrightarrow> or_status row = order_state_value ACCEPTED \<and>
     (\<exists>ords. decode_orders X (or_blob row) = Inr ords \<and> ord \<in> set ords)"

lemma effective_fold:
  assumes "fold_result (add_record X) rows d = Inr eff"
  shows "map_of eff r = Some ord \<Longrightarrow>
      map_of d r = Some ord \<or> (\<exists>row\<in>set rows. contributes X row ord \<and> unit_region_id ord = r)"
    and "map_of d r \<noteq> None \<or> (\<exists>row\<in>set rows. \<exists>ord. contributes X row ord \<and> unit_region_id ord = r) \<Longrightarrow>
      map_of eff r \<noteq> None"
  using assms
proof (induction rows arbitrary: d)
  case Nil
  { case 1 then show ?case by simp next case 2 then show ?case by simp }
next
  case (Cons row rows)
  {
    case 1
    from 1(2) obtain d1 where d1: "add_record X row d = Inr d1" "fold_result (add_record X) rows d1 = Inr eff"
      by auto
    from Cons.IH(1) [OF 1(1) d1(2)] d1(1) show ?case
      by (auto simp: add_record_def contributes_def split: if_splits dest!: fold_update_orders)
  next
    case 2
    from 2(2) obtain d1 where d1: "add_record X row d = Inr d1" "fold_result (add_record X) rows d1 = Inr eff"
      by auto
    have "map_of d1 r \<noteq> None \<or> (\<exists>row\<in>set rows. \<exists>ord. contributes X row ord \<and> unit_region_id ord = r)"
    proof (cases "or_status row = order_state_value ACCEPTED")
      case True
      then obtain ords where ords: "decode_orders X (or_blob row) = Inr ords"
        "d1 = fold (\<lambda>ord d. AList.update (unit_region_id ord) ord d) ords d"
        using d1(1) by (auto simp: add_record_def)
      with 2(1) True fold_update_dom [of d r ords] show ?thesis by (auto simp: contributes_def)
    next
      case False
      with 2(1) d1(1) show ?thesis by (auto simp: add_record_def contributes_def)
    qed
    from Cons.IH(2) [OF this d1(2)] show ?case .
  }
qed

text \<open>What a row decides for a unit: the last order for it, if the row is accepted.\<close>

definition decides :: "externals \<Rightarrow> order_row \<Rightarrow> string \<Rightarrow> Order \<Rightarrow> bool" where
  "decides X row r ord \<longleftrightarrow> or_status row = order_state_value ACCEPTED \<and> unit_region_id ord = r \<and>
     (\<exists>before after. decode_orders X (or_blob row) = Inr (before @ ord # after) \<and>
        (\<forall>later\<in>set after. unit_region_id later \<noteq> r))"

lemma decides_contributes: "decides X row r ord \<Longrightarrow> contributes X row ord \<and> unit_region_id ord = r"
  by (auto simp: decides_def contributes_def)

lemma contributes_decides:
  assumes "contributes X row ord"
  shows "\<exists>ord'. decides X row (unit_region_id ord) ord'"
proof -
  obtain ords where ords: "or_status row = order_state_value ACCEPTED" "decode_orders X (or_blob row) = Inr ords" "ord \<in> set ords"
    using assms by (auto simp: contributes_def)
  then have "\<exists>o'\<in>set ords. unit_region_id o' = unit_region_id ord" by blast
  from split_list_last_prop [OF this] ords(1,2) show ?thesis unfolding decides_def by blast
qed

lemma decides_unique:
  assumes "decides X row r x" "decides X row r y"
  shows "x = y"
proof -
  obtain as bs cs ds where lists: "as @ x # bs = cs @ y # ds"
    and x: "unit_region_id x = r" "\<forall>o'\<in>set bs. unit_region_id o' \<noteq> r"
    and y: "unit_region_id y = r" "\<forall>o'\<in>set ds. unit_region_id o' \<noteq> r"
    using assms by (auto simp: decides_def)
  have "last (filter (\<lambda>ord. unit_region_id ord = r) (as @ x # bs)) = x"
    "last (filter (\<lambda>ord. unit_region_id ord = r) (cs @ y # ds)) = y"
    using x y by (simp_all add: filter_False)
  then show ?thesis using lists by simp
qed

lemma fold_update_last:
  assumes "map_of (fold (\<lambda>ord d. AList.update (unit_region_id ord) ord d) ords d) r = Some ord"
  shows "map_of d r = Some ord \<or> unit_region_id ord = r \<and>
    (\<exists>before after. ords = before @ ord # after \<and> (\<forall>later\<in>set after. unit_region_id later \<noteq> r))"
  using assms
proof (induction ords rule: rev_induct)
  case (snoc x xs)
  show ?case
  proof (cases "unit_region_id x = r")
    case True
    with snoc.prems have "xs @ [x] = xs @ ord # []" "unit_region_id ord = r" by (simp_all add: map_of_update)
    then show ?thesis by (metis empty_iff empty_set)
  next
    case False
    with snoc have "map_of d r = Some ord \<or> unit_region_id ord = r \<and>
      (\<exists>before after. xs = before @ ord # after \<and> (\<forall>later\<in>set after. unit_region_id later \<noteq> r))"
      by (simp add: map_of_update)
    then show ?thesis
    proof
      assume "unit_region_id ord = r \<and>
        (\<exists>before after. xs = before @ ord # after \<and> (\<forall>later\<in>set after. unit_region_id later \<noteq> r))"
      then obtain before after where "unit_region_id ord = r" "xs @ [x] = before @ ord # (after @ [x])"
        "\<forall>later\<in>set (after @ [x]). unit_region_id later \<noteq> r" using False by auto
      then show ?thesis by blast
    qed simp
  qed
qed simp

lemma effective_decided:
  assumes "fold_result (add_record X) rows d = Inr eff" "map_of eff r = Some ord"
  shows "map_of d r = Some ord \<or> (\<exists>row\<in>set rows. decides X row r ord)"
  using assms
proof (induction rows arbitrary: d)
  case (Cons row rows)
  from Cons.prems(1) obtain d1 where d1: "add_record X row d = Inr d1" "fold_result (add_record X) rows d1 = Inr eff"
    by auto
  have "map_of d r = Some ord \<or> decides X row r ord" if "map_of d1 r = Some ord"
    using d1(1) that by (auto simp: add_record_def decides_def split: if_splits dest!: fold_update_last)
  with Cons.IH [OF d1(2) Cons.prems(2)] show ?case by auto
qed simp

lemma get_effective_orders_Inr:
  "get_effective_orders X s m t = Inr eff \<longleftrightarrow>
     sql_range t \<and> fold_result (add_record X) (latest_orders_for_turn s m t) [] = Inr eff"
  by (auto simp: get_effective_orders_def get_latest_orders_for_turn_def)

section \<open>A sample match\<close>

definition sample_match :: match_row where
  "sample_match = \<lparr>mr_state = midgame, mr_private_key = [7], mr_deadline = Some 10, mr_paused = None,
     mr_created_at = 1\<rparr>"

definition sample_store :: store where
  "sample_store = empty_store\<lparr>t_matches := [(''m'', sample_match)],
     t_players := [\<lparr>pl_match = ''m'', pl_public_key = [1], pl_faction = ''vet'', pl_name = None,
       pl_joined_at = 1\<rparr>]\<rparr>"

definition good_request :: order_request where
  "good_request = \<lparr>rq_match_id = ''m'', rq_revision = 1, rq_orders = [MoveOrder ''vet_peak'' ''stormveil'']\<rparr>"

definition bad_request :: order_request where
  "bad_request = \<lparr>rq_match_id = ''m'', rq_revision = 2, rq_orders = [HoldOrder ''thr_heart'']\<rparr>"

definition good_row :: order_row where
  "good_row = \<lparr>or_match = ''m'', or_public_key = [1], or_turn = 1, or_revision = 1,
     or_blob = enc (CList [CDict (order_dict (MoveOrder ''vet_peak'' ''stormveil''))]),
     or_hash = hex_of (reference_sha (enc (CList [CDict (order_dict (MoveOrder ''vet_peak'' ''stormveil''))]))),
     or_status = order_state_value ACCEPTED, or_submitted_at = 2\<rparr>"

definition bad_row :: order_row where
  "bad_row = \<lparr>or_match = ''m'', or_public_key = [1], or_turn = 1, or_revision = 2,
     or_blob = enc (CList [CDict (order_dict (HoldOrder ''thr_heart''))]),
     or_hash = hex_of (reference_sha (enc (CList [CDict (order_dict (HoldOrder ''thr_heart''))]))),
     or_status = order_state_value REJECTED, or_submitted_at = 3\<rparr>"

lemma sample_store_ok: "store_ok sample_store" "store_ok (sample_store\<lparr>t_orders := [good_row]\<rparr>)"
  by (simp_all add: store_ok_def sample_store_def empty_store_def all_in_matches_def dict_ok_def good_row_def)

lemma sample_errors:
  "validate_orders create_default_map ''vet'' (rq_orders good_request) = []"
  "validate_orders create_default_map ''vet'' (rq_orders bad_request) = [NotOwned ''thr_heart'' ''vet'']"
  by code_simp+

lemma sample_hashes:
  "hash_orders reference (rq_orders good_request) = Inr (or_hash good_row)"
  "encode_orders reference (rq_orders good_request) = Inr (or_blob good_row)"
  "hash_orders reference (rq_orders bad_request) = Inr (or_hash bad_row)"
  "encode_orders reference (rq_orders bad_request) = Inr (or_blob bad_row)"
  by (simp_all add: hash_orders_def encode_orders_def good_request_def bad_request_def good_row_def
      bad_row_def reference_def)

lemma sample_accept:
  "handle_order_submit reference create_default_map ''m'' [1] good_request 1 ORDERS 1 2 sample_store =
     (Inr (order_receipt 1 2 ''m'' 1 (or_hash good_row) ACCEPTED), sample_store\<lparr>t_orders := [good_row]\<rparr>)"
proof -
  have "record_order_submission ''m'' [1] 1 1 (or_blob good_row) (or_hash good_row) ''accepted'' 2 sample_store =
      Inr (sample_store\<lparr>t_orders := [good_row]\<rparr>)"
    by (simp add: record_order_submission_def insert_row_def sample_store_def empty_store_def good_row_def
        with_ints_def sql_range_def check_match_def)
  moreover have "get_player_faction sample_store ''m'' [1] = Some ''vet''"
    by (simp add: get_player_faction_def sample_store_def player_key_def)
  moreover have "get_latest_order sample_store ''m'' [1] 1 = Inr None"
    by (simp add: get_latest_order_def latest_order_def order_revisions_def sample_store_def empty_store_def
        with_ints_def sql_range_def)
  ultimately show ?thesis
    using sample_errors(1) sample_hashes(1,2)
    by (simp add: handle_order_submit_def act_simps Let_def) (simp add: good_request_def act_simps)
qed

lemma sample_latest: "latest_order (sample_store\<lparr>t_orders := [good_row]\<rparr>) ''m'' [1] 1 = Some good_row"
  by (simp add: latest_order_def order_revisions_def good_row_def)

lemma sample_reject:
  "handle_order_submit reference create_default_map ''m'' [1] bad_request 1 ORDERS 2 3
       (sample_store\<lparr>t_orders := [good_row]\<rparr>) =
     (Inr (order_receipt 2 3 ''m'' 2 (or_hash bad_row) REJECTED),
      sample_store\<lparr>t_orders := [good_row, bad_row]\<rparr>)"
proof -
  let ?s = "sample_store\<lparr>t_orders := [good_row]\<rparr>"
  have "record_order_submission ''m'' [1] 1 2 (or_blob bad_row) (or_hash bad_row) ''rejected'' 3 ?s =
      Inr (sample_store\<lparr>t_orders := [good_row, bad_row]\<rparr>)"
    by (simp add: record_order_submission_def insert_row_def sample_store_def empty_store_def good_row_def
        bad_row_def with_ints_def sql_range_def check_match_def order_key_def)
  moreover have "get_player_faction ?s ''m'' [1] = Some ''vet''"
    by (simp add: get_player_faction_def sample_store_def player_key_def)
  moreover have "get_latest_order ?s ''m'' [1] 1 = Inr (Some good_row)"
    by (simp add: range_latest sample_latest sql_range_def)
  moreover have "\<not> rq_revision bad_request \<le> or_revision good_row"
    by (simp add: bad_request_def good_row_def)
  ultimately show ?thesis
    using sample_errors(2) sample_hashes(3,4)
    by (simp add: handle_order_submit_def act_simps Let_def) (simp add: bad_request_def act_simps)
qed

section \<open>Properties of order intake\<close>

text \<open>C14: An accepted submission is what it says: it came from a joined player in the orders phase,
  every order is for a different unit of that player's faction, the revision is above all earlier
  ones, it is now the player's latest, the stored blob decodes to exactly the submitted orders, the
  receipt carries the hash of these orders, and no other player's latest revision changed.\<close>

theorem accepted_submission:
  assumes "codec_ok X" and "store_ok s"
    and "handle_order_submit X gs m k rq trn ph q ts s = (Inr msg, s')"
    and "field_of msg ''state'' = Some (VEnum (order_state_value ACCEPTED))"
  shows "ph = ORDERS \<and>
    (\<exists>f. get_player_faction s m k = Some f \<and> distinct (map unit_region_id (rq_orders rq)) \<and>
      (\<forall>ord\<in>set (rq_orders rq). \<exists>u\<in>set (units gs). region_id u = unit_region_id ord \<and> faction_id u = f)) \<and>
    (\<exists>row. latest_order s' m k trn = Some row \<and> or_status row = order_state_value ACCEPTED \<and>
      or_revision row = rq_revision rq \<and> decode_orders X (or_blob row) = Inr (rq_orders rq) \<and>
      hash_orders X (rq_orders rq) = Inr (or_hash row) \<and>
      field_of msg ''order_hash'' = Some (VRaw (CStr (or_hash row)))) \<and>
    (\<forall>p. latest_order s m k trn = Some p \<longrightarrow> or_revision p < rq_revision rq) \<and>
    (\<forall>m' k' t'. (m', k', t') \<noteq> (m, k, trn) \<longrightarrow> latest_order s' m' k' t' = latest_order s m' k' t')"
  using assms(3)
proof (cases rule: submit_answered)
  case refused
  with assms(4) show ?thesis by (simp add: is_rejected_def)
next
  case (recorded f h b st s1)
  have "order_state_value st = order_state_value ACCEPTED"
    using assms(4) unfolding recorded(10) receipt_state by (simp only: option.inject field_value.inject)
  then have st: "st = ACCEPTED" by (rule order_state_value_inj [THEN iffD1])
  with recorded(7) have "validate_orders gs f (rq_orders rq) = []" by (cases "validate_orders gs f (rq_orders rq) = []") simp_all
  then have own: "distinct (map unit_region_id (rq_orders rq))"
    "\<forall>ord\<in>set (rq_orders rq). \<exists>u\<in>set (units gs). region_id u = unit_region_id ord \<and> faction_id u = f"
    unfolding validate_orders_def validate_loop_Nil owned_regions by auto
  note latest = submit_recorded_latest [OF assms(2) recorded(4) recorded(8) recorded(9)]
  show ?thesis
    using recorded(1-6,10) own latest(1,3) decode_encode_orders [OF assms(1) recorded(6)]
    by (simp add: st receipt_state)
qed

theorem accepted_submission_witness:
  "\<exists>row. latest_order (sample_store\<lparr>t_orders := [good_row]\<rparr>) ''m'' [1] 1 = Some row \<and>
     decode_orders reference (or_blob row) = Inr [MoveOrder ''vet_peak'' ''stormveil'']"
  using accepted_submission [OF reference_ok(1) sample_store_ok(1) sample_accept]
  by (auto simp: receipt_state good_request_def)



text \<open>C38: A rejected revision does supersede an accepted one, against the documentation of
  \<open>handle_order_submit\<close>: if a player with accepted orders submits a higher revision with an order
  that is not his to give, the answer is a rejection, the accepted row stays in the table as accepted,
  and yet none of the player's orders is effective any more.\<close>

theorem rejected_revision_drops_orders:
  assumes "store_ok s" and "latest_order s m k trn = Some p" and "or_status p = order_state_value ACCEPTED"
    and "or_revision p < rq_revision rq" and "get_player_faction s m k = Some f"
    and "validate_orders gs f (rq_orders rq) \<noteq> []"
    and "handle_order_submit X gs m k rq trn ORDERS q ts s = (Inr msg, s')"
  shows "is_rejected msg \<and> p \<in> set (t_orders s') \<and>
    (\<forall>row ord. latest_order s' m k trn = Some row \<longrightarrow> \<not> contributes X row ord)"
proof -
  have p: "p \<in> set (t_orders s)" using assms(2) unfolding latest_order_iff [OF assms(1)] is_latest_def by blast
  have range: "sql_range trn" using assms(5,7)
    by (auto simp: handle_order_submit_def act_bind_def act_run get_latest_order_def with_ints_def
        split: if_splits)
  have fresh: "\<not> rq_revision rq \<le> or_revision p" using assms(4) by simp
  obtain h b where msg: "msg = order_receipt q ts (rq_match_id rq) (rq_revision rq) h REJECTED"
    and rec: "record_order_submission m k trn (rq_revision rq) b h (order_state_value REJECTED) ts s = Inr s'"
    using assms(7) unfolding handle_order_submit_def Let_def
    by (auto simp: act_bind_Inr act_run act_write_Inr assms(2,5,6) range_latest range fresh)
  have "latest_order s' m k trn = Some \<lparr>or_match = m, or_public_key = k, or_turn = trn,
      or_revision = rq_revision rq, or_blob = b, or_hash = h, or_status = order_state_value REJECTED,
      or_submitted_at = ts\<rparr>"
    using assms(2,4) by (intro latest_after_record(1) [OF assms(1) rec]) auto
  moreover have "p \<in> set (t_orders s')"
    using p rec by (auto simp: record_order_submission_def insert_row_Inr)
  ultimately show ?thesis by (auto simp: is_rejected_def msg receipt_state contributes_def)
qed

theorem rejected_revision_drops_orders_witness:
  "good_row \<in> set (t_orders (sample_store\<lparr>t_orders := [good_row, bad_row]\<rparr>)) \<and>
   (\<nexists>row ord. latest_order (sample_store\<lparr>t_orders := [good_row, bad_row]\<rparr>) ''m'' [1] 1 = Some row \<and>
      contributes reference row ord)"
proof -
  have "get_player_faction (sample_store\<lparr>t_orders := [good_row]\<rparr>) ''m'' [1] = Some ''vet''"
    by (simp add: get_player_faction_def sample_store_def player_key_def)
  moreover have "or_status good_row = order_state_value ACCEPTED" "or_revision good_row < rq_revision bad_request"
    by (simp_all add: good_row_def bad_request_def)
  moreover have "validate_orders create_default_map ''vet'' (rq_orders bad_request) \<noteq> []"
    by (simp add: sample_errors)
  ultimately show ?thesis
    using rejected_revision_drops_orders [OF sample_store_ok(2) sample_latest _ _ _ _ sample_reject] by blast
qed

text \<open>A cancellation that reuses the revision of the accepted orders fails halfway: the accepted
  revision has been marked superseded and committed when the insert of the cancellation violates the
  primary key. No receipt is produced, the exception leaves the handler, and the player's orders are
  gone all the same.\<close>

theorem cancel_reused_revision:
  assumes "store_ok s" and "latest_order s m k trn = Some p" and "or_status p = order_state_value ACCEPTED"
    and "rq_revision rq = or_revision p" and "get_player_faction s m k = Some f"
    and "sql_range trn" and "sql_range (or_revision p)"
    and "hash_orders X [] = Inr h" and "encode_orders X [] = Inr b"
  shows "\<exists>s'. handle_order_cancel X m k rq trn ORDERS q ts s = (Inl IntegrityError, s') \<and>
    latest_order s' m k trn = Some (p\<lparr>or_status := order_state_value SUPERSEDED\<rparr>)"
proof -
  have p: "p \<in> set (t_orders s)" "order_key p = ((m, k), trn, or_revision p)"
    using assms(2) unfolding latest_order_iff [OF assms(1)] is_latest_def by (auto simp: order_key_def)
  then have key: "((m, k), trn, or_revision p) \<in> set (map order_key (t_orders s))" by force
  then obtain s1 where s1: "update_order_status m k trn (or_revision p) (order_state_value SUPERSEDED) s = Inr s1"
    using assms(6,7) by (auto simp: update_order_status_def with_ints_def Let_def)
  have "map order_key (t_orders s1) = map order_key (t_orders s)" "t_matches s1 = t_matches s"
    using s1 by (auto simp: update_order_status_def Let_def order_key_status simp del: map_map split: if_splits)
  moreover have "m \<in> set (map fst (t_matches s))"
    using p assms(1) by (auto simp: order_key_def store_ok_def all_in_matches_def)
  ultimately have fail: "record_order_submission m k trn (or_revision p) b h (order_state_value SUPERSEDED) ts s1 =
      Inl IntegrityError"
    using key assms(6,7)
    by (simp add: record_order_submission_def with_ints_def check_match_def insert_row_def order_key_def del: set_map)
  have "latest_order s1 m k trn = Some (p\<lparr>or_status := order_state_value SUPERSEDED\<rparr>)"
    unfolding latest_after_status [OF s1] by (simp add: assms(2) p(2))
  moreover have "handle_order_cancel X m k rq trn ORDERS q ts s = (Inl IntegrityError, s1)"
    using assms(2-9) s1 fail
    by (simp add: handle_order_cancel_def act_simps range_latest [THEN iffD2])
  ultimately show ?thesis by blast
qed

theorem cancel_reused_revision_witness:
  "\<exists>s'. handle_order_cancel reference ''m'' [1] good_request 1 ORDERS 2 3 (sample_store\<lparr>t_orders := [good_row]\<rparr>) =
       (Inl IntegrityError, s') \<and>
     latest_order s' ''m'' [1] 1 = Some (good_row\<lparr>or_status := order_state_value SUPERSEDED\<rparr>)"
proof (rule cancel_reused_revision [OF sample_store_ok(2) sample_latest])
  show "or_status good_row = order_state_value ACCEPTED" "rq_revision good_request = or_revision good_row"
    by (simp_all add: good_row_def good_request_def)
  show "get_player_faction (sample_store\<lparr>t_orders := [good_row]\<rparr>) ''m'' [1] = Some ''vet''"
    by (simp add: get_player_faction_def sample_store_def player_key_def)
  show "sql_range 1" "sql_range (or_revision good_row)" by (simp_all add: sql_range_def good_row_def)
  show "hash_orders reference [] = Inr (hex_of (sha256 reference (enc (CList []))))"
    by (simp add: hash_orders_def)
  show "encode_orders reference [] = Inr (enc (CList []))" by (simp add: encode_orders_def)
qed

text \<open>The rejection of a cancellation cannot be read: it carries an empty order hash, which
  \<open>validate_message\<close> refuses in every ORDER_RECEIPT, so a client that validates what it receives drops
  the answer.\<close>

theorem cancel_rejection_unreadable:
  assumes "get_player_faction s m k = None \<or> ph \<noteq> ORDERS"
  shows "\<exists>msg. handle_order_cancel X m k rq trn ph q ts s = (Inr msg, s) \<and> is_rejected msg \<and>
    validate_message msg = Inl ValidationError"
proof -
  let ?msg = "order_receipt q ts (rq_match_id rq) (rq_revision rq) '''' REJECTED"
  have "validate_message ?msg = Inl ValidationError"
    by (auto simp: order_receipt_def validate_mk types_without_match_id_def require_def)
  moreover have "handle_order_cancel X m k rq trn ph q ts s = (Inr ?msg, s)"
    using assms by (auto simp: handle_order_cancel_def act_simps)
  ultimately show ?thesis by (auto simp: is_rejected_def receipt_state)
qed

theorem cancel_rejection_unreadable_witness:
  "\<exists>msg. handle_order_cancel reference ''m'' [1] good_request 1 BUILD 2 3 sample_store = (Inr msg, sample_store) \<and>
     validate_message msg = Inl ValidationError"
  using cancel_rejection_unreadable [of sample_store "''m''" "[1]" BUILD reference good_request 1 2 3] by auto

end
