(* ===== verification/Coordinator.thy ===== *)
theory Coordinator
  imports Draws Order_Intake Turn
begin

text \<open>
  The state of a \<open>MatchCoordinator\<close> (\<^verbatim>\<open>coordinator/match.py\<close>) and its helpers, with the deadlines of
  \<^verbatim>\<open>shared/time.py\<close>. What reaches the coordinator from outside is the record \<open>environment\<close>: the
  external functions, the readings of the clock, the random choices, the texts of exceptions, and
  the errors that the transport raises when it is asked to send. Sending appends to \<open>co_sent\<close>.
\<close>

section \<open>Deadlines\<close>

record Deadline = expires_at :: rat

definition deadline_after :: "rat \<Rightarrow> rat \<Rightarrow> Deadline" where
  "deadline_after seconds start = \<lparr>expires_at = start + seconds\<rparr>"

definition remaining :: "Deadline \<Rightarrow> rat \<Rightarrow> rat" where
  "remaining d current = expires_at d - current"

definition is_expired :: "Deadline \<Rightarrow> rat \<Rightarrow> bool" where
  "is_expired d current \<longleftrightarrow> remaining d current \<le> 0"

definition warning_due :: "Deadline \<Rightarrow> rat \<Rightarrow> rat \<Rightarrow> bool" where
  "warning_due d lead_seconds current \<longleftrightarrow> 0 < remaining d current \<and> remaining d current \<le> lead_seconds"

text \<open>A deadline is pending, close or over, and only one of them.\<close>

lemma deadline_cases:
  assumes "0 \<le> lead"
  shows "is_expired d t \<longleftrightarrow> expires_at d \<le> t"
    and "warning_due d lead t \<longleftrightarrow> \<not> is_expired d t \<and> expires_at d - lead \<le> t"
  using assms by (auto simp: is_expired_def warning_due_def remaining_def)

section \<open>The environment and the state\<close>

record environment =
  env_externals :: externals
  env_clock :: "nat \<Rightarrow> rat"
  env_pick :: "nat \<Rightarrow> nat"
  env_text :: "exn \<Rightarrow> bytes \<Rightarrow> string"
  env_send_error :: "string \<Rightarrow> bytes \<Rightarrow> exn option"

record MatchConfig =
  movement_phase_seconds :: rat
  retreat_phase_seconds :: rat
  adjustment_phase_seconds :: rat
  draw_rule :: DrawRule

definition default_config :: MatchConfig where
  "default_config =
     \<lparr>movement_phase_seconds = of_int DEFAULT_MOVEMENT_PHASE_SECONDS,
      retreat_phase_seconds = of_int DEFAULT_RETREAT_PHASE_SECONDS,
      adjustment_phase_seconds = of_int DEFAULT_ADJUSTMENT_PHASE_SECONDS, draw_rule = UNANIMOUS\<rparr>"

record coord =
  co_match_id :: string
  co_store :: store
  co_config :: MatchConfig
  co_sequence :: int
  co_warned :: bool
  co_joins :: "(bytes, rat list) dict"
  co_sent :: "(string \<times> bytes) list"
  co_announced :: "bytes list"
  co_readings :: nat
  co_picks :: nat

definition new_coordinator :: "string \<Rightarrow> store \<Rightarrow> MatchConfig option \<Rightarrow> coord" where
  "new_coordinator match_id s config =
     \<lparr>co_match_id = match_id, co_store = s,
      co_config = (case config of None \<Rightarrow> default_config | Some c \<Rightarrow> c),
      co_sequence = 0, co_warned = False, co_joins = [], co_sent = [], co_announced = [],
      co_readings = 0, co_picks = 0\<rparr>"

text \<open>\<open>MatchCoordinator.create\<close>: \<open>key\<close> is the private key of \<open>Identity.generate()\<close>.\<close>

definition create_coordinator ::
    "string \<Rightarrow> bytes \<Rightarrow> rat \<Rightarrow> MatchConfig option \<Rightarrow> store \<Rightarrow> coord result" where
  "create_coordinator match_id key created_at config s =
     bind_result (create_match match_id key created_at s) (\<lambda>s'.
       Inr (new_coordinator match_id s' config))"

section \<open>Helpers\<close>

definition now :: "environment \<Rightarrow> (coord, rat) act" where
  "now E c = (Inr (env_clock E (co_readings c)), c\<lparr>co_readings := co_readings c + 1\<rparr>)"

text \<open>\<open>now if now is not None else self._now()\<close>.\<close>

definition time_or_now :: "environment \<Rightarrow> rat option \<Rightarrow> (coord, rat) act" where
  "time_or_now E t = (case t of Some r \<Rightarrow> act_return r | None \<Rightarrow> now E)"

definition random_pick :: "environment \<Rightarrow> (coord, nat) act" where
  "random_pick E c = (Inr (env_pick E (co_picks c)), c\<lparr>co_picks := co_picks c + 1\<rparr>)"

definition next_sequence :: "(coord, int) act" where
  "next_sequence c = (Inr (co_sequence c + 1), c\<lparr>co_sequence := co_sequence c + 1\<rparr>)"

definition set_warned :: "bool \<Rightarrow> (coord, unit) act" where
  "set_warned b c = (Inr (), c\<lparr>co_warned := b\<rparr>)"

text \<open>An operation of the store, on the coordinator's match.\<close>

definition on_store :: "(string \<Rightarrow> (store, 'a) act) \<Rightarrow> (coord, 'a) act" where
  "on_store f c = act_zoom co_store (\<lambda>s c. c\<lparr>co_store := s\<rparr>) (f (co_match_id c)) c"

definition read_store :: "(string \<Rightarrow> store \<Rightarrow> 'a result) \<Rightarrow> (coord, 'a) act" where
  "read_store f = act_try (\<lambda>c. f (co_match_id c) (co_store c))"

definition transport_send :: "environment \<Rightarrow> string \<Rightarrow> bytes \<Rightarrow> (coord, unit) act" where
  "transport_send E destination data c =
     (case env_send_error E destination data of
        Some e \<Rightarrow> (Inl e, c)
      | None \<Rightarrow> (Inr (), c\<lparr>co_sent := co_sent c @ [(destination, data)]\<rparr>))"

definition reply :: "environment \<Rightarrow> bytes \<Rightarrow> message \<Rightarrow> (coord, unit) act" where
  "reply E public_key msg =
     act_bind (act_try (\<lambda>_. encode_message (env_externals E) msg)) (\<lambda>data.
       transport_send E (hex_of public_key) data)"

definition broadcast_to_all :: "environment \<Rightarrow> message \<Rightarrow> (coord, unit) act" where
  "broadcast_to_all E msg =
     act_bind (act_try (\<lambda>_. encode_message (env_externals E) msg)) (\<lambda>encoded.
     act_bind (read_store (\<lambda>m s. Inr (list_players s m))) (\<lambda>players.
       act_for players (\<lambda>p. transport_send E (hex_of (pl_public_key p)) encoded)))"

definition require_match_state :: "(coord, MatchState) act" where
  "require_match_state = read_store (\<lambda>m s. case get_match s m of None \<Rightarrow> Inl KeyError | Some (st, _) \<Rightarrow> Inr st)"

definition turn_start_state :: "environment \<Rightarrow> int \<Rightarrow> (coord, GameState) act" where
  "turn_start_state E trn =
     act_bind (read_store (\<lambda>m s. get_phase_result s m trn ORDERS)) (\<lambda>record.
     case record of
       None \<Rightarrow> act_raise RuntimeError
     | Some r \<Rightarrow> act_try (\<lambda>_. game_state_from_canonical_bytes (env_externals E) (ph_state r)))"

definition load_game_state :: "environment \<Rightarrow> (coord, GameState) act" where
  "load_game_state E =
     act_bind require_match_state (\<lambda>match_state.
     act_bind (read_store (\<lambda>m s. get_phase_result s m (ms_turn match_state) (ms_phase match_state))) (\<lambda>record.
     act_bind (case record of
         Some r \<Rightarrow> act_return (Some r)
       | None \<Rightarrow> read_store (\<lambda>m s. Inr (get_latest_phase_result s m))) (\<lambda>record'.
     case record' of
       None \<Rightarrow> act_raise RuntimeError
     | Some r \<Rightarrow> act_try (\<lambda>_. game_state_from_canonical_bytes (env_externals E) (ph_state r)))))"

fun phase_duration :: "MatchConfig \<Rightarrow> Phase \<Rightarrow> rat result" where
  "phase_duration config ORDERS = Inr (movement_phase_seconds config)"
| "phase_duration config RETREAT = Inr (retreat_phase_seconds config)"
| "phase_duration config BUILD = Inr (adjustment_phase_seconds config)"
| "phase_duration config _ = Inl KeyError"

text \<open>The row that \<open>_persist_phase_result\<close> computes, and the write.\<close>

definition make_link ::
    "externals \<Rightarrow> bytes \<Rightarrow> phase_row option \<Rightarrow> string \<Rightarrow> int \<Rightarrow> Phase \<Rightarrow> GameState \<Rightarrow> rat \<Rightarrow> phase_row result" where
  "make_link X key previous match_id trn phs game_state resolved_at =
     bind_result (case previous of
         None \<Rightarrow> Inr None
       | Some r \<Rightarrow> bind_result (fromhex (ph_hash r)) (\<lambda>b. Inr (Some b))) (\<lambda>previous_hash_bytes.
     bind_result (canonical_bytes X game_state) (\<lambda>canonical.
     bind_result (hash_game_state_hex X game_state previous_hash_bytes) (\<lambda>state_hash.
       Inr \<lparr>ph_match = match_id, ph_turn = trn, ph_phase = phs, ph_state = canonical, ph_hash = state_hash,
         ph_previous = map_option ph_hash previous, ph_signature = sign_with X key (utf8_encode state_hash),
         ph_resolved_at = resolved_at\<rparr>)))"

definition persist_phase_result ::
    "environment \<Rightarrow> int \<Rightarrow> Phase \<Rightarrow> GameState \<Rightarrow> bytes \<Rightarrow> rat \<Rightarrow> (coord, phase_row) act" where
  "persist_phase_result E trn phs game_state key resolved_at =
     act_bind (read_store (\<lambda>m s. make_link (env_externals E) key (get_latest_phase_result s m) m trn phs
       game_state resolved_at)) (\<lambda>r.
     act_bind (on_store (\<lambda>m. act_write (record_phase_result m trn phs (ph_state r) (ph_hash r) (ph_previous r)
       (ph_signature r) resolved_at))) (\<lambda>_.
       act_return r))"

section \<open>Messages of the coordinator\<close>

definition error_message :: "int \<Rightarrow> rat \<Rightarrow> string \<Rightarrow> string \<Rightarrow> message" where
  "error_message sequence_number timestamp code description =
     mk_message ERROR sequence_number timestamp
       [(''code'', VRaw (CStr code)), (''description'', VRaw (CStr description)),
        (''related_sequence_number'', VRaw CNone)]"

definition game_info_message :: "int \<Rightarrow> rat \<Rightarrow> string \<Rightarrow> MatchState \<Rightarrow> nat \<Rightarrow> message" where
  "game_info_message sequence_number timestamp match_id state player_count =
     mk_message GAME_INFO sequence_number timestamp
       [(''match_id'', VRaw (CStr match_id)), (''status'', VEnum (match_status_value (ms_status state))),
        (''player_count'', VRaw (CInt (int player_count))), (''max_players'', VRaw (CInt (int MAX_PLAYERS))),
        (''phase'', if ms_status state = ACTIVE then VEnum (phase_value (ms_phase state)) else VRaw CNone)]"

definition state_response :: "int \<Rightarrow> rat \<Rightarrow> string \<Rightarrow> phase_row \<Rightarrow> message" where
  "state_response sequence_number timestamp match_id record =
     mk_message STATE_RESPONSE sequence_number timestamp
       [(''match_id'', VRaw (CStr match_id)), (''turn'', VRaw (CInt (ph_turn record))),
        (''canonical_state'', VRaw (CBytes (ph_state record))), (''state_hash'', VRaw (CStr (ph_hash record))),
        (''previous_state_hash'', str_value (ph_previous record)),
        (''signature'', VRaw (CBytes (ph_signature record)))]"

definition phase_result_message :: "int \<Rightarrow> rat \<Rightarrow> string \<Rightarrow> int \<Rightarrow> phase_row \<Rightarrow> message" where
  "phase_result_message sequence_number timestamp match_id year_of record =
     mk_message PHASE_RESULT sequence_number timestamp
       [(''match_id'', VRaw (CStr match_id)), (''phase'', VEnum (phase_value (ph_phase record))),
        (''turn'', VRaw (CInt (ph_turn record))), (''year'', VRaw (CInt year_of)),
        (''canonical_state'', VRaw (CBytes (ph_state record))), (''state_hash'', VRaw (CStr (ph_hash record))),
        (''previous_state_hash'', str_value (ph_previous record)),
        (''signature'', VRaw (CBytes (ph_signature record)))]"

definition phase_start_message :: "int \<Rightarrow> rat \<Rightarrow> string \<Rightarrow> MatchState \<Rightarrow> rat \<Rightarrow> message" where
  "phase_start_message sequence_number timestamp match_id state deadline =
     mk_message PHASE_START sequence_number timestamp
       [(''match_id'', VRaw (CStr match_id)), (''phase'', VEnum (phase_value (ms_phase state))),
        (''turn'', VRaw (CInt (ms_turn state))), (''year'', VRaw (CInt (ms_year state))),
        (''deadline'', VRaw (CFloat deadline))]"

definition deadline_warning_message :: "int \<Rightarrow> rat \<Rightarrow> string \<Rightarrow> Phase \<Rightarrow> rat \<Rightarrow> message" where
  "deadline_warning_message sequence_number timestamp match_id phs seconds =
     mk_message PHASE_DEADLINE_WARNING sequence_number timestamp
       [(''match_id'', VRaw (CStr match_id)), (''phase'', VEnum (phase_value phs)),
        (''seconds_remaining'', VRaw (CFloat seconds))]"

definition match_end_message :: "int \<Rightarrow> rat \<Rightarrow> string \<Rightarrow> string \<Rightarrow> string option \<Rightarrow> message" where
  "match_end_message sequence_number timestamp match_id reason final_state_hash =
     mk_message MATCH_END sequence_number timestamp
       [(''match_id'', VRaw (CStr match_id)), (''reason'', VRaw (CStr reason)), (''winner'', VRaw CNone),
        (''final_state_hash'', str_value final_state_hash)]"

text \<open>The fields a handler reads. The dataclasses do not check their annotations, and the code goes on with a
  value of any type; where it is another than annotated, the model stops (\<open>Typed_Input\<close> has the messages with
  which it does not).\<close>

definition get_int :: "message \<Rightarrow> string \<Rightarrow> int result" where
  "get_int msg k = (case field_of msg k of Some (VRaw (CInt i)) \<Rightarrow> Inr i | _ \<Rightarrow> Inl Unmodelled)"

definition get_str :: "message \<Rightarrow> string \<Rightarrow> string result" where
  "get_str msg k = (case field_of msg k of Some (VRaw (CStr s)) \<Rightarrow> Inr s | _ \<Rightarrow> Inl Unmodelled)"

definition get_optional_str :: "message \<Rightarrow> string \<Rightarrow> string option result" where
  "get_optional_str msg k =
     (if field_of msg k = Some (VRaw CNone) then Inr None
      else bind_result (get_str msg k) (\<lambda>s. Inr (Some s)))"

definition get_bytes :: "message \<Rightarrow> string \<Rightarrow> bytes result" where
  "get_bytes msg k = (case field_of msg k of Some (VRaw (CBytes b)) \<Rightarrow> Inr b | _ \<Rightarrow> Inl Unmodelled)"

definition get_bool :: "message \<Rightarrow> string \<Rightarrow> bool result" where
  "get_bool msg k = (case field_of msg k of Some (VRaw (CBool b)) \<Rightarrow> Inr b | _ \<Rightarrow> Inl Unmodelled)"

fun order_of_value :: "field_value \<Rightarrow> Order result" where
  "order_of_value (VOrder ord) = Inr ord"
| "order_of_value _ = Inl Unmodelled"

definition get_orders :: "message \<Rightarrow> string \<Rightarrow> Order list result" where
  "get_orders msg k =
     (case field_of msg k of Some (VTuple vs) \<Rightarrow> map_result order_of_value vs | _ \<Rightarrow> Inl Unmodelled)"

text \<open>Decimal digits, for the one text of a message that the code formats itself.\<close>

fun show_nat :: "nat \<Rightarrow> string" where
  "show_nat n = (if n < 10 then [char_of (48 + n)] else show_nat (n div 10) @ [char_of (48 + n mod 10)])"

definition show_int :: "int \<Rightarrow> string" where
  "show_int i = (if i < 0 then ''-'' @ show_nat (nat (- i)) else show_nat (nat i))"

declare show_nat.simps [simp del]

end
