(* ===== verification/Match.thy ===== *)
theory Match
  imports Coordinator
begin

text \<open>
  \<open>MatchCoordinator\<close> of \<^verbatim>\<open>coordinator/match.py\<close>: the handlers of inbound messages, the operator's
  actions, the deadline, and \<open>advance_phase\<close>. Every method is an action on the state \<open>coord\<close>: an
  exception leaves behind the writes and the messages made before it.
\<close>

section \<open>Handlers\<close>

definition on_discover_game :: "environment \<Rightarrow> bytes \<Rightarrow> message \<Rightarrow> (coord, unit) act" where
  "on_discover_game E public_key msg =
     act_bind (read_store (\<lambda>m s. Inr (get_match s m))) (\<lambda>record.
     case record of
       None \<Rightarrow> act_return ()
     | Some (state, _) \<Rightarrow>
         act_bind next_sequence (\<lambda>q.
         act_bind (now E) (\<lambda>ts.
         act_bind (read_store (\<lambda>m s. Inr (m, length (list_players s m)))) (\<lambda>(m, n).
           reply E public_key (game_info_message q ts m state n)))))"

definition JOIN_RATE_LIMIT_WINDOW_SECONDS :: rat where
  "JOIN_RATE_LIMIT_WINDOW_SECONDS = 60"

definition JOIN_RATE_LIMIT_MAX_ATTEMPTS :: nat where
  "JOIN_RATE_LIMIT_MAX_ATTEMPTS = 5"

text \<open>The throttle: whether this attempt of \<open>key\<close> may go on, and the attempts remembered after it.\<close>

definition join_allowed :: "bytes \<Rightarrow> rat \<Rightarrow> (coord, bool) act" where
  "join_allowed key t c =
     (let attempts = filter (\<lambda>a. t - a < JOIN_RATE_LIMIT_WINDOW_SECONDS) (dict_get (co_joins c) key []);
          limited = JOIN_RATE_LIMIT_MAX_ATTEMPTS \<le> length attempts
      in (Inr (\<not> limited),
          c\<lparr>co_joins := AList.update key (if limited then attempts else attempts @ [t]) (co_joins c)\<rparr>))"

text \<open>A pick is drawn for every request; the code draws one only when a faction is chosen.\<close>

definition on_join_request :: "environment \<Rightarrow> bytes \<Rightarrow> message \<Rightarrow> (coord, unit) act" where
  "on_join_request E public_key msg =
     act_bind (now E) (\<lambda>t.
     act_bind (act_try (\<lambda>_. get_bytes msg ''player_public_key'')) (\<lambda>key.
     act_bind (join_allowed key t) (\<lambda>allowed.
     if \<not> allowed then act_return ()
     else
       act_bind (act_try (\<lambda>_. get_optional_str msg ''display_name'')) (\<lambda>name.
       act_bind next_sequence (\<lambda>q.
       act_bind (random_pick E) (\<lambda>pick.
       act_bind (on_store (\<lambda>m. handle_join_request (env_externals E) m
           \<lparr>jr_public_key = key, jr_display_name = name\<rparr> q t pick)) (\<lambda>response.
         reply E key response)))))))"

definition order_request_of :: "message \<Rightarrow> Order list result \<Rightarrow> order_request result" where
  "order_request_of msg orders =
     bind_result (get_str msg ''match_id'') (\<lambda>m.
     bind_result (get_int msg ''revision'') (\<lambda>rv.
     bind_result orders (\<lambda>os.
       Inr \<lparr>rq_match_id = m, rq_revision = rv, rq_orders = os\<rparr>)))"

definition on_order_submit :: "environment \<Rightarrow> bytes \<Rightarrow> message \<Rightarrow> (coord, unit) act" where
  "on_order_submit E public_key msg =
     act_bind require_match_state (\<lambda>match_state.
     act_bind (load_game_state E) (\<lambda>game_state.
     act_bind (act_try (\<lambda>_. order_request_of msg (get_orders msg ''orders''))) (\<lambda>rq.
     act_bind next_sequence (\<lambda>q.
     act_bind (now E) (\<lambda>ts.
     act_bind (on_store (\<lambda>m. handle_order_submit (env_externals E) game_state m public_key rq
         (ms_turn match_state) (ms_phase match_state) q ts)) (\<lambda>receipt.
       reply E public_key receipt))))))"

definition on_order_cancel :: "environment \<Rightarrow> bytes \<Rightarrow> message \<Rightarrow> (coord, unit) act" where
  "on_order_cancel E public_key msg =
     act_bind require_match_state (\<lambda>match_state.
     act_bind (act_try (\<lambda>_. order_request_of msg (Inr []))) (\<lambda>rq.
     act_bind next_sequence (\<lambda>q.
     act_bind (now E) (\<lambda>ts.
     act_bind (on_store (\<lambda>m. handle_order_cancel (env_externals E) m public_key rq
         (ms_turn match_state) (ms_phase match_state) q ts)) (\<lambda>receipt.
       reply E public_key receipt)))))"

text \<open>The record a \<open>STATE_REQUEST\<close> asks for, and how the turn is printed when there is none.\<close>

definition requested_record :: "message \<Rightarrow> string \<Rightarrow> store \<Rightarrow> (string \<times> phase_row option) result" where
  "requested_record msg m s =
     (if field_of msg ''turn'' = Some (VRaw CNone)
      then Inr (''None'', get_latest_phase_result s m)
      else bind_result (get_int msg ''turn'') (\<lambda>t.
        let matches = filter (\<lambda>r. ph_turn r = t) (get_hash_chain s m)
        in Inr (show_int t, if matches = [] then None else Some (last matches))))"

definition on_state_request :: "environment \<Rightarrow> bytes \<Rightarrow> message \<Rightarrow> (coord, unit) act" where
  "on_state_request E public_key msg =
     act_bind (read_store (requested_record msg)) (\<lambda>(shown, record).
     act_bind next_sequence (\<lambda>q.
     act_bind (now E) (\<lambda>ts.
     act_bind (act_get co_match_id) (\<lambda>m.
     case record of
       None \<Rightarrow> reply E public_key
         (error_message q ts ''NO_SUCH_STATE'' (''no state recorded for turn '' @ shown))
     | Some r \<Rightarrow> reply E public_key (state_response q ts m r)))))"

definition finalize_draw :: "environment \<Rightarrow> message \<Rightarrow> (coord, unit) act" where
  "finalize_draw E result =
     act_bind (broadcast_to_all E result) (\<lambda>_.
     if \<not> is_accepted result then act_return ()
     else
       act_bind require_match_state (\<lambda>match_state.
       act_bind (on_store (\<lambda>m. apply_result m match_state result)) (\<lambda>_.
       act_bind (read_store (\<lambda>m s. Inr (m, get_latest_phase_result s m))) (\<lambda>(m, latest).
       act_bind next_sequence (\<lambda>q.
       act_bind (now E) (\<lambda>ts.
         broadcast_to_all E (match_end_message q ts m ''draw accepted'' (map_option ph_hash latest))))))))"

definition on_draw_propose :: "environment \<Rightarrow> bytes \<Rightarrow> message \<Rightarrow> (coord, unit) act" where
  "on_draw_propose E public_key msg =
     act_bind (act_try (\<lambda>_. get_int msg ''turn'')) (\<lambda>trn.
     act_bind next_sequence (\<lambda>q.
     act_bind (now E) (\<lambda>ts.
     act_bind (act_get (\<lambda>c. draw_rule (co_config c))) (\<lambda>rule.
     act_bind (on_store (\<lambda>m. handle_draw_propose m public_key trn q ts rule)) (\<lambda>result.
       finalize_draw E result)))))"

definition on_draw_vote :: "environment \<Rightarrow> bytes \<Rightarrow> message \<Rightarrow> (coord, unit) act" where
  "on_draw_vote E public_key msg =
     act_bind (act_try (\<lambda>_. get_int msg ''turn'')) (\<lambda>trn.
     act_bind (act_try (\<lambda>_. get_bool msg ''vote'')) (\<lambda>vote.
     act_bind next_sequence (\<lambda>q.
     act_bind (now E) (\<lambda>ts.
     act_bind (act_get (\<lambda>c. draw_rule (co_config c))) (\<lambda>rule.
     act_bind (on_store (\<lambda>m. handle_draw_vote m public_key trn vote q ts rule)) (\<lambda>result.
       finalize_draw E result))))))"

section \<open>Inbound messages\<close>

text \<open>The table \<open>_handlers\<close>: messages of other classes are ignored.\<close>

fun handler_of :: "environment \<Rightarrow> MessageType \<Rightarrow> (bytes \<Rightarrow> message \<Rightarrow> (coord, unit) act) option" where
  "handler_of E DISCOVER_GAME = Some (on_discover_game E)"
| "handler_of E JOIN_REQUEST = Some (on_join_request E)"
| "handler_of E ORDER_SUBMIT = Some (on_order_submit E)"
| "handler_of E ORDER_UPDATE = Some (on_order_submit E)"
| "handler_of E ORDER_CANCEL = Some (on_order_cancel E)"
| "handler_of E STATE_REQUEST = Some (on_state_request E)"
| "handler_of E DRAW_PROPOSE = Some (on_draw_propose E)"
| "handler_of E DRAW_VOTE = Some (on_draw_vote E)"
| "handler_of E _ = None"

text \<open>The \<open>try\<close> of \<open>handle_inbound\<close>: a message, or the exception of decoding or validation.\<close>

definition read_message :: "externals \<Rightarrow> bytes \<Rightarrow> message result" where
  "read_message X data =
     bind_result (decode_message X data) (\<lambda>msg. bind_result (validate_message msg) (\<lambda>_. Inr msg))"

text \<open>\<open>except (DecodingError, ValidationError)\<close>; \<open>VersionMismatchError\<close> is a \<open>ValidationError\<close>.\<close>

definition is_malformed :: "exn \<Rightarrow> bool" where
  "is_malformed e \<longleftrightarrow> e \<in> {DecodingError, ValidationError, VersionMismatchError}"

definition replay_key :: "bytes \<Rightarrow> message \<Rightarrow> bytes result" where
  "replay_key public_key msg =
     (if message_type msg = JOIN_REQUEST then get_bytes msg ''player_public_key'' else Inr public_key)"

definition dispatch :: "environment \<Rightarrow> bytes \<Rightarrow> message \<Rightarrow> (coord, unit) act" where
  "dispatch E public_key msg =
     act_bind (act_try (\<lambda>_. replay_key public_key msg)) (\<lambda>key.
     act_bind (act_try (\<lambda>_. get_int msg ''sequence_number'')) (\<lambda>n.
     act_bind (read_store (\<lambda>m s. Inr (get_last_sequence_number s m key))) (\<lambda>last_seen.
     if (case last_seen of None \<Rightarrow> False | Some l \<Rightarrow> n \<le> l) then act_return ()
     else
       act_bind (on_store (\<lambda>m. act_write (record_sequence_number m key n))) (\<lambda>_.
       case handler_of E (message_type msg) of
         None \<Rightarrow> act_return ()
       | Some handler \<Rightarrow> handler public_key msg))))"

definition handle_inbound :: "environment \<Rightarrow> string \<Rightarrow> bytes \<Rightarrow> (coord, unit) act" where
  "handle_inbound E sender data =
     act_bind (act_try (\<lambda>_. fromhex sender)) (\<lambda>public_key.
     case read_message (env_externals E) data of
       Inr msg \<Rightarrow> dispatch E public_key msg
     | Inl e \<Rightarrow>
         if is_malformed e
         then
           act_bind next_sequence (\<lambda>q.
           act_bind (now E) (\<lambda>ts.
             reply E public_key (error_message q ts ''MALFORMED_MESSAGE'' (env_text E e data))))
         else act_raise e)"

section \<open>The phases\<close>

text \<open>The board and the state machine: what the three branches of \<open>advance_phase\<close> arrive at.\<close>

definition adjudicate :: "environment \<Rightarrow> MatchState \<Rightarrow> (coord, GameState \<times> MatchState) act" where
  "adjudicate E match_state =
     (case ms_phase match_state of
        ORDERS \<Rightarrow>
          act_bind (turn_start_state E (ms_turn match_state)) (\<lambda>pre.
          act_bind (read_store (\<lambda>m s. get_effective_orders (env_externals E) s m (ms_turn match_state))) (\<lambda>eff.
          act_bind (act_try (\<lambda>_. movement_phase eff pre)) (\<lambda>(game_state, has_dislodgements).
          let needed = (\<not> has_dislodgements \<and> adjustment_needed game_state) in
          act_bind (act_try (\<lambda>_. fsm_advance_phase False False match_state)) (\<lambda>landing.
          act_bind (act_try (\<lambda>_. fsm_advance_phase has_dislodgements needed landing)) (\<lambda>landing'.
            act_return (game_state, landing'))))))
      | RETREAT \<Rightarrow>
          act_bind (turn_start_state E (ms_turn match_state)) (\<lambda>pre.
          act_bind (read_store (\<lambda>m s. get_effective_orders (env_externals E) s m (ms_turn match_state))) (\<lambda>eff.
          act_bind (act_try (\<lambda>_. retreat_phase eff pre)) (\<lambda>game_state.
          act_bind (act_try (\<lambda>_. fsm_advance_phase False (adjustment_needed game_state) match_state)) (\<lambda>landing.
            act_return (game_state, landing)))))
      | BUILD \<Rightarrow>
          act_bind (load_game_state E) (\<lambda>game_state.
          act_bind (act_try (\<lambda>_. fsm_advance_phase False False match_state)) (\<lambda>landing.
            act_return (build_phase game_state, landing)))
      | _ \<Rightarrow> act_raise InvalidTransitionError)"

text \<open>The end of \<open>advance_phase\<close> and of \<open>start_match\<close>: the two broadcasts.\<close>

definition announce_phase ::
    "environment \<Rightarrow> MatchState \<Rightarrow> phase_row \<Rightarrow> rat \<Rightarrow> rat \<Rightarrow> (coord, unit) act" where
  "announce_phase E landing r current_time deadline =
     act_bind (act_get co_match_id) (\<lambda>m.
     act_bind next_sequence (\<lambda>q.
     act_bind (broadcast_to_all E (phase_result_message q current_time m (ms_year landing) r)) (\<lambda>_.
     act_bind next_sequence (\<lambda>q'.
       broadcast_to_all E (phase_start_message q' current_time m landing deadline)))))"

definition advance_phase :: "environment \<Rightarrow> rat option \<Rightarrow> (coord, unit) act" where
  "advance_phase E t =
     act_bind (time_or_now E t) (\<lambda>current_time.
     act_bind require_match_state (\<lambda>match_state.
     act_bind (read_store (\<lambda>m s. load_coordinator_identity s m)) (\<lambda>key.
     act_bind (adjudicate E match_state) (\<lambda>(game_state, landing).
     act_bind (if ms_phase landing = DIPLOMACY then act_try (\<lambda>_. fsm_advance_phase False False landing)
       else act_return landing) (\<lambda>landing'.
     act_bind (on_store (\<lambda>m. act_write (save_match_state m landing'))) (\<lambda>_.
     act_bind (persist_phase_result E (ms_turn landing') (ms_phase landing') game_state key current_time) (\<lambda>r.
     act_bind (act_try (\<lambda>c. phase_duration (co_config c) (ms_phase landing'))) (\<lambda>seconds.
     act_bind (on_store (\<lambda>m. act_write (set_deadline m (Some (expires_at (deadline_after seconds current_time))))))
       (\<lambda>_.
     act_bind (set_warned False) (\<lambda>_.
       announce_phase E landing' r current_time (expires_at (deadline_after seconds current_time))))))))))))"

section \<open>The operator's actions and the deadline\<close>

definition start_match :: "environment \<Rightarrow> (coord, unit) act" where
  "start_match E =
     act_bind (read_store (\<lambda>m s. load_coordinator_identity s m)) (\<lambda>key.
     act_bind (now E) (\<lambda>current_time.
     act_bind (act_get (\<lambda>c. expires_at (deadline_after (movement_phase_seconds (co_config c)) current_time)))
       (\<lambda>deadline.
     act_bind next_sequence (\<lambda>q.
     act_bind (on_store (\<lambda>m. lobby_start_match (env_externals E) m key q current_time deadline)) (\<lambda>started.
     act_bind (broadcast_to_all E started) (\<lambda>_.
     act_bind require_match_state (\<lambda>diplomacy_state.
     act_bind (act_try (\<lambda>_. fsm_advance_phase False False diplomacy_state)) (\<lambda>orders_state.
     act_bind (on_store (\<lambda>m. act_write (save_match_state m orders_state))) (\<lambda>_.
     act_bind (persist_phase_result E (ms_turn orders_state) (ms_phase orders_state) create_default_map key
       current_time) (\<lambda>r.
     act_bind (on_store (\<lambda>m. act_write (set_deadline m (Some deadline)))) (\<lambda>_.
     act_bind (set_warned False) (\<lambda>_.
       announce_phase E orders_state r current_time deadline))))))))))))"

definition end_match :: "environment \<Rightarrow> string \<Rightarrow> rat option \<Rightarrow> (coord, unit) act" where
  "end_match E reason t =
     act_bind (time_or_now E t) (\<lambda>current_time.
     act_bind require_match_state (\<lambda>match_state.
     act_bind (act_try (\<lambda>_. fsm_end_match match_state)) (\<lambda>new_state.
     act_bind (on_store (\<lambda>m. act_write (save_match_state m new_state))) (\<lambda>_.
     act_bind (read_store (\<lambda>m s. Inr (m, get_latest_phase_result s m))) (\<lambda>(m, latest).
     act_bind next_sequence (\<lambda>q.
       broadcast_to_all E (match_end_message q current_time m reason (map_option ph_hash latest))))))))"

definition pause :: "environment \<Rightarrow> rat option \<Rightarrow> (coord, unit) act" where
  "pause E t =
     act_bind (time_or_now E t) (\<lambda>current_time.
     act_bind (read_store (\<lambda>m s. get_deadline s m)) (\<lambda>deadline.
     case deadline of
       None \<Rightarrow> act_return ()
     | Some expires \<Rightarrow>
         act_bind (on_store (\<lambda>m. act_write
           (set_paused_remaining_seconds m (Some (max (expires - current_time) 0))))) (\<lambda>_.
         on_store (\<lambda>m. act_write (set_deadline m None)))))"

definition resume :: "environment \<Rightarrow> rat option \<Rightarrow> (coord, unit) act" where
  "resume E t =
     act_bind (time_or_now E t) (\<lambda>current_time.
     act_bind (read_store (\<lambda>m s. get_paused_remaining_seconds s m)) (\<lambda>paused.
     case paused of
       None \<Rightarrow> act_return ()
     | Some secs \<Rightarrow>
         act_bind (on_store (\<lambda>m. act_write (set_deadline m (Some (current_time + secs))))) (\<lambda>_.
         act_bind (on_store (\<lambda>m. act_write (set_paused_remaining_seconds m None))) (\<lambda>_.
           set_warned False))))"

definition check_deadline :: "environment \<Rightarrow> rat option \<Rightarrow> (coord, unit) act" where
  "check_deadline E t =
     act_bind (time_or_now E t) (\<lambda>current_time.
     act_bind (read_store (\<lambda>m s. get_deadline s m)) (\<lambda>expires.
     case expires of
       None \<Rightarrow> act_return ()
     | Some e \<Rightarrow>
         let deadline = \<lparr>expires_at = e\<rparr> in
         if is_expired deadline current_time then advance_phase E (Some current_time)
         else
           act_bind (act_get co_warned) (\<lambda>warned.
           if warning_due deadline (DEADLINE_WARNING_LEAD_SECONDS) current_time \<and> \<not> warned
           then
             act_bind (set_warned True) (\<lambda>_.
             act_bind require_match_state (\<lambda>match_state.
             act_bind next_sequence (\<lambda>q.
             act_bind (act_get co_match_id) (\<lambda>m.
               broadcast_to_all E (deadline_warning_message q current_time m (ms_phase match_state)
                 (remaining deadline current_time))))))
           else act_return ())))"

text \<open>\<open>poll\<close> on the messages that \<open>transport.receive()\<close> returns.\<close>

definition poll :: "environment \<Rightarrow> (string \<times> bytes) list \<Rightarrow> (coord, unit) act" where
  "poll E inbound =
     act_bind (act_for inbound (\<lambda>(sender, data). handle_inbound E sender data)) (\<lambda>_.
     act_bind (read_store (\<lambda>m s. Inr (match_is_active s m))) (\<lambda>active.
     if active then check_deadline E None else act_return ()))"

definition announce :: "(coord, unit) act" where
  "announce c = (Inr (), c\<lparr>co_announced := co_announced c @ [utf8_encode (co_match_id c)]\<rparr>)"

end
