(* ===== verification/Match_Facts.thy ===== *)
theory Match_Facts
  imports Match
begin

text \<open>
  What every method of the coordinator keeps. The locale \<open>coordinator_relation\<close> is the contract of a
  relation between the store before and after: it names the few writes the coordinator makes and the
  conditions under which it makes them, and derives that the relation holds across any sequence of
  events, whether methods return or raise.
\<close>

section \<open>Actions that only read\<close>

interpretation reads: preserved "\<lambda>(c :: coord) c'. c' = c"
  by unfold_locales simp_all

lemma read_store_same [simp]: "snd (read_store f c) = c"
  by (simp add: read_store_def act_run)

lemma read_store_Inr: "read_store f c = (Inr x, c') \<longleftrightarrow> f (co_match_id c) (co_store c) = Inr x \<and> c' = c"
  by (auto simp: read_store_def act_run)

lemma require_match_state_Inr:
  "require_match_state c = (Inr st, c') \<longleftrightarrow>
     c' = c \<and> (\<exists>t. get_match (co_store c) (co_match_id c) = Some (st, t))"
  by (auto simp: require_match_state_def read_store_Inr split: option.splits)

lemma reads_same:
  "snd (require_match_state c) = c" "snd (turn_start_state E t c) = c" "snd (load_game_state E c) = c"
  "snd (adjudicate E st c) = c"
proof -
  show m: "snd (require_match_state c) = c" for c by (simp add: require_match_state_def)
  show t: "snd (turn_start_state E t c) = c" for t c
    unfolding turn_start_state_def by (intro reads.keeps) simp_all
  show l: "snd (load_game_state E c) = c" for c
    unfolding load_game_state_def by (intro reads.keeps) (simp_all add: m)
  show "snd (adjudicate E st c) = c"
    unfolding adjudicate_def
    by (cases "ms_phase st"; simp only: Phase.case; intro reads.keeps; simp add: t l)
qed

lemma reads_InrD:
  "turn_start_state E t c = (r, c') \<Longrightarrow> c' = c" "load_game_state E c = (r, c') \<Longrightarrow> c' = c"
  "adjudicate E st c = (r2, c') \<Longrightarrow> c' = c" "require_match_state c = (r3, c') \<Longrightarrow> c' = c"
  using reads_same(2) [of E t c] reads_same(3) [of E c] reads_same(4) [of E st c] reads_same(1) [of c] by simp_all

text \<open>Where adjudication lands: one or more steps of the machine, in an active match.\<close>

lemma advance_is_step: "fsm_advance_phase d a st = Inr st' \<Longrightarrow> match_step st st'"
  by (rule match_step.advance)

lemma advance_active: "fsm_advance_phase d a st = Inr st' \<Longrightarrow> ms_status st = ACTIVE \<and> ms_status st' = ACTIVE"
  using advance_progress [of d a st st'] by (auto simp: fsm_advance_phase_def split: if_splits)

lemma adjudicate_lands:
  assumes "adjudicate E st c = (Inr (gs, landing), c')"
  shows "match_step\<^sup>+\<^sup>+ st landing" "ms_status landing = ACTIVE" "ms_status st = ACTIVE"
proof -
  have "\<exists>d a. fsm_advance_phase d a st = Inr landing \<or>
      (\<exists>mid d' a'. fsm_advance_phase d a st = Inr mid \<and> fsm_advance_phase d' a' mid = Inr landing)"
    using assms unfolding adjudicate_def Let_def
    by (cases "ms_phase st") (force simp: act_bind_Inr act_run split: prod.splits)+
  then obtain mid d a d' a' where "fsm_advance_phase d a st = Inr landing \<or>
      fsm_advance_phase d a st = Inr mid \<and> fsm_advance_phase d' a' mid = Inr landing" by blast
  then show "match_step\<^sup>+\<^sup>+ st landing" "ms_status landing = ACTIVE" "ms_status st = ACTIVE"
    by (auto dest: advance_is_step advance_active intro: tranclp.intros)
qed

text \<open>The state that \<open>advance_phase\<close> saves: past a diplomacy phase.\<close>

definition skip_diplomacy :: "MatchState \<Rightarrow> (coord, MatchState) act" where
  "skip_diplomacy landing =
     (if ms_phase landing = DIPLOMACY then act_try (\<lambda>_. fsm_advance_phase False False landing) else act_return landing)"

lemma skip_diplomacy_same: "snd (skip_diplomacy landing c) = c"
  by (simp add: skip_diplomacy_def act_run)

lemma landing_steps:
  assumes "adjudicate E st c = (Inr (gs, landing), c')" "skip_diplomacy landing c' = (Inr landing', c'')"
  shows "match_step\<^sup>+\<^sup>+ st landing'" "ms_status landing' = ACTIVE" "ms_status st \<noteq> LOBBY" "c' = c" "c'' = c"
proof -
  note lands = adjudicate_lands [OF assms(1)]
  show c: "c' = c" by (rule reads_InrD(3) [OF assms(1)])
  show "c'' = c" using skip_diplomacy_same [of landing c'] assms(2) c by simp
  show "ms_status st \<noteq> LOBBY" using lands(3) by simp
  show "match_step\<^sup>+\<^sup>+ st landing'" "ms_status landing' = ACTIVE"
    using lands assms(2) unfolding skip_diplomacy_def
    by (auto simp: act_run split: if_splits dest: advance_is_step advance_active intro: tranclp.intros)
qed

lemma saved:
  assumes "on_store (\<lambda>m. act_write (save_match_state m st')) c = (Inr x, c')"
    and "get_match (co_store c) (co_match_id c) = Some (st, t)"
  shows "get_match (co_store c') (co_match_id c') = Some (st', t)"
    "load_coordinator_identity (co_store c') (co_match_id c') = load_coordinator_identity (co_store c) (co_match_id c)"
    "co_match_id c' = co_match_id c" "save_match_state (co_match_id c) st' (co_store c) = Inr (co_store c')"
proof -
  obtain s' where s': "save_match_state (co_match_id c) st' (co_store c) = Inr s'" "c' = c\<lparr>co_store := s'\<rparr>"
    using assms(1) by (auto simp: on_store_def act_zoom_def act_write_def split: sum.splits)
  show "save_match_state (co_match_id c) st' (co_store c) = Inr (co_store c')" "co_match_id c' = co_match_id c"
    using s' by simp_all
  show "get_match (co_store c') (co_match_id c') = Some (st', t)"
    using assms(2) by (simp add: s'(2) get_match_save [OF s'(1)])
  show "load_coordinator_identity (co_store c') (co_match_id c') = load_coordinator_identity (co_store c) (co_match_id c)"
    by (simp add: s'(2) load_coordinator_identity_def match_column_def frame_save(8) [OF s'(1)] split: option.splits)
qed

section \<open>Actions that leave the store alone\<close>

definition same_store :: "coord \<Rightarrow> coord \<Rightarrow> bool" where
  "same_store c c' \<longleftrightarrow> co_match_id c' = co_match_id c \<and> co_store c' = co_store c"

interpretation sends: preserved same_store
  by unfold_locales (simp_all add: same_store_def)

lemma same_store_basic:
  "same_store c (snd (now E c))" "same_store c (snd (next_sequence c))" "same_store c (snd (set_warned b c))"
  "same_store c (snd (read_store f c))" "same_store c (snd (transport_send E d data c))"
  by (cases "env_send_error E d data";
      simp add: same_store_def now_def next_sequence_def set_warned_def transport_send_def)+

lemma same_store_reply: "same_store c (snd (reply E k msg c))"
  unfolding reply_def by (intro sends.keeps same_store_basic)

lemma same_store_broadcast: "same_store c (snd (broadcast_to_all E msg c))"
  unfolding broadcast_to_all_def by (intro sends.keeps same_store_basic sends.keep_for)

lemma same_store_announce: "same_store c (snd (announce_phase E st r t d c))"
  unfolding announce_phase_def by (intro sends.keeps same_store_basic same_store_broadcast)

lemma lobby_start_identity:
  assumes "lobby_start_match X m key q t dl s = (Inr msg, s')"
  shows "load_coordinator_identity s' m = load_coordinator_identity s m"
proof (rule start_match_Inr [OF assms])
  fix st canonical h s1 s2
  assume s1: "save_match_state m st s = Inr s1"
    and s2: "record_phase_result m 1 DIPLOMACY canonical h None (sign_with X key (utf8_encode h)) t s1 = Inr s2"
    and s3: "set_deadline m (Some dl) s2 = Inr s'"
  show ?thesis
    by (simp add: load_coordinator_identity_def match_column_def frame_save(8) [OF s1] frame_record_phase(3) [OF s2]
        frame_deadline(8) [OF s3] split: option.splits)
qed

lemma started_key:
  assumes "read_store (\<lambda>m s. load_coordinator_identity s m) c = (Inr key, c1)" "now E c1 = (Inr tm, c2)"
    "act_get g c2 = (Inr dl, c3)" "next_sequence c3 = (Inr q, c4)"
  shows "load_coordinator_identity (co_store c4) (co_match_id c4) = Inr key"
    and "on_store (\<lambda>m. lobby_start_match X m key q tm dl) c4 = (Inr msg, c5) \<Longrightarrow>
      broadcast_to_all E msg c5 = (Inr u, c6) \<Longrightarrow>
      load_coordinator_identity (co_store c6) (co_match_id c6) = Inr key"
proof -
  show key: "load_coordinator_identity (co_store c4) (co_match_id c4) = Inr key"
    using assms by (auto simp: read_store_Inr now_def next_sequence_def act_run)
  assume st: "on_store (\<lambda>m. lobby_start_match X m key q tm dl) c4 = (Inr msg, c5)"
    and bc: "broadcast_to_all E msg c5 = (Inr u, c6)"
  obtain s' where s': "lobby_start_match X (co_match_id c4) key q tm dl (co_store c4) = (Inr msg, s')"
    "c5 = c4\<lparr>co_store := s'\<rparr>"
    using st by (auto simp: on_store_def act_zoom_def split: prod.splits)
  have "same_store c5 c6" using same_store_broadcast [of c5 E msg] bc by simp
  then show "load_coordinator_identity (co_store c6) (co_match_id c6) = Inr key"
    using key lobby_start_identity [OF s'(1)] by (simp add: same_store_def s'(2))
qed

section \<open>Events\<close>

datatype event =
    Inbound string bytes
  | Poll "(string \<times> bytes) list"
  | Start
  | End string
  | Pause
  | Resume
  | CheckDeadline
  | Advance
  | Announce
  | Restart "MatchConfig option"

fun perform :: "environment \<Rightarrow> event \<Rightarrow> (coord, unit) act" where
  "perform E (Inbound sender data) = handle_inbound E sender data"
| "perform E (Poll inbound) = poll E inbound"
| "perform E Start = start_match E"
| "perform E (End reason) = end_match E reason None"
| "perform E Pause = pause E None"
| "perform E Resume = resume E None"
| "perform E CheckDeadline = check_deadline E None"
| "perform E Advance = advance_phase E None"
| "perform E Announce = announce"
| "perform E (Restart config) = (\<lambda>c. (Inr (), new_coordinator (co_match_id c) (co_store c) config))"

text \<open>A run of events; the process survives an exception, or is restarted by the next event.\<close>

definition run :: "environment \<Rightarrow> event list \<Rightarrow> coord \<Rightarrow> coord" where
  "run E es c = fold (\<lambda>e c. snd (perform E e c)) es c"

section \<open>The contract\<close>

text \<open>What inbound messages and the operator's pauses may do. An order is only written in the orders phase, for
  the current turn, and an accepted one after it was validated on the board that \<open>load_game_state\<close> reads;
  \<open>loaded_board\<close> is that board, and \<open>order_written\<close> collects what is known at the write.\<close>

definition loaded_board :: "externals \<Rightarrow> string \<Rightarrow> store \<Rightarrow> MatchState \<Rightarrow> GameState \<Rightarrow> bool" where
  "loaded_board X m s st gs \<longleftrightarrow>
     (\<exists>row. (get_phase_result s m (ms_turn st) (ms_phase st) = Inr (Some row) \<or>
         get_phase_result s m (ms_turn st) (ms_phase st) = Inr None \<and> get_latest_phase_result s m = Some row) \<and>
       game_state_from_canonical_bytes X (ph_state row) = Inr gs)"

definition order_written :: "externals \<Rightarrow> string \<Rightarrow> bytes \<Rightarrow> MatchState \<Rightarrow> bytes \<Rightarrow> string \<Rightarrow> store \<Rightarrow> bool" where
  "order_written X m k st b os s \<longleftrightarrow>
     ms_phase st = ORDERS \<and> (\<exists>c. get_match s m = Some (st, c)) \<and>
     (os = order_state_value ACCEPTED \<longrightarrow>
       (\<exists>f gs ords. get_player_faction s m k = Some f \<and> loaded_board X m s st gs \<and>
         encode_orders X ords = Inr b \<and> validate_orders gs f ords = []))"

definition same_but_orders :: "store \<Rightarrow> store \<Rightarrow> bool" where
  "same_but_orders s s' \<longleftrightarrow> t_matches s' = t_matches s \<and> t_players s' = t_players s \<and> t_phases s' = t_phases s"

lemma same_but_orders_keeps:
  assumes "same_but_orders s s'"
  shows "get_match s' m = get_match s m" "get_player_faction s' m k = get_player_faction s m k"
    "loaded_board X m s' st gs \<longleftrightarrow> loaded_board X m s st gs"
  using assms
  by (simp_all add: same_but_orders_def get_match_def get_player_faction_def loaded_board_def get_phase_result_def
      get_latest_phase_result_def get_hash_chain_def)

lemma load_game_loaded:
  assumes "load_game_state E c = (Inr gs, c')"
  shows "\<exists>st t. get_match (co_store c) (co_match_id c) = Some (st, t) \<and>
    loaded_board (env_externals E) (co_match_id c) (co_store c) st gs \<and> c' = c"
proof -
  let ?m = "co_match_id c" and ?s = "co_store c"
  obtain st row where st: "require_match_state c = (Inr st, c)"
    and row: "get_phase_result ?s ?m (ms_turn st) (ms_phase st) = Inr row" "c' = c"
    and board: "(case (case row of Some r \<Rightarrow> Some r | None \<Rightarrow> get_latest_phase_result ?s ?m) of None \<Rightarrow> Inl RuntimeError
      | Some r \<Rightarrow> game_state_from_canonical_bytes (env_externals E) (ph_state r)) = Inr gs"
    using assms unfolding load_game_state_def act_bind_Inr
    by (elim exE conjE) (auto simp: require_match_state_Inr read_store_Inr act_run split: option.split_asm)
  from st obtain t where "get_match ?s ?m = Some (st, t)" by (auto simp: require_match_state_Inr)
  moreover have "loaded_board (env_externals E) ?m ?s st gs"
    using row board unfolding loaded_board_def by (cases row; cases "get_latest_phase_result ?s ?m") simp_all
  ultimately show ?thesis using row(2) by blast
qed

locale store_relation =
  fixes E :: environment and Q :: "string \<Rightarrow> store \<Rightarrow> store \<Rightarrow> bool"
  assumes Q_refl: "Q m s s" and Q_trans: "Q m s s1 \<Longrightarrow> Q m s1 s2 \<Longrightarrow> Q m s s2"
    and Q_player: "add_player m k f nm tm s = Inr s' \<Longrightarrow> Q m s s'"
    and Q_vote: "record_draw_vote m tn k v tm s = Inr s' \<Longrightarrow> Q m s s'"
    and Q_deadline: "set_deadline m d s = Inr s' \<Longrightarrow> Q m s s'"
    and Q_paused: "set_paused_remaining_seconds m d s = Inr s' \<Longrightarrow> Q m s s'"
    and Q_sequence: "(\<And>l. get_last_sequence_number s m k = Some l \<Longrightarrow> l < n) \<Longrightarrow>
      record_sequence_number m k n s = Inr s' \<Longrightarrow> Q m s s'"
begin

sublocale st: preserved "Q m" for m
  by unfold_locales (fact Q_refl, fact Q_trans)

definition R :: "coord \<Rightarrow> coord \<Rightarrow> bool" where
  "R c c' \<longleftrightarrow> co_match_id c' = co_match_id c \<and> Q (co_match_id c) (co_store c) (co_store c')"

sublocale co: preserved R
  by unfold_locales (auto simp: R_def Q_refl intro: Q_trans)

lemma R_same: "co_match_id c' = co_match_id c \<Longrightarrow> co_store c' = co_store c \<Longrightarrow> R c c'"
  by (simp add: R_def Q_refl)

lemma keep_on_store: "Q (co_match_id c) (co_store c) (snd (f (co_match_id c) (co_store c))) \<Longrightarrow> R c (snd (on_store f c))"
  by (cases "f (co_match_id c) (co_store c)") (simp add: on_store_def act_zoom_def R_def)

lemma keep_now: "R c (snd (now E' c))" by (simp add: now_def R_same)
lemma keep_time: "R c (snd (time_or_now E' t c))"
  by (cases t) (simp_all add: time_or_now_def keep_now co.keep_pure)
lemma keep_pick: "R c (snd (random_pick E' c))" by (simp add: random_pick_def R_same)
lemma keep_sequence: "R c (snd (next_sequence c))" by (simp add: next_sequence_def R_same)
lemma keep_warned: "R c (snd (set_warned b c))" by (simp add: set_warned_def R_same)
lemma keep_read: "R c (snd (read_store f c))" by (simp add: R_same)
lemma keep_send: "R c (snd (transport_send E' d b c))"
  by (cases "env_send_error E' d b") (simp_all add: transport_send_def R_same)
lemma keep_allowed: "R c (snd (join_allowed k t c))" by (simp add: join_allowed_def Let_def R_same)
lemma keep_loads:
  "R c (snd (require_match_state c))" "R c (snd (turn_start_state E' tn c))" "R c (snd (load_game_state E' c))"
  "R c (snd (adjudicate E' st c))"
  by (simp_all add: reads_same R_same)

lemmas keep_basic = keep_now keep_time keep_pick keep_sequence keep_warned keep_read keep_send keep_allowed keep_loads

lemma keep_reply: "R c (snd (reply E' k msg c))"
  unfolding reply_def by (intro co.keeps keep_basic)

lemma keep_broadcast: "R c (snd (broadcast_to_all E' msg c))"
  unfolding broadcast_to_all_def by (intro co.keeps keep_basic co.keep_for)

lemmas keep_steps = co.keeps keep_basic keep_reply keep_broadcast keep_on_store

lemma keep_announce: "R c (snd (announce_phase E' st r t d c))"
  unfolding announce_phase_def by (intro keep_steps)

end

locale handler_relation = store_relation +
  assumes Q_written: "order_written (env_externals E) m k st b os s \<Longrightarrow>
      record_order_submission m k (ms_turn st) rv b h os tm s = Inr s' \<Longrightarrow> Q m s s'"
    and Q_superseded: "get_match s m = Some (st, c) \<Longrightarrow> ms_phase st = ORDERS \<Longrightarrow>
      update_order_status m k (ms_turn st) rv (order_state_value SUPERSEDED) s = Inr s' \<Longrightarrow> Q m s s'"
    and Q_finish: "get_match s m = Some (st, c) \<Longrightarrow> fsm_end_match st = Inr st' \<Longrightarrow>
      save_match_state m st' s = Inr s' \<Longrightarrow> Q m s s'"
begin

text \<open>The operations on the store.\<close>

lemma store_join: "Q m s (snd (handle_join_request X m rq q ts pick s))"
  unfolding handle_join_request_def accept_join_def
  by (intro st.keeps st.keep_write; elim Q_player)

lemma record_in_turn:
  assumes "order_written (env_externals E) m k st b os s"
  shows "Q m s (snd (act_bind (act_write (record_order_submission m k (ms_turn st) rv b h os ts)) (\<lambda>_. act_return msg) s))"
  by (rule st.keep_bind [OF st.keep_write]) (simp_all add: act_run Q_refl Q_written [OF assms])

lemma superseding:
  assumes "get_match s m = Some (st, c)" "ms_phase st = ORDERS"
  shows "Q m s (snd ((case p of None \<Rightarrow> act_return () | Some r \<Rightarrow> if P r
      then act_write (update_order_status m k (ms_turn st) (or_revision r) (order_state_value SUPERSEDED))
      else act_return ()) s))"
    and "(case p of None \<Rightarrow> act_return () | Some r \<Rightarrow> if P r
      then act_write (update_order_status m k (ms_turn st) (or_revision r) (order_state_value SUPERSEDED))
      else act_return ()) s = (Inr u, s1) \<Longrightarrow> same_but_orders s s1"
proof -
  show "Q m s (snd ((case p of None \<Rightarrow> act_return () | Some r \<Rightarrow> if P r
      then act_write (update_order_status m k (ms_turn st) (or_revision r) (order_state_value SUPERSEDED))
      else act_return ()) s))"
    by (intro st.keep_case_option st.keep_if st.keep_pure st.keep_write Q_superseded [OF assms])
  assume "(case p of None \<Rightarrow> act_return () | Some r \<Rightarrow> if P r
      then act_write (update_order_status m k (ms_turn st) (or_revision r) (order_state_value SUPERSEDED))
      else act_return ()) s = (Inr u, s1)"
  then show "same_but_orders s s1"
    by (auto simp: same_but_orders_def act_run act_write_Inr dest: frame_order_status split: option.splits if_splits)
qed

lemma submit_in_turn:
  assumes m: "get_match s m = Some (st, c)" and gs: "loaded_board (env_externals E) m s st gs"
  shows "Q m s (snd (handle_order_submit (env_externals E) gs m k rq (ms_turn st) (ms_phase st) q ts s))"
    (is "Q m s (snd (?submit s))")
proof -
  let ?X = "env_externals E"
  let ?prev = "get_latest_order s m k (ms_turn st)"
  consider "snd (?submit s) = s"
    | f p h where "get_player_faction s m k = Some f" "ms_phase st = ORDERS" "?prev = Inr p"
        "\<not> (case p of None \<Rightarrow> False | Some r \<Rightarrow> rq_revision rq \<le> or_revision r)" "hash_orders ?X (rq_orders rq) = Inr h"
    by (cases "get_player_faction s m k"; cases "ms_phase st = ORDERS"; cases ?prev; cases "hash_orders ?X (rq_orders rq)";
        cases "case projr ?prev of None \<Rightarrow> False | Some r \<Rightarrow> rq_revision rq \<le> or_revision r")
      (simp_all add: handle_order_submit_def act_simps Let_def)
  then show ?thesis
  proof cases
    case 1
    then show ?thesis by (simp add: Q_refl)
  next
    case (2 f p h)
    let ?os = "if validate_orders gs f (rq_orders rq) \<noteq> [] then REJECTED else ACCEPTED"
    have written: "order_written ?X m k st b (order_state_value ?os) s'"
      if enc: "encode_orders ?X (rq_orders rq) = Inr b" and s': "same_but_orders s s'" for s' b
    proof -
      have "validate_orders gs f (rq_orders rq) = []" if "order_state_value ?os = order_state_value ACCEPTED"
        using order_state_value_inj [THEN iffD1, OF that] by (simp split: if_splits)
      note valid = this
      have "loaded_board ?X m s' st gs" "get_match s' m = get_match s m"
        "get_player_faction s' m k = get_player_faction s m k"
        using gs s' by (simp_all add: same_but_orders_keeps)
      then show ?thesis
        unfolding order_written_def using m enc 2(1,2) valid by (intro conjI impI exI) simp_all
    qed
    have submit: "?submit s = act_bind (case p of None \<Rightarrow> act_return ()
        | Some r \<Rightarrow> if ?os = ACCEPTED
          then act_write (update_order_status m k (ms_turn st) (or_revision r) (order_state_value SUPERSEDED))
          else act_return ()) (\<lambda>_. act_bind (act_try (\<lambda>_. encode_orders ?X (rq_orders rq))) (\<lambda>b.
        act_bind (act_write (record_order_submission m k (ms_turn st) (rq_revision rq) b h (order_state_value ?os) ts)) (\<lambda>_.
          act_return (order_receipt q ts (rq_match_id rq) (rq_revision rq) h ?os)))) s"
      using 2 by (simp only: handle_order_submit_def act_simps Let_def option.case simp_thms if_False)
    show ?thesis
      unfolding submit
    proof (rule st.keep_bind)
      show "Q m s (snd ((case p of None \<Rightarrow> act_return () | Some r \<Rightarrow> if ?os = ACCEPTED
          then act_write (update_order_status m k (ms_turn st) (or_revision r) (order_state_value SUPERSEDED))
          else act_return ()) s))"
        by (rule superseding(1) [OF m 2(2)])
    next
      fix u s1
      assume "(case p of None \<Rightarrow> act_return () | Some r \<Rightarrow> if ?os = ACCEPTED
          then act_write (update_order_status m k (ms_turn st) (or_revision r) (order_state_value SUPERSEDED))
          else act_return ()) s = (Inr u, s1)"
      note same = superseding(2) [OF m 2(2) this]
      show "Q m s1 (snd (act_bind (act_try (\<lambda>_. encode_orders ?X (rq_orders rq))) (\<lambda>b.
        act_bind (act_write (record_order_submission m k (ms_turn st) (rq_revision rq) b h (order_state_value ?os) ts)) (\<lambda>_.
          act_return (order_receipt q ts (rq_match_id rq) (rq_revision rq) h ?os))) s1))"
        by (rule st.keep_bind, rule st.keep_pure, rule record_in_turn, rule written) (use same in \<open>simp_all add: act_run\<close>)
    qed
  qed
qed

lemma cancel_in_turn:
  assumes m: "get_match s m = Some (st, c)"
  shows "Q m s (snd (handle_order_cancel X m k rq (ms_turn st) (ms_phase st) q ts s))"
proof (cases "ms_phase st = ORDERS")
  case True
  have written: "order_written (env_externals E) m k st b (order_state_value SUPERSEDED) s'" if "same_but_orders s s'" for s' b
    using that m True unfolding order_written_def by (simp add: same_but_orders_keeps)
  show ?thesis
    unfolding handle_order_cancel_def
    by (intro st.keeps superseding(1) [OF _ True] record_in_turn written)
      (simp_all add: act_run m, erule superseding(2) [OF m True])
qed (simp add: handle_order_cancel_def act_simps Q_refl)

lemma store_evaluate: "Q m s (snd (evaluate_draw m tn q ts rule s))"
  unfolding evaluate_draw_def by (intro st.keeps)

lemma store_vote:
  "Q m s (snd (handle_draw_vote m k tn v q ts rule s))" "Q m s (snd (handle_draw_propose m k tn q ts rule s))"
  unfolding handle_draw_vote_def handle_draw_propose_def
  by (intro st.keeps st.keep_write store_evaluate; elim Q_vote)+

lemma store_apply:
  assumes "get_match s m = Some (state, c)"
  shows "Q m s (snd (apply_result m state msg s))"
proof -
  have "Q m s s'" if "fsm_end_match state = Inr state'" "save_match_state m state' s = Inr s'" for state' s'
    by (rule Q_finish [OF assms that])
  then show ?thesis
    unfolding apply_result_def by (intro st.keeps st.keep_write) (auto simp: act_run)
qed

text \<open>The handlers.\<close>

lemma keep_discover: "R c (snd (on_discover_game E' k msg c))"
  unfolding on_discover_game_def by (intro keep_steps)

lemma keep_join: "R c (snd (on_join_request E' k msg c))"
  unfolding on_join_request_def by (intro keep_steps store_join)

lemma keep_submit: "R c (snd (on_order_submit E k msg c))"
proof -
  have "Q (co_match_id c5) (co_store c5) (snd (handle_order_submit (env_externals E) gs (co_match_id c5) k rq (ms_turn st)
      (ms_phase st) q ts (co_store c5)))"
    if ran: "require_match_state c1 = (Inr st, c2)" "load_game_state E c2 = (Inr gs, c3)" "act_try f c3 = (Inr rq, c3')"
      "next_sequence c3' = (Inr q, c4)" "now E c4 = (Inr ts, c5)" for c1 c2 c3 c3' c4 c5 st gs rq q ts f
  proof -
    obtain t where "get_match (co_store c1) (co_match_id c1) = Some (st, t)" "c2 = c1"
      using ran(1) by (auto simp: require_match_state_Inr)
    moreover from this have "loaded_board (env_externals E) (co_match_id c1) (co_store c1) st gs" "c3 = c2"
      using load_game_loaded [OF ran(2)] by auto
    moreover have "co_store c5 = co_store c3" "co_match_id c5 = co_match_id c3"
      using ran(3-5) by (auto simp: act_run next_sequence_def now_def)
    ultimately show ?thesis by (intro submit_in_turn) simp_all
  qed
  then show ?thesis
    unfolding on_order_submit_def by (intro co.keep_bind co.keep_pure keep_basic keep_reply keep_on_store)
qed

lemma keep_cancel: "R c (snd (on_order_cancel E k msg c))"
proof -
  have "Q (co_match_id c5) (co_store c5) (snd (handle_order_cancel (env_externals E) (co_match_id c5) k rq (ms_turn st)
      (ms_phase st) q ts (co_store c5)))"
    if ran: "require_match_state c1 = (Inr st, c2)" "act_try f c2 = (Inr rq, c3)"
      "next_sequence c3 = (Inr q, c4)" "now E c4 = (Inr ts, c5)" for c1 c2 c3 c4 c5 st rq q ts f
  proof -
    obtain t where "get_match (co_store c1) (co_match_id c1) = Some (st, t)" "c2 = c1"
      using ran(1) by (auto simp: require_match_state_Inr)
    moreover have "co_store c5 = co_store c2" "co_match_id c5 = co_match_id c2"
      using ran(2-4) by (auto simp: act_run next_sequence_def now_def)
    ultimately show ?thesis by (intro cancel_in_turn) simp_all
  qed
  then show ?thesis
    unfolding on_order_cancel_def by (intro co.keep_bind co.keep_pure keep_basic keep_reply keep_on_store)
qed

lemma keep_state_request: "R c (snd (on_state_request E' k msg c))"
  unfolding on_state_request_def by (intro keep_steps)

lemma keep_finalize: "R c (snd (finalize_draw E' msg c))"
proof -
  have "Q (co_match_id c') (co_store c') (snd (apply_result (co_match_id c') state msg (co_store c')))"
    if "require_match_state c0 = (Inr state, c')" for c0 c' state
    using that by (auto simp: require_match_state_Inr intro: store_apply)
  then show ?thesis unfolding finalize_draw_def by (intro keep_steps)
qed

lemma keep_draw: "R c (snd (on_draw_propose E' k msg c))" "R c (snd (on_draw_vote E' k msg c))"
  unfolding on_draw_propose_def on_draw_vote_def by (intro keep_steps store_vote keep_finalize)+

lemma keep_handler: "handler_of E t = Some h \<Longrightarrow> R c (snd (h k msg c))"
  by (cases t) (auto intro: keep_discover keep_join keep_submit keep_cancel keep_state_request keep_draw)

lemma keep_dispatch: "R c (snd (dispatch E k msg c))"
proof -
  have "Q (co_match_id c') (co_store c')
      (snd (act_write (record_sequence_number (co_match_id c') key n) (co_store c')))"
    if "read_store (\<lambda>m s. Inr (get_last_sequence_number s m key)) c0 = (Inr last_seen, c')"
      and "\<not> (case last_seen of None \<Rightarrow> False | Some l \<Rightarrow> n \<le> l)" for c0 c' last_seen key n
  proof (rule st.keep_write, rule Q_sequence)
    fix s' l
    assume "get_last_sequence_number (co_store c') (co_match_id c') key = Some l"
    with that show "l < n" by (auto simp: read_store_Inr)
  qed
  then show ?thesis unfolding dispatch_def by (intro keep_steps keep_handler)
qed

lemma keep_inbound: "R c (snd (handle_inbound E sender data c))"
  unfolding handle_inbound_def
  by (cases "read_message (env_externals E) data") (auto intro!: keep_steps keep_dispatch)

text \<open>The operator's actions.\<close>

lemma write_deadlines:
  "Q m s (snd (act_write (set_deadline m d) s))" "Q m s (snd (act_write (set_paused_remaining_seconds m d) s))"
  by (rule st.keep_write, elim Q_deadline, rule st.keep_write, elim Q_paused)

lemma keep_end: "R c (snd (end_match E' reason t c))"
proof -
  have "Q (co_match_id c') (co_store c') (snd (act_write (save_match_state (co_match_id c') st') (co_store c')))"
    if ran: "require_match_state c0 = (Inr st, c1)" "act_try (\<lambda>_. fsm_end_match st) c1 = (Inr st', c')"
    for c0 c1 c' st st'
  proof (rule st.keep_write)
    fix s' assume save: "save_match_state (co_match_id c') st' (co_store c') = Inr s'"
    obtain ts where get: "get_match (co_store c') (co_match_id c') = Some (st, ts)" and fsm: "fsm_end_match st = Inr st'"
      using ran unfolding require_match_state_Inr act_run by auto
    show "Q (co_match_id c') (co_store c') s'" by (rule Q_finish [OF get fsm save])
  qed
  then show ?thesis unfolding end_match_def by (intro keep_steps)
qed

lemma keep_pause: "R c (snd (pause E' t c))"
  unfolding pause_def by (intro keep_steps write_deadlines)

lemma keep_resume: "R c (snd (resume E' t c))"
  unfolding resume_def by (intro keep_steps write_deadlines)

text \<open>A run of events, once starting and advancing keep the relation.\<close>

lemma events_keep:
  assumes "\<And>c. R c (snd (start_match E c))" "\<And>t c. R c (snd (advance_phase E t c))"
  shows "R c (run E es c)"
proof (induction es arbitrary: c)
  case Nil
  then show ?case by (simp add: run_def co.R_refl)
next
  case (Cons e es)
  have due: "R c (snd (check_deadline E t c))" for t c
    unfolding check_deadline_def by (intro keep_steps assms co.keep_let)
  have "R c (snd (poll E inbound c))" for inbound
    unfolding poll_def by (intro keep_steps due co.keep_for keep_inbound)
  then have "R c (snd (perform E e c))"
    by (cases e)
      (simp_all add: assms due keep_inbound keep_end keep_pause keep_resume R_same announce_def new_coordinator_def)
  from co.R_trans [OF this Cons.IH] show ?case by (simp add: run_def)
qed

end

text \<open>All the writes of the coordinator. Its laws give those of the handlers, and the relation holds across
  any events.\<close>

locale coordinator_relation = store_relation +
  assumes Q_order: "record_order_submission m k tn rv b h os tm s = Inr s' \<Longrightarrow> Q m s s'"
    and Q_status: "update_order_status m k tn rv os s = Inr s' \<Longrightarrow> Q m s s'"
    and Q_step: "get_match s m = Some (st, c) \<Longrightarrow> ms_status st \<noteq> LOBBY \<Longrightarrow> match_step\<^sup>+\<^sup>+ st st' \<Longrightarrow>
      save_match_state m st' s = Inr s' \<Longrightarrow> Q m s s'"
    and Q_link: "get_match s m = Some (st, c) \<Longrightarrow> ms_status st \<noteq> LOBBY \<Longrightarrow>
      load_coordinator_identity s m = Inr key \<Longrightarrow>
      make_link (env_externals E) key (get_latest_phase_result s m) m (ms_turn st) (ms_phase st) gs tm = Inr r \<Longrightarrow>
      record_phase_result m (ms_turn st) (ms_phase st) (ph_state r) (ph_hash r) (ph_previous r)
        (ph_signature r) tm s = Inr s' \<Longrightarrow> Q m s s'"
    and Q_begin: "load_coordinator_identity s m = Inr key \<Longrightarrow>
      Q m s (snd (lobby_start_match (env_externals E) m key q tm dl s))"
begin

sublocale handler_relation E Q
proof
  fix m k st b os s rv h tm s'
  assume "record_order_submission m k (ms_turn st) rv b h os tm s = Inr s'"
  then show "Q m s s'" by (rule Q_order)
next
  fix s m st c st' s'
  assume m: "get_match s m = Some (st, c)" and fsm: "fsm_end_match st = Inr st'" and save: "save_match_state m st' s = Inr s'"
  show "Q m s s'"
  proof (rule Q_step [OF m _ _ save])
    show "ms_status st \<noteq> LOBBY" using fsm by (auto simp: fsm_end_match_def split: if_splits)
    show "match_step\<^sup>+\<^sup>+ st st'" using fsm by (blast intro: match_step.finish)
  qed
qed (rule Q_status)

text \<open>Without the conditions on the turn.\<close>

lemma store_submit: "Q m s (snd (handle_order_submit X gs m k rq tn ph q ts s))"
  unfolding handle_order_submit_def
  by (intro st.keeps st.keep_write; elim Q_order Q_status)

lemma store_cancel: "Q m s (snd (handle_order_cancel X m k rq tn ph q ts s))"
  unfolding handle_order_cancel_def
  by (intro st.keeps st.keep_write; elim Q_order Q_status)

text \<open>Saving the next state and recording its link: the part that \<open>advance_phase\<close> and \<open>start_match\<close>
  share.\<close>

lemma keep_persist:
  assumes "get_match (co_store c) (co_match_id c) = Some (st, ts)" "ms_status st \<noteq> LOBBY"
    and "load_coordinator_identity (co_store c) (co_match_id c) = Inr key"
  shows "R c (snd (persist_phase_result E (ms_turn st) (ms_phase st) gs key t c))"
proof -
  have "Q (co_match_id c) (co_store c) (snd (act_write (record_phase_result (co_match_id c) (ms_turn st) (ms_phase st)
      (ph_state r) (ph_hash r) (ph_previous r) (ph_signature r) t) (co_store c)))"
    if "make_link (env_externals E) key (get_latest_phase_result (co_store c) (co_match_id c)) (co_match_id c)
      (ms_turn st) (ms_phase st) gs t = Inr r" for r
    by (rule st.keep_write, rule Q_link [OF assms that])
  then have "R c' (snd (on_store (\<lambda>m. act_write (record_phase_result m (ms_turn st) (ms_phase st)
      (ph_state r) (ph_hash r) (ph_previous r) (ph_signature r) t)) c'))"
    if "read_store (\<lambda>m s. make_link (env_externals E) key (get_latest_phase_result s m) m (ms_turn st)
      (ms_phase st) gs t) c = (Inr r, c')" for r c'
    using that by (auto simp: read_store_Inr intro: keep_on_store)
  then show ?thesis
    unfolding persist_phase_result_def by (rule co.keep_bind [OF keep_read co.keep_bind]) (simp_all add: act_run co.R_refl)
qed

lemma keep_save:
  assumes "get_match (co_store c) (co_match_id c) = Some (st, ts)" "ms_status st \<noteq> LOBBY" "match_step\<^sup>+\<^sup>+ st st'"
  shows "R c (snd (on_store (\<lambda>m. act_write (save_match_state m st')) c))"
  by (rule keep_on_store, rule st.keep_write, rule Q_step [OF assms])

lemma keep_skip: "R c (snd (skip_diplomacy landing c))"
  by (simp add: skip_diplomacy_same R_same)

lemma keep_deadline: "R c (snd (on_store (\<lambda>m. act_write (set_deadline m d)) c))"
  by (rule keep_on_store, rule write_deadlines)

lemmas keep_frames = co.keep_bind co.keep_case_prod co.keep_pure keep_basic keep_announce keep_skip keep_deadline

lemma keep_advance: "R c (snd (advance_phase E t c))"
proof -
  have save: "R c4 (snd (on_store (\<lambda>m. act_write (save_match_state m st')) c4))"
    if "require_match_state c1 = (Inr st, c2)" "read_store (\<lambda>m s. load_coordinator_identity s m) c2 = (Inr key, c3)"
      "adjudicate E st c3 = (Inr (gs, landing), c5)" "skip_diplomacy landing c5 = (Inr st', c4)"
    for c1 c2 c3 c4 c5 st st' key gs landing
    using that landing_steps [OF that(3,4)]
    by (auto simp: require_match_state_Inr read_store_Inr intro: keep_save)
  have persist: "R c6 (snd (persist_phase_result E (ms_turn st') (ms_phase st') gs key tm c6))"
    if "require_match_state c1 = (Inr st, c2)" "read_store (\<lambda>m s. load_coordinator_identity s m) c2 = (Inr key, c3)"
      "adjudicate E st c3 = (Inr (gs0, landing), c5)" "skip_diplomacy landing c5 = (Inr st', c4)"
      "on_store (\<lambda>m. act_write (save_match_state m st')) c4 = (Inr u, c6)"
    for c1 c2 c3 c4 c5 c6 st st' key gs0 gs landing u tm
  proof -
    have c: "c4 = c1" "c3 = c1" and get: "\<exists>ts. get_match (co_store c1) (co_match_id c1) = Some (st, ts)"
      and key: "load_coordinator_identity (co_store c1) (co_match_id c1) = Inr key"
      using that(1,2) landing_steps [OF that(3,4)] by (auto simp: require_match_state_Inr read_store_Inr)
    from get obtain ts where get: "get_match (co_store c1) (co_match_id c1) = Some (st, ts)" ..
    note s = saved [OF that(5) [unfolded c] get]
    show ?thesis
    proof (rule keep_persist [OF s(1)])
      show "ms_status st' \<noteq> LOBBY" using landing_steps(2) [OF that(3,4)] by simp
      show "load_coordinator_identity (co_store c6) (co_match_id c6) = Inr key" using key s(2) by simp
    qed
  qed
  show ?thesis
    unfolding advance_phase_def skip_diplomacy_def [symmetric]
    apply (intro keep_frames)
     apply simp_all
     apply (erule save, assumption+)
    apply (erule persist, assumption+)
    done
qed

lemma keep_start: "R c (snd (start_match E c))"
proof -
  have lobby: "R c2 (snd (on_store (\<lambda>m. lobby_start_match (env_externals E) m key q tm dl) c2))"
    if "load_coordinator_identity (co_store c2) (co_match_id c2) = Inr key" for c2 key q tm dl
    by (rule keep_on_store, rule Q_begin [OF that])
  have save: "R c3 (snd (on_store (\<lambda>m. act_write (save_match_state m st')) c3))"
    if "require_match_state c1 = (Inr st, c2)" "act_try (\<lambda>_. fsm_advance_phase False False st) c2 = (Inr st', c3)"
    for c1 c2 c3 st st'
    using that advance_active [of False False st st'] advance_is_step [of False False st st']
    by (auto simp: require_match_state_Inr act_run intro!: keep_save)
  have persist: "R c4 (snd (persist_phase_result E (ms_turn st') (ms_phase st') gs key tm c4))"
    if ran: "require_match_state c1 = (Inr st, c2)" "act_try (\<lambda>_. fsm_advance_phase False False st) c2 = (Inr st', c3)"
      "on_store (\<lambda>m. act_write (save_match_state m st')) c3 = (Inr u, c4)"
      "load_coordinator_identity (co_store c1) (co_match_id c1) = Inr key"
    for c1 c2 c3 c4 st st' gs key u tm
  proof -
    have c: "c3 = c1" and fsm: "fsm_advance_phase False False st = Inr st'"
      using ran(1,2) by (auto simp: require_match_state_Inr act_run)
    obtain ts where get: "get_match (co_store c1) (co_match_id c1) = Some (st, ts)"
      using ran(1) unfolding require_match_state_Inr by blast
    note sv = saved [OF ran(3) [unfolded c] get]
    show ?thesis by (rule keep_persist [OF sv(1)]) (use advance_active [OF fsm] ran(4) sv(2) in simp_all)
  qed
  show ?thesis
    unfolding start_match_def
    apply (intro keep_frames keep_broadcast)
      apply (rule lobby, erule (3) started_key(1))
     apply (erule (1) save)
    apply (erule (2) persist, erule (5) started_key(2))
    done
qed

theorem keep_run: "R c (run E es c)"
  by (rule events_keep) (rule keep_start, rule keep_advance)

end

end
