(* ===== verification/Match_History.thy ===== *)
theory Match_History
  imports Match_Facts "HOL-Library.Sublist"
begin

text \<open>
  Two relations that every run of the coordinator keeps, as interpretations of
  \<open>coordinator_relation\<close>: the hash chain stays a chain of signed links in the order of play and is only
  extended, and the last sequence number seen from a sender never decreases.
\<close>

section \<open>The chain\<close>

definition row_position :: "phase_row \<Rightarrow> int" where
  "row_position r = 5 * ph_turn r + (5 - int (phase_rank (ph_phase r)))"

definition state_position :: "MatchState \<Rightarrow> int" where
  "state_position st = 5 * ms_turn st + (5 - int (phase_rank (ms_phase st)))"

lemma position_inject:
  "5 * t + (5 - int (phase_rank p)) = 5 * t' + (5 - int (phase_rank p')) \<longleftrightarrow> t = t' \<and> p = p'"
  by (cases p; cases p'; simp; presburger)

text \<open>A link: its predecessor's hash, the digest of that hash and a canonical state, and the
  coordinator's signature on the hash.\<close>

definition link_ok :: "externals \<Rightarrow> bytes \<Rightarrow> phase_row option \<Rightarrow> phase_row \<Rightarrow> bool" where
  "link_ok X key prev r \<longleftrightarrow>
     ph_previous r = map_option ph_hash prev \<and>
     (\<exists>gs p. canonical_bytes X gs = Inr (ph_state r) \<and>
        (case prev of None \<Rightarrow> p = None | Some q \<Rightarrow> \<exists>b. fromhex (ph_hash q) = Inr b \<and> p = Some b) \<and>
        hash_game_state_hex X gs p = Inr (ph_hash r)) \<and>
     ph_signature r = sign_with X key (utf8_encode (ph_hash r))"

fun chain_from :: "externals \<Rightarrow> bytes \<Rightarrow> phase_row option \<Rightarrow> phase_row list \<Rightarrow> bool" where
  "chain_from X key prev [] \<longleftrightarrow> True"
| "chain_from X key prev (r # rows) \<longleftrightarrow> link_ok X key prev r \<and> chain_from X key (Some r) rows"

lemma chain_from_append:
  "chain_from X key prev (rows @ [r]) \<longleftrightarrow>
     chain_from X key prev rows \<and> link_ok X key (if rows = [] then prev else Some (last rows)) r"
  by (induction rows arbitrary: prev) auto

definition history_ok :: "externals \<Rightarrow> string \<Rightarrow> store \<Rightarrow> bool" where
  "history_ok X m s \<longleftrightarrow> store_ok s \<and>
     (case map_of (t_matches s) m of
        None \<Rightarrow> get_hash_chain s m = []
      | Some r \<Rightarrow>
          chain_from X (mr_private_key r) None (get_hash_chain s m) \<and>
          sorted_wrt (<) (map row_position (get_hash_chain s m)) \<and>
          (if ms_status (mr_state r) = LOBBY then get_hash_chain s m = []
           else (\<forall>row\<in>set (get_hash_chain s m). row_position row \<le> state_position (mr_state r))))"

definition history_grows :: "externals \<Rightarrow> string \<Rightarrow> store \<Rightarrow> store \<Rightarrow> bool" where
  "history_grows X m s s' \<longleftrightarrow>
     (history_ok X m s \<longrightarrow> history_ok X m s' \<and> prefix (get_hash_chain s m) (get_hash_chain s' m))"

lemma make_link_ok:
  assumes "make_link X key prev m t ph gs tm = Inr r"
  shows "link_ok X key prev r" "ph_match r = m" "ph_turn r = t" "ph_phase r = ph" "ph_resolved_at r = tm"
    "canonical_bytes X gs = Inr (ph_state r)"
  using assms by (cases prev; auto simp: make_link_def link_ok_def)+

lemma link_ok_cong:
  "ph_previous r = ph_previous r' \<Longrightarrow> ph_state r = ph_state r' \<Longrightarrow> ph_hash r = ph_hash r' \<Longrightarrow>
   ph_signature r = ph_signature r' \<Longrightarrow> link_ok X key prev r \<longleftrightarrow> link_ok X key prev r'"
  by (simp add: link_ok_def)

section \<open>The machine moves forward\<close>

lemma step_position:
  assumes "match_step st st'" "ms_status st \<noteq> LOBBY"
  shows "ms_status st' \<noteq> LOBBY \<and> state_position st \<le> state_position st' \<and>
    (ms_status st' = ACTIVE \<longrightarrow> state_position st < state_position st')"
  using assms(1)
proof (cases rule: match_step.cases)
  case start
  with assms(2) show ?thesis by (simp add: fsm_start_match_def)
next
  case (advance d a)
  have "phase_rank p \<le> 5 \<and> 0 < phase_rank p" for p by (cases p) simp_all
  with advance_progress [OF advance] show ?thesis by (auto simp: state_position_def)
next
  case finish
  then show ?thesis by (auto simp: fsm_end_match_def state_position_def split: if_splits)
qed

lemma completed_final: "match_step st st' \<Longrightarrow> ms_status st \<noteq> COMPLETED"
  using match_step_status by fastforce

lemma steps_position:
  assumes "match_step\<^sup>+\<^sup>+ st st'" "ms_status st \<noteq> LOBBY"
  shows "ms_status st' \<noteq> LOBBY \<and> state_position st \<le> state_position st' \<and>
    (ms_status st' = ACTIVE \<longrightarrow> state_position st < state_position st')"
  using assms(1)
proof (induction rule: tranclp_induct)
  case (base st')
  then show ?case using step_position [OF _ assms(2)] by simp
next
  case (step st' st'')
  then show ?case using step_position [OF step.hyps(2)] by force
qed

section \<open>The history grows\<close>

lemma chain_frame: "t_phases s' = t_phases s \<Longrightarrow> get_hash_chain s' m = get_hash_chain s m"
  by (simp add: get_hash_chain_def)

lemma grows_frame:
  assumes "store_ok s \<Longrightarrow> store_ok s'" "t_matches s' = t_matches s" "t_phases s' = t_phases s"
  shows "history_grows X m s s'"
  using assms(1,2) chain_frame [OF assms(3), of m]
  by (cases "map_of (t_matches s) m") (simp_all add: history_grows_def history_ok_def)

lemma grows_update:
  assumes "update_match m f s = Inr s'" "\<And>r. mr_private_key (f r) = mr_private_key r"
    and "\<And>r. map_of (t_matches s) m = Some r \<Longrightarrow> mr_state (f r) = mr_state r \<or>
      ms_status (mr_state r) \<noteq> LOBBY \<and> ms_status (mr_state (f r)) \<noteq> LOBBY \<and>
      state_position (mr_state r) \<le> state_position (mr_state (f r))"
  shows "history_grows X m s s'"
proof -
  obtain r where r: "map_of (t_matches s) m = Some r" using update_match_Inr [OF assms(1)] by blast
  have r': "map_of (t_matches s') m = Some (f r)" using frame_update_match(8) [OF assms(1), of m] r by simp
  have chain: "get_hash_chain s' m = get_hash_chain s m"
    by (rule chain_frame [OF frame_update_match(3) [OF assms(1)]])
  show ?thesis
  proof (cases "mr_state (f r) = mr_state r")
    case True
    with r r' assms(2) [of r] store_ok_update_match [OF assms(1)] chain show ?thesis
      by (simp add: history_grows_def history_ok_def)
  next
    case False
    with assms(3) [OF r] have st: "ms_status (mr_state r) \<noteq> LOBBY" "ms_status (mr_state (f r)) \<noteq> LOBBY"
      "state_position (mr_state r) \<le> state_position (mr_state (f r))" by simp_all
    have "history_ok X m s'" if "history_ok X m s"
      using that r r' st assms(2) [of r] store_ok_update_match [OF assms(1)] order_trans [OF _ st(3)]
      by (simp add: history_ok_def chain)
    then show ?thesis by (simp add: history_grows_def chain)
  qed
qed

lemma sorted_snoc: "sorted_wrt (<) (xs @ [x :: int]) \<longleftrightarrow> sorted_wrt (<) xs \<and> (\<forall>y\<in>set xs. y < x)"
  by (auto simp: sorted_wrt_append)

text \<open>Recording a link of the current position, whose predecessor is the latest row.\<close>

lemma grows_link:
  assumes r: "map_of (t_matches s) m = Some mr" "ms_status (mr_state mr) \<noteq> LOBBY"
    and link: "link_ok X (mr_private_key mr) (get_latest_phase_result s m) row"
    and row: "ph_match row = m" "ph_turn row = ms_turn (mr_state mr)" "ph_phase row = ms_phase (mr_state mr)"
    and rec: "record_phase_result m (ph_turn row) (ph_phase row) (ph_state row) (ph_hash row) (ph_previous row)
      (ph_signature row) (ph_resolved_at row) s = Inr s'"
  shows "history_grows X m s s'"
proof -
  note f = frame_record_phase [OF rec]
  have row': "\<lparr>ph_match = m, ph_turn = ph_turn row, ph_phase = ph_phase row, ph_state = ph_state row,
      ph_hash = ph_hash row, ph_previous = ph_previous row, ph_signature = ph_signature row,
      ph_resolved_at = ph_resolved_at row\<rparr> = row"
    using row(1) by simp
  have chain: "get_hash_chain s' m = get_hash_chain s m @ [row]"
    using row(1) by (simp add: get_hash_chain_def f(7) row')
  have "history_ok X m s'" if ok: "history_ok X m s"
  proof -
    have fresh: "row_position x \<noteq> row_position row" if x: "x \<in> set (get_hash_chain s m)" for x
    proof
      assume "row_position x = row_position row"
      then have "ph_turn x = ph_turn row \<and> ph_phase x = ph_phase row"
        unfolding row_position_def position_inject .
      moreover have "x \<in> set (t_phases s)" "ph_match x = m" using x by (simp_all add: get_hash_chain_def)
      ultimately have "(m, ph_turn row, ph_phase row) \<in> set (map phase_key (t_phases s))"
        by (force simp: phase_key_def)
      with f(8) show False by blast
    qed
    have le: "\<forall>x\<in>set (get_hash_chain s m). row_position x \<le> row_position row"
      using ok r row by (simp add: history_ok_def row_position_def state_position_def)
    have lt: "\<forall>x\<in>set (get_hash_chain s m). row_position x < row_position row"
      using fresh le by (metis order_le_less)
    have here: "row_position row = state_position (mr_state mr)"
      by (simp add: row_position_def state_position_def row)
    have links: "chain_from X (mr_private_key mr) None (get_hash_chain s m @ [row])"
      using ok r link by (simp add: chain_from_append history_ok_def get_latest_phase_result_def Let_def split: if_splits)
    show ?thesis
      using ok r links lt le here record_phase_ok [OF rec]
      by (simp add: history_ok_def chain f(3) sorted_snoc)
  qed
  then show ?thesis by (simp add: history_grows_def chain)
qed

lemma grows_refl: "history_grows X m s s"
  by (simp add: history_grows_def)

lemma grows_trans: "history_grows X m s t \<Longrightarrow> history_grows X m t u \<Longrightarrow> history_grows X m s u"
  by (auto simp: history_grows_def intro: prefix_order.trans)

lemma identity_row: "load_coordinator_identity s m = Inr key \<longleftrightarrow> (\<exists>r. map_of (t_matches s) m = Some r \<and> mr_private_key r = key)"
  by (auto simp: load_coordinator_identity_def match_column_def split: option.splits)

lemma get_match_row: "get_match s m = Some (st, c) \<longleftrightarrow> (\<exists>r. map_of (t_matches s) m = Some r \<and> mr_state r = st \<and> mr_created_at r = c)"
  by (auto simp: get_match_def)

text \<open>The store when \<open>lobby.start_match\<close> returns or raises.\<close>

lemma start_match_states:
  obtains (nothing) "snd (lobby_start_match X m key q t dl s) = s"
  | (saved) st c s1 where "get_match s m = Some (st, c)" "ms_status st = LOBBY"
      "save_match_state m (st\<lparr>ms_status := ACTIVE, ms_phase := DIPLOMACY, ms_turn := 1, ms_year := 1\<rparr>) s = Inr s1"
      "snd (lobby_start_match X m key q t dl s) = s1"
  | (recorded) st c s1 s2 b h where "get_match s m = Some (st, c)" "ms_status st = LOBBY"
      "save_match_state m (st\<lparr>ms_status := ACTIVE, ms_phase := DIPLOMACY, ms_turn := 1, ms_year := 1\<rparr>) s = Inr s1"
      "canonical_bytes X create_default_map = Inr b" "hash_game_state_hex X create_default_map None = Inr h"
      "record_phase_result m 1 DIPLOMACY b h None (sign_with X key (utf8_encode h)) t s1 = Inr s2"
      "snd (lobby_start_match X m key q t dl s) = s2 \<or>
       set_deadline m (Some dl) s2 = Inr (snd (lobby_start_match X m key q t dl s))"
proof (cases "get_match s m")
  case None
  then show thesis by - (rule that(1), simp add: lobby_start_match_def act_simps)
next
  case (Some stc)
  obtain st c where m: "get_match s m = Some (st, c)" using Some by (cases stc) simp
  let ?st = "st\<lparr>ms_status := ACTIVE, ms_phase := DIPLOMACY, ms_turn := 1, ms_year := 1\<rparr>"
  show thesis
  proof (cases "length (list_players s m) = MAX_PLAYERS \<and> ms_status st = LOBBY")
    case False
    with m show thesis by - (rule that(1), auto simp: lobby_start_match_def act_simps fsm_start_match_def)
  next
    case True
    then have fsm: "fsm_start_match st = Inr ?st" by (simp add: fsm_start_match_def)
    note unfold = lobby_start_match_def m act_simps True fsm Let_def
    show thesis
    proof (cases "save_match_state m ?st s")
      case (Inl e)
      then show thesis by - (rule that(1), simp add: unfold)
    next
      case s1: (Inr s1)
      show thesis
      proof (cases "\<exists>b h s2. canonical_bytes X create_default_map = Inr b \<and>
          hash_game_state_hex X create_default_map None = Inr h \<and>
          record_phase_result m 1 DIPLOMACY b h None (sign_with X key (utf8_encode h)) t s1 = Inr s2")
        case False
        have "snd (lobby_start_match X m key q t dl s) = s1"
          using False s1
          by (cases "canonical_bytes X create_default_map"; cases "hash_game_state_hex X create_default_map None";
              cases "record_phase_result m 1 DIPLOMACY (projr (canonical_bytes X create_default_map))
                (projr (hash_game_state_hex X create_default_map None)) None
                (sign_with X key (utf8_encode (projr (hash_game_state_hex X create_default_map None)))) t s1")
            (simp_all add: unfold)
        with m True s1 show thesis by - (rule that(2), auto)
      next
        case hyp: True
        then obtain b h s2 where r: "canonical_bytes X create_default_map = Inr b"
          "hash_game_state_hex X create_default_map None = Inr h"
          "record_phase_result m 1 DIPLOMACY b h None (sign_with X key (utf8_encode h)) t s1 = Inr s2" by blast
        have "snd (lobby_start_match X m key q t dl s) = s2 \<or>
            set_deadline m (Some dl) s2 = Inr (snd (lobby_start_match X m key q t dl s))"
          using s1 r by (cases "set_deadline m (Some dl) s2";
              cases "map_result (\<lambda>p. faction_name_of (pl_faction p)) (list_players (projr (set_deadline m (Some dl) s2)) m)")
            (simp_all add: unfold)
        with m True s1 r show thesis by - (rule that(3), auto)
      qed
    qed
  qed
qed

lemma grows_start:
  assumes "load_coordinator_identity s m = Inr key"
  shows "history_grows X m s (snd (lobby_start_match X m key q t dl s))"
proof (cases rule: start_match_states [where X = X and m = m and key = key and q = q and t = t and dl = dl and s = s])
  case nothing
  then show ?thesis by (simp add: grows_refl)
next
  case (saved st c s1)
  obtain r where r: "map_of (t_matches s) m = Some r" "mr_state r = st" using saved(1) by (auto simp: get_match_row)
  have chain: "get_hash_chain s1 m = get_hash_chain s m" by (rule chain_frame [OF frame_save(3) [OF saved(3)]])
  show ?thesis
    using r saved(2) match_updates_ok(1) [OF saved(3)]
    by (simp add: saved(4) history_grows_def history_ok_def chain frame_save(8) [OF saved(3)])
next
  case (recorded st c s1 s2 b h)
  obtain r where r: "map_of (t_matches s) m = Some r" "mr_state r = st" using recorded(1) by (auto simp: get_match_row)
  let ?st = "st\<lparr>ms_status := ACTIVE, ms_phase := DIPLOMACY, ms_turn := 1, ms_year := 1\<rparr>"
  let ?row = "\<lparr>ph_match = m, ph_turn = 1, ph_phase = DIPLOMACY, ph_state = b, ph_hash = h, ph_previous = None,
      ph_signature = sign_with X key (utf8_encode h), ph_resolved_at = t\<rparr>"
  have chain: "get_hash_chain s1 m = get_hash_chain s m" by (rule chain_frame [OF frame_save(3) [OF recorded(3)]])
  have r1: "map_of (t_matches s1) m = Some (r\<lparr>mr_state := ?st\<rparr>)" using r by (simp add: frame_save(8) [OF recorded(3)])
  have key: "mr_private_key r = key" using assms r(1) by (simp add: identity_row)
  have s3: "history_grows X m s2 (snd (lobby_start_match X m key q t dl s))"
    using recorded(7)
  proof
    assume "set_deadline m (Some dl) s2 = Inr (snd (lobby_start_match X m key q t dl s))"
    from set_deadline_conv [OF this] show ?thesis by (rule grows_update) simp_all
  qed (simp add: grows_refl)
  have s2: "history_grows X m s1 s2" if empty: "get_hash_chain s m = []"
  proof (rule grows_link [where row = ?row, OF r1])
    have "get_latest_phase_result s1 m = None" using empty by (simp add: get_latest_phase_result_def chain)
    then show "link_ok X (mr_private_key (r\<lparr>mr_state := ?st\<rparr>)) (get_latest_phase_result s1 m) ?row"
      using recorded(4,5) by (auto simp: link_ok_def key)
  qed (use recorded(6) in simp_all)
  have "history_ok X m s1 \<and> get_hash_chain s m = []" if "history_ok X m s"
    using that r r1 recorded(2) match_updates_ok(1) [OF recorded(3)] by (simp add: history_ok_def chain)
  then show ?thesis
    using s2 s3 chain by (auto simp: history_grows_def)
qed

interpretation history: coordinator_relation E "history_grows (env_externals E)" for E
proof
  fix m s s1 s2
  show "history_grows (env_externals E) m s s" by (rule grows_refl)
  show "history_grows (env_externals E) m s s1 \<Longrightarrow> history_grows (env_externals E) m s1 s2 \<Longrightarrow>
    history_grows (env_externals E) m s s2" by (rule grows_trans)
next
  fix m k f nm tm s s'
  assume "add_player m k f nm tm s = Inr s'"
  then show "history_grows (env_externals E) m s s'"
    by (intro grows_frame) (auto dest: add_player_ok frame_add_player)
next
  fix m k tn rv b h os tm s s'
  assume "record_order_submission m k tn rv b h os tm s = Inr s'"
  then show "history_grows (env_externals E) m s s'"
    by (intro grows_frame) (auto dest: record_order_ok frame_record_order)
next
  fix m k tn rv os s s'
  assume "update_order_status m k tn rv os s = Inr s'"
  then show "history_grows (env_externals E) m s s'"
    by (intro grows_frame) (auto dest: update_order_ok frame_order_status)
next
  fix m tn k v tm s s'
  assume "record_draw_vote m tn k v tm s = Inr s'"
  then show "history_grows (env_externals E) m s s'"
    by (intro grows_frame) (auto dest: record_vote_ok frame_vote)
next
  fix m d s s'
  assume "set_deadline m d s = Inr s'"
  from set_deadline_conv [OF this] show "history_grows (env_externals E) m s s'" by (rule grows_update) simp_all
next
  fix m d s s'
  assume "set_paused_remaining_seconds m d s = Inr s'"
  from set_paused_conv [OF this] show "history_grows (env_externals E) m s s'" by (rule grows_update) simp_all
next
  fix s m k n s'
  assume "record_sequence_number m k n s = Inr s'"
  then show "history_grows (env_externals E) m s s'"
    by (intro grows_frame) (auto dest: record_sequence_ok frame_sequence)
next
  fix s m st c st' s'
  assume m: "get_match s m = Some (st, c)" and st: "ms_status st \<noteq> LOBBY" "match_step\<^sup>+\<^sup>+ st st'"
    and save: "save_match_state m st' s = Inr s'"
  from save_match_state_conv [OF save] show "history_grows (env_externals E) m s s'"
  proof (rule grows_update)
    fix r assume "map_of (t_matches s) m = Some r"
    then show "mr_state (r\<lparr>mr_state := st'\<rparr>) = mr_state r \<or>
        ms_status (mr_state r) \<noteq> LOBBY \<and> ms_status (mr_state (r\<lparr>mr_state := st'\<rparr>)) \<noteq> LOBBY \<and>
        state_position (mr_state r) \<le> state_position (mr_state (r\<lparr>mr_state := st'\<rparr>))"
      using m st steps_position [OF st(2,1)] by (auto simp: get_match_row)
  qed simp
next
  fix s m st c key gs tm r s'
  assume m: "get_match s m = Some (st, c)" "ms_status st \<noteq> LOBBY" and key: "load_coordinator_identity s m = Inr key"
    and link: "make_link (env_externals E) key (get_latest_phase_result s m) m (ms_turn st) (ms_phase st) gs tm = Inr r"
    and rec: "record_phase_result m (ms_turn st) (ms_phase st) (ph_state r) (ph_hash r) (ph_previous r)
      (ph_signature r) tm s = Inr s'"
  obtain mr where mr: "map_of (t_matches s) m = Some mr" "mr_state mr = st" "mr_private_key mr = key"
    using m key by (auto simp: get_match_row identity_row)
  note r = make_link_ok [OF link]
  show "history_grows (env_externals E) m s s'"
    by (rule grows_link [OF mr(1) _ _ r(2)]) (use m(2) mr(2,3) r rec in simp_all)
next
  fix s m key q tm dl
  assume "load_coordinator_identity s m = Inr key"
  then show "history_grows (env_externals E) m s (snd (lobby_start_match (env_externals E) m key q tm dl s))"
    by (rule grows_start)
qed

section \<open>Sequence numbers never decrease\<close>

definition seen_grows :: "string \<Rightarrow> store \<Rightarrow> store \<Rightarrow> bool" where
  "seen_grows m s s' \<longleftrightarrow>
     (\<forall>k n. get_last_sequence_number s m k = Some n \<longrightarrow>
        (\<exists>n'. get_last_sequence_number s' m k = Some n' \<and> n \<le> n')) \<and>
     (m \<in> set (map fst (t_matches s)) \<longrightarrow> m \<in> set (map fst (t_matches s')))"

lemma seen_frame:
  assumes "t_seqs s' = t_seqs s" "map fst (t_matches s') = map fst (t_matches s)"
  shows "seen_grows m s s'"
  unfolding seen_grows_def get_last_sequence_number_def assms by auto

lemma seen_trans: "seen_grows m s t \<Longrightarrow> seen_grows m t u \<Longrightarrow> seen_grows m s u"
  unfolding seen_grows_def by (meson order_trans)

lemma seen_update: "update_match m f s = Inr s' \<Longrightarrow> seen_grows m s s'"
  by (rule seen_frame) (rule frame_update_match(6,7), assumption)+

lemma seen_record:
  assumes "\<And>l. get_last_sequence_number s m k = Some l \<Longrightarrow> l < n" and "record_sequence_number m k n s = Inr s'"
  shows "seen_grows m s s'"
proof -
  have "get_last_sequence_number s' m j = (if j = k then Some n else get_last_sequence_number s m j)" for j
    using sequence_numbers.look_put [of "(m, k)" n s s' "(m, j)"] assms(2) by simp
  with assms(1) frame_sequence(2) [OF assms(2)] show ?thesis by (auto simp: seen_grows_def intro: less_imp_le)
qed

lemma seen_start: "seen_grows m s (snd (lobby_start_match X m key q t dl s))"
proof (cases rule: start_match_states [where X = X and m = m and key = key and q = q and t = t and dl = dl and s = s])
  case nothing
  then show ?thesis by (simp add: seen_frame)
next
  case (saved st c s1)
  then show ?thesis using seen_update [OF save_match_state_conv [OF saved(3)]] by simp
next
  case (recorded st c s1 s2 b h)
  have "seen_grows m s1 s2"
    by (rule seen_frame) (simp_all add: frame_record_phase [OF recorded(6)])
  moreover have "seen_grows m s2 (snd (lobby_start_match X m key q t dl s))"
    using recorded(7) by (auto dest!: set_deadline_conv intro: seen_update seen_frame)
  ultimately show ?thesis
    using seen_update [OF save_match_state_conv [OF recorded(3)]] by (blast intro: seen_trans)
qed

interpretation seen: coordinator_relation E seen_grows for E
proof
  fix m s s1 s2
  show "seen_grows m s s" by (simp add: seen_frame)
  show "seen_grows m s s1 \<Longrightarrow> seen_grows m s1 s2 \<Longrightarrow> seen_grows m s s2" by (rule seen_trans)
next
  fix m k f nm tm s s'
  assume "add_player m k f nm tm s = Inr s'"
  then show "seen_grows m s s'" by (intro seen_frame) (auto dest: frame_add_player)
next
  fix m k tn rv b h os tm s s'
  assume "record_order_submission m k tn rv b h os tm s = Inr s'"
  then show "seen_grows m s s'" by (intro seen_frame) (auto dest: frame_record_order)
next
  fix m k tn rv os s s'
  assume "update_order_status m k tn rv os s = Inr s'"
  then show "seen_grows m s s'" by (intro seen_frame) (auto dest: frame_order_status)
next
  fix m tn k v tm s s'
  assume "record_draw_vote m tn k v tm s = Inr s'"
  then show "seen_grows m s s'" by (intro seen_frame) (auto dest: frame_vote)
next
  fix m d s s'
  assume "set_deadline m d s = Inr s'"
  from set_deadline_conv [OF this] show "seen_grows m s s'" by (rule seen_update)
next
  fix m d s s'
  assume "set_paused_remaining_seconds m d s = Inr s'"
  from set_paused_conv [OF this] show "seen_grows m s s'" by (rule seen_update)
next
  fix s m k n s'
  assume "\<And>l. get_last_sequence_number s m k = Some l \<Longrightarrow> l < n" "record_sequence_number m k n s = Inr s'"
  then show "seen_grows m s s'" by (rule seen_record)
next
  fix s m st' s'
  assume "save_match_state m st' s = Inr s'"
  from save_match_state_conv [OF this] show "seen_grows m s s'" by (rule seen_update)
next
  fix s m st r tm s'
  assume "record_phase_result m (ms_turn st) (ms_phase st) (ph_state r) (ph_hash r) (ph_previous r)
      (ph_signature r) tm s = Inr s'"
  note f = frame_record_phase [OF this]
  show "seen_grows m s s'" by (rule seen_frame) (simp_all add: f)
next
  fix s m key q tm dl
  show "seen_grows m s (snd (lobby_start_match (env_externals E) m key q tm dl s))" by (rule seen_start)
qed

section \<open>Properties of the coordinator\<close>

text \<open>C2: The recorded history is sound and only grows: from a sound store, whatever messages arrive, from
  whomever, whatever the operator does, across exceptions and restarts, the hash chain of the match
  remains a chain of links, each with its predecessor's hash, the digest of that hash and a canonical
  state, and the coordinator's signature; its links are in the order of play, one for each phase, none
  for a phase the match has not reached; and no link is ever removed or altered.\<close>

theorem history_sound:
  assumes "history_ok (env_externals E) m (co_store c)" and "co_match_id c = m"
  shows "history_ok (env_externals E) m (co_store (run E es c)) \<and>
    prefix (get_hash_chain (co_store c) m) (get_hash_chain (co_store (run E es c)) m)"
  using history.keep_run [of E c es] assms unfolding history.R_def history_grows_def by simp

definition quiet_environment :: environment where
  "quiet_environment = \<lparr>env_externals = reference, env_clock = \<lambda>n. 1 + of_nat n, env_pick = \<lambda>_. 0,
     env_text = \<lambda>_ _. ''malformed'', env_send_error = \<lambda>_ _. None\<rparr>"

lemma full_lobby_history: "history_ok reference ''m'' full_lobby"
proof -
  have "store_ok full_lobby"
    by (simp add: store_ok_def full_lobby_def empty_store_def dict_ok_def player_key_def seat_def all_in_matches_def)
  then show ?thesis
    by (simp add: history_ok_def full_lobby_def waiting_match_def empty_store_def get_hash_chain_def initial_match_state_def)
qed

theorem history_sound_witness:
  "history_ok reference ''m'' (co_store (run quiet_environment
     [Start, Inbound ''01'' [192], Advance, Restart None, Advance, Poll []] (new_coordinator ''m'' full_lobby None)))"
  using history_sound [of quiet_environment "''m''" "new_coordinator ''m'' full_lobby None"] full_lobby_history
  by (simp add: new_coordinator_def quiet_environment_def)

text \<open>A readable message goes to \<open>dispatch\<close>, which drops it when its number is not above the last one
  seen from its sender, and otherwise records the number before it calls the handler.\<close>

lemma handle_readable:
  assumes "read_message (env_externals E) data = Inr msg"
  shows "handle_inbound E sender data d =
    (case fromhex sender of Inl e \<Rightarrow> (Inl e, d) | Inr pk \<Rightarrow> dispatch E pk msg d)"
  by (cases "fromhex sender") (simp_all add: handle_inbound_def assms act_simps)

lemma seen_is_dropped:
  assumes "replay_key pk msg = Inr key" "get_int msg ''sequence_number'' = Inr n"
    and "get_last_sequence_number (co_store d) (co_match_id d) key = Some l" "n \<le> l"
  shows "dispatch E pk msg d = (Inr (), d)"
  using assms by (simp add: dispatch_def act_simps act_bind_def act_run read_store_def)

lemma unrecorded_is_dropped:
  assumes "\<nexists>key n. replay_key pk msg = Inr key \<and> get_int msg ''sequence_number'' = Inr n \<and> sql_range n"
  shows "snd (dispatch E pk msg d) = d"
  using assms
  by (cases "replay_key pk msg"; cases "get_int msg ''sequence_number''")
    (auto simp: dispatch_def act_bind_def act_run read_store_def on_store_def act_zoom_def act_write_def
      record_sequence_number_def with_ints_def split: if_splits)

lemma run_keeps_match: "co_match_id (run E es c) = co_match_id c"
  and run_keeps_seen: "seen_grows (co_match_id c) (co_store c) (co_store (run E es c))"
  using seen.keep_run [where c = c and E = E and es = es] unfolding seen.R_def by simp_all

lemma handle_keeps_match: "co_match_id (snd (handle_inbound E sender data c)) = co_match_id c"
  using seen.keep_inbound [where c = c and sender = sender and data = data and E = E]
  unfolding seen.R_def by simp

lemma dispatch_records:
  assumes "replay_key pk msg = Inr key" "get_int msg ''sequence_number'' = Inr n" "sql_range n"
    and "co_match_id c \<in> fst ` set (t_matches (co_store c))"
  shows "\<exists>l. get_last_sequence_number (co_store (snd (dispatch E pk msg c))) (co_match_id c) key = Some l \<and> n \<le> l"
proof (cases "\<exists>l. get_last_sequence_number (co_store c) (co_match_id c) key = Some l \<and> n \<le> l")
  case True
  then obtain l where "get_last_sequence_number (co_store c) (co_match_id c) key = Some l" "n \<le> l" by blast
  with seen_is_dropped [OF assms(1,2) this] show ?thesis by simp
next
  case fresh: False
  let ?m = "co_match_id c"
  obtain s1 where s1: "record_sequence_number ?m key n (co_store c) = Inr s1"
    using assms(3,4) by (simp add: record_sequence_number_def with_ints_def check_match_def)
  let ?d = "c\<lparr>co_store := s1\<rparr>"
  have first: "dispatch E pk msg c =
      (case handler_of E (message_type msg) of None \<Rightarrow> (Inr (), ?d) | Some h \<Rightarrow> h pk msg ?d)"
    using assms(1,2) s1 fresh
    by (auto simp: dispatch_def act_bind_def act_run read_store_def on_store_def act_zoom_def act_write_def
        split: option.splits)
  have "seen.R ?d (snd (dispatch E pk msg c))"
    unfolding first
    by (cases "handler_of E (message_type msg)") (auto intro: seen.R_same seen.keep_handler)
  then have "seen_grows ?m s1 (co_store (snd (dispatch E pk msg c)))" by (simp add: seen.R_def)
  moreover have "get_last_sequence_number s1 ?m key = Some n"
    using sequence_numbers.look_put [of "(?m, key)" n "co_store c" s1 "(?m, key)"] s1 by simp
  ultimately show ?thesis unfolding seen_grows_def by blast
qed

text \<open>Once handled, a number stays seen.\<close>

lemma handled_stays_seen:
  assumes "read_message (env_externals E) data = Inr msg" "fromhex sender = Inr pk"
    and "replay_key pk msg = Inr key" "get_int msg ''sequence_number'' = Inr n" "sql_range n"
    and "co_match_id c \<in> fst ` set (t_matches (co_store c))"
  shows "\<exists>l. get_last_sequence_number (co_store (run E es (snd (handle_inbound E sender data c))))
    (co_match_id (run E es (snd (handle_inbound E sender data c)))) key = Some l \<and> n \<le> l"
proof -
  let ?c1 = "snd (handle_inbound E sender data c)"
  have "snd (dispatch E pk msg c) = ?c1" by (simp add: handle_readable [OF assms(1)] assms(2))
  with dispatch_records [OF assms(3-6), of E]
  obtain l where "get_last_sequence_number (co_store ?c1) (co_match_id c) key = Some l" "n \<le> l" by metis
  with run_keeps_seen [of ?c1 E es] show ?thesis
    unfolding run_keeps_match handle_keeps_match seen_grows_def by (meson order_trans)
qed

text \<open>C16: Replays have no effect, ever: once a well-formed message has been handled, whether its handler
  returned or raised, the same bytes from the same sender change nothing, neither the store nor what has
  been sent nor the coordinator's memory, after any further events and across restarts.\<close>

theorem replay_has_no_effect:
  assumes "read_message (env_externals E) data = Inr msg"
    and "co_match_id c \<in> fst ` set (t_matches (co_store c))"
  shows "snd (handle_inbound E sender data (run E es (snd (handle_inbound E sender data c)))) =
    run E es (snd (handle_inbound E sender data c))"
proof (cases "fromhex sender")
  case (Inl e)
  then show ?thesis by (simp add: handle_readable [OF assms(1)])
next
  case (Inr pk)
  note h = handle_readable [OF assms(1), where sender = sender, unfolded Inr sum.case]
  show ?thesis
  proof (cases "\<exists>key n. replay_key pk msg = Inr key \<and> get_int msg ''sequence_number'' = Inr n \<and> sql_range n")
    case False
    then show ?thesis unfolding h by (intro unrecorded_is_dropped)
  next
    case True
    then obtain key n where k: "replay_key pk msg = Inr key" "get_int msg ''sequence_number'' = Inr n" "sql_range n"
      by blast
    from handled_stays_seen [OF assms(1) Inr k assms(2)] seen_is_dropped [OF k(1,2)] show ?thesis
      unfolding h by (metis snd_conv)
  qed
qed

lemma read_encoded:
  assumes "codec_ok X" "well_typed msg" "encode_message X msg = Inr b" "validate_message msg = Inr ()"
  shows "read_message X b = Inr msg"
  using decode_encode [OF assms(1-3)] assms(4) by (simp add: read_message_def)

lemma sample_vote_read:
  obtains b where "read_message reference b = Inr sample_vote"
proof -
  obtain b where b: "encode_message reference sample_vote = Inr b" using sample_vote_encodes by blast
  have "well_typed sample_vote" unfolding sample_vote_def by (rule well_typed_mk) simp
  moreover have "validate_message sample_vote = Inr ()"
    by (simp add: sample_vote_def validate_mk types_without_match_id_def require_def)
  ultimately show thesis using that read_encoded [OF reference_ok(1) _ b] by blast
qed

theorem replay_has_no_effect_witness:
  "\<exists>data. read_message reference data = Inr sample_vote \<and>
     (let c = snd (handle_inbound quiet_environment ''0a'' data (new_coordinator ''m'' full_lobby None));
          d = run quiet_environment [Start, Restart None, Advance] c
      in snd (handle_inbound quiet_environment ''0a'' data d) = d)"
proof -
  obtain b where b: "read_message reference b = Inr sample_vote" by (rule sample_vote_read)
  have "read_message (env_externals quiet_environment) b = Inr sample_vote" by (simp add: quiet_environment_def b)
  moreover have "co_match_id (new_coordinator ''m'' full_lobby None)
      \<in> fst ` set (t_matches (co_store (new_coordinator ''m'' full_lobby None)))"
    by (simp add: new_coordinator_def full_lobby_def)
  ultimately have "snd (handle_inbound quiet_environment ''0a'' b (run quiet_environment [Start, Restart None, Advance]
      (snd (handle_inbound quiet_environment ''0a'' b (new_coordinator ''m'' full_lobby None))))) =
    run quiet_environment [Start, Restart None, Advance]
      (snd (handle_inbound quiet_environment ''0a'' b (new_coordinator ''m'' full_lobby None)))"
    by (rule replay_has_no_effect)
  with b show ?thesis unfolding Let_def by blast
qed

text \<open>C39: A join request locks a player out: the number it carries is recorded for the public key in its
  body, which anyone can write there, so after one such request from anybody, every message of the owner
  of that key whose sequence number is not above it is dropped without an answer, from then on and across
  restarts.\<close>

theorem join_request_locks_out:
  assumes "read_message (env_externals E) data = Inr forged" and "message_type forged = JOIN_REQUEST"
    and "get_bytes forged ''player_public_key'' = Inr victim"
    and "get_int forged ''sequence_number'' = Inr high" and "sql_range high"
    and "fromhex attacker = Inr pk" and "co_match_id c \<in> fst ` set (t_matches (co_store c))"
    and "read_message (env_externals E) data' = Inr msg" and "replay_key victim msg = Inr victim"
    and "get_int msg ''sequence_number'' = Inr n" and "n \<le> high"
  shows "handle_inbound E (hex_of victim) data' (run E es (snd (handle_inbound E attacker data c))) =
    (Inr (), run E es (snd (handle_inbound E attacker data c)))"
proof -
  have "replay_key pk forged = Inr victim" by (simp add: replay_key_def assms(2,3))
  from handled_stays_seen [OF assms(1,6) this assms(4,5,7), of es] obtain l where
    "get_last_sequence_number (co_store (run E es (snd (handle_inbound E attacker data c))))
      (co_match_id (run E es (snd (handle_inbound E attacker data c)))) victim = Some l" "n \<le> l"
    using assms(11) by (meson order_trans)
  from seen_is_dropped [OF assms(9,10) this] show ?thesis by (simp add: handle_readable [OF assms(8)] fromhex_hex)
qed

definition forged_join :: message where
  "forged_join = mk_message JOIN_REQUEST 9 1
     [(''match_id'', VRaw (CStr ''m'')), (''player_public_key'', VRaw (CBytes [10])), (''display_name'', VRaw CNone)]"

lemma forged_join_read:
  obtains b where "read_message reference b = Inr forged_join"
proof -
  have "canonicalize (py_message forged_join) = CDict
     [(''display_name'', CNone), (''match_id'', CStr ''m''), (''message_type'', CStr ''JOIN_REQUEST''),
      (''player_public_key'', CBytes [10]), (''protocol_version'', CInt 1), (''sequence_number'', CInt 9),
      (''timestamp'', CFloat 1)]"
    by (simp add: forged_join_def py_message_def mk_message_def PROTOCOL_VERSION_def)
  then have "length (enc (canonicalize (py_message forged_join))) \<le> MAX_MESSAGE_SIZE"
    by (simp add: enc_bytes_def enc_nat_def enc_int_def utf8_encode_def MAX_MESSAGE_SIZE_def)
  then have "encode_message reference forged_join = Inr (enc (canonicalize (py_message forged_join)))"
    by (simp add: encode_message_def)
  moreover have "well_typed forged_join" unfolding forged_join_def by (rule well_typed_mk) simp
  moreover have "validate_message forged_join = Inr ()"
    by (simp add: forged_join_def validate_mk types_without_match_id_def require_def)
  ultimately show thesis using that read_encoded [OF reference_ok(1)] by blast
qed

theorem join_request_locks_out_witness:
  "\<exists>forged vote. read_message reference forged = Inr forged_join \<and> read_message reference vote = Inr sample_vote \<and>
     (let c = run quiet_environment [Restart None]
        (snd (handle_inbound quiet_environment ''ff'' forged (new_coordinator ''m'' full_lobby None)))
      in handle_inbound quiet_environment ''0a'' vote c = (Inr (), c))"
proof -
  obtain f v where f: "read_message reference f = Inr forged_join" and v: "read_message reference v = Inr sample_vote"
    using forged_join_read sample_vote_read by metis
  have X: "env_externals quiet_environment = reference" by (simp add: quiet_environment_def)
  have hex: "hex_of [10] = ''0a''" by code_simp
  have ff: "fromhex ''ff'' = Inr [0xFF]" by code_simp
  have lobby: "co_match_id (new_coordinator ''m'' full_lobby None)
      \<in> fst ` set (t_matches (co_store (new_coordinator ''m'' full_lobby None)))"
    by (simp add: new_coordinator_def full_lobby_def)
  have "message_type forged_join = JOIN_REQUEST" "get_bytes forged_join ''player_public_key'' = Inr [10]"
    "get_int forged_join ''sequence_number'' = Inr 9" "sql_range 9" "replay_key [10] sample_vote = Inr [10]"
    "get_int sample_vote ''sequence_number'' = Inr 1"
    by (simp_all add: forged_join_def sample_vote_def get_bytes_def get_int_def replay_key_def sql_range_def)
  then have "handle_inbound quiet_environment (hex_of [10]) v (run quiet_environment [Restart None]
      (snd (handle_inbound quiet_environment ''ff'' f (new_coordinator ''m'' full_lobby None)))) =
    (Inr (), run quiet_environment [Restart None]
      (snd (handle_inbound quiet_environment ''ff'' f (new_coordinator ''m'' full_lobby None))))"
    using f v ff lobby by (intro join_request_locks_out [where forged = forged_join and msg = sample_vote
      and high = 9 and n = 1 and pk = "[0xFF]"]) (simp_all add: X del: fromhex.simps)
  with f v show ?thesis unfolding hex Let_def by blast
qed

end
