(* ===== verification/Match_Advance.thy ===== *)
theory Match_Advance
  imports Match_History
begin

text \<open>
  What \<open>advance_phase\<close> does when it is called: it refines the adjudication of the board. From a sound
  history it saves the state that the machine lands in, records the adjudicated board as the next link
  and opens the phase, whatever the transport does with the two broadcasts afterwards. The theory also
  has the pause of a deadline and what an unreadable message does to a poll.
\<close>

section \<open>The landing state\<close>

definition next_orders :: "MatchState \<Rightarrow> MatchState" where
  "next_orders st = (next_turn st)\<lparr>ms_phase := ORDERS\<rparr>"

definition landing_of :: "bool \<Rightarrow> bool \<Rightarrow> MatchState \<Rightarrow> MatchState" where
  "landing_of dislodged needed st =
     (if ms_phase st = ORDERS \<and> dislodged then st\<lparr>ms_phase := RETREAT\<rparr>
      else if ms_phase st \<noteq> BUILD \<and> needed then st\<lparr>ms_phase := BUILD\<rparr>
      else next_orders st)"

text \<open>The phase that is adjudicated: the input of \<open>resolve_phase\<close>, the board it starts from.\<close>

definition phase_input_of :: "MatchState \<Rightarrow> (string, Order) dict \<Rightarrow> phase_input" where
  "phase_input_of st effective =
     (case ms_phase st of ORDERS \<Rightarrow> OrdersPhase effective | RETREAT \<Rightarrow> RetreatPhase effective | _ \<Rightarrow> BuildPhase)"

definition recorded_board :: "externals \<Rightarrow> string \<Rightarrow> store \<Rightarrow> int \<Rightarrow> Phase \<Rightarrow> GameState \<Rightarrow> bool" where
  "recorded_board X m s trn ph board \<longleftrightarrow>
     (\<exists>row. get_phase_result s m trn ph = Inr (Some row) \<and>
       game_state_from_canonical_bytes X (ph_state row) = Inr board)"

definition phase_ready :: "externals \<Rightarrow> string \<Rightarrow> store \<Rightarrow> MatchState \<Rightarrow> (string, Order) dict \<Rightarrow> GameState \<Rightarrow> bool" where
  "phase_ready X m s st effective board \<longleftrightarrow>
     (if ms_phase st = BUILD then recorded_board X m s (ms_turn st) BUILD board
      else ms_phase st \<in> {ORDERS, RETREAT} \<and> recorded_board X m s (ms_turn st) ORDERS board \<and>
        get_effective_orders X s m (ms_turn st) = Inr effective)"

definition dislodges :: "MatchState \<Rightarrow> (string, Order) dict \<Rightarrow> GameState \<Rightarrow> bool" where
  "dislodges st effective board \<longleftrightarrow>
     ms_phase st = ORDERS \<and> (\<exists>res. resolve_movement board effective = Inr res \<and> dislodged_results res \<noteq> [])"

lemma turn_start_run:
  assumes "recorded_board (env_externals E) (co_match_id c) (co_store c) trn ORDERS board"
  shows "turn_start_state E trn c = (Inr board, c)"
proof -
  obtain row where row: "get_phase_result (co_store c) (co_match_id c) trn ORDERS = Inr (Some row)"
    "game_state_from_canonical_bytes (env_externals E) (ph_state row) = Inr board"
    using assms by (auto simp: recorded_board_def)
  then have "read_store (\<lambda>m s. get_phase_result s m trn ORDERS) c = (Inr (Some row), c)" by (simp add: read_store_Inr)
  then show ?thesis using row(2) by (simp add: turn_start_state_def act_bind_run act_run)
qed

lemma load_run:
  assumes "get_match (co_store c) (co_match_id c) = Some (st, t)"
    and "recorded_board (env_externals E) (co_match_id c) (co_store c) (ms_turn st) (ms_phase st) board"
  shows "load_game_state E c = (Inr board, c)"
proof -
  obtain row where row: "get_phase_result (co_store c) (co_match_id c) (ms_turn st) (ms_phase st) = Inr (Some row)"
    "game_state_from_canonical_bytes (env_externals E) (ph_state row) = Inr board"
    using assms(2) by (auto simp: recorded_board_def)
  have st: "require_match_state c = (Inr st, c)" using assms(1) by (simp add: require_match_state_Inr)
  have "read_store (\<lambda>m s. get_phase_result s m (ms_turn st) (ms_phase st)) c = (Inr (Some row), c)"
    using row(1) by (simp add: read_store_Inr)
  then show ?thesis using st row(2) by (simp add: load_game_state_def act_bind_run act_run)
qed

text \<open>The board the branches compute is the one of \<open>resolve_phase\<close>.\<close>

lemma movement_outcome:
  obtains board' where "movement_phase eff board = Inr (board', has_dislodged (projr (resolve_movement board eff)))"
    "resolve_phase (OrdersPhase eff) board = Inr board'"
    "has_dislodged (projr (resolve_movement board eff)) \<longleftrightarrow>
      (\<exists>res. resolve_movement board eff = Inr res \<and> dislodged_results res \<noteq> [])"
proof -
  obtain res where "resolve_movement board eff = Inr res"
    "movement_phase eff board = Inr (update_supply_center_ownership (apply_movement_result board res), has_dislodged res)"
    by (rule movement_phase_eq)
  then show thesis by (intro that) (auto simp: has_dislodged_def)
qed

lemma skip_other: "ms_phase landing \<noteq> DIPLOMACY \<Longrightarrow> skip_diplomacy landing c = (Inr landing, c)"
  by (simp add: skip_diplomacy_def act_run)

lemma adjudicate_run:
  assumes "get_match (co_store c) (co_match_id c) = Some (st, t)" "ms_status st = ACTIVE"
    and ready: "phase_ready (env_externals E) (co_match_id c) (co_store c) st eff board"
  obtains board' landing where "resolve_phase (phase_input_of st eff) board = Inr board'"
    "adjudicate E st c = (Inr (board', landing), c)"
    "skip_diplomacy landing c = (Inr (landing_of (dislodges st eff board) (adjustment_needed board') st), c)"
proof (cases "ms_phase st = BUILD")
  case True
  with ready have "recorded_board (env_externals E) (co_match_id c) (co_store c) (ms_turn st) (ms_phase st) board"
    by (simp add: phase_ready_def)
  from load_run [OF assms(1) this]
  have "adjudicate E st c = (Inr (build_phase board, next_turn st), c)"
    using True assms(2) by (simp add: adjudicate_def act_bind_run act_run fsm_advance_phase_def)
  moreover have "skip_diplomacy (next_turn st) c = (Inr (next_orders st), c)"
    using assms(2) by (simp add: skip_diplomacy_def next_orders_def act_run fsm_advance_phase_def next_turn_def)
  ultimately show thesis
    using True by (intro that [of "build_phase board"]) (simp_all add: phase_input_of_def landing_of_def)
next
  case False
  with ready have ph: "ms_phase st = ORDERS \<or> ms_phase st = RETREAT"
    and start: "turn_start_state E (ms_turn st) c = (Inr board, c)"
    and eff: "read_store (\<lambda>m s. get_effective_orders (env_externals E) s m (ms_turn st)) c = (Inr eff, c)"
    by (simp_all add: phase_ready_def turn_start_run read_store_Inr)
  have skip: "skip_diplomacy (next_turn st) c = (Inr (next_orders st), c)"
    using assms(2) by (simp add: skip_diplomacy_def next_orders_def act_run fsm_advance_phase_def next_turn_def)
  show thesis
  proof (cases "ms_phase st = ORDERS")
    case True
    obtain board' where mv: "movement_phase eff board = Inr (board', has_dislodged (projr (resolve_movement board eff)))"
      "resolve_phase (OrdersPhase eff) board = Inr board'"
      "has_dislodged (projr (resolve_movement board eff)) \<longleftrightarrow> dislodges st eff board"
      using True by (rule_tac movement_outcome [of eff board]) (auto simp: dislodges_def)
    let ?d = "dislodges st eff board" and ?n = "adjustment_needed board'"
    let ?landing = "if ?d then st\<lparr>ms_phase := RETREAT\<rparr> else if ?n then st\<lparr>ms_phase := BUILD\<rparr> else next_turn st"
    have "adjudicate E st c = (Inr (board', ?landing), c)"
      using True assms(2) start eff mv(1,3)
      by (simp add: adjudicate_def act_bind_run act_run fsm_advance_phase_def next_turn_def)
    moreover have "skip_diplomacy ?landing c = (Inr (landing_of ?d ?n st), c)"
      using True skip by (simp add: landing_of_def skip_other)
    ultimately show thesis using True mv(2) by (intro that [of board' ?landing]) (simp_all add: phase_input_of_def)
  next
    case False
    with ph have ret: "ms_phase st = RETREAT" by simp
    obtain board' where rt: "retreat_phase eff board = Inr board'" by (rule retreat_phase_eq [of board eff])
    let ?n = "adjustment_needed board'"
    let ?landing = "if ?n then st\<lparr>ms_phase := BUILD\<rparr> else next_turn st"
    have "adjudicate E st c = (Inr (board', ?landing), c)"
      using ret assms(2) start eff rt by (simp add: adjudicate_def act_bind_run act_run fsm_advance_phase_def)
    moreover have "skip_diplomacy ?landing c = (Inr (landing_of (dislodges st eff board) ?n st), c)"
      using ret skip by (simp add: landing_of_def skip_other)
    ultimately show thesis using ret rt by (intro that [of board' ?landing]) (simp_all add: phase_input_of_def)
  qed
qed

section \<open>The link is recorded\<close>

lemma landing_position:
  assumes "ms_phase st \<in> {ORDERS, RETREAT, BUILD}"
  shows "ms_phase (landing_of d n st) \<in> {ORDERS, RETREAT, BUILD}"
    "state_position st < state_position (landing_of d n st)"
    "ms_status (landing_of d n st) = ms_status st" "ms_turn (landing_of d n st) \<in> {ms_turn st, ms_turn st + 1}"
  using assms by (auto simp: landing_of_def next_orders_def next_turn_def state_position_def)

lemma chain_hashes: "chain_from X key prev rows \<Longrightarrow> r \<in> set rows \<Longrightarrow> \<exists>b. ph_hash r = hex_of b"
  by (induction rows arbitrary: prev) (auto simp: link_ok_def hash_game_state_hex_def eq_sym_conv [of "hex_of _"])

lemma make_link_runs:
  assumes ok: "history_ok X m s" and mr: "map_of (t_matches s) m = Some mr"
    and b: "canonical_bytes X board = Inr b"
  obtains row where "make_link X key (get_latest_phase_result s m) m t ph board tm = Inr row" "ph_state row = b"
proof -
  have chain: "chain_from X (mr_private_key mr) None (get_hash_chain s m)" using ok mr by (simp add: history_ok_def)
  obtain p where p: "(case get_latest_phase_result s m of None \<Rightarrow> Inr None
      | Some r \<Rightarrow> bind_result (fromhex (ph_hash r)) (\<lambda>b. Inr (Some b))) = Inr p"
  proof (cases "get_hash_chain s m = []")
    case False
    then have "last (get_hash_chain s m) \<in> set (get_hash_chain s m)" by simp
    from chain_hashes [OF chain this] obtain x where "ph_hash (last (get_hash_chain s m)) = hex_of x" ..
    then show ?thesis using False by (intro that [of "Some x"]) (simp add: get_latest_phase_result_def fromhex_hex)
  qed (simp add: get_latest_phase_result_def that)
  obtain h where h: "hash_game_state_hex X board p = Inr h" using b by (simp add: hash_game_state_hex_def hash_game_state_def)
  have "make_link X key (get_latest_phase_result s m) m t ph board tm = Inr \<lparr>ph_match = m, ph_turn = t, ph_phase = ph,
      ph_state = b, ph_hash = h, ph_previous = map_option ph_hash (get_latest_phase_result s m),
      ph_signature = sign_with X key (utf8_encode h), ph_resolved_at = tm\<rparr>"
    by (simp add: make_link_def p b h)
  then show thesis by (rule that) simp
qed

lemma record_runs:
  assumes "\<forall>r\<in>set (get_hash_chain s m). row_position r < 5 * t + (5 - int (phase_rank ph))"
    and "map_of (t_matches s) m = Some mr" "sql_range t"
  obtains s' where "record_phase_result m t ph cs h p sg tm s = Inr s'"
    "get_hash_chain s' m = get_hash_chain s m @ [\<lparr>ph_match = m, ph_turn = t, ph_phase = ph, ph_state = cs,
       ph_hash = h, ph_previous = p, ph_signature = sg, ph_resolved_at = tm\<rparr>]"
    "t_matches s' = t_matches s"
proof -
  have "(m, t, ph) \<notin> set (map phase_key (t_phases s))"
    using assms(1) by (force simp: phase_key_def get_hash_chain_def row_position_def)
  moreover have "m \<in> set (map fst (t_matches s))" using assms(2) by (force dest: map_of_SomeD)
  ultimately obtain s' where s': "record_phase_result m t ph cs h p sg tm s = Inr s'"
    using assms(3) by (simp add: record_phase_result_def with_ints_def check_match_def insert_row_def phase_key_def)
  show thesis
    by (rule that [OF s']) (simp_all add: get_hash_chain_def frame_record_phase [OF s'])
qed

lemma save_runs:
  assumes "map_of (t_matches s) m = Some mr" "sql_range (ms_turn st)" "sql_range (ms_year st)"
  obtains s' where "save_match_state m st s = Inr s'" "map_of (t_matches s') m = Some (mr\<lparr>mr_state := st\<rparr>)"
    "t_phases s' = t_phases s"
proof -
  obtain s' where s': "save_match_state m st s = Inr s'"
    using assms by (simp add: save_match_state_def with_ints_def update_match_def)
  show thesis by (rule that [OF s']) (simp_all add: frame_save(3,8) [OF s'] assms(1))
qed

lemma deadline_runs:
  assumes "map_of (t_matches s) m = Some mr"
  obtains s' where "set_deadline m d s = Inr s'" "map_of (t_matches s') m = Some (mr\<lparr>mr_deadline := d\<rparr>)"
    "t_phases s' = t_phases s"
proof -
  obtain s' where s': "set_deadline m d s = Inr s'" using assms by (simp add: set_deadline_def update_match_def)
  show thesis by (rule that [OF s']) (simp_all add: frame_deadline(3,8) [OF s'] assms)
qed

lemma on_store_run: "on_store f c = (case f (co_match_id c) (co_store c) of (r, s) \<Rightarrow> (r, c\<lparr>co_store := s\<rparr>))"
  by (simp add: on_store_def act_zoom_def)

lemma landing_ranges:
  assumes "match_invariant st" "ms_turn st < 2 ^ 63 - 1"
  shows "sql_range (ms_turn (landing_of d n st))" "sql_range (ms_year (landing_of d n st))"
  using assms by (auto simp: match_invariant_def sql_range_def landing_of_def next_orders_def next_turn_def)

lemma link_recorded:
  assumes ok: "history_ok X m s" and mr: "map_of (t_matches s) m = Some mr"
    and b: "canonical_bytes X board = Inr b" and t: "sql_range t"
    and before: "\<forall>r\<in>set (get_hash_chain s m). row_position r < 5 * t + (5 - int (phase_rank ph))"
  obtains row s' where
    "make_link X (mr_private_key mr) (get_latest_phase_result s m) m t ph board tm = Inr row"
    "ph_state row = b" "ph_turn row = t" "ph_phase row = ph"
    "record_phase_result m t ph (ph_state row) (ph_hash row) (ph_previous row) (ph_signature row) tm s = Inr s'"
    "get_hash_chain s' m = get_hash_chain s m @ [row]" "t_matches s' = t_matches s"
proof -
  obtain row where link: "make_link X (mr_private_key mr) (get_latest_phase_result s m) m t ph board tm = Inr row"
    and row_b: "ph_state row = b"
    by (rule make_link_runs [OF ok mr b])
  note row = make_link_ok [OF link]
  have row_eq: "\<lparr>ph_match = m, ph_turn = t, ph_phase = ph, ph_state = ph_state row,
      ph_hash = ph_hash row, ph_previous = ph_previous row, ph_signature = ph_signature row, ph_resolved_at = tm\<rparr> = row"
    using row by (cases row) simp
  obtain s' where "record_phase_result m t ph (ph_state row) (ph_hash row) (ph_previous row) (ph_signature row) tm s = Inr s'"
    "get_hash_chain s' m = get_hash_chain s m @ [row]" "t_matches s' = t_matches s"
    by (rule record_runs [where cs = "ph_state row" and h = "ph_hash row" and p = "ph_previous row" and
          sg = "ph_signature row" and tm = tm, OF before mr t, unfolded row_eq])
  with link row_b row show thesis by (intro that [of row s']) simp_all
qed

text \<open>The steps of \<open>advance_phase\<close> before it sends, one after the other.\<close>

lemma advance_runs:
  assumes m: "co_match_id c = m" and get: "get_match (co_store c) m = Some (st, created)"
    and mr: "map_of (t_matches (co_store c)) m = Some mr"
    and adj: "adjudicate E st c = (Inr (board', landing0), c)" "skip_diplomacy landing0 c = (Inr landing, c)"
    and sec: "phase_duration (co_config c) (ms_phase landing) = Inr seconds"
    and s1: "save_match_state m landing (co_store c) = Inr s1"
    and link: "make_link (env_externals E) (mr_private_key mr) (get_latest_phase_result s1 m) m (ms_turn landing)
      (ms_phase landing) board' tm = Inr row"
    and rec: "record_phase_result m (ms_turn landing) (ms_phase landing) (ph_state row) (ph_hash row)
      (ph_previous row) (ph_signature row) tm s1 = Inr s2"
    and s3: "set_deadline m (Some (tm + seconds)) s2 = Inr s3"
  shows "advance_phase E (Some tm) c =
    announce_phase E landing row tm (tm + seconds) (c\<lparr>co_store := s3, co_warned := False\<rparr>)"
proof -
  let ?c1 = "c\<lparr>co_store := s1\<rparr>" and ?c2 = "c\<lparr>co_store := s2\<rparr>"
  have "time_or_now E (Some tm) c = (Inr tm, c)" by (simp add: time_or_now_def act_run)
  moreover have "require_match_state c = (Inr st, c)" using get m by (simp add: require_match_state_Inr)
  moreover have "read_store (\<lambda>m s. load_coordinator_identity s m) c = (Inr (mr_private_key mr), c)"
    using mr m by (simp add: read_store_Inr load_coordinator_identity_def match_column_def)
  moreover have "on_store (\<lambda>m. act_write (save_match_state m landing)) c = (Inr (), ?c1)"
    using s1 m by (simp add: on_store_run act_write_run)
  moreover have "persist_phase_result E (ms_turn landing) (ms_phase landing) board' (mr_private_key mr) tm ?c1 =
      (Inr row, ?c2)"
    using link rec m
    by (simp add: persist_phase_result_def act_bind_def act_run read_store_def on_store_run act_write_run)
  moreover have "on_store (\<lambda>m. act_write (set_deadline m (Some (tm + seconds)))) ?c2 = (Inr (), c\<lparr>co_store := s3\<rparr>)"
    using s3 m by (simp add: on_store_run act_write_run)
  ultimately show ?thesis
    unfolding advance_phase_def skip_diplomacy_def [symmetric]
    using adj sec
    by (simp add: act_bind_run act_run set_warned_def deadline_after_def)
qed

lemma advance_overflows:
  assumes m: "co_match_id c = m" and get: "get_match (co_store c) m = Some (st, created)"
    and mr: "map_of (t_matches (co_store c)) m = Some mr"
    and adj: "adjudicate E st c = (Inr (board', landing0), c)" "skip_diplomacy landing0 c = (Inr landing, c)"
    and range: "\<not> (sql_range (ms_turn landing) \<and> sql_range (ms_year landing))"
  shows "advance_phase E (Some tm) c = (Inl OverflowError, c)"
proof -
  have "save_match_state m landing (co_store c) = Inl OverflowError"
    using range by (auto simp: save_match_state_def with_ints_def)
  then have "on_store (\<lambda>m. act_write (save_match_state m landing)) c = (Inl OverflowError, c)"
    using m by (simp add: on_store_run act_write_run)
  moreover have "read_store (\<lambda>m s. load_coordinator_identity s m) c = (Inr (mr_private_key mr), c)"
    using mr m by (simp add: read_store_Inr load_coordinator_identity_def match_column_def)
  moreover have "require_match_state c = (Inr st, c)" using get m by (simp add: require_match_state_Inr)
  ultimately show ?thesis
    unfolding advance_phase_def skip_diplomacy_def [symmetric]
    using adj by (simp add: act_bind_run act_run time_or_now_def)
qed

text \<open>From the orders on record to the new phase; nothing is written when the next turn is no number of SQLite.\<close>

lemma advance_lands:
  fixes st :: MatchState and eff :: "(string, Order) dict" and board board' :: GameState
  defines "landing \<equiv> landing_of (dislodges st eff board) (adjustment_needed board') st"
  assumes hist: "history_ok (env_externals E) m (co_store c)" and m: "co_match_id c = m"
    and get_m: "get_match (co_store c) m = Some (st, created)" and active: "ms_status st = ACTIVE"
    and ready: "phase_ready (env_externals E) m (co_store c) st eff board"
    and res: "resolve_phase (phase_input_of st eff) board = Inr board'"
    and b: "canonical_bytes (env_externals E) board' = Inr b"
  obtains (overflow) "\<not> (sql_range (ms_turn landing) \<and> sql_range (ms_year landing))"
      "co_store (snd (advance_phase E (Some tm) c)) = co_store c"
    | (landed) seconds row s' where "sql_range (ms_turn landing)"
      "phase_duration (co_config c) (ms_phase landing) = Inr seconds" "ph_state row = b"
      "ph_turn row = ms_turn landing" "ph_phase row = ms_phase landing"
      "get_hash_chain s' m = get_hash_chain (co_store c) m @ [row]" "get_match s' m = Some (landing, created)"
      "get_deadline s' m = Inr (Some (tm + seconds))"
      "advance_phase E (Some tm) c = announce_phase E landing row tm (tm + seconds) (c\<lparr>co_store := s', co_warned := False\<rparr>)"
      "t_orders s' = t_orders (co_store c)" "t_players s' = t_players (co_store c)"
proof -
  let ?X = "env_externals E"
  obtain mr where mr: "map_of (t_matches (co_store c)) m = Some mr" "mr_state mr = st" "mr_created_at mr = created"
    using get_m by (auto simp: get_match_row)
  have get: "get_match (co_store c) (co_match_id c) = Some (st, created)" using get_m m by simp
  have phase: "ms_phase st \<in> {ORDERS, RETREAT, BUILD}" using ready by (auto simp: phase_ready_def split: if_splits)
  obtain landing0 where adj: "adjudicate E st c = (Inr (board', landing0), c)"
    and skip: "skip_diplomacy landing0 c = (Inr landing, c)"
    by (rule adjudicate_run [OF get active]) (use m ready res in \<open>auto simp: landing_def\<close>)
  note land = landing_position [OF phase, of "dislodges st eff board" "adjustment_needed board'", folded landing_def]
  obtain seconds where sec: "phase_duration (co_config c) (ms_phase landing) = Inr seconds" using land(1) by auto
  show thesis
  proof (cases "sql_range (ms_turn landing) \<and> sql_range (ms_year landing)")
    case False
    from advance_overflows [OF m get_m mr(1) adj skip this, of tm]
    have "advance_phase E (Some tm) c = (Inl OverflowError, c)" .
    with False show thesis by (intro overflow) simp_all
  next
    case range: True
    obtain s1 where s1: "save_match_state m landing (co_store c) = Inr s1" "map_of (t_matches s1) m = Some (mr\<lparr>mr_state := landing\<rparr>)"
      "t_phases s1 = t_phases (co_store c)"
      by (rule save_runs [OF mr(1), of landing]) (use range in auto)
    have chain1: "get_hash_chain s1 m = get_hash_chain (co_store c) m" by (rule chain_frame [OF s1(3)])
    have ok1: "history_ok ?X m s1"
      using history.Q_step [OF get_m _ landing_steps(1) [OF adj skip] s1(1)] hist active
      by (simp add: history_grows_def)
    have before: "\<forall>r\<in>set (get_hash_chain s1 m). row_position r < 5 * ms_turn landing + (5 - int (phase_rank (ms_phase landing)))"
      using hist active mr land(2) by (auto simp: history_ok_def chain1 state_position_def)
    obtain row s2 where row: "make_link ?X (mr_private_key mr) (get_latest_phase_result s1 m) m (ms_turn landing)
        (ms_phase landing) board' tm = Inr row"
      "ph_state row = b" "ph_turn row = ms_turn landing" "ph_phase row = ms_phase landing"
      "record_phase_result m (ms_turn landing) (ms_phase landing) (ph_state row) (ph_hash row)
        (ph_previous row) (ph_signature row) tm s1 = Inr s2"
      "get_hash_chain s2 m = get_hash_chain s1 m @ [row]" "t_matches s2 = t_matches s1"
      by (rule link_recorded [OF ok1 s1(2) b conjunct1 [OF range] before, where tm = tm]) simp
    have "map_of (t_matches s2) m = Some (mr\<lparr>mr_state := landing\<rparr>)" by (simp add: row(7) s1(2))
    then obtain s3 where s3: "set_deadline m (Some (tm + seconds)) s2 = Inr s3"
      "map_of (t_matches s3) m = Some (mr\<lparr>mr_state := landing, mr_deadline := Some (tm + seconds)\<rparr>)"
      "t_phases s3 = t_phases s2"
      by (rule deadline_runs) auto
    have run: "advance_phase E (Some tm) c =
        announce_phase E landing row tm (tm + seconds) (c\<lparr>co_store := s3, co_warned := False\<rparr>)"
      by (rule advance_runs [OF m get_m mr(1) adj skip sec s1(1) row(1,5) s3(1)])
    show thesis
    proof (rule landed [OF conjunct1 [OF range] sec row(2-4) _ _ _ run])
      show "get_hash_chain s3 m = get_hash_chain (co_store c) m @ [row]"
        using row(6) chain1 chain_frame [OF s3(3), of m] by simp
      show "get_match s3 m = Some (landing, created)" "get_deadline s3 m = Inr (Some (tm + seconds))"
        by (simp_all add: get_match_def s3(2) mr(3) get_deadline_def match_column_def)
      show "t_orders s3 = t_orders (co_store c)" "t_players s3 = t_players (co_store c)"
        using frame_deadline [OF s3(1)] frame_record_phase [OF row(5)] frame_save [OF s1(1)] by simp_all
    qed
  qed
qed

section \<open>Properties of advancing\<close>

text \<open>C7: Advancing a phase refines the adjudication of the board. When the match is active and the boards
  and orders it needs are on record, \<open>advance_phase\<close> adjudicates, moves the machine to the phase the
  outcome asks for (retreats after a dislodgement, builds when a faction's centers and units differ,
  else the orders of the next turn), records exactly one link with the adjudicated board, sets the
  deadline of the new phase, and only then sends: whether or not the transport fails, the store is at
  the new phase.\<close>

theorem advance_refines_adjudication:
  assumes "history_ok (env_externals E) m (co_store c)" and "co_match_id c = m"
    and "get_match (co_store c) m = Some (st, created)" and "ms_status st = ACTIVE"
    and "match_invariant st" and "ms_turn st < 2 ^ 63 - 1"
    and "phase_ready (env_externals E) m (co_store c) st eff board"
    and "\<forall>board'. resolve_phase (phase_input_of st eff) board = Inr board' \<longrightarrow>
      (\<exists>b. canonical_bytes (env_externals E) board' = Inr b)"
  shows "\<exists>board' landing seconds row s'.
    resolve_phase (phase_input_of st eff) board = Inr board' \<and>
    landing = landing_of (dislodges st eff board) (adjustment_needed board') st \<and>
    phase_duration (co_config c) (ms_phase landing) = Inr seconds \<and>
    canonical_bytes (env_externals E) board' = Inr (ph_state row) \<and>
    ph_turn row = ms_turn landing \<and> ph_phase row = ms_phase landing \<and>
    get_hash_chain s' m = get_hash_chain (co_store c) m @ [row] \<and>
    get_match s' m = Some (landing, created) \<and> get_deadline s' m = Inr (Some (tm + seconds)) \<and>
    advance_phase E (Some tm) c =
      announce_phase E landing row tm (tm + seconds) (c\<lparr>co_store := s', co_warned := False\<rparr>)"
proof -
  have phase: "ms_phase st \<in> {ORDERS, RETREAT, BUILD}" using assms(7) by (auto simp: phase_ready_def split: if_splits)
  have get: "get_match (co_store c) (co_match_id c) = Some (st, created)" using assms(2,3) by simp
  obtain board' where res: "resolve_phase (phase_input_of st eff) board = Inr board'" using phases.step_total by blast
  obtain b where b: "canonical_bytes (env_externals E) board' = Inr b" using assms(8) res by blast
  obtain seconds row s' where "phase_duration (co_config c)
      (ms_phase (landing_of (dislodges st eff board) (adjustment_needed board') st)) = Inr seconds"
    "ph_state row = b" "ph_turn row = ms_turn (landing_of (dislodges st eff board) (adjustment_needed board') st)"
    "ph_phase row = ms_phase (landing_of (dislodges st eff board) (adjustment_needed board') st)"
    "get_hash_chain s' m = get_hash_chain (co_store c) m @ [row]"
    "get_match s' m = Some (landing_of (dislodges st eff board) (adjustment_needed board') st, created)"
    "get_deadline s' m = Inr (Some (tm + seconds))"
    "advance_phase E (Some tm) c = announce_phase E (landing_of (dislodges st eff board) (adjustment_needed board') st) row tm
      (tm + seconds) (c\<lparr>co_store := s', co_warned := False\<rparr>)"
    by (rule advance_lands [OF assms(1-4,7) res b]) (use landing_ranges [OF assms(5,6)] in auto)
  with res b show ?thesis by auto
qed

definition first_row :: phase_row where
  "first_row = projr (make_link reference [7] None ''m'' 1 ORDERS create_default_map 1)"

definition first_turn :: store where
  "first_turn = duel\<lparr>t_phases := [first_row]\<rparr>"

lemma first_turn_link: "make_link reference [7] None ''m'' 1 ORDERS create_default_map 1 = Inr first_row"
proof -
  have "\<exists>r. make_link reference [7] None ''m'' 1 ORDERS create_default_map 1 = Inr r"
    by (simp add: make_link_def canonical_bytes_def hash_game_state_hex_def hash_game_state_def)
  then show ?thesis by (auto simp: first_row_def)
qed

lemma first_turn_match: "get_match first_turn ''m'' = Some (mr_state playing_match, 1)"
  by (simp add: get_match_def first_turn_def duel_def playing_match_def waiting_match_def)

lemma single_link_history:
  assumes "make_link reference [7] None ''m'' 1 ORDERS gs 1 = Inr r"
  shows "history_ok reference ''m'' (duel\<lparr>t_phases := [r]\<rparr>)" "get_hash_chain (duel\<lparr>t_phases := [r]\<rparr>) ''m'' = [r]"
proof -
  note r = make_link_ok [OF assms]
  have "store_ok (duel\<lparr>t_phases := [r]\<rparr>)"
    by (rule store_ok_tables(3) [OF duel_ok(1)]) (simp_all add: all_in_matches_def r duel_def)
  moreover show "get_hash_chain (duel\<lparr>t_phases := [r]\<rparr>) ''m'' = [r]" by (simp add: get_hash_chain_def r)
  ultimately show "history_ok reference ''m'' (duel\<lparr>t_phases := [r]\<rparr>)"
    using r(1) by (simp add: history_ok_def r(3,4) duel_def playing_match_def waiting_match_def
        row_position_def state_position_def)
qed

lemma first_turn_history: "history_ok reference ''m'' first_turn"
  unfolding first_turn_def by (rule single_link_history(1) [OF first_turn_link])

lemma first_turn_ready:
  "phase_ready reference ''m'' first_turn (mr_state playing_match) [] (state_norm create_default_map)"
proof -
  note r = make_link_ok [OF first_turn_link]
  have "canonical_bytes reference create_default_map = Inr (ph_state first_row)"
    by (rule r(6))
  from decode_canonical [OF reference_ok(1) this]
  have "recorded_board reference ''m'' first_turn 1 ORDERS (state_norm create_default_map)"
    by (simp add: recorded_board_def get_phase_result_def with_ints_def sql_range_def first_turn_def phase_key_def r)
  moreover have "get_effective_orders reference first_turn ''m'' 1 = Inr []"
    by (simp add: get_effective_orders_def get_latest_orders_for_turn_def latest_orders_for_turn_def with_ints_def
        sql_range_def first_turn_def duel_def empty_store_def)
  ultimately show ?thesis by (simp add: phase_ready_def playing_match_def)
qed

theorem advance_refines_adjudication_witness:
  "\<exists>row s' landing seconds. get_hash_chain s' ''m'' = [first_row, row] \<and>
     advance_phase quiet_environment (Some 5) (new_coordinator ''m'' first_turn None) =
       announce_phase quiet_environment landing row 5 (5 + seconds)
         ((new_coordinator ''m'' first_turn None)\<lparr>co_store := s', co_warned := False\<rparr>)"
proof -
  let ?c = "new_coordinator ''m'' first_turn None" and ?st = "mr_state playing_match"
  have c: "co_match_id ?c = ''m''" "co_store ?c = first_turn" by (simp_all add: new_coordinator_def)
  have E: "env_externals quiet_environment = reference" by (simp add: quiet_environment_def)
  have chain: "get_hash_chain first_turn ''m'' = [first_row]"
    using make_link_ok(2) [OF first_turn_link] by (simp add: get_hash_chain_def first_turn_def)
  have hist: "history_ok (env_externals quiet_environment) ''m'' (co_store ?c)"
    and get: "get_match (co_store ?c) ''m'' = Some (?st, 1)"
    and ready: "phase_ready (env_externals quiet_environment) ''m'' (co_store ?c) ?st [] (state_norm create_default_map)"
    by (simp_all only: E c first_turn_history first_turn_match first_turn_ready)
  have inv: "ms_status ?st = ACTIVE" "match_invariant ?st" "ms_turn ?st < 2 ^ 63 - 1"
    by (simp_all add: playing_match_def match_invariant_def)
  have bytes: "\<forall>board'. resolve_phase (phase_input_of ?st []) (state_norm create_default_map) = Inr board' \<longrightarrow>
      (\<exists>b. canonical_bytes (env_externals quiet_environment) board' = Inr b)"
    by (simp add: E canonical_bytes_def)
  from advance_refines_adjudication [OF hist c(1) get inv ready bytes, of 5]
  show ?thesis by (auto simp: c(2) chain)
qed

section \<open>Pausing\<close>

text \<open>C33: A pause stops the clock and loses no time: while a match is paused its deadline is never due, and
  resuming gives the phase exactly the time that was left when it was paused (none, if the deadline had
  passed), counted from the moment of resuming; nothing else of the store changes.\<close>

theorem pause_keeps_time:
  assumes "get_deadline (co_store c) (co_match_id c) = Inr (Some d)"
  shows "\<exists>c1 c2. pause E (Some t1) c = (Inr (), c1) \<and>
    (\<forall>t. check_deadline E (Some t) c1 = (Inr (), c1)) \<and>
    resume E (Some t2) c1 = (Inr (), c2) \<and>
    get_deadline (co_store c2) (co_match_id c) = Inr (Some (t2 + max (d - t1) 0)) \<and>
    get_match (co_store c2) (co_match_id c) = get_match (co_store c) (co_match_id c) \<and>
    get_hash_chain (co_store c2) (co_match_id c) = get_hash_chain (co_store c) (co_match_id c) \<and>
    co_sent c2 = co_sent c"
proof -
  let ?m = "co_match_id c" and ?left = "max (d - t1) 0"
  obtain mr where mr: "map_of (t_matches (co_store c)) ?m = Some mr" "mr_deadline mr = Some d"
    using assms by (auto simp: get_deadline_def match_column_def split: option.splits)
  obtain s1 where s1: "set_paused_remaining_seconds ?m (Some ?left) (co_store c) = Inr s1"
    using mr(1) by (simp add: set_paused_remaining_seconds_def update_match_def)
  have m1: "map_of (t_matches s1) ?m = Some (mr\<lparr>mr_paused := Some ?left\<rparr>)" using mr(1) by (simp add: frame_paused(8) [OF s1])
  obtain s2 where s2: "set_deadline ?m None s1 = Inr s2"
      "map_of (t_matches s2) ?m = Some (mr\<lparr>mr_paused := Some ?left, mr_deadline := None\<rparr>)" "t_phases s2 = t_phases s1"
    by (rule deadline_runs [OF m1, of None]) auto
  obtain s3 where s3: "set_deadline ?m (Some (t2 + ?left)) s2 = Inr s3"
      "map_of (t_matches s3) ?m = Some (mr\<lparr>mr_paused := Some ?left, mr_deadline := Some (t2 + ?left)\<rparr>)"
      "t_phases s3 = t_phases s2"
    by (rule deadline_runs [OF s2(2), of "Some (t2 + ?left)"]) auto
  obtain s4 where s4: "set_paused_remaining_seconds ?m None s3 = Inr s4"
    using s3(2) by (simp add: set_paused_remaining_seconds_def update_match_def)
  have m4: "map_of (t_matches s4) ?m = Some (mr\<lparr>mr_paused := None, mr_deadline := Some (t2 + ?left)\<rparr>)"
    using s3(2) by (simp add: frame_paused(8) [OF s4])
  have pause: "pause E (Some t1) c = (Inr (), c\<lparr>co_store := s2\<rparr>)"
    using mr s1 s2(1) by (simp add: pause_def time_or_now_def act_simps read_store_def get_deadline_def match_column_def
        on_store_run act_bind_def)
  have idle: "check_deadline E (Some t) (c\<lparr>co_store := s2\<rparr>) = (Inr (), c\<lparr>co_store := s2\<rparr>)" for t
    using s2(2) by (simp add: check_deadline_def time_or_now_def act_simps read_store_def get_deadline_def match_column_def)
  have resume: "resume E (Some t2) (c\<lparr>co_store := s2\<rparr>) = (Inr (), c\<lparr>co_store := s4, co_warned := False\<rparr>)"
    using s2(2) s3(1) s4
    by (simp add: resume_def time_or_now_def act_simps read_store_def get_paused_remaining_seconds_def match_column_def
        on_store_run act_bind_def set_warned_def)
  have "t_phases s4 = t_phases (co_store c)" by (simp add: frame_paused(3) [OF s4] s3(3) s2(3) frame_paused(3) [OF s1])
  then have "get_hash_chain s4 ?m = get_hash_chain (co_store c) ?m" by (rule chain_frame)
  then show ?thesis using pause idle resume m4 mr
    by (intro exI [of _ "c\<lparr>co_store := s2\<rparr>"] exI [of _ "c\<lparr>co_store := s4, co_warned := False\<rparr>"])
      (simp add: get_deadline_def match_column_def get_match_def)
qed

definition timed_match :: store where
  "timed_match = empty_store\<lparr>t_matches := [(''m'', playing_match\<lparr>mr_deadline := Some 100\<rparr>)]\<rparr>"

theorem pause_keeps_time_witness:
  "\<exists>c1 c2. pause quiet_environment (Some 40) (new_coordinator ''m'' timed_match None) = (Inr (), c1) \<and>
     resume quiet_environment (Some 500) c1 = (Inr (), c2) \<and> get_deadline (co_store c2) ''m'' = Inr (Some 560)"
proof -
  let ?c = "new_coordinator ''m'' timed_match None"
  have id: "co_match_id ?c = ''m''" by (simp add: new_coordinator_def)
  have "get_deadline (co_store ?c) (co_match_id ?c) = Inr (Some 100)"
    by (simp add: new_coordinator_def timed_match_def get_deadline_def match_column_def)
  from pause_keeps_time [OF this, of quiet_environment 40 500]
  have "\<exists>c1 c2. pause quiet_environment (Some 40) ?c = (Inr (), c1) \<and> resume quiet_environment (Some 500) c1 = (Inr (), c2) \<and>
      get_deadline (co_store c2) ''m'' = Inr (Some (500 + max (100 - 40) 0))"
    unfolding id by blast
  then show ?thesis by simp
qed

text \<open>A phase that the operator advances while the match is paused leaves the time of the old pause behind:
  resuming afterwards replaces the deadline of the new phase, whatever it is.\<close>

lemma resume_replaces_deadline:
  assumes "get_paused_remaining_seconds (co_store c) (co_match_id c) = Inr (Some r)"
  obtains c' where "resume E (Some t) c = (Inr (), c')"
    "get_deadline (co_store c') (co_match_id c) = Inr (Some (t + r))"
proof -
  let ?m = "co_match_id c"
  obtain mr where mr: "map_of (t_matches (co_store c)) ?m = Some mr" "mr_paused mr = Some r"
    using assms by (auto simp: get_paused_remaining_seconds_def match_column_def split: option.splits)
  obtain s1 where s1: "set_deadline ?m (Some (t + r)) (co_store c) = Inr s1"
      "map_of (t_matches s1) ?m = Some (mr\<lparr>mr_deadline := Some (t + r)\<rparr>)"
    by (rule deadline_runs [OF mr(1)])
  obtain s2 where s2: "set_paused_remaining_seconds ?m None s1 = Inr s2"
    using s1(2) by (simp add: set_paused_remaining_seconds_def update_match_def)
  have "resume E (Some t) c = (Inr (), c\<lparr>co_store := s2, co_warned := False\<rparr>)"
    using mr s1(1) s2
    by (simp add: resume_def time_or_now_def act_simps read_store_def get_paused_remaining_seconds_def match_column_def
        on_store_run act_bind_def set_warned_def)
  then show thesis
    by (rule that) (simp add: get_deadline_def match_column_def frame_paused(8) [OF s2] s1(2))
qed

section \<open>Unreadable messages\<close>

text \<open>A message that is too large stops the whole poll: \<open>decode_message\<close> raises an exception that is
  neither a decoding nor a validation error, it leaves \<open>poll\<close> although \<open>poll\<close> has taken every message
  from the transport, and none of the messages behind it is handled, nor the deadline checked.\<close>

theorem oversized_message_stops_poll:
  assumes "fromhex sender = Inr pk" and "MAX_MESSAGE_SIZE < length data"
  shows "poll E ((sender, data) # inbound) c = (Inl MessageTooLargeError, c)"
proof -
  have "read_message (env_externals E) data = Inl MessageTooLargeError"
    using assms(2) by (simp add: read_message_def decode_message_def)
  then have "handle_inbound E sender data c = (Inl MessageTooLargeError, c)"
    using assms(1) by (simp add: handle_inbound_def act_simps is_malformed_def)
  then show ?thesis by (simp add: poll_def act_bind_def)
qed

theorem oversized_message_stops_poll_witness:
  "poll quiet_environment [(''0a'', replicate 70000 0), (''0a'', [])] (new_coordinator ''m'' full_lobby None) =
     (Inl MessageTooLargeError, new_coordinator ''m'' full_lobby None)"
  by (rule oversized_message_stops_poll [where pk = "[10]"])
    (simp_all add: MAX_MESSAGE_SIZE_def, code_simp)

end
