(* ===== verification/Game_Play.thy ===== *)
theory Game_Play
  imports Game_Rules Match_Advance
begin

text \<open>
  The coordinator plays by the rules: whatever messages arrive and whatever the operator does, the boards
  that \<open>MatchCoordinator\<close> (\<^verbatim>\<open>coordinator/match.py\<close>) records are those of a \<open>game\<close>, and a match that has
  opened its first orders can always be advanced. The invariant \<open>in_play\<close> says where the match stands: the
  recorded links are the positions of a game whose last position is the current phase, and the orders on
  record for the current turn are decodable and were validated on the board of the turn.
\<close>

section \<open>The invariant\<close>

definition recorded :: "externals \<Rightarrow> phase_row \<Rightarrow> position \<Rightarrow> bool" where
  "recorded X row p \<longleftrightarrow> ph_turn row = po_turn p \<and> ph_phase row = po_phase p \<and>
     game_state_from_canonical_bytes X (ph_state row) = Inr (po_board p)"

definition records :: "externals \<Rightarrow> string \<Rightarrow> store \<Rightarrow> position list \<Rightarrow> bool" where
  "records X m s g \<longleftrightarrow> list_all2 (recorded X) (get_hash_chain s m) g"

text \<open>A record may also stop before the first orders: nothing, or the link of \<open>MATCH_START\<close> alone.\<close>

definition unopened :: "position list \<Rightarrow> bool" where
  "unopened g \<longleftrightarrow> g = [] \<or> g = [pos 1 DIPLOMACY start_board]"

definition orders_upto :: "string \<Rightarrow> int \<Rightarrow> store \<Rightarrow> bool" where
  "orders_upto m t s \<longleftrightarrow> (\<forall>r\<in>set (t_orders s). or_match r = m \<longrightarrow> or_turn r \<le> t)"

definition orders_valid :: "externals \<Rightarrow> string \<Rightarrow> int \<Rightarrow> GameState \<Rightarrow> store \<Rightarrow> bool" where
  "orders_valid X m t b s \<longleftrightarrow>
     (\<forall>r\<in>set (t_orders s). or_match r = m \<and> or_turn r = t \<and> or_status r = order_state_value ACCEPTED \<longrightarrow>
       (\<exists>f ords. get_player_faction s m (or_public_key r) = Some f \<and> decode_orders X (or_blob r) = Inr ords \<and>
         validate_orders b f ords = []))"

definition standing :: "externals \<Rightarrow> string \<Rightarrow> store \<Rightarrow> MatchState \<Rightarrow> position list \<Rightarrow> bool" where
  "standing X m s st g \<longleftrightarrow>
     (case ms_phase st of
        ORDERS \<Rightarrow> \<exists>g' b. g = g' @ [pos (ms_turn st) ORDERS b] \<and> orders_valid X m (ms_turn st) b s
      | RETREAT \<Rightarrow> \<exists>g' b b1 eff. g = g' @ [pos (ms_turn st) ORDERS b, pos (ms_turn st) RETREAT (state_norm b1)] \<and>
          orders_on_board b eff \<and> get_effective_orders X s m (ms_turn st) = Inr eff \<and>
          movement_phase eff b = Inr (b1, True)
      | BUILD \<Rightarrow> \<exists>g' b. g = g' @ [pos (ms_turn st) BUILD b]
      | _ \<Rightarrow> False)"

definition stands :: "externals \<Rightarrow> string \<Rightarrow> store \<Rightarrow> MatchState \<Rightarrow> bool" where
  "stands X m s st \<longleftrightarrow> match_invariant st \<and> sql_range (ms_turn st) \<and>
     (case ms_status st of
        LOBBY \<Rightarrow> orders_upto m 0 s
      | ACTIVE \<Rightarrow>
          if ms_phase st = DIPLOMACY then ms_turn st = 1 \<and> orders_upto m 0 s \<and> (\<exists>g. unopened g \<and> records X m s g)
          else orders_upto m (ms_turn st) s \<and> (\<exists>g. game g \<and> records X m s g \<and> standing X m s st g)
      | COMPLETED \<Rightarrow> \<exists>g. (unopened g \<or> game g) \<and> records X m s g)"

definition in_play :: "externals \<Rightarrow> string \<Rightarrow> store \<Rightarrow> bool" where
  "in_play X m s \<longleftrightarrow> history_ok X m s \<and> (\<forall>st c. get_match s m = Some (st, c) \<longrightarrow> stands X m s st)"

section \<open>Reading the record\<close>

lemma recorded_board_at:
  assumes "history_ok X m s" "records X m s g" "pos t ph b \<in> set g" "sql_range t"
  shows "recorded_board X m s t ph b"
proof -
  obtain row where row: "row \<in> set (get_hash_chain s m)" "ph_turn row = t" "ph_phase row = ph"
    "game_state_from_canonical_bytes X (ph_state row) = Inr b"
    using list_all2_right [OF assms(2) [unfolded records_def] assms(3)] by (auto simp: recorded_def)
  have d: "distinct (map phase_key (t_phases s))" using assms(1) by (auto simp: history_ok_def store_ok_def)
  have mem: "row \<in> set (t_phases s)" "phase_key row = (m, t, ph)"
    using row by (auto simp: get_hash_chain_def phase_key_def)
  have "find (\<lambda>r. phase_key r = (m, t, ph)) (t_phases s) = Some row"
  proof (cases "find (\<lambda>r. phase_key r = (m, t, ph)) (t_phases s)")
    case None
    with mem show ?thesis by (auto simp: find_None_iff)
  next
    case (Some r)
    then have "r \<in> set (t_phases s)" "phase_key r = phase_key row"
      using mem by (auto simp: find_Some_iff)
    with d mem(1) have "r = row" by (auto simp: distinct_map inj_on_def)
    with Some show ?thesis by simp
  qed
  then show ?thesis using row(4) assms(4) by (auto simp: recorded_board_def get_phase_result_def with_ints_def)
qed

lemma loaded_is_recorded:
  assumes "recorded_board X m s (ms_turn st) (ms_phase st) b" "loaded_board X m s st gs"
  shows "gs = b"
  using assms by (auto simp: recorded_board_def loaded_board_def)

text \<open>Validated orders can be adjudicated, and are for units on the board.\<close>

lemma effective_total:
  assumes "\<And>r. r \<in> set rows \<Longrightarrow> or_status r = order_state_value ACCEPTED \<Longrightarrow> \<exists>ords. decode_orders X (or_blob r) = Inr ords"
  shows "\<exists>eff. fold_result (add_record X) rows d = Inr eff"
  using assms
proof (induction rows arbitrary: d)
  case Nil
  then show ?case by simp
next
  case (Cons r rows)
  obtain d' where "add_record X r d = Inr d'"
    using Cons.prems [of r] by (cases "or_status r = order_state_value ACCEPTED") (auto simp: add_record_def)
  with Cons show ?case by simp
qed

lemma valid_orders_effective:
  assumes "store_ok s" "orders_valid X m t b s" "sql_range t"
  obtains eff where "get_effective_orders X s m t = Inr eff" "orders_on_board b eff"
    "\<And>r ord. map_of eff r = Some ord \<Longrightarrow> \<exists>k row f. latest_order s m k t = Some row \<and> contributes X row ord \<and>
      get_player_faction s m k = Some f \<and> (\<exists>u\<in>set (units b). region_id u = r \<and> faction_id u = f)"
proof -
  have latest: "r \<in> set (t_orders s) \<and> or_match r = m \<and> or_turn r = t" if "r \<in> set (latest_orders_for_turn s m t)" for r
    using that by (auto simp: latest_orders_for_turn_def)
  have "\<exists>ords. decode_orders X (or_blob r) = Inr ords"
    if "r \<in> set (latest_orders_for_turn s m t)" "or_status r = order_state_value ACCEPTED" for r
    using assms(2) latest [OF that(1)] that(2) unfolding orders_valid_def by blast
  from effective_total [OF this, of "latest_orders_for_turn s m t" "[]"] assms(3)
  obtain eff where eff: "get_effective_orders X s m t = Inr eff" by (auto simp only: get_effective_orders_Inr)
  have own: "\<exists>k row f. latest_order s m k t = Some row \<and> contributes X row ord \<and> unit_region_id ord = r \<and>
      get_player_faction s m k = Some f \<and> (\<exists>u\<in>set (units b). region_id u = r \<and> faction_id u = f)"
    if "map_of eff r = Some ord" for r ord
  proof -
    from eff have "fold_result (add_record X) (latest_orders_for_turn s m t) [] = Inr eff"
      by (simp add: get_effective_orders_Inr)
    from effective_fold(1) [OF this that] obtain row where
      row: "row \<in> set (latest_orders_for_turn s m t)" "contributes X row ord" "unit_region_id ord = r" by auto
    then obtain f ords where f: "get_player_faction s m (or_public_key row) = Some f"
      "decode_orders X (or_blob row) = Inr ords" "validate_orders b f ords = []"
      using latest assms(2) unfolding orders_valid_def contributes_def by blast
    then have "\<exists>u\<in>set (units b). region_id u = r \<and> faction_id u = f"
      using row(2,3) by (force simp: contributes_def validate_orders_def validate_loop_Nil get_units_for_faction_def)
    with f(1) row show ?thesis using latest_orders_for_turn_set [OF assms(1)] by blast
  qed
  have "orders_on_board b eff"
    unfolding orders_on_board_def using own by (metis image_eqI)
  with eff own show thesis by (intro that) blast+
qed

section \<open>Messages and pauses keep the invariant\<close>

lemma standing_frame:
  assumes "standing X m s st g" "t_orders s' = t_orders s"
    and "\<And>k f. get_player_faction s m k = Some f \<Longrightarrow> get_player_faction s' m k = Some f"
  shows "standing X m s' st g"
proof -
  have "get_effective_orders X s' m t = get_effective_orders X s m t" for t
    using assms(2) by (simp add: get_effective_orders_def get_latest_orders_for_turn_def latest_orders_for_turn_def)
  moreover have "orders_valid X m t b s'" if "orders_valid X m t b s" for t b
    using that assms(2,3) unfolding orders_valid_def by (metis (no_types, lifting))
  ultimately show ?thesis using assms(1) by (auto simp: standing_def split: Phase.splits)
qed

lemma stands_frame:
  assumes "stands X m s st" "t_orders s' = t_orders s" "get_hash_chain s' m = get_hash_chain s m"
    and "\<And>k f. get_player_faction s m k = Some f \<Longrightarrow> get_player_faction s' m k = Some f"
  shows "stands X m s' st"
proof -
  have "orders_upto m t s' = orders_upto m t s" "records X m s' g = records X m s g" for t g
    using assms(2,3) by (simp_all add: orders_upto_def records_def)
  with assms(1) standing_frame [OF _ assms(2,4), of X st] show ?thesis
    by (auto simp: stands_def split: MatchStatus.splits if_splits)
qed

definition plays :: "externals \<Rightarrow> string \<Rightarrow> store \<Rightarrow> store \<Rightarrow> bool" where
  "plays X m s s' \<longleftrightarrow> (codec_ok X \<and> in_play X m s \<longrightarrow> in_play X m s')"

lemma plays_frame:
  assumes "history_grows X m s s'" "\<And>c st. get_match s' m = Some (st, c) \<Longrightarrow> \<exists>c. get_match s m = Some (st, c)"
    and "t_orders s' = t_orders s" "get_hash_chain s' m = get_hash_chain s m"
    and "\<And>k f. get_player_faction s m k = Some f \<Longrightarrow> get_player_faction s' m k = Some f"
  shows "plays X m s s'"
  unfolding plays_def in_play_def
proof (intro impI conjI allI)
  assume p: "codec_ok X \<and> history_ok X m s \<and> (\<forall>st c. get_match s m = Some (st, c) \<longrightarrow> stands X m s st)"
  then show "history_ok X m s'" using assms(1) by (simp add: history_grows_def)
  fix st c assume "get_match s' m = Some (st, c)"
  then have "stands X m s st" using assms(2) p by blast
  then show "stands X m s' st" by (rule stands_frame [OF _ assms(3-5)])
qed

lemma plays_other:
  assumes "history_grows X m s s'" "t_matches s' = t_matches s" "t_orders s' = t_orders s" "t_phases s' = t_phases s"
    and "\<And>k f. get_player_faction s m k = Some f \<Longrightarrow> get_player_faction s' m k = Some f"
  shows "plays X m s s'"
proof (rule plays_frame [OF assms(1) _ assms(3) _ assms(5)])
  fix c st assume "get_match s' m = Some (st, c)"
  then have "get_match s m = Some (st, c)" by (simp only: get_match_def assms(2))
  then show "\<exists>c. get_match s m = Some (st, c)" ..
qed (simp_all add: get_hash_chain_def assms(4))

lemma orders_phase_active:
  assumes "match_invariant st" "ms_phase st = ORDERS"
  shows "ms_status st \<noteq> LOBBY"
  using assms by (auto simp: match_invariant_def initial_match_state_def)

text \<open>A change of the order rows of the current turn.\<close>

lemma plays_orders:
  assumes "history_grows X m s s'" "get_match s m = Some (st, c)" "get_match s' m = get_match s m" "ms_phase st = ORDERS"
    and "get_hash_chain s' m = get_hash_chain s m"
    and upto: "orders_upto m (ms_turn st) s \<Longrightarrow> orders_upto m (ms_turn st) s'"
    and valid: "\<And>b. codec_ok X \<Longrightarrow> recorded_board X m s (ms_turn st) ORDERS b \<Longrightarrow> orders_valid X m (ms_turn st) b s \<Longrightarrow>
      orders_valid X m (ms_turn st) b s'"
  shows "plays X m s s'"
  unfolding plays_def in_play_def
proof (intro impI conjI allI)
  assume p: "codec_ok X \<and> history_ok X m s \<and> (\<forall>st c. get_match s m = Some (st, c) \<longrightarrow> stands X m s st)"
  then show "history_ok X m s'" using assms(1) by (simp add: history_grows_def)
  fix st' c' assume "get_match s' m = Some (st', c')"
  then have st': "st' = st" using assms(2,3) by simp
  have st: "stands X m s st" using p assms(2) by blast
  have rec: "records X m s' g = records X m s g" for g using assms(5) by (simp add: records_def)
  have "standing X m s' st g" if g: "standing X m s st g" "records X m s g" for g
  proof -
    from g(1) obtain g' b where b: "g = g' @ [pos (ms_turn st) ORDERS b]" "orders_valid X m (ms_turn st) b s"
      using assms(4) by (auto simp: standing_def)
    have "recorded_board X m s (ms_turn st) ORDERS b"
      by (rule recorded_board_at [OF _ g(2)]) (use p st b(1) in \<open>auto simp: stands_def\<close>)
    with valid p b show ?thesis using assms(4) by (simp add: standing_def)
  qed
  with st upto show "stands X m s' st'"
    unfolding st' using orders_phase_active [of st] assms(4) by (auto simp: stands_def rec split: MatchStatus.splits)
qed

lemma plays_column:
  assumes "update_match m f s = Inr s'" "\<And>r. mr_state (f r) = mr_state r" "history_grows X m s s'"
  shows "plays X m s s'"
proof (rule plays_frame [OF assms(3)])
  note fr = frame_update_match [OF assms(1)]
  show "\<exists>c. get_match s m = Some (st, c)" if "get_match s' m = Some (st, c)" for c st
    using that assms(2) fr(8) by (auto simp: get_match_row split: if_splits option.splits)
qed (use frame_update_match [OF assms(1)] in \<open>simp_all add: get_hash_chain_def get_player_faction_def\<close>)

lemma plays_written:
  assumes "order_written X m k st b os s" "record_order_submission m k (ms_turn st) rv b h os tm s = Inr s'"
    and grows: "history_grows X m s s'"
  shows "plays X m s s'"
proof -
  note fr = frame_record_order [OF assms(2)]
  obtain c where m: "get_match s m = Some (st, c)" and ph: "ms_phase st = ORDERS"
    using assms(1) by (auto simp: order_written_def)
  let ?row = "\<lparr>or_match = m, or_public_key = k, or_turn = ms_turn st, or_revision = rv, or_blob = b, or_hash = h,
      or_status = os, or_submitted_at = tm\<rparr>"
  have rows: "t_orders s' = t_orders s @ [?row]"
    using assms(2) by (auto simp: record_order_submission_def insert_row_Inr)
  have same: "get_match s' m = get_match s m" "get_player_faction s' = get_player_faction s"
    "get_hash_chain s' m = get_hash_chain s m"
    by (simp_all add: get_match_def get_player_faction_def get_hash_chain_def fr fun_eq_iff)
  show ?thesis
  proof (rule plays_orders [OF grows m same(1) ph same(3)])
    show "orders_upto m (ms_turn st) s'" if "orders_upto m (ms_turn st) s"
      using that by (simp add: orders_upto_def rows)
  next
    fix bd assume codec: "codec_ok X" and board: "recorded_board X m s (ms_turn st) ORDERS bd"
      and old: "orders_valid X m (ms_turn st) bd s"
    have "\<exists>f ords. get_player_faction s m k = Some f \<and> decode_orders X b = Inr ords \<and> validate_orders bd f ords = []"
      if acc: "os = order_state_value ACCEPTED"
    proof -
      obtain f gs ords where w: "get_player_faction s m k = Some f" "loaded_board X m s st gs" "encode_orders X ords = Inr b"
        "validate_orders gs f ords = []"
        using assms(1) acc unfolding order_written_def by blast
      have "gs = bd" by (rule loaded_is_recorded [OF board [folded ph] w(2)])
      with w decode_encode_orders [OF codec w(3)] show ?thesis by blast
    qed
    with old show "orders_valid X m (ms_turn st) bd s'" by (simp add: orders_valid_def rows same(2))
  qed
qed

lemma plays_superseded:
  assumes "get_match s m = Some (st, c)" "ms_phase st = ORDERS"
    and "update_order_status m k (ms_turn st) rv (order_state_value SUPERSEDED) s = Inr s'"
    and grows: "history_grows X m s s'"
  shows "plays X m s s'"
proof -
  note fr = frame_order_status [OF assms(3)]
  have rows: "\<exists>r\<in>set (t_orders s). or_match r = or_match r' \<and> or_turn r = or_turn r' \<and> or_public_key r = or_public_key r' \<and>
      or_blob r = or_blob r' \<and> (or_status r' = or_status r \<or> or_status r' = order_state_value SUPERSEDED)"
    if "r' \<in> set (t_orders s')" for r'
    using that assms(3)
    by (auto simp: update_order_status_def with_ints_Inr Let_def split: if_splits) blast+
  have same: "get_match s' m = get_match s m" "get_player_faction s' = get_player_faction s"
    "get_hash_chain s' m = get_hash_chain s m"
    by (simp_all add: get_match_def get_player_faction_def get_hash_chain_def fr fun_eq_iff)
  have differ: "order_state_value SUPERSEDED \<noteq> order_state_value ACCEPTED" by simp
  show ?thesis
  proof (rule plays_orders [OF grows assms(1) same(1) assms(2) same(3)])
    show "orders_upto m (ms_turn st) s'" if "orders_upto m (ms_turn st) s"
      using that rows unfolding orders_upto_def by metis
  next
    fix bd assume "orders_valid X m (ms_turn st) bd s"
    then show "orders_valid X m (ms_turn st) bd s'"
      using rows differ unfolding orders_valid_def same(2) by (metis (no_types, lifting))
  qed
qed

lemma plays_finish:
  assumes "get_match s m = Some (st, c)" "fsm_end_match st = Inr st'" "save_match_state m st' s = Inr s'"
    and grows: "history_grows X m s s'"
  shows "plays X m s s'"
  unfolding plays_def in_play_def
proof (intro impI conjI allI)
  assume p: "codec_ok X \<and> history_ok X m s \<and> (\<forall>st c. get_match s m = Some (st, c) \<longrightarrow> stands X m s st)"
  then show "history_ok X m s'" using grows by (simp add: history_grows_def)
  note fr = frame_save [OF assms(3)]
  have st': "st' = st\<lparr>ms_status := COMPLETED\<rparr>" "ms_status st = ACTIVE"
    using assms(2) by (auto simp: fsm_end_match_def split: if_splits)
  fix st2 c2 assume "get_match s' m = Some (st2, c2)"
  then have "st2 = st'" using get_match_save [OF assms(3)] assms(1) by simp
  moreover have "stands X m s st" using p assms(1) by blast
  moreover have "records X m s' g = records X m s g" for g by (simp add: records_def get_hash_chain_def fr)
  ultimately show "stands X m s' st2"
    by (auto simp: stands_def st' match_invariant_def split: if_splits)
qed

interpretation playing: handler_relation E "plays (env_externals E)" for E
proof
  let ?X = "env_externals E"
  fix m s s1 s2
  show "plays ?X m s s" by (simp add: plays_def)
  show "plays ?X m s s1 \<Longrightarrow> plays ?X m s1 s2 \<Longrightarrow> plays ?X m s s2" by (simp add: plays_def)
next
  fix m k f nm tm s s'
  assume add: "add_player m k f nm tm s = Inr s'"
  show "plays (env_externals E) m s s'"
    by (rule plays_other [OF history.Q_player [OF add]])
      (use faction_after_add(2) [OF add] frame_add_player [OF add] in simp_all)
next
  fix m tn k v tm s s'
  assume w: "record_draw_vote m tn k v tm s = Inr s'"
  show "plays (env_externals E) m s s'"
    by (rule plays_other [OF history.Q_vote [OF w]])
      (use frame_vote [OF w] in \<open>simp_all add: get_player_faction_def\<close>)
next
  fix m d s s'
  assume w: "set_deadline m d s = Inr s'"
  show "plays (env_externals E) m s s'"
    by (rule plays_column [OF set_deadline_conv [OF w] _ history.Q_deadline [OF w]]) simp
next
  fix m d s s'
  assume w: "set_paused_remaining_seconds m d s = Inr s'"
  show "plays (env_externals E) m s s'"
    by (rule plays_column [OF set_paused_conv [OF w] _ history.Q_paused [OF w]]) simp
next
  fix s m k n s'
  assume "\<And>l. get_last_sequence_number s m k = Some l \<Longrightarrow> l < n" and w: "record_sequence_number m k n s = Inr s'"
  from history.Q_sequence [OF this] show "plays (env_externals E) m s s'"
    by (rule plays_other) (use frame_sequence [OF w] in \<open>simp_all add: get_player_faction_def\<close>)
next
  fix m k st b os s rv h tm s'
  assume "order_written (env_externals E) m k st b os s" and w: "record_order_submission m k (ms_turn st) rv b h os tm s = Inr s'"
  then show "plays (env_externals E) m s s'" by (rule plays_written [OF _ _ history.Q_order [OF w]])
next
  fix s m st c k rv s'
  assume "get_match s m = Some (st, c)" "ms_phase st = ORDERS"
    and w: "update_order_status m k (ms_turn st) rv (order_state_value SUPERSEDED) s = Inr s'"
  then show "plays (env_externals E) m s s'" by (rule plays_superseded [OF _ _ _ history.Q_status [OF w]])
next
  fix s m st c st' s'
  assume f: "get_match s m = Some (st, c)" "fsm_end_match st = Inr st'" "save_match_state m st' s = Inr s'"
  then show "plays (env_externals E) m s s'" by (rule plays_finish [OF _ _ _ history.Q_finish [OF f]])
qed

section \<open>Advancing keeps the invariant\<close>

text \<open>Packing the canonical form of a board succeeds.\<close>

definition packs_boards :: "externals \<Rightarrow> bool" where
  "packs_boards X \<longleftrightarrow> (\<forall>st. turn st = 1 \<and> year st = 1 \<longrightarrow> (\<exists>b. canonical_bytes X st = Inr b))"

lemma advance_now:
  "advance_phase E None c = advance_phase E (Some (env_clock E (co_readings c))) (c\<lparr>co_readings := co_readings c + 1\<rparr>)"
  by (simp add: advance_phase_def time_or_now_def now_def act_bind_def act_run)

lemma advance_refused:
  assumes "\<And>st t. get_match (co_store c) (co_match_id c) = Some (st, t) \<Longrightarrow> ms_status st \<noteq> ACTIVE \<or> ms_phase st = DIPLOMACY"
  shows "co_store (snd (advance_phase E (Some tm) c)) = co_store c"
proof (cases "\<exists>st key. require_match_state c = (Inr st, c) \<and> read_store (\<lambda>m s. load_coordinator_identity s m) c = (Inr key, c)")
  case True
  then obtain st key where st: "require_match_state c = (Inr st, c)"
    and key: "read_store (\<lambda>m s. load_coordinator_identity s m) c = (Inr key, c)" by blast
  have "\<exists>e. adjudicate E st c = (Inl e, c)"
  proof (cases "adjudicate E st c")
    case (Pair r c')
    moreover have "c' = c" using reads_same(4) [of E st c] Pair by simp
    moreover have "\<exists>e. r = Inl e"
    proof (cases r)
      case (Inr x)
      with Pair adjudicate_lands(3) [of E st c "fst x" "snd x" c'] have "ms_status st = ACTIVE" by simp
      then have "ms_phase st = DIPLOMACY" using assms st by (auto simp: require_match_state_Inr)
      with Pair Inr show ?thesis by (simp add: adjudicate_def act_run)
    qed simp
    ultimately show ?thesis by simp
  qed
  with st key show ?thesis
    by (auto simp: advance_phase_def time_or_now_def act_bind_run act_run)
next
  case False
  then have "(\<exists>e. require_match_state c = (Inl e, c)) \<or>
      (\<exists>st e. require_match_state c = (Inr st, c) \<and> read_store (\<lambda>m s. load_coordinator_identity s m) c = (Inl e, c))"
    by (cases "fst (require_match_state c)"; cases "load_coordinator_identity (co_store c) (co_match_id c)")
      (auto simp: require_match_state_def read_store_def act_run)
  then show ?thesis by (auto simp: advance_phase_def time_or_now_def act_bind_run act_run)
qed

lemma landing_place:
  assumes "ms_phase st \<in> {ORDERS, RETREAT, BUILD}"
  shows "next_place (ms_turn st) (ms_phase st) d n = (ms_turn (landing_of d n st), ms_phase (landing_of d n st))"
  using assms by (auto simp: next_place_def landing_of_def next_orders_def next_turn_def)

lemma landing_invariant:
  assumes "match_invariant st" "ms_status st = ACTIVE"
  shows "match_invariant (landing_of d n st)"
  using assms by (auto simp: match_invariant_def landing_of_def next_orders_def next_turn_def)

text \<open>A match that stands in a game is ready for the next phase.\<close>

lemma standing_ready:
  assumes "history_ok X m s" "records X m s g" "standing X m s st g" "sql_range (ms_turn st)"
  obtains eff b g' where "phase_ready X m s st eff b" "pos (ms_turn st) (if ms_phase st = BUILD then BUILD else ORDERS) b \<in> set g"
    "ms_phase st \<in> {ORDERS, RETREAT, BUILD}" "ms_phase st \<noteq> BUILD \<longrightarrow> orders_on_board b eff"
    "ms_phase st = ORDERS \<Longrightarrow> g = g' @ [pos (ms_turn st) ORDERS b]"
    "ms_phase st = BUILD \<Longrightarrow> g = g' @ [pos (ms_turn st) BUILD b]"
    "ms_phase st = RETREAT \<Longrightarrow> \<exists>b1. g = g' @ [pos (ms_turn st) ORDERS b, pos (ms_turn st) RETREAT (state_norm b1)] \<and>
      movement_phase eff b = Inr (b1, True)"
proof (cases "ms_phase st")
  case ORDERS
  then obtain g' b where b: "g = g' @ [pos (ms_turn st) ORDERS b]" "orders_valid X m (ms_turn st) b s"
    using assms(3) by (auto simp: standing_def)
  have ok: "store_ok s" using assms(1) by (simp add: history_ok_def)
  obtain eff where eff: "get_effective_orders X s m (ms_turn st) = Inr eff" "orders_on_board b eff"
    by (rule valid_orders_effective [OF ok b(2) assms(4)])
  have "recorded_board X m s (ms_turn st) ORDERS b"
    by (rule recorded_board_at [OF assms(1,2) _ assms(4)]) (simp add: b(1))
  with ORDERS b eff show thesis by (intro that [of eff b g']) (simp_all add: phase_ready_def)
next
  case RETREAT
  then obtain g' b b1 eff where b: "g = g' @ [pos (ms_turn st) ORDERS b, pos (ms_turn st) RETREAT (state_norm b1)]"
    "orders_on_board b eff" "get_effective_orders X s m (ms_turn st) = Inr eff" "movement_phase eff b = Inr (b1, True)"
    using assms(3) by (auto simp: standing_def)
  have "recorded_board X m s (ms_turn st) ORDERS b"
    by (rule recorded_board_at [OF assms(1,2) _ assms(4)]) (simp add: b(1))
  with RETREAT b show thesis by (intro that [of eff b g']) (simp_all add: phase_ready_def)
next
  case BUILD
  then obtain g' b where b: "g = g' @ [pos (ms_turn st) BUILD b]" using assms(3) by (auto simp: standing_def)
  have "recorded_board X m s (ms_turn st) BUILD b"
    by (rule recorded_board_at [OF assms(1,2) _ assms(4)]) (simp add: b)
  with BUILD b show thesis by (intro that [of "[]" b g']) (simp_all add: phase_ready_def)
qed (use assms(3) in \<open>simp_all add: standing_def\<close>)

text \<open>The game goes on with the adjudicated board.\<close>

lemma game_continues:
  fixes st :: MatchState and eff :: "(string, Order) dict" and b b' :: GameState
  defines "landing \<equiv> landing_of (dislodges st eff b) (adjustment_needed b') st"
  assumes g: "game g" and ph: "ms_phase st \<in> {ORDERS, RETREAT, BUILD}"
    and on: "ms_phase st \<noteq> BUILD \<longrightarrow> orders_on_board b eff"
    and last: "ms_phase st = ORDERS \<Longrightarrow> g = g' @ [pos (ms_turn st) ORDERS b]"
      "ms_phase st = BUILD \<Longrightarrow> g = g' @ [pos (ms_turn st) BUILD b]"
      "ms_phase st = RETREAT \<Longrightarrow> \<exists>b1. g = g' @ [pos (ms_turn st) ORDERS b, pos (ms_turn st) RETREAT (state_norm b1)] \<and>
        movement_phase eff b = Inr (b1, True)"
    and res: "resolve_phase (phase_input_of st eff) b = Inr b'"
  shows "game (g @ [pos (ms_turn landing) (ms_phase landing) (state_norm b')])"
    and "ms_phase landing = RETREAT \<Longrightarrow> ms_phase st = ORDERS \<and> ms_turn landing = ms_turn st \<and> movement_phase eff b = Inr (b', True)"
proof -
  note place = landing_place [OF ph, of "dislodges st eff b" "adjustment_needed b'", folded landing_def]
  have mv: "movement_phase eff b = Inr (b', dislodges st eff b)" if ord: "ms_phase st = ORDERS"
  proof -
    obtain b2 where "movement_phase eff b = Inr (b2, has_dislodged (projr (resolve_movement b eff)))"
      "resolve_phase (OrdersPhase eff) b = Inr b2"
      "has_dislodged (projr (resolve_movement b eff)) \<longleftrightarrow> dislodges st eff b"
      using ord by (rule_tac movement_outcome [of eff b]) (auto simp: dislodges_def)
    with res ord show ?thesis by (simp add: phase_input_of_def)
  qed
  show "game (g @ [pos (ms_turn landing) (ms_phase landing) (state_norm b')])"
  proof (cases "ms_phase st")
    case ORDERS
    with game.movement [OF g [unfolded last(1) [OF ORDERS]] _ mv] on place show ?thesis by (simp add: last(1))
  next
    case RETREAT
    obtain b1 where b1: "g = g' @ [pos (ms_turn st) ORDERS b, pos (ms_turn st) RETREAT (state_norm b1)]"
      "movement_phase eff b = Inr (b1, True)" using last(3) [OF RETREAT] by blast
    have "dislodges st eff b = False" using RETREAT by (simp add: dislodges_def)
    with game.retreats [OF g [unfolded b1(1)] _ b1(2)] RETREAT on res place show ?thesis
      by (simp add: b1(1) phase_input_of_def)
  next
    case BUILD
    with game.adjustment [OF g [unfolded last(2) [OF BUILD]]] res place show ?thesis
      by (simp add: last(2) phase_input_of_def next_place_def)
  qed (use ph in simp_all)
  show "ms_phase st = ORDERS \<and> ms_turn landing = ms_turn st \<and> movement_phase eff b = Inr (b', True)"
    if "ms_phase landing = RETREAT"
    using that place mv ph by (auto simp: next_place_def split: if_splits)
qed

lemma resolve_stamps:
  "resolve_phase i st = Inr st' \<Longrightarrow> turn st' = turn st \<and> year st' = year st"
  by (cases i) (auto dest: movement_phase_stamps retreat_phase_stamps simp: build_phase_stamps)

text \<open>The store after an advance of an active match: as before, when the next turn is no number of SQLite, or
  with the next position.\<close>

lemma advance_from_play:
  assumes X: "codec_ok (env_externals E)" "packs_boards (env_externals E)"
    and play: "in_play (env_externals E) m (co_store c)" and m: "co_match_id c = m"
    and get: "get_match (co_store c) m = Some (st, created)" "ms_status st = ACTIVE" "ms_phase st \<noteq> DIPLOMACY"
  obtains g eff b b' where "game g" "records (env_externals E) m (co_store c) g"
    "phase_ready (env_externals E) m (co_store c) st eff b" "resolve_phase (phase_input_of st eff) b = Inr b'"
    "game (g @ [pos (ms_turn (landing_of (dislodges st eff b) (adjustment_needed b') st))
       (ms_phase (landing_of (dislodges st eff b) (adjustment_needed b') st)) (state_norm b')])"
    "\<exists>bs. canonical_bytes (env_externals E) b' = Inr bs"
    "ms_phase (landing_of (dislodges st eff b) (adjustment_needed b') st) = RETREAT \<Longrightarrow>
       ms_phase st = ORDERS \<and> ms_turn (landing_of (dislodges st eff b) (adjustment_needed b') st) = ms_turn st \<and>
       movement_phase eff b = Inr (b', True) \<and> orders_on_board b eff \<and> (\<exists>g'. g = g' @ [pos (ms_turn st) ORDERS b])"
proof -
  let ?X = "env_externals E"
  have hist: "history_ok ?X m (co_store c)" and st: "stands ?X m (co_store c) st"
    using play get(1) by (auto simp: in_play_def)
  from st get(2,3) obtain g where g: "game g" "records ?X m (co_store c) g" "standing ?X m (co_store c) st g"
    and range: "sql_range (ms_turn st)" by (auto simp: stands_def)
  obtain eff b g' where ready: "phase_ready ?X m (co_store c) st eff b"
    "pos (ms_turn st) (if ms_phase st = BUILD then BUILD else ORDERS) b \<in> set g"
    and ph: "ms_phase st \<in> {ORDERS, RETREAT, BUILD}" "ms_phase st \<noteq> BUILD \<longrightarrow> orders_on_board b eff"
    and last: "ms_phase st = ORDERS \<Longrightarrow> g = g' @ [pos (ms_turn st) ORDERS b]"
      "ms_phase st = BUILD \<Longrightarrow> g = g' @ [pos (ms_turn st) BUILD b]"
      "ms_phase st = RETREAT \<Longrightarrow> \<exists>b1. g = g' @ [pos (ms_turn st) ORDERS b, pos (ms_turn st) RETREAT (state_norm b1)] \<and>
        movement_phase eff b = Inr (b1, True)"
    by (rule standing_ready [OF hist g(2,3) range]) blast
  obtain b' where res: "resolve_phase (phase_input_of st eff) b = Inr b'" using phases.step_total by blast
  have "sound_board b" using game_sound [OF g(1)] ready(2) by (auto simp: list_all_iff)
  then have "\<exists>bs. canonical_bytes ?X b' = Inr bs"
    using X(2) resolve_stamps [OF res] by (simp add: packs_boards_def sound_board_def)
  note goes = game_continues [OF g(1) ph last res]
  show thesis
    by (rule that [OF g(1,2) ready(1) res goes(1) \<open>\<exists>bs. canonical_bytes ?X b' = Inr bs\<close>])
      (use goes(2) ph(2) last(1) in auto)
qed

lemma advance_plays:
  assumes X: "codec_ok (env_externals E)" "packs_boards (env_externals E)"
    and play: "in_play (env_externals E) m (co_store c)" and m: "co_match_id c = m"
  shows "in_play (env_externals E) m (co_store (snd (advance_phase E (Some tm) c)))"
proof (cases "\<exists>st created. get_match (co_store c) m = Some (st, created) \<and> ms_status st = ACTIVE \<and> ms_phase st \<noteq> DIPLOMACY")
  case False
  then have "co_store (snd (advance_phase E (Some tm) c)) = co_store c" by (intro advance_refused) (auto simp: m)
  then show ?thesis using play by simp
next
  case True
  then obtain st created where get: "get_match (co_store c) m = Some (st, created)" "ms_status st = ACTIVE"
    "ms_phase st \<noteq> DIPLOMACY" by blast
  let ?X = "env_externals E" and ?s = "co_store (snd (advance_phase E (Some tm) c))"
  have hist: "history_ok ?X m (co_store c)" and st: "stands ?X m (co_store c) st"
    using play get(1) by (auto simp: in_play_def)
  have hist': "history_ok ?X m ?s"
    using history.keep_advance [where c = c and E = E and t = "Some tm"] hist m by (simp add: history.R_def history_grows_def)
  obtain g eff b b' where g: "game g" "records ?X m (co_store c) g" and ready: "phase_ready ?X m (co_store c) st eff b"
    and res: "resolve_phase (phase_input_of st eff) b = Inr b'" and next_game: "game (g @
      [pos (ms_turn (landing_of (dislodges st eff b) (adjustment_needed b') st))
        (ms_phase (landing_of (dislodges st eff b) (adjustment_needed b') st)) (state_norm b')])"
    and packs: "\<exists>bs. canonical_bytes ?X b' = Inr bs" and retreat: "ms_phase (landing_of (dislodges st eff b) (adjustment_needed b') st) = RETREAT \<Longrightarrow>
       ms_phase st = ORDERS \<and> ms_turn (landing_of (dislodges st eff b) (adjustment_needed b') st) = ms_turn st \<and>
       movement_phase eff b = Inr (b', True) \<and> orders_on_board b eff \<and> (\<exists>g'. g = g' @ [pos (ms_turn st) ORDERS b])"
    by (rule advance_from_play [OF X play m get]) blast
  define landing where "landing = landing_of (dislodges st eff b) (adjustment_needed b') st"
  from packs obtain bs where bs: "canonical_bytes ?X b' = Inr bs" ..
  note retreat = retreat [folded landing_def]
  show ?thesis
  proof (cases rule: advance_lands [OF hist m get(1,2) ready res bs, where tm = tm, folded landing_def,
        case_names overflow landed])
    case overflow
    with play show ?thesis by simp
  next
    case (landed seconds row s')
    have s': "?s = s'" using same_store_announce [of "c\<lparr>co_store := s', co_warned := False\<rparr>" E landing row tm "tm + seconds"]
      by (simp add: landed(9) same_store_def)
    have "recorded ?X row (pos (ms_turn landing) (ms_phase landing) (state_norm b'))"
      using decode_canonical [OF X(1) bs] by (simp add: recorded_def landed(3-5))
    then have rec: "records ?X m s' (g @ [pos (ms_turn landing) (ms_phase landing) (state_norm b')])"
      using g(2) by (simp add: records_def landed(6) list_all2_appendI)
    have ph: "ms_phase st \<in> {ORDERS, RETREAT, BUILD}" using ready by (auto simp: phase_ready_def split: if_splits)
    note land = landing_position [OF ph, of "dislodges st eff b" "adjustment_needed b'", folded landing_def]
    have upto: "orders_upto m (ms_turn st) (co_store c)" using st get by (simp add: stands_def)
    have stand: "standing ?X m s' landing (g @ [pos (ms_turn landing) (ms_phase landing) (state_norm b')])"
    proof (cases "ms_phase landing")
      case ORDERS
      then have "ms_turn landing = ms_turn st + 1"
        using ph by (auto simp: landing_def landing_of_def next_orders_def next_turn_def split: if_splits)
      then have "orders_valid ?X m (ms_turn landing) (state_norm b') s'"
        using upto by (force simp: orders_valid_def orders_upto_def landed(10))
      with ORDERS show ?thesis by (simp add: standing_def)
    next
      case RETREAT
      note r = retreat [OF RETREAT]
      have "get_effective_orders ?X s' m (ms_turn st) = Inr eff"
        using ready r landed(10)
        by (simp add: phase_ready_def get_effective_orders_def get_latest_orders_for_turn_def latest_orders_for_turn_def)
      with RETREAT r show ?thesis by (auto simp: standing_def)
    next
      case BUILD
      then show ?thesis by (simp add: standing_def)
    qed (use land(1) in simp_all)
    have inv: "match_invariant landing" "ms_status landing = ACTIVE" "ms_phase landing \<noteq> DIPLOMACY"
      using landing_invariant [of st] st get(2) land(1,3) by (auto simp: stands_def landing_def)
    have "orders_upto m (ms_turn landing) s'" using upto land(4) by (auto simp: orders_upto_def landed(10))
    with inv landed(1) rec stand next_game [folded landing_def] have "stands ?X m s' landing" by (auto simp: stands_def)
    with hist' landed(7) show ?thesis by (auto simp: in_play_def s')
  qed
qed

section \<open>Starting keeps the invariant\<close>

text \<open>\<open>lobby.start_match\<close>, whether it returns or raises.\<close>

lemma lobby_start_plays:
  assumes X: "codec_ok X" and play: "in_play X m s" and key: "load_coordinator_identity s m = Inr key"
  shows "in_play X m (snd (lobby_start_match X m key q t dl s))" (is "in_play X m ?s")
proof -
  have hist': "history_ok X m ?s"
    using grows_start [OF key, of X q t dl] play by (simp add: history_grows_def in_play_def)
  have opened: "stands X m s' (st\<lparr>ms_status := ACTIVE, ms_phase := DIPLOMACY, ms_turn := 1, ms_year := 1\<rparr>)"
    if "unopened g" "records X m s' g" "t_orders s' = t_orders s" "get_match s m = Some (st, c)" "ms_status st = LOBBY" for s' st g c
  proof -
    have "stands X m s st" using play that(4) by (auto simp: in_play_def)
    then have "orders_upto m 0 s'" using that(3,5) by (simp add: stands_def orders_upto_def)
    with that(1,2) show ?thesis by (auto simp: stands_def match_invariant_def sql_range_def)
  qed
  have empty: "get_hash_chain s m = []" if "get_match s m = Some (st, c)" "ms_status st = LOBBY" for st c
    using play that by (auto simp: in_play_def history_ok_def get_match_row)
  show ?thesis
  proof (cases rule: start_match_states [where X = X and m = m and key = key and q = q and t = t and dl = dl and s = s])
    case nothing
    with play show ?thesis by simp
  next
    case (saved st c s1)
    note fr = frame_save [OF saved(3)]
    have "records X m s1 []" using empty [OF saved(1,2)] by (simp add: records_def get_hash_chain_def fr)
    from opened [OF _ this fr(2) saved(1,2)] hist' get_match_save [OF saved(3)] saved(1,4) show ?thesis
      by (auto simp: in_play_def unopened_def)
  next
    case (recorded st c s1 s2 b h)
    note fr = frame_save [OF recorded(3)] and fr2 = frame_record_phase [OF recorded(6)]
    let ?row = "\<lparr>ph_match = m, ph_turn = 1, ph_phase = DIPLOMACY, ph_state = b, ph_hash = h, ph_previous = None,
      ph_signature = sign_with X key (utf8_encode h), ph_resolved_at = t\<rparr>"
    have chain: "get_hash_chain s2 m = [?row]"
      using empty [OF recorded(1,2)] by (simp add: get_hash_chain_def fr fr2)
    have "game_state_from_canonical_bytes X b = Inr start_board"
      unfolding start_board_def by (rule decode_canonical [OF X recorded(4)])
    then have "records X m s2 [pos 1 DIPLOMACY start_board]"
      by (simp add: records_def chain recorded_def)
    moreover have "t_orders ?s = t_orders s2 \<and> get_hash_chain ?s m = get_hash_chain s2 m \<and> (\<exists>c. get_match ?s m = Some (st\<lparr>ms_status := ACTIVE, ms_phase := DIPLOMACY, ms_turn := 1, ms_year := 1\<rparr>, c))"
    proof -
      have g2: "get_match s2 m = Some (st\<lparr>ms_status := ACTIVE, ms_phase := DIPLOMACY, ms_turn := 1, ms_year := 1\<rparr>, c)"
        using get_match_save [OF recorded(3), of m] recorded(1) by (auto simp: get_match_def fr2)
      show ?thesis using recorded(7)
      proof
        assume "set_deadline m (Some dl) s2 = Inr ?s"
        note fr3 = frame_deadline [OF this]
        show ?thesis using g2 fr3 by (auto simp: get_hash_chain_def get_match_row)
      qed (use g2 in simp)
    qed
    ultimately show ?thesis
      using opened [of "[pos 1 DIPLOMACY start_board]" ?s st c] hist' recorded(1,2) fr(2) fr2(2)
      by (auto simp: in_play_def unopened_def records_def)
  qed
qed

text \<open>The rest of \<open>start_match\<close>: from the link of \<open>MATCH_START\<close> to the first orders.\<close>

definition open_orders :: "environment \<Rightarrow> bytes \<Rightarrow> rat \<Rightarrow> rat \<Rightarrow> (coord, unit) act" where
  "open_orders E key current_time deadline =
     act_bind require_match_state (\<lambda>diplomacy_state.
     act_bind (act_try (\<lambda>_. fsm_advance_phase False False diplomacy_state)) (\<lambda>orders_state.
     act_bind (on_store (\<lambda>m. act_write (save_match_state m orders_state))) (\<lambda>_.
     act_bind (persist_phase_result E (ms_turn orders_state) (ms_phase orders_state) create_default_map key
       current_time) (\<lambda>r.
     act_bind (on_store (\<lambda>m. act_write (set_deadline m (Some deadline)))) (\<lambda>_.
     act_bind (set_warned False) (\<lambda>_.
       announce_phase E orders_state r current_time deadline))))))"

lemma start_match_split:
  "start_match E =
     act_bind (read_store (\<lambda>m s. load_coordinator_identity s m)) (\<lambda>key.
     act_bind (now E) (\<lambda>current_time.
     act_bind (act_get (\<lambda>c. expires_at (deadline_after (movement_phase_seconds (co_config c)) current_time)))
       (\<lambda>deadline.
     act_bind next_sequence (\<lambda>q.
     act_bind (on_store (\<lambda>m. lobby_start_match (env_externals E) m key q current_time deadline)) (\<lambda>started.
     act_bind (broadcast_to_all E started) (\<lambda>_. open_orders E key current_time deadline))))))"
  by (simp add: start_match_def open_orders_def)

lemma open_orders_run:
  assumes X: "codec_ok (env_externals E)" "packs_boards (env_externals E)"
    and hist: "history_ok (env_externals E) m (co_store c)" and m: "co_match_id c = m"
    and get: "map_of (t_matches (co_store c)) m = Some mr" "mr_private_key mr = key"
      "mr_state mr = \<lparr>ms_status = ACTIVE, ms_phase = DIPLOMACY, ms_turn = 1, ms_year = 1\<rparr>"
    and rec: "records (env_externals E) m (co_store c) [pos 1 DIPLOMACY start_board]"
  obtains s' where "co_store (snd (open_orders E key tm dl c)) = s'" "t_orders s' = t_orders (co_store c)"
    "records (env_externals E) m s' [pos 1 DIPLOMACY start_board, pos 1 ORDERS start_board]"
    "\<exists>t. get_match s' m = Some (\<lparr>ms_status = ACTIVE, ms_phase = ORDERS, ms_turn = 1, ms_year = 1\<rparr>, t)"
proof -
  let ?X = "env_externals E" and ?s = "co_store c"
  let ?st = "\<lparr>ms_status = ACTIVE, ms_phase = DIPLOMACY, ms_turn = 1, ms_year = 1\<rparr>"
  let ?st' = "\<lparr>ms_status = ACTIVE, ms_phase = ORDERS, ms_turn = 1, ms_year = 1\<rparr>"
  have fsm: "fsm_advance_phase False False ?st = Inr ?st'" by (simp add: fsm_advance_phase_def)
  have st: "get_match ?s m = Some (?st, mr_created_at mr)" using get by (simp add: get_match_row)
  obtain s1 where s1: "save_match_state m ?st' ?s = Inr s1" "map_of (t_matches s1) m = Some (mr\<lparr>mr_state := ?st'\<rparr>)"
    "t_phases s1 = t_phases ?s"
    by (rule save_runs [OF get(1), of ?st']) (simp_all add: sql_range_def)
  have chain1: "get_hash_chain s1 m = get_hash_chain ?s m" by (rule chain_frame [OF s1(3)])
  have ok1: "history_ok ?X m s1"
    using history.Q_step [OF st _ _ s1(1), of E] tranclp.r_into_trancl [of match_step, OF match_step.advance [OF fsm]] hist
    by (simp add: history_grows_def)
  have "turn create_default_map = 1 \<and> year create_default_map = 1" by (simp add: create_default_map_def)
  then obtain b where b: "canonical_bytes ?X create_default_map = Inr b"
    using X(2) unfolding packs_boards_def by blast
  have before: "\<forall>r\<in>set (get_hash_chain s1 m). row_position r < 5 * 1 + (5 - int (phase_rank ORDERS))"
    using rec by (auto simp: records_def chain1 list_all2_Cons2 recorded_def row_position_def)
  obtain row s2 where row: "make_link ?X (mr_private_key mr) (get_latest_phase_result s1 m) m 1 ORDERS create_default_map tm = Inr row"
    "ph_state row = b" "ph_turn row = 1" "ph_phase row = ORDERS"
    "record_phase_result m 1 ORDERS (ph_state row) (ph_hash row) (ph_previous row) (ph_signature row) tm s1 = Inr s2"
    "get_hash_chain s2 m = get_hash_chain s1 m @ [row]" "t_matches s2 = t_matches s1"
    by (rule link_recorded [OF ok1 s1(2) b _ before, where tm = tm]) (simp_all add: sql_range_def)
  have "map_of (t_matches s2) m = Some (mr\<lparr>mr_state := ?st'\<rparr>)" by (simp add: row(7) s1(2))
  then obtain s3 where s3: "set_deadline m (Some dl) s2 = Inr s3"
    "map_of (t_matches s3) m = Some (mr\<lparr>mr_state := ?st', mr_deadline := Some dl\<rparr>)" "t_phases s3 = t_phases s2"
    by (rule deadline_runs) auto
  let ?c1 = "c\<lparr>co_store := s1\<rparr>" and ?c2 = "c\<lparr>co_store := s2\<rparr>" and ?c3 = "c\<lparr>co_store := s3, co_warned := False\<rparr>"
  have "require_match_state c = (Inr ?st, c)" using st m by (simp add: require_match_state_Inr)
  moreover have "on_store (\<lambda>m. act_write (save_match_state m ?st')) c = (Inr (), ?c1)"
    using s1(1) m by (simp add: on_store_run act_write_run)
  moreover have "persist_phase_result E 1 ORDERS create_default_map key tm ?c1 = (Inr row, ?c2)"
    using row(1,5) m get(2)
    by (simp add: persist_phase_result_def act_bind_def act_run read_store_def on_store_run act_write_run)
  moreover have "on_store (\<lambda>m. act_write (set_deadline m (Some dl))) ?c2 = (Inr (), c\<lparr>co_store := s3\<rparr>)"
    using s3(1) m by (simp add: on_store_run act_write_run)
  ultimately have "open_orders E key tm dl c = announce_phase E ?st' row tm dl ?c3"
    using fsm by (simp add: open_orders_def act_bind_run act_run set_warned_def)
  then have store: "co_store (snd (open_orders E key tm dl c)) = s3"
    using same_store_announce [of ?c3 E ?st' row tm dl] by (simp add: same_store_def)
  have "recorded ?X row (pos 1 ORDERS start_board)"
    using decode_canonical [OF X(1) b] row by (simp add: recorded_def start_board_def)
  with rec have rec': "records ?X m s3 [pos 1 DIPLOMACY start_board, pos 1 ORDERS start_board]"
    using row(6) chain1 chain_frame [OF s3(3), of m] by (auto simp: records_def list_all2_Cons2)
  have "t_orders s3 = t_orders ?s"
    using frame_deadline [OF s3(1)] frame_record_phase [OF row(5)] frame_save [OF s1(1)] by simp
  moreover have "get_match s3 m = Some (?st', mr_created_at mr)" by (simp add: get_match_def s3(2))
  ultimately show thesis using store rec' by (intro that [of s3]) auto
qed

lemma lobby_started:
  assumes X: "codec_ok X" and play: "in_play X m s" and key: "load_coordinator_identity s m = Inr key"
    and ran: "lobby_start_match X m key q t dl s = (Inr msg, s')"
  obtains mr where "map_of (t_matches s') m = Some mr" "mr_private_key mr = key"
    "mr_state mr = \<lparr>ms_status = ACTIVE, ms_phase = DIPLOMACY, ms_turn = 1, ms_year = 1\<rparr>"
    "records X m s' [pos 1 DIPLOMACY start_board]" "orders_upto m 0 s'"
proof (rule start_match_Inr [OF ran])
  fix st created b h s1 s2
  assume st: "get_match s m = Some (st, created)" "ms_status st = LOBBY" and b: "canonical_bytes X create_default_map = Inr b"
    and s1: "save_match_state m (st\<lparr>ms_status := ACTIVE, ms_phase := DIPLOMACY, ms_turn := 1, ms_year := 1\<rparr>) s = Inr s1"
    and s2: "record_phase_result m 1 DIPLOMACY b h None (sign_with X key (utf8_encode h)) t s1 = Inr s2"
    and s3: "set_deadline m (Some dl) s2 = Inr s'"
  note fr = frame_save [OF s1] and fr2 = frame_record_phase [OF s2] and fr3 = frame_deadline [OF s3]
  obtain mr where mr: "map_of (t_matches s) m = Some mr" "mr_state mr = st" using st(1) by (auto simp: get_match_row)
  have "mr_private_key mr = key" using key mr(1) by (simp add: identity_row)
  moreover have "orders_upto m 0 s'"
    using play st by (auto simp: in_play_def stands_def orders_upto_def fr fr2 fr3)
  moreover have "get_hash_chain s m = []" using play st by (auto simp: in_play_def history_ok_def get_match_row)
  then have "records X m s' [pos 1 DIPLOMACY start_board]"
    using decode_canonical [OF X b] by (simp add: records_def get_hash_chain_def fr fr2 fr3 recorded_def start_board_def)
  ultimately show thesis
    by (intro that [of "mr\<lparr>mr_state := st\<lparr>ms_status := ACTIVE, ms_phase := DIPLOMACY, ms_turn := 1, ms_year := 1\<rparr>,
        mr_deadline := Some dl\<rparr>"]) (simp_all add: fr fr2 fr3 mr)
qed

text \<open>What \<open>start_match\<close> does once \<open>lobby.start_match\<close> has written to the store: \<open>MATCH_START\<close> goes out, and only
  when every player could be sent it do the first orders open.\<close>

definition lobby_left :: "environment \<Rightarrow> bytes \<Rightarrow> coord \<Rightarrow> message result \<times> coord" where
  "lobby_left E key c =
     (let t = env_clock E (co_readings c);
          d = expires_at (deadline_after (movement_phase_seconds (co_config c)) t);
          (r, s) = lobby_start_match (env_externals E) (co_match_id c) key (co_sequence c + 1) t d (co_store c)
      in (r, c\<lparr>co_readings := co_readings c + 1, co_sequence := co_sequence c + 1, co_store := s\<rparr>))"

lemma start_match_run:
  assumes "load_coordinator_identity (co_store c) (co_match_id c) = Inr key"
  shows "\<exists>tm dl. start_match E c = act_bind (lobby_left E key) (\<lambda>msg.
     act_bind (broadcast_to_all E msg) (\<lambda>_. open_orders E key tm dl)) c"
  using assms
  by (cases "lobby_start_match (env_externals E) (co_match_id c) key (co_sequence c + 1) (env_clock E (co_readings c))
      (expires_at (deadline_after (movement_phase_seconds (co_config c)) (env_clock E (co_readings c)))) (co_store c)")
    (auto simp: start_match_split lobby_left_def Let_def act_bind_def act_run read_store_def now_def next_sequence_def
      on_store_def act_zoom_def split: sum.splits)

lemma start_identity_missing:
  "load_coordinator_identity (co_store c) (co_match_id c) = Inl e \<Longrightarrow> start_match E c = (Inl e, c)"
  by (simp add: start_match_def act_bind_def act_run read_store_def)

lemma lobby_left_cases:
  obtains r s t d where "lobby_left E key c = (r, c\<lparr>co_readings := co_readings c + 1, co_sequence := co_sequence c + 1, co_store := s\<rparr>)"
    "lobby_start_match (env_externals E) (co_match_id c) key (co_sequence c + 1) t d (co_store c) = (r, s)"
proof -
  let ?t = "env_clock E (co_readings c)"
  let ?d = "expires_at (deadline_after (movement_phase_seconds (co_config c)) ?t)"
  obtain r s where "lobby_start_match (env_externals E) (co_match_id c) key (co_sequence c + 1) ?t ?d (co_store c) = (r, s)"
    by fastforce
  then show thesis by (intro that [of r s ?t ?d]) (simp_all add: lobby_left_def)
qed

lemma start_opens:
  assumes X: "codec_ok (env_externals E)" "packs_boards (env_externals E)"
    and play: "in_play (env_externals E) m (co_store c)" and m: "co_match_id c = m"
    and key: "load_coordinator_identity (co_store c) m = Inr key"
    and out: "lobby_left E key c = (Inr msg, c5)" "broadcast_to_all E msg c5 = (Inr u, c6)"
  shows "in_play (env_externals E) m (co_store (snd (start_match E c)))" (is ?plays)
    and "\<exists>t. get_match (co_store (snd (start_match E c))) m =
      Some (\<lparr>ms_status = ACTIVE, ms_phase = ORDERS, ms_turn = 1, ms_year = 1\<rparr>, t)" (is ?opened)
proof -
  let ?X = "env_externals E"
  obtain tm dl where run: "start_match E c = act_bind (lobby_left E key) (\<lambda>msg.
     act_bind (broadcast_to_all E msg) (\<lambda>_. open_orders E key tm dl)) c"
    using start_match_run key m by blast
  obtain s t d where left: "c5 = c\<lparr>co_readings := co_readings c + 1, co_sequence := co_sequence c + 1, co_store := s\<rparr>"
    "lobby_start_match ?X m key (co_sequence c + 1) t d (co_store c) = (Inr msg, s)"
    using out(1) lobby_left_cases [of E key c] m by (metis Pair_inject)
  have c6: "co_match_id c6 = m" "co_store c6 = s"
    using same_store_broadcast [of c5 E msg] out(2) m left(1) by (simp_all add: same_store_def)
  have final: "snd (start_match E c) = snd (open_orders E key tm dl c6)"
    using run out by (simp add: act_bind_def)
  have hist: "history_ok ?X m (co_store (snd (start_match E c)))"
    using history.keep_start [where c = c and E = E] play m by (simp add: history.R_def history_grows_def in_play_def)
  obtain mr where st: "map_of (t_matches (co_store c6)) m = Some mr" "mr_private_key mr = key"
    "mr_state mr = \<lparr>ms_status = ACTIVE, ms_phase = DIPLOMACY, ms_turn = 1, ms_year = 1\<rparr>"
    and rec: "records ?X m (co_store c6) [pos 1 DIPLOMACY start_board]" and upto: "orders_upto m 0 (co_store c6)"
    unfolding c6(2) by (rule lobby_started [OF X(1) play key left(2)])
  have hist6: "history_ok ?X m (co_store c6)"
    using lobby_start_plays [OF X(1) play key, of "co_sequence c + 1" t d] left(2) c6(2) by (simp add: in_play_def)
  obtain s' where s': "co_store (snd (open_orders E key tm dl c6)) = s'" "t_orders s' = t_orders (co_store c6)"
    "records ?X m s' [pos 1 DIPLOMACY start_board, pos 1 ORDERS start_board]"
    "\<exists>t. get_match s' m = Some (\<lparr>ms_status = ACTIVE, ms_phase = ORDERS, ms_turn = 1, ms_year = 1\<rparr>, t)"
    by (rule open_orders_run [OF X hist6 c6(1) st rec])
  have "orders_upto m 1 s'" "orders_valid ?X m 1 start_board s'"
    using upto s'(2) by (force simp: orders_upto_def orders_valid_def)+
  then have "stands ?X m s' \<lparr>ms_status = ACTIVE, ms_phase = ORDERS, ms_turn = 1, ms_year = 1\<rparr>"
    using s'(3) game.start by (auto simp: stands_def match_invariant_def sql_range_def standing_def)
  with hist s'(1,4) final show ?plays ?opened by (auto simp: in_play_def)
qed

lemma start_plays:
  assumes X: "codec_ok (env_externals E)" "packs_boards (env_externals E)"
    and play: "in_play (env_externals E) m (co_store c)" and m: "co_match_id c = m"
  shows "in_play (env_externals E) m (co_store (snd (start_match E c)))"
proof (cases "load_coordinator_identity (co_store c) m")
  case (Inl e)
  with play show ?thesis using m by (simp add: start_identity_missing)
next
  case (Inr key)
  obtain tm dl where run: "start_match E c = act_bind (lobby_left E key) (\<lambda>msg.
     act_bind (broadcast_to_all E msg) (\<lambda>_. open_orders E key tm dl)) c"
    using start_match_run Inr m by blast
  obtain r s t d where left: "lobby_left E key c =
      (r, c\<lparr>co_readings := co_readings c + 1, co_sequence := co_sequence c + 1, co_store := s\<rparr>)"
    "lobby_start_match (env_externals E) m key (co_sequence c + 1) t d (co_store c) = (r, s)"
    by (rule lobby_left_cases [of E key c]) (simp add: m)
  let ?c5 = "c\<lparr>co_readings := co_readings c + 1, co_sequence := co_sequence c + 1, co_store := s\<rparr>"
  have play5: "in_play (env_externals E) m s"
    using lobby_start_plays [OF X(1) play Inr, of "co_sequence c + 1" t d] left(2) by simp
  show ?thesis
  proof (cases "\<exists>msg u c6. r = Inr msg \<and> broadcast_to_all E msg ?c5 = (Inr u, c6)")
    case True
    with left(1) start_opens(1) [OF X play m Inr] show ?thesis by blast
  next
    case False
    then have "co_store (snd (start_match E c)) = s"
      using same_store_broadcast [of ?c5 E "projr r"] run left(1)
      by (cases r; cases "broadcast_to_all E (projr r) ?c5"; cases "fst (broadcast_to_all E (projr r) ?c5)")
        (auto simp: act_bind_def same_store_def)
    with play5 show ?thesis by simp
  qed
qed

end
