(* ===== verification/Typed_Input.thy ===== *)
theory Typed_Input
  imports Match_Facts
begin

text \<open>
  Messages with fields of the annotated types. The dataclasses of the protocol and of the orders do not check
  their annotations, so a message can arrive with, say, a list as the destination of a move or a text as its
  revision. The code then goes on with that value, where the model stops with \<open>Unmodelled\<close>. \<open>typed_event\<close> says
  of the input of an event that it brings no such message; what the handlers read of a typed message is then
  always there.
\<close>

definition typed_data :: "externals \<Rightarrow> bytes \<Rightarrow> bool" where
  "typed_data X data \<longleftrightarrow>
     (case decode_message X data of Inl e \<Rightarrow> e \<noteq> Unmodelled | Inr msg \<Rightarrow> well_typed msg)"

fun typed_event :: "externals \<Rightarrow> event \<Rightarrow> bool" where
  "typed_event X (Inbound sender data) \<longleftrightarrow> typed_data X data"
| "typed_event X (Poll inbound) \<longleftrightarrow> list_all (\<lambda>(sender, data). typed_data X data) inbound"
| "typed_event X _ \<longleftrightarrow> True"

lemma well_typed_field:
  assumes "well_typed msg" "map_of (class_fields (message_type msg)) k = Some h"
  shows "\<exists>v. field_of msg k = Some v \<and> fits h v"
proof -
  have "list_all2 (\<lambda>(k, v) (name, h). k = name \<and> fits h v) vs hs \<Longrightarrow> map_of hs k = Some h \<Longrightarrow>
      \<exists>v. map_of vs k = Some v \<and> fits h v" for vs hs
    by (induction rule: list_all2_induct) (auto split: if_splits)
  with assms show ?thesis unfolding well_typed_def field_of_def by blast
qed

lemma fits_raw:
  "fits HInt v \<longleftrightarrow> (\<exists>i. v = VRaw (CInt i))" "fits HStr v \<longleftrightarrow> (\<exists>s. v = VRaw (CStr s))"
  "fits HBytes v \<longleftrightarrow> (\<exists>b. v = VRaw (CBytes b))" "fits HBool v \<longleftrightarrow> (\<exists>b. v = VRaw (CBool b))"
  "fits HOrder v \<longleftrightarrow> (\<exists>ord. v = VOrder ord)"
  by (auto split: field_value.splits canonical.splits)

lemmas typed_simps = fits.simps(1,6,8,9,10)

lemma orders_of_values: "list_all (fits HOrder) vs \<Longrightarrow> \<exists>ords. map_result order_of_value vs = Inr ords"
  by (induction vs) (auto simp: fits_raw simp del: typed_simps)

text \<open>What the handlers read of a typed message.\<close>

lemma typed_reads:
  assumes "well_typed msg"
  shows "\<exists>n. get_int msg ''sequence_number'' = Inr n"
    and "\<exists>key. replay_key public_key msg = Inr key"
    and "message_type msg = JOIN_REQUEST \<Longrightarrow> \<exists>key. get_bytes msg ''player_public_key'' = Inr key"
    and "message_type msg = JOIN_REQUEST \<Longrightarrow> \<exists>name. get_optional_str msg ''display_name'' = Inr name"
    and "message_type msg = ORDER_SUBMIT \<or> message_type msg = ORDER_UPDATE \<Longrightarrow>
      \<exists>rq. order_request_of msg (get_orders msg ''orders'') = Inr rq"
    and "message_type msg = ORDER_CANCEL \<Longrightarrow> \<exists>rq. order_request_of msg (Inr []) = Inr rq"
    and "message_type msg = STATE_REQUEST \<Longrightarrow> \<exists>r. requested_record msg m s = Inr r"
    and "message_type msg = DRAW_PROPOSE \<or> message_type msg = DRAW_VOTE \<Longrightarrow> \<exists>t. get_int msg ''turn'' = Inr t"
    and "message_type msg = DRAW_VOTE \<Longrightarrow> \<exists>v. get_bool msg ''vote'' = Inr v"
proof -
  note field = well_typed_field [OF assms]
  show "\<exists>n. get_int msg ''sequence_number'' = Inr n"
    using field [of "''sequence_number''" HInt]
    by (auto simp del: typed_simps simp: class_fields_def envelope_fields_def fits_raw get_int_def)
  have key: "\<exists>key. get_bytes msg ''player_public_key'' = Inr key" if "message_type msg = JOIN_REQUEST"
    using field [of "''player_public_key''" HBytes] that
    by (auto simp del: typed_simps simp: class_fields_def envelope_fields_def body_defs fits_raw get_bytes_def)
  then show "message_type msg = JOIN_REQUEST \<Longrightarrow> \<exists>key. get_bytes msg ''player_public_key'' = Inr key" .
  show "\<exists>key. replay_key public_key msg = Inr key" using key by (simp add: replay_key_def)
  show "\<exists>name. get_optional_str msg ''display_name'' = Inr name" if "message_type msg = JOIN_REQUEST"
    using field [of "''display_name''" "HOptional HStr"] that
    by (auto simp del: typed_simps simp: class_fields_def envelope_fields_def body_defs fits_raw get_optional_str_def get_str_def)
  have match: "\<exists>m. get_str msg ''match_id'' = Inr m" and revision: "\<exists>rv. get_int msg ''revision'' = Inr rv"
    if "message_type msg \<in> {ORDER_SUBMIT, ORDER_UPDATE, ORDER_CANCEL}"
    using field [of "''match_id''" HStr] field [of "''revision''" HInt] that
    by (auto simp del: typed_simps simp: class_fields_def envelope_fields_def body_defs fits_raw get_str_def get_int_def)
  have orders: "\<exists>ords. get_orders msg ''orders'' = Inr ords" if "message_type msg \<in> {ORDER_SUBMIT, ORDER_UPDATE}"
  proof -
    have "map_of (class_fields (message_type msg)) ''orders'' = Some (HTuple HOrder)"
      using that by (auto simp: class_fields_def envelope_fields_def body_defs)
    from field [OF this] obtain v where v: "field_of msg ''orders'' = Some v" "fits (HTuple HOrder) v" by blast
    then obtain vs where "field_of msg ''orders'' = Some (VTuple vs)" "list_all (fits HOrder) vs" by (cases v) simp_all
    with orders_of_values show ?thesis by (simp add: get_orders_def)
  qed
  show "\<exists>rq. order_request_of msg (get_orders msg ''orders'') = Inr rq"
    if "message_type msg = ORDER_SUBMIT \<or> message_type msg = ORDER_UPDATE"
    using match revision orders that by (force simp: order_request_of_def)
  show "\<exists>rq. order_request_of msg (Inr []) = Inr rq" if "message_type msg = ORDER_CANCEL"
    using match revision that by (force simp: order_request_of_def)
  show "\<exists>r. requested_record msg m s = Inr r" if "message_type msg = STATE_REQUEST"
    using field [of "''turn''" "HOptional HInt"] that
    by (auto simp del: typed_simps simp: class_fields_def envelope_fields_def body_defs fits_raw requested_record_def get_int_def Let_def)
  show "\<exists>t. get_int msg ''turn'' = Inr t" if "message_type msg = DRAW_PROPOSE \<or> message_type msg = DRAW_VOTE"
    using field [of "''turn''" HInt] that
    by (auto simp del: typed_simps simp: class_fields_def envelope_fields_def body_defs fits_raw get_int_def)
  show "\<exists>v. get_bool msg ''vote'' = Inr v" if "message_type msg = DRAW_VOTE"
    using field [of "''vote''" HBool] that
    by (auto simp del: typed_simps simp: class_fields_def envelope_fields_def body_defs fits_raw get_bool_def)
qed

end
