(* ===== verification/Match_Play.thy ===== *)
theory Match_Play
  imports Game_Play Typed_Input
begin

text \<open>
  Whole matches: any run of messages and operator actions keeps \<open>in_play\<close>, so the recorded boards are those of
  a \<open>game\<close>, a match that has opened its first orders can always be advanced, and a player's orders move only
  the units of the player's own faction.
\<close>

section \<open>Any run keeps the invariant\<close>

lemma advance_keeps:
  assumes "packs_boards (env_externals E)"
  shows "playing.R E c (snd (advance_phase E t c))"
proof -
  have some: "playing.R E c (snd (advance_phase E (Some tm) c))" for tm c
    using advance_plays [OF _ assms, of "co_match_id c" c tm] history.keep_advance [where c = c and E = E and t = "Some tm"]
    by (simp add: playing.R_def plays_def history.R_def)
  show ?thesis
  proof (cases t)
    case None
    then show ?thesis
      using some [of "c\<lparr>co_readings := co_readings c + 1\<rparr>"] by (simp add: advance_now playing.R_def)
  qed (use some in simp)
qed

lemma start_keeps:
  assumes "packs_boards (env_externals E)"
  shows "playing.R E c (snd (start_match E c))"
  using start_plays [OF _ assms, of "co_match_id c" c] history.keep_start [where c = c and E = E]
  by (simp add: playing.R_def plays_def history.R_def)

lemma run_keeps_play:
  assumes "packs_boards (env_externals E)"
  shows "playing.R E c (run E es c)"
  by (rule playing.events_keep) (rule start_keeps [OF assms], rule advance_keeps [OF assms])

text \<open>A match that was just created, or is filling up, is where a record begins.\<close>

definition in_lobby :: "externals \<Rightarrow> string \<Rightarrow> store \<Rightarrow> bool" where
  "in_lobby X m s \<longleftrightarrow> history_ok X m s \<and> (\<exists>c. get_match s m = Some (initial_match_state, c)) \<and>
     list_all (\<lambda>r. or_match r \<noteq> m) (t_orders s)"

lemma in_lobby_play: "in_lobby X m s \<Longrightarrow> in_play X m s"
  by (auto simp: in_lobby_def in_play_def stands_def match_invariant_def initial_match_state_def sql_range_def
      orders_upto_def list_all_iff)

lemma run_in_play:
  assumes "codec_ok (env_externals E)" "packs_boards (env_externals E)"
    and "in_lobby (env_externals E) (co_match_id c) (co_store c)"
  shows "in_play (env_externals E) (co_match_id c) (co_store (run E es c))" "co_match_id (run E es c) = co_match_id c"
  using run_keeps_play [OF assms(2), of c es] in_lobby_play [OF assms(3)] assms(1)
  by (simp_all add: playing.R_def plays_def)

section \<open>A match that opens\<close>

text \<open>Seven players on a transport that never fails, with phases of a minute.\<close>

definition minute :: MatchConfig where
  "minute = \<lparr>movement_phase_seconds = 60, retreat_phase_seconds = 60, adjustment_phase_seconds = 60, draw_rule = UNANIMOUS\<rparr>"

definition lobby_coordinator :: coord where
  "lobby_coordinator = new_coordinator ''m'' full_lobby (Some minute)"

lemma quiet_hypotheses:
  "codec_ok (env_externals quiet_environment)" "packs_boards (env_externals quiet_environment)"
  "in_lobby (env_externals quiet_environment) ''m'' (co_store lobby_coordinator)" "co_match_id lobby_coordinator = ''m''"
  using reference_ok(1) full_lobby_history
  by (simp_all add: quiet_environment_def packs_boards_def canonical_bytes_def in_lobby_def lobby_coordinator_def
      new_coordinator_def) (simp_all add: full_lobby_def get_match_def waiting_match_def empty_store_def)

lemma quiet_externals: "env_externals quiet_environment = reference"
  by (simp add: quiet_environment_def)

lemma start_board_size: "esize (canonicalize_state create_default_map) \<le> 10000"
  by code_simp

lemma opening_encodes:
  assumes "canonical_bytes reference create_default_map = Inr b" "hash_game_state_hex reference create_default_map None = Inr h"
    and names: "map_result (\<lambda>p. faction_name_of (pl_faction p)) (list_players full_lobby ''m'') = Inr names"
  shows "\<exists>e. encode_message reference (match_start_message ''m'' 1 1 names b h (sign_with reference [7] (utf8_encode h)) 61) = Inr e"
proof -
  let ?msg = "match_start_message ''m'' 1 1 names b h (sign_with reference [7] (utf8_encode h)) 61"
  have b: "length b \<le> 10000" using assms(1) start_board_size by (auto simp: canonical_bytes_def length_enc)
  have hex: "length (hex_of b) = 2 * length b" for b by (induction b) (simp_all add: hex_of_def hex_byte_def)
  obtain d where "hex_of (sha256 reference d) = h" using assms(2) by (auto simp: hash_game_state_hex_def hash_game_state_Inr)
  moreover have "length (sha256 reference d) = 32" using reference_ok(2) by (simp add: digest_ok_def)
  ultimately have h: "length h = 64" using hex by force
  have names: "names = [''Vethara'', ''Thornveil'', ''Duskhollow'', ''Solrath'', ''Ashenmere'', ''Kholmari'', ''Ironwake'']"
    using names by (simp add: list_players_def full_lobby_def seat_def faction_name_of_def FACTIONS_def lookup_or_raise_def)
  have "canonicalize (py_message ?msg) = CDict
     [(''canonical_state'', CBytes b), (''deadline'', CFloat 61), (''faction_names'', CList (map CStr names)),
      (''match_id'', CStr ''m''), (''message_type'', CStr ''MATCH_START''), (''protocol_version'', CInt 1),
      (''sequence_number'', CInt 1), (''signature'', CBytes (sign_with reference [7] (utf8_encode h))),
      (''state_hash'', CStr h), (''timestamp'', CFloat 1)]"
    by (simp add: match_start_message_def py_message_def mk_message_def PROTOCOL_VERSION_def names_value_def comp_def)
  then have "length (enc (canonicalize (py_message ?msg))) \<le> MAX_MESSAGE_SIZE"
    unfolding length_enc using b
    by (simp add: names h reference_def enc_nat_def enc_int_def MAX_MESSAGE_SIZE_def)
  then show ?thesis by (simp add: encode_message_def)
qed

lemma broadcast_quiet:
  assumes "encode_message (env_externals quiet_environment) msg = Inr e"
  shows "\<exists>c'. broadcast_to_all quiet_environment msg c = (Inr (), c')"
proof -
  have "\<exists>c'. act_for ps (\<lambda>p. transport_send quiet_environment (hex_of (pl_public_key p)) e) c = (Inr (), c')" for ps c
    by (induction ps arbitrary: c) (simp_all add: act_bind_def act_run transport_send_def quiet_environment_def)
  then show ?thesis using assms by (simp add: broadcast_to_all_def act_simps read_store_def)
qed

lemma quiet_opens:
  "\<exists>t. get_match (co_store (run quiet_environment [Start] lobby_coordinator)) ''m'' =
     Some (\<lparr>ms_status = ACTIVE, ms_phase = ORDERS, ms_turn = 1, ms_year = 1\<rparr>, t)"
proof -
  let ?c = lobby_coordinator and ?E = quiet_environment
  have sel: "co_match_id ?c = ''m''" "co_store ?c = full_lobby" "co_sequence ?c = 0" "co_readings ?c = 0" "co_config ?c = minute"
    "env_clock ?E 0 = 1" "env_externals ?E = reference"
    by (simp_all add: lobby_coordinator_def new_coordinator_def quiet_environment_def)
  obtain msg s where ran: "lobby_start_match reference ''m'' [7] 1 1 61 full_lobby = (Inr msg, s)"
    using full_lobby_starts by metis
  have msg: "\<exists>e. encode_message reference msg = Inr e"
  proof (rule start_match_Inr [OF ran])
    fix st created b h s1 s2 names
    assume "canonical_bytes reference create_default_map = Inr b" "hash_game_state_hex reference create_default_map None = Inr h"
      and w: "save_match_state ''m'' (st\<lparr>ms_status := ACTIVE, ms_phase := DIPLOMACY, ms_turn := 1, ms_year := 1\<rparr>) full_lobby = Inr s1"
        "record_phase_result ''m'' 1 DIPLOMACY b h None (sign_with reference [7] (utf8_encode h)) 1 s1 = Inr s2"
        "set_deadline ''m'' (Some 61) s2 = Inr s"
      and "msg = match_start_message ''m'' 1 1 names b h (sign_with reference [7] (utf8_encode h)) 61"
      and "map_result (\<lambda>p. faction_name_of (pl_faction p)) (list_players s ''m'') = Inr names"
    moreover have "list_players s ''m'' = list_players full_lobby ''m''"
      by (simp add: list_players_def frame_save [OF w(1)] frame_record_phase [OF w(2)] frame_deadline [OF w(3)])
    ultimately show ?thesis using opening_encodes by simp
  qed
  have key: "load_coordinator_identity (co_store ?c) ''m'' = Inr [7]"
    by (simp add: sel identity_row full_lobby_def waiting_match_def)
  obtain c5 where left: "lobby_left ?E [7] ?c = (Inr msg, c5)"
    using ran by (simp add: lobby_left_def sel deadline_after_def minute_def)
  obtain c6 where "broadcast_to_all ?E msg c5 = (Inr (), c6)" using broadcast_quiet msg sel(7) by metis
  from start_opens(2) [OF quiet_hypotheses(1,2) in_lobby_play [OF quiet_hypotheses(3)] quiet_hypotheses(4) key left this]
  show ?thesis by (simp add: run_def)
qed

section \<open>Properties of whole matches\<close>

text \<open>C1: The coordinator plays by the rules: in any run of messages and operator actions from the lobby, with
  any failures of the transport, the recorded links are, one by one, the positions of a \<open>game\<close> (or stop
  before its first orders), and every board is sound: one unit in a region, each on terrain it can enter, on
  the unchanged map.\<close>

theorem coordinator_plays_by_rules:
  assumes "codec_ok (env_externals E)" and "packs_boards (env_externals E)"
    and "in_lobby (env_externals E) m (co_store c)" and "co_match_id c = m"
  shows "\<exists>g. list_all2 (recorded (env_externals E)) (get_hash_chain (co_store (run E es c)) m) g \<and>
    (unopened g \<or> game g) \<and> list_all (\<lambda>p. sound_board (po_board p)) g"
proof -
  let ?X = "env_externals E" and ?s = "co_store (run E es c)"
  have play: "in_play ?X m ?s" using run_in_play(1) [OF assms(1,2)] assms(3,4) by blast
  have "\<exists>g. records ?X m ?s g \<and> (unopened g \<or> game g)"
  proof (cases "get_match ?s m")
    case None
    with play have "get_hash_chain ?s m = []"
      by (auto simp: in_play_def history_ok_def get_match_def)
    then have "records ?X m ?s [] \<and> unopened []" by (simp add: records_def unopened_def)
    then show ?thesis by blast
  next
    case (Some sc)
    obtain st created where st: "get_match ?s m = Some (st, created)" using Some by (cases sc) simp
    with play have stands: "stands ?X m ?s st" and hist: "history_ok ?X m ?s" by (auto simp: in_play_def)
    show ?thesis
    proof (cases "ms_status st = LOBBY")
      case True
      with hist st have "get_hash_chain ?s m = []" by (auto simp: history_ok_def get_match_row)
      then have "records ?X m ?s [] \<and> unopened []" by (simp add: records_def unopened_def)
      then show ?thesis by blast
    next
      case False
      with stands show ?thesis by (auto simp: stands_def split: MatchStatus.splits if_splits)
    qed
  qed
  then obtain g where g: "records ?X m ?s g" "unopened g \<or> game g" by blast
  have "list_all (\<lambda>p. sound_board (po_board p)) g"
    using g(2) game_sound sound_start by (auto simp: unopened_def)
  with g show ?thesis unfolding records_def by blast
qed

theorem coordinator_plays_by_rules_witness:
  "\<exists>g. list_all2 (recorded reference) (get_hash_chain (co_store (run quiet_environment
       [Start, Inbound ''01'' [192], Advance, Restart None, Advance] lobby_coordinator)) ''m'') g \<and>
     (unopened g \<or> game g) \<and> list_all (\<lambda>p. sound_board (po_board p)) g"
  using coordinator_plays_by_rules [OF quiet_hypotheses] by (simp add: quiet_environment_def)

text \<open>C3: A match that receives messages of the annotated types is never stuck: once it has opened its first
  orders, and until the operator ends it, \<open>advance_phase\<close> always reaches a later phase, in any state that such
  messages, operator actions, restarts and failing sends have brought about: it records one more link, of the
  phase that it enters, and sets a deadline for it. (An order whose destination is no text is accepted by the
  code, and the adjudication of its turn then raises; \<open>typed_event\<close> excludes it.)\<close>

theorem match_never_stuck:
  assumes "codec_ok (env_externals E)" and "packs_boards (env_externals E)"
    and "in_lobby (env_externals E) m (co_store c)" and "co_match_id c = m"
    and "get_match (co_store (run E es c)) m = Some (st, created)"
    and "ms_status st = ACTIVE" and "ms_phase st \<noteq> DIPLOMACY" and "ms_turn st < 2 ^ 63 - 1"
    and "list_all (typed_event (env_externals E)) es"
  shows "\<exists>row st' deadline. get_hash_chain (co_store (run E (es @ [Advance]) c)) m =
      get_hash_chain (co_store (run E es c)) m @ [row] \<and>
    get_match (co_store (run E (es @ [Advance]) c)) m = Some (st', created) \<and> ms_status st' = ACTIVE \<and>
    ph_turn row = ms_turn st' \<and> ph_phase row = ms_phase st' \<and> state_position st < state_position st' \<and>
    get_deadline (co_store (run E (es @ [Advance]) c)) m = Inr (Some deadline)"
proof -
  let ?X = "env_externals E" and ?tm = "env_clock E (co_readings (run E es c))"
  define d where "d = (run E es c)\<lparr>co_readings := co_readings (run E es c) + 1\<rparr>"
  have d: "co_store d = co_store (run E es c)" "co_match_id d = m"
    using run_in_play(2) [OF assms(1,2)] assms(3,4) by (simp_all add: d_def)
  have play: "in_play ?X m (co_store d)" using run_in_play(1) [OF assms(1,2)] assms(3,4) d(1) by auto
  have get: "get_match (co_store d) m = Some (st, created)" using assms(5) d(1) by simp
  then have inv: "match_invariant st" and hist: "history_ok ?X m (co_store d)"
    using play by (auto simp: in_play_def stands_def)
  have final: "run E (es @ [Advance]) c = snd (advance_phase E (Some ?tm) d)"
    by (simp add: run_def advance_now d_def)
  show ?thesis
  proof (rule advance_from_play [OF assms(1,2) play d(2) get assms(6,7)])
    fix eff b b'
    define landing where "landing = landing_of (dislodges st eff b) (adjustment_needed b') st"
    assume ready: "phase_ready ?X m (co_store d) st eff b" and res: "resolve_phase (phase_input_of st eff) b = Inr b'"
      and "\<exists>bs. canonical_bytes ?X b' = Inr bs"
    then obtain bs where bs: "canonical_bytes ?X b' = Inr bs" by blast
    have phase: "ms_phase st \<in> {ORDERS, RETREAT, BUILD}" using ready by (auto simp: phase_ready_def split: if_splits)
    show ?thesis
    proof (cases rule: advance_lands [OF hist d(2) get assms(6) ready res bs, where tm = ?tm, folded landing_def,
          case_names overflow landed])
      case overflow
      then show ?thesis using landing_ranges [OF inv assms(8)] by (auto simp: landing_def)
    next
      case (landed seconds row s')
      have "co_store (run E (es @ [Advance]) c) = s'"
        using same_store_announce [of "d\<lparr>co_store := s', co_warned := False\<rparr>" E landing row ?tm "?tm + seconds"]
        by (simp add: final landed same_store_def)
      moreover have "ms_status landing = ACTIVE" "state_position st < state_position landing"
        using landing_position [OF phase] assms(6) by (simp_all add: landing_def state_position_def)
      ultimately show ?thesis
        using landed(3-8) d(1) by auto
    qed
  qed
qed

theorem match_never_stuck_witness:
  "\<exists>row st' t deadline. get_hash_chain (co_store (run quiet_environment [Start, Advance] lobby_coordinator)) ''m'' =
      get_hash_chain (co_store (run quiet_environment [Start] lobby_coordinator)) ''m'' @ [row] \<and>
    get_match (co_store (run quiet_environment [Start, Advance] lobby_coordinator)) ''m'' = Some (st', t) \<and>
    ms_status st' = ACTIVE \<and> ph_phase row = ms_phase st' \<and>
    state_position \<lparr>ms_status = ACTIVE, ms_phase = ORDERS, ms_turn = 1, ms_year = 1\<rparr> < state_position st' \<and>
    get_deadline (co_store (run quiet_environment [Start, Advance] lobby_coordinator)) ''m'' = Inr (Some deadline)"
proof -
  obtain t where "get_match (co_store (run quiet_environment [Start] lobby_coordinator)) ''m'' =
     Some (\<lparr>ms_status = ACTIVE, ms_phase = ORDERS, ms_turn = 1, ms_year = 1\<rparr>, t)" using quiet_opens by blast
  from match_never_stuck [OF quiet_hypotheses this] show ?thesis by auto
qed

text \<open>C6: Players move their own units: whenever the match waits for orders, the orders that an advance would
  adjudicate can be read, and each of them comes from the latest revision that a seated player sent for this
  turn, is accepted, and is for a unit of that player's faction on the recorded board of the turn.\<close>

theorem orders_move_own_units:
  assumes "codec_ok (env_externals E)" and "packs_boards (env_externals E)"
    and "in_lobby (env_externals E) m (co_store c)" and "co_match_id c = m"
    and "get_match (co_store (run E es c)) m = Some (st, created)"
    and "ms_status st = ACTIVE" and "ms_phase st = ORDERS"
  shows "\<exists>b eff. recorded_board (env_externals E) m (co_store (run E es c)) (ms_turn st) ORDERS b \<and>
    get_effective_orders (env_externals E) (co_store (run E es c)) m (ms_turn st) = Inr eff \<and>
    list_all (\<lambda>r. \<exists>ord k row f. map_of eff r = Some ord \<and>
      latest_order (co_store (run E es c)) m k (ms_turn st) = Some row \<and> contributes (env_externals E) row ord \<and>
      get_player_faction (co_store (run E es c)) m k = Some f \<and>
      (\<exists>u\<in>set (units b). region_id u = r \<and> faction_id u = f)) (map fst eff)"
proof -
  let ?X = "env_externals E" and ?s = "co_store (run E es c)"
  have play: "in_play ?X m ?s" using run_in_play(1) [OF assms(1,2)] assms(3,4) by blast
  then have hist: "history_ok ?X m ?s" and "stands ?X m ?s st" using assms(5) by (auto simp: in_play_def)
  then obtain g' b where rec: "records ?X m ?s (g' @ [pos (ms_turn st) ORDERS b])"
    and valid: "orders_valid ?X m (ms_turn st) b ?s" and range: "sql_range (ms_turn st)"
    using assms(6,7) by (auto simp: stands_def standing_def)
  have board: "recorded_board ?X m ?s (ms_turn st) ORDERS b" by (rule recorded_board_at [OF hist rec _ range]) simp
  have ok: "store_ok ?s" using hist by (simp add: history_ok_def)
  show ?thesis
  proof (rule valid_orders_effective [OF ok valid range])
    fix eff assume eff: "get_effective_orders ?X ?s m (ms_turn st) = Inr eff"
      and own: "\<And>r ord. map_of eff r = Some ord \<Longrightarrow> \<exists>k row f. latest_order ?s m k (ms_turn st) = Some row \<and>
        contributes ?X row ord \<and> get_player_faction ?s m k = Some f \<and> (\<exists>u\<in>set (units b). region_id u = r \<and> faction_id u = f)"
    have each: "\<exists>ord k row f. map_of eff r = Some ord \<and> latest_order ?s m k (ms_turn st) = Some row \<and>
        contributes ?X row ord \<and> get_player_faction ?s m k = Some f \<and> (\<exists>u\<in>set (units b). region_id u = r \<and> faction_id u = f)"
      if r: "r \<in> set (map fst eff)" for r
    proof -
      obtain ord where ord: "map_of eff r = Some ord"
        using r by (metis list.set_map not_None_eq map_of_eq_None_iff)
      with own [OF ord] show ?thesis by blast
    qed
    show ?thesis
      by (intro exI conjI, rule board, rule eff) (use each in \<open>simp only: list_all_iff, blast\<close>)
  qed
qed

theorem orders_move_own_units_witness:
  "\<exists>b eff. recorded_board reference ''m'' (co_store (run quiet_environment [Start] lobby_coordinator)) 1 ORDERS b \<and>
     get_effective_orders reference (co_store (run quiet_environment [Start] lobby_coordinator)) ''m'' 1 = Inr eff"
proof -
  obtain t where "get_match (co_store (run quiet_environment [Start] lobby_coordinator)) ''m'' =
     Some (\<lparr>ms_status = ACTIVE, ms_phase = ORDERS, ms_turn = 1, ms_year = 1\<rparr>, t)" using quiet_opens by blast
  note moves = orders_move_own_units [OF quiet_hypotheses this, unfolded quiet_externals MatchState.select_convs, OF refl refl]
  show ?thesis using moves by (elim exE conjE) (intro exI conjI)
qed

end
