(* ===== verification/Start_Block.thy ===== *)
theory Start_Block
  imports Game_Play
begin

text \<open>
  A player who cannot be reached blocks the match. \<open>MatchCoordinator.start_match\<close> (\<^verbatim>\<open>coordinator/match.py\<close>) leaves
  \<open>DIPLOMACY\<close> only after \<open>MATCH_START\<close> went out to everyone, and by then \<open>lobby.start_match\<close> has already taken the
  match out of the lobby: when a send raises, the match can neither be started again nor be advanced. The
  invariant \<open>blocked\<close> holds through any run.
\<close>

definition seated :: "bytes \<Rightarrow> string \<Rightarrow> store \<Rightarrow> bool" where
  "seated k m s \<longleftrightarrow> list_ex (\<lambda>p. pl_public_key p = k) (list_players s m)"

definition blocked :: "bytes \<Rightarrow> string \<Rightarrow> store \<Rightarrow> bool" where
  "blocked k m s \<longleftrightarrow> seated k m s \<and> (\<exists>st c. get_match s m = Some (st, c) \<and> ms_phase st = DIPLOMACY) \<and>
     list_all (\<lambda>row. ph_phase row = DIPLOMACY) (get_hash_chain s m)"

definition blocks :: "bytes \<Rightarrow> string \<Rightarrow> store \<Rightarrow> store \<Rightarrow> bool" where
  "blocks k m s s' \<longleftrightarrow> (blocked k m s \<longrightarrow> blocked k m s')"

section \<open>Messages, pauses and the end of the match\<close>

lemma blocks_frame:
  assumes "set (t_players s) \<subseteq> set (t_players s')" "get_hash_chain s' m = get_hash_chain s m"
    and "\<And>st c. get_match s m = Some (st, c) \<Longrightarrow> \<exists>st' c'. get_match s' m = Some (st', c') \<and> ms_phase st' = ms_phase st"
  shows "blocks k m s s'"
  unfolding blocks_def
proof
  assume b: "blocked k m s"
  then obtain st c where st: "get_match s m = Some (st, c)" "ms_phase st = DIPLOMACY" by (auto simp: blocked_def)
  have "seated k m s'" using b assms(1) by (auto simp: blocked_def seated_def list_ex_iff list_players_set match_players_def)
  with b assms(2) assms(3) [OF st(1)] st(2) show "blocked k m s'" by (auto simp: blocked_def)
qed

lemma blocks_other:
  assumes "t_matches s' = t_matches s" "set (t_players s) \<subseteq> set (t_players s')" "t_phases s' = t_phases s"
  shows "blocks k m s s'"
proof -
  have "get_match s' m = get_match s m" "get_hash_chain s' m = get_hash_chain s m"
    by (simp_all add: get_hash_chain_def get_match_def assms(1,3))
  then show ?thesis by (intro blocks_frame [OF assms(2)]) auto
qed

lemma blocks_column:
  assumes "update_match m f s = Inr s'" "\<And>r. mr_state (f r) = mr_state r"
  shows "blocks k m s s'"
proof (rule blocks_frame)
  note fr = frame_update_match [OF assms(1)]
  show "\<exists>st' c'. get_match s' m = Some (st', c') \<and> ms_phase st' = ms_phase st" if m: "get_match s m = Some (st, c)" for st c
  proof -
    obtain r where "map_of (t_matches s) m = Some r" "mr_state r = st" using m by (auto simp: get_match_row)
    then show ?thesis using fr(8) assms(2) by (simp add: get_match_def)
  qed
qed (use frame_update_match [OF assms(1)] in \<open>simp_all add: get_hash_chain_def\<close>)

lemma add_player_grows: "add_player m k f nm tm s = Inr s' \<Longrightarrow> set (t_players s) \<subseteq> set (t_players s')"
  by (auto simp: add_player_def insert_row_Inr split: if_splits)

interpretation blocking: handler_relation E "blocks k" for E k
proof
  fix m s s1 s2
  show "blocks k m s s" by (simp add: blocks_def)
  show "blocks k m s s1 \<Longrightarrow> blocks k m s1 s2 \<Longrightarrow> blocks k m s s2" by (simp add: blocks_def)
next
  fix m k' f nm tm s s'
  assume w: "add_player m k' f nm tm s = Inr s'"
  show "blocks k m s s'" by (rule blocks_other) (use frame_add_player [OF w] add_player_grows [OF w] in simp_all)
next
  fix m tn k' v tm s s'
  assume w: "record_draw_vote m tn k' v tm s = Inr s'"
  show "blocks k m s s'" by (rule blocks_other) (simp_all add: frame_vote [OF w])
next
  fix m d s s'
  assume w: "set_deadline m d s = Inr s'"
  show "blocks k m s s'" by (rule blocks_column [OF set_deadline_conv [OF w]]) simp
next
  fix m d s s'
  assume w: "set_paused_remaining_seconds m d s = Inr s'"
  show "blocks k m s s'" by (rule blocks_column [OF set_paused_conv [OF w]]) simp
next
  fix s m k' n s'
  assume w: "record_sequence_number m k' n s = Inr s'"
  show "blocks k m s s'" by (rule blocks_other) (simp_all add: frame_sequence [OF w])
next
  fix m k' st b os s rv h tm s'
  assume w: "record_order_submission m k' (ms_turn st) rv b h os tm s = Inr s'"
  show "blocks k m s s'" by (rule blocks_other) (simp_all add: frame_record_order [OF w])
next
  fix s m st c k' rv s'
  assume w: "update_order_status m k' (ms_turn st) rv (order_state_value SUPERSEDED) s = Inr s'"
  show "blocks k m s s'" by (rule blocks_other) (simp_all add: frame_order_status [OF w])
next
  fix s m st c st' s'
  assume m: "get_match s m = Some (st, c)" and fsm: "fsm_end_match st = Inr st'" and w: "save_match_state m st' s = Inr s'"
  have "ms_phase st' = ms_phase st" using fsm by (auto simp: fsm_end_match_def split: if_splits)
  with m show "blocks k m s s'"
    by (intro blocks_frame) (auto simp: frame_save [OF w] get_hash_chain_def get_match_save [OF w])
qed

section \<open>Starting and advancing\<close>

lemma lobby_start_blocks: "blocks k m s (snd (lobby_start_match X m key q t dl s))"
proof (cases rule: start_match_states [where X = X and m = m and key = key and q = q and t = t and dl = dl and s = s])
  case nothing
  then show ?thesis by (simp add: blocks_def)
next
  case (saved st c s1)
  note fr = frame_save [OF saved(3)]
  show ?thesis
    unfolding blocks_def blocked_def saved(4)
    using get_match_save [OF saved(3), of m] saved(1)
    by (simp add: seated_def list_players_def get_hash_chain_def fr)
next
  case (recorded st c s1 s2 b h)
  note fr = frame_save [OF recorded(3)] and fr2 = frame_record_phase [OF recorded(6)]
  have one: "get_match s2 m = Some (st\<lparr>ms_status := ACTIVE, ms_phase := DIPLOMACY, ms_turn := 1, ms_year := 1\<rparr>, c)"
  proof -
    have "get_match s1 m = Some (st\<lparr>ms_status := ACTIVE, ms_phase := DIPLOMACY, ms_turn := 1, ms_year := 1\<rparr>, c)"
      using get_match_save [OF recorded(3), of m] recorded(1) by simp
    then show ?thesis by (simp add: get_match_def fr2)
  qed
  then have two: "blocks k m s s2"
    by (simp add: blocks_def blocked_def seated_def list_players_def get_hash_chain_def fr fr2)
  show ?thesis using recorded(7)
  proof
    assume "set_deadline m (Some dl) s2 = Inr (snd (lobby_start_match X m key q t dl s))"
    from blocking.Q_deadline [OF this] two show ?thesis by (simp add: blocks_def)
  qed (use two in simp)
qed

lemma broadcast_raises:
  assumes "\<forall>data. env_send_error E (hex_of k) data \<noteq> None" "seated k (co_match_id c) (co_store c)"
  shows "\<exists>e. fst (broadcast_to_all E msg c) = Inl e"
proof (cases "encode_message (env_externals E) msg")
  case (Inr b)
  have "\<exists>e. fst (act_for ps (\<lambda>p. transport_send E (hex_of (pl_public_key p)) b) c) = Inl e"
    if "list_ex (\<lambda>p. pl_public_key p = k) ps" for ps c
    using that
  proof (induction ps arbitrary: c)
    case (Cons p ps)
    show ?case
    proof (cases "env_send_error E (hex_of (pl_public_key p)) b")
      case None
      with assms(1) have "pl_public_key p \<noteq> k" by metis
      with Cons.prems have "list_ex (\<lambda>p. pl_public_key p = k) ps" by simp
      from Cons.IH [OF this] None show ?thesis by (simp add: act_bind_def transport_send_def)
    qed (simp add: act_bind_def transport_send_def)
  qed simp
  with assms(2) Inr show ?thesis by (simp add: broadcast_to_all_def act_simps read_store_def seated_def)
qed (simp add: broadcast_to_all_def act_simps)

lemma start_blocks:
  assumes "\<forall>data. env_send_error E (hex_of k) data \<noteq> None"
  shows "blocking.R k c (snd (start_match E c))"
proof (cases "load_coordinator_identity (co_store c) (co_match_id c)")
  case (Inl e)
  then show ?thesis by (simp add: start_identity_missing blocking.co.R_refl)
next
  case (Inr key)
  obtain tm dl where run: "start_match E c = act_bind (lobby_left E key) (\<lambda>msg.
     act_bind (broadcast_to_all E msg) (\<lambda>_. open_orders E key tm dl)) c"
    using start_match_run Inr by blast
  obtain r s t d where left: "lobby_left E key c =
      (r, c\<lparr>co_readings := co_readings c + 1, co_sequence := co_sequence c + 1, co_store := s\<rparr>)"
    "lobby_start_match (env_externals E) (co_match_id c) key (co_sequence c + 1) t d (co_store c) = (r, s)"
    by (rule lobby_left_cases [of E key c])
  let ?c5 = "c\<lparr>co_readings := co_readings c + 1, co_sequence := co_sequence c + 1, co_store := s\<rparr>"
  have block: "blocks k (co_match_id c) (co_store c) s"
    using lobby_start_blocks [of k "co_match_id c" "co_store c" "env_externals E" key "co_sequence c + 1" t d] left(2) by simp
  show ?thesis
  proof (cases "blocked k (co_match_id c) (co_store c)")
    case True
    with block have "seated k (co_match_id ?c5) (co_store ?c5)" by (simp add: blocks_def blocked_def)
    note raises = broadcast_raises [OF assms this]
    have "snd (start_match E c) = ?c5 \<or> (\<exists>msg. snd (start_match E c) = snd (broadcast_to_all E msg ?c5))"
    proof (cases r)
      case (Inl e)
      then show ?thesis using run left(1) by (simp add: act_bind_def)
    next
      case (Inr msg)
      obtain e c6 where "broadcast_to_all E msg ?c5 = (Inl e, c6)"
        using raises [of msg] by (cases "broadcast_to_all E msg ?c5") auto
      then have "snd (start_match E c) = c6" "snd (broadcast_to_all E msg ?c5) = c6"
        using run left(1) Inr by (simp_all add: act_bind_def)
      then show ?thesis by metis
    qed
    then have "co_store (snd (start_match E c)) = s \<and> co_match_id (snd (start_match E c)) = co_match_id c"
      using same_store_broadcast [of ?c5 E] by (auto simp: same_store_def)
    with block show ?thesis by (simp add: blocking.R_def)
  next
    case False
    have "co_match_id (snd (start_match E c)) = co_match_id c"
      using history.keep_start [where c = c and E = E] by (simp add: history.R_def)
    with False show ?thesis by (simp add: blocking.R_def blocks_def)
  qed
qed

lemma advance_blocks: "blocking.R k c (snd (advance_phase E t c))"
proof -
  have some: "blocking.R k c (snd (advance_phase E (Some tm) c))" for tm c
  proof (cases "blocked k (co_match_id c) (co_store c)")
    case True
    then have "co_store (snd (advance_phase E (Some tm) c)) = co_store c"
      by (intro advance_refused) (auto simp: blocked_def)
    then show ?thesis
      using history.keep_advance [where c = c and E = E and t = "Some tm"]
      by (simp add: blocking.R_def history.R_def blocks_def)
  next
    case False
    then show ?thesis
      using history.keep_advance [where c = c and E = E and t = "Some tm"]
      by (simp add: blocking.R_def history.R_def blocks_def)
  qed
  show ?thesis
  proof (cases t)
    case None
    then show ?thesis
      using some [of "c\<lparr>co_readings := co_readings c + 1\<rparr>"] by (simp add: advance_now blocking.R_def)
  qed (use some in simp)
qed

text \<open>C20: One player who cannot be reached keeps the match from ever beginning. When a key that sends to
  always raise for has a seat in the lobby (a \<open>JOIN_REQUEST\<close> stores the key in its body before it uses it,
  whatever its form), then whatever is sent, started, advanced, polled or restarted afterwards, the match
  stays in phase \<open>DIPLOMACY\<close> and never records a board for orders.\<close>

theorem unreachable_player_blocks_match:
  assumes "\<forall>data. env_send_error E (hex_of k) data \<noteq> None"
    and "list_ex (\<lambda>p. pl_public_key p = k) (list_players (co_store c) (co_match_id c))"
    and "get_match (co_store c) (co_match_id c) = Some (initial_match_state, created)"
    and "get_hash_chain (co_store c) (co_match_id c) = []"
  shows "\<exists>st t. get_match (co_store (run E es c)) (co_match_id c) = Some (st, t) \<and> ms_phase st = DIPLOMACY \<and>
    list_all (\<lambda>row. ph_phase row = DIPLOMACY) (get_hash_chain (co_store (run E es c)) (co_match_id c))"
proof -
  have "blocking.R k c (run E es c)"
    by (rule blocking.events_keep) (rule start_blocks [OF assms(1)], rule advance_blocks)
  moreover have "blocked k (co_match_id c) (co_store c)"
    using assms(2-4) by (simp add: blocked_def seated_def initial_match_state_def)
  ultimately show ?thesis by (auto simp: blocking.R_def blocks_def blocked_def)
qed

definition lossy_environment :: environment where
  "lossy_environment = quiet_environment\<lparr>env_send_error := \<lambda>d _. if d = ''05'' then Some ValueError else None\<rparr>"

theorem unreachable_player_blocks_match_witness:
  "\<exists>st t. get_match (co_store (run lossy_environment [Start, Advance, Restart None, Start, CheckDeadline, Advance]
      (new_coordinator ''m'' full_lobby None))) ''m'' = Some (st, t) \<and> ms_phase st = DIPLOMACY"
proof -
  let ?c = "new_coordinator ''m'' full_lobby None" and ?es = "[Start, Advance, Restart None, Start, CheckDeadline, Advance]"
  have "hex_of [5] = ''05''" by code_simp
  then have "\<forall>data. env_send_error lossy_environment (hex_of [5]) data \<noteq> None" by (simp add: lossy_environment_def)
  moreover have "list_ex (\<lambda>p. pl_public_key p = [5]) (list_players (co_store ?c) (co_match_id ?c))"
    "get_match (co_store ?c) (co_match_id ?c) = Some (initial_match_state, 1)"
    "get_hash_chain (co_store ?c) (co_match_id ?c) = []"
    by (simp_all add: new_coordinator_def full_lobby_def seat_def list_players_def waiting_match_def get_match_def
        get_hash_chain_def empty_store_def)
  ultimately have "\<exists>st t. get_match (co_store (run lossy_environment ?es ?c)) (co_match_id ?c) = Some (st, t) \<and>
      ms_phase st = DIPLOMACY \<and>
      list_all (\<lambda>row. ph_phase row = DIPLOMACY) (get_hash_chain (co_store (run lossy_environment ?es ?c)) (co_match_id ?c))"
    by (rule unreachable_player_blocks_match)
  then show ?thesis by (auto simp: new_coordinator_def)
qed

end
