(* ===== verification/Transport.thy ===== *)
theory Transport
  imports Externals
begin

text \<open>
  \<^verbatim>\<open>shared/transport.py\<close>: the in-memory network and the transports attached to it, and of
  \<^verbatim>\<open>shared/reticulum_transport.py\<close> the queues between the callbacks of the Reticulum stack and
  \<open>receive\<close> and \<open>discover\<close>; the stack itself (RNS, LXMF, the TCP interfaces) is outside. The locale
  \<open>drained_queue\<close> is what the coordinator and the client rely on when they poll: every message comes
  out once, in order. \<open>mailboxes\<close> is that contract for every destination of a network.
\<close>

section \<open>The contracts\<close>

datatype 'm queue_op = Push 'm | Drain

fun queue_run ::
    "('m \<Rightarrow> 's \<Rightarrow> 's) \<Rightarrow> ('s \<Rightarrow> 'm list \<times> 's) \<Rightarrow> 'm queue_op list \<Rightarrow> 's \<Rightarrow> 'm list \<times> 's" where
  "queue_run push drain [] s = ([], s)"
| "queue_run push drain (Push m # ops) s = queue_run push drain ops (push m s)"
| "queue_run push drain (Drain # ops) s =
     (case drain s of (ms, s') \<Rightarrow> case queue_run push drain ops s' of (rest, s'') \<Rightarrow> (ms @ rest, s''))"

fun pushed :: "'m queue_op list \<Rightarrow> 'm list" where
  "pushed [] = []"
| "pushed (Push m # ops) = m # pushed ops"
| "pushed (Drain # ops) = pushed ops"

locale drained_queue =
  fixes ok :: "'s \<Rightarrow> bool" and waiting :: "'s \<Rightarrow> 'm list"
    and push :: "'m \<Rightarrow> 's \<Rightarrow> 's" and drain :: "'s \<Rightarrow> 'm list \<times> 's"
  assumes push_ok: "ok s \<Longrightarrow> ok (push m s)" and drain_ok: "ok s \<Longrightarrow> ok (snd (drain s))"
    and waiting_push: "ok s \<Longrightarrow> waiting (push m s) = waiting s @ [m]"
    and drain_all: "ok s \<Longrightarrow> fst (drain s) = waiting s"
    and waiting_drain: "ok s \<Longrightarrow> waiting (snd (drain s)) = []"
begin

lemma exactly_once:
  assumes "ok s"
  shows "fst (queue_run push drain ops s) @ waiting (snd (queue_run push drain ops s)) = waiting s @ pushed ops"
    and "ok (snd (queue_run push drain ops s))"
proof -
  have "fst (queue_run push drain ops s) @ waiting (snd (queue_run push drain ops s)) = waiting s @ pushed ops \<and>
      ok (snd (queue_run push drain ops s))"
    using assms
  proof (induction ops arbitrary: s)
    case Nil
    then show ?case by simp
  next
    case (Cons x ops)
    show ?case
    proof (cases x)
      case (Push m)
      then show ?thesis using Cons.IH [OF push_ok [OF Cons.prems]] waiting_push [OF Cons.prems] by simp
    next
      case Drain
      obtain ms s' where d: "drain s = (ms, s')" by force
      then have "ok s'" "ms = waiting s" "waiting s' = []"
        using drain_ok [OF Cons.prems] drain_all [OF Cons.prems] waiting_drain [OF Cons.prems] by simp_all
      then show ?thesis using Cons.IH [of s'] by (simp add: Drain d case_prod_beta)
    qed
  qed
  then show "fst (queue_run push drain ops s) @ waiting (snd (queue_run push drain ops s)) = waiting s @ pushed ops"
    and "ok (snd (queue_run push drain ops s))" by simp_all
qed

end

datatype ('a, 'm) mail_op = Put 'a 'm | Take 'a

fun mail_run ::
    "('a \<Rightarrow> 'm \<Rightarrow> 's \<Rightarrow> 's) \<Rightarrow> ('a \<Rightarrow> 's \<Rightarrow> 'm list \<times> 's) \<Rightarrow> ('a, 'm) mail_op list \<Rightarrow> 's \<Rightarrow>
      ('a \<times> 'm list) list \<times> 's" where
  "mail_run put take_all [] s = ([], s)"
| "mail_run put take_all (Put a m # ops) s = mail_run put take_all ops (put a m s)"
| "mail_run put take_all (Take a # ops) s =
     (case take_all a s of (ms, s') \<Rightarrow> case mail_run put take_all ops s' of (rest, s'') \<Rightarrow> ((a, ms) # rest, s''))"

definition taken_by :: "'a \<Rightarrow> ('a \<times> 'm list) list \<Rightarrow> 'm list" where
  "taken_by a got = concat (map snd (filter (\<lambda>x. fst x = a) got))"

fun put_for :: "'a \<Rightarrow> ('a, 'm) mail_op list \<Rightarrow> 'm list" where
  "put_for a [] = []"
| "put_for a (Put b m # ops) = (if b = a then m # put_for a ops else put_for a ops)"
| "put_for a (Take b # ops) = put_for a ops"

locale mailboxes =
  fixes waiting_for :: "'s \<Rightarrow> 'a \<Rightarrow> 'm list"
    and put :: "'a \<Rightarrow> 'm \<Rightarrow> 's \<Rightarrow> 's" and take_all :: "'a \<Rightarrow> 's \<Rightarrow> 'm list \<times> 's"
  assumes waiting_put: "waiting_for (put a m s) b = waiting_for s b @ (if b = a then [m] else [])"
    and take_out: "fst (take_all a s) = waiting_for s a"
    and waiting_take: "waiting_for (snd (take_all a s)) b = (if b = a then [] else waiting_for s b)"
begin

sublocale box: drained_queue "\<lambda>_. True" "\<lambda>s. waiting_for s a" "put a" "take_all a" for a
  by unfold_locales (simp_all add: waiting_put take_out waiting_take)

lemma delivered_once:
  "taken_by a (fst (mail_run put take_all ops s)) @ waiting_for (snd (mail_run put take_all ops s)) a =
     waiting_for s a @ put_for a ops"
proof (induction ops arbitrary: s)
  case Nil
  then show ?case by (simp add: taken_by_def)
next
  case (Cons x ops)
  show ?case
  proof (cases x)
    case (Put b m)
    then show ?thesis using Cons.IH [of "put b m s"] by (simp add: waiting_put)
  next
    case (Take b)
    obtain ms s' where t: "take_all b s = (ms, s')" by force
    then have "ms = waiting_for s b" "waiting_for s' a = (if a = b then [] else waiting_for s a)"
      using take_out [of b s] waiting_take [of b s a] by simp_all
    then show ?thesis using Cons.IH [of s'] by (auto simp: Take t case_prod_beta taken_by_def)
  qed
qed

end

section \<open>The in-memory network\<close>

record InboundMessage =
  im_sender :: string
  im_data :: bytes

record Announcement =
  an_destination :: string
  an_data :: bytes

record InMemoryNetwork =
  nw_inboxes :: "(string, InboundMessage list) dict"
  nw_announcements :: "Announcement list"

definition new_network :: InMemoryNetwork where
  "new_network = \<lparr>nw_inboxes = [], nw_announcements = []\<rparr>"

text \<open>\<open>self._inboxes.setdefault(destination, [])\<close>.\<close>

definition register :: "string \<Rightarrow> InMemoryNetwork \<Rightarrow> InMemoryNetwork" where
  "register destination n =
     n\<lparr>nw_inboxes := (if map_of (nw_inboxes n) destination = None
        then AList.update destination [] (nw_inboxes n) else nw_inboxes n)\<rparr>"

definition deliver :: "string \<Rightarrow> InboundMessage \<Rightarrow> InMemoryNetwork \<Rightarrow> InMemoryNetwork" where
  "deliver destination m n =
     n\<lparr>nw_inboxes := AList.update destination (dict_get (nw_inboxes n) destination [] @ [m]) (nw_inboxes n)\<rparr>"

definition drain_inbox :: "string \<Rightarrow> InMemoryNetwork \<Rightarrow> InboundMessage list \<times> InMemoryNetwork" where
  "drain_inbox destination n =
     (dict_get (nw_inboxes n) destination [], n\<lparr>nw_inboxes := AList.update destination [] (nw_inboxes n)\<rparr>)"

definition record_announcement :: "Announcement \<Rightarrow> InMemoryNetwork \<Rightarrow> InMemoryNetwork" where
  "record_announcement a n = n\<lparr>nw_announcements := nw_announcements n @ [a]\<rparr>"

definition announcements_since :: "InMemoryNetwork \<Rightarrow> nat \<Rightarrow> Announcement list \<times> nat" where
  "announcements_since n cursor = (drop cursor (nw_announcements n), length (nw_announcements n))"

section \<open>Transports on it\<close>

text \<open>The network of a transport is shared: its methods take it and return it.\<close>

record InMemoryTransport =
  tp_destination :: string
  tp_cursor :: nat

definition new_transport :: "string \<Rightarrow> InMemoryNetwork option \<Rightarrow> InMemoryTransport \<times> InMemoryNetwork" where
  "new_transport destination network =
     (\<lparr>tp_destination = destination, tp_cursor = 0\<rparr>,
      register destination (case network of None \<Rightarrow> new_network | Some n \<Rightarrow> n))"

definition send :: "InMemoryTransport \<Rightarrow> string \<Rightarrow> bytes \<Rightarrow> InMemoryNetwork \<Rightarrow> InMemoryNetwork" where
  "send t destination data = deliver destination \<lparr>im_sender = tp_destination t, im_data = data\<rparr>"

definition receive :: "InMemoryTransport \<Rightarrow> InMemoryNetwork \<Rightarrow> InboundMessage list \<times> InMemoryNetwork" where
  "receive t = drain_inbox (tp_destination t)"

definition transport_announce :: "InMemoryTransport \<Rightarrow> bytes \<Rightarrow> InMemoryNetwork \<Rightarrow> InMemoryNetwork" where
  "transport_announce t data = record_announcement \<lparr>an_destination = tp_destination t, an_data = data\<rparr>"

definition discover :: "InMemoryTransport \<times> InMemoryNetwork \<Rightarrow> Announcement list \<times> InMemoryTransport \<times> InMemoryNetwork" where
  "discover = (\<lambda>(t, n). case announcements_since n (tp_cursor t) of (new, cursor) \<Rightarrow>
     (new, t\<lparr>tp_cursor := cursor\<rparr>, n))"

definition inbox :: "InMemoryNetwork \<Rightarrow> string \<Rightarrow> InboundMessage list" where
  "inbox n destination = dict_get (nw_inboxes n) destination []"

interpretation network: mailboxes inbox deliver drain_inbox
  by unfold_locales (simp_all add: inbox_def deliver_def drain_inbox_def dict_get_update)

definition cursor_ok :: "InMemoryTransport \<times> InMemoryNetwork \<Rightarrow> bool" where
  "cursor_ok = (\<lambda>(t, n). tp_cursor t \<le> length (nw_announcements n))"

interpretation announced: drained_queue cursor_ok
  "\<lambda>(t, n). drop (tp_cursor t) (nw_announcements n)" "\<lambda>a (t, n). (t, record_announcement a n)" discover
  by unfold_locales
    (auto simp: cursor_ok_def record_announcement_def discover_def announcements_since_def)

lemma register_inbox [simp]: "inbox (register d n) d' = inbox n d'"
  by (simp add: inbox_def register_def dict_get_update) (simp add: dict_get_def)

text \<open>A transport created on a network finds the messages that arrived for it before.\<close>

lemma new_transport_inbox: "inbox (snd (new_transport d (Some n))) d' = inbox n d'"
  by (simp add: new_transport_def)

section \<open>The queues of the Reticulum transport\<close>

text \<open>An LXMF message as the delivery callback sees it: \<open>source\<close> is the public key of the sender when
  RNS can recall it, \<open>source_hash\<close> the hash of its destination.\<close>

record lx_message =
  lx_source :: "bytes option"
  lx_source_hash :: bytes
  lx_content :: bytes

record ReticulumTransport =
  rt_inbox :: "InboundMessage list"
  rt_announcements :: "Announcement list"

definition on_delivery :: "lx_message \<Rightarrow> ReticulumTransport \<Rightarrow> ReticulumTransport" where
  "on_delivery m t =
     (let sender = (case lx_source m of Some key \<Rightarrow> hex_of key | None \<Rightarrow> hex_of (lx_source_hash m))
      in t\<lparr>rt_inbox := rt_inbox t @ [\<lparr>im_sender = sender, im_data = lx_content m\<rparr>]\<rparr>)"

definition received_announce :: "bytes \<Rightarrow> bytes option \<Rightarrow> ReticulumTransport \<Rightarrow> ReticulumTransport" where
  "received_announce public_key app_data t =
     (case app_data of
        None \<Rightarrow> t
      | Some data \<Rightarrow>
          if data = [] then t
          else t\<lparr>rt_announcements := rt_announcements t @ [\<lparr>an_destination = hex_of public_key, an_data = data\<rparr>]\<rparr>)"

text \<open>The loops \<open>while True: get_nowait()\<close> until \<open>queue.Empty\<close>.\<close>

fun drain_queue :: "'m list \<Rightarrow> 'm list \<Rightarrow> 'm list \<times> 'm list" where
  "drain_queue acc [] = (acc, [])"
| "drain_queue acc (m # q) = drain_queue (acc @ [m]) q"

definition rt_receive :: "ReticulumTransport \<Rightarrow> InboundMessage list \<times> ReticulumTransport" where
  "rt_receive t = (case drain_queue [] (rt_inbox t) of (ms, rest) \<Rightarrow> (ms, t\<lparr>rt_inbox := rest\<rparr>))"

definition rt_discover :: "ReticulumTransport \<Rightarrow> Announcement list \<times> ReticulumTransport" where
  "rt_discover t = (case drain_queue [] (rt_announcements t) of (as, rest) \<Rightarrow> (as, t\<lparr>rt_announcements := rest\<rparr>))"

lemma drain_queue_all [simp]: "drain_queue acc q = (acc @ q, [])"
  by (induction q arbitrary: acc) simp_all

interpretation rt_messages: drained_queue "\<lambda>_. True" rt_inbox
  "\<lambda>m t. t\<lparr>rt_inbox := rt_inbox t @ [m]\<rparr>" rt_receive
  by unfold_locales (simp_all add: rt_receive_def)

interpretation rt_announced: drained_queue "\<lambda>_. True" rt_announcements
  "\<lambda>a t. t\<lparr>rt_announcements := rt_announcements t @ [a]\<rparr>" rt_discover
  by unfold_locales (simp_all add: rt_discover_def)

text \<open>The sender that a delivery reports is the sender's public key only when RNS could recall it.\<close>

lemma delivery_sender:
  "rt_inbox (on_delivery m t) = rt_inbox t @ [\<lparr>im_sender = s, im_data = lx_content m\<rparr>] \<Longrightarrow>
   fromhex s = Inr (case lx_source m of Some key \<Rightarrow> key | None \<Rightarrow> lx_source_hash m)"
  by (auto simp: on_delivery_def Let_def fromhex_hex split: option.splits)

section \<open>Delivery\<close>

text \<open>What a party does on the network.\<close>

datatype net_op = Send InMemoryTransport string bytes | Receive InMemoryTransport | NetAnnounce InMemoryTransport bytes

fun net_run :: "net_op list \<Rightarrow> InMemoryNetwork \<Rightarrow> (string \<times> InboundMessage list) list \<times> InMemoryNetwork" where
  "net_run [] n = ([], n)"
| "net_run (Send t destination data # ops) n = net_run ops (send t destination data n)"
| "net_run (NetAnnounce t data # ops) n = net_run ops (transport_announce t data n)"
| "net_run (Receive t # ops) n =
     (case receive t n of (ms, n') \<Rightarrow> case net_run ops n' of (got, n'') \<Rightarrow> ((tp_destination t, ms) # got, n''))"

fun sent_to :: "string \<Rightarrow> net_op list \<Rightarrow> InboundMessage list" where
  "sent_to d [] = []"
| "sent_to d (Send t destination data # ops) =
     (if destination = d then [\<lparr>im_sender = tp_destination t, im_data = data\<rparr>] else []) @ sent_to d ops"
| "sent_to d (Receive t # ops) = sent_to d ops"
| "sent_to d (NetAnnounce t data # ops) = sent_to d ops"

text \<open>Announcements do not touch the inboxes: the rest of a run is one of the mailboxes.\<close>

fun mail_ops :: "net_op list \<Rightarrow> (string, InboundMessage) mail_op list" where
  "mail_ops [] = []"
| "mail_ops (Send t destination data # ops) =
     Put destination \<lparr>im_sender = tp_destination t, im_data = data\<rparr> # mail_ops ops"
| "mail_ops (Receive t # ops) = Take (tp_destination t) # mail_ops ops"
| "mail_ops (NetAnnounce t data # ops) = mail_ops ops"

lemma put_for_mail_ops [simp]: "put_for d (mail_ops ops) = sent_to d ops"
  by (induction ops rule: mail_ops.induct) simp_all

lemma net_run_mail:
  assumes "nw_inboxes n = nw_inboxes n'"
  shows "fst (net_run ops n) = fst (mail_run deliver drain_inbox (mail_ops ops) n') \<and>
    inbox (snd (net_run ops n)) = inbox (snd (mail_run deliver drain_inbox (mail_ops ops) n'))"
  using assms
proof (induction ops arbitrary: n n')
  case Nil
  then show ?case by (simp add: inbox_def fun_eq_iff)
next
  case (Cons x ops)
  have sent: "nw_inboxes (send t d data n) = nw_inboxes (deliver d \<lparr>im_sender = tp_destination t, im_data = data\<rparr> n')"
    and announced: "nw_inboxes (transport_announce t data n) = nw_inboxes n'"
    and drained: "fst (receive t n) = fst (drain_inbox (tp_destination t) n')"
      "nw_inboxes (snd (receive t n)) = nw_inboxes (snd (drain_inbox (tp_destination t) n'))" for t d data
    by (simp_all add: Cons.prems send_def deliver_def transport_announce_def record_announcement_def receive_def
        drain_inbox_def)
  show ?case
  proof (cases x)
    case (Send t d data)
    then show ?thesis using Cons.IH [OF sent] by simp
  next
    case (Receive t)
    then show ?thesis using Cons.IH [OF drained(2) [of t]] drained(1) [of t] by (simp add: case_prod_beta)
  next
    case (NetAnnounce t data)
    then show ?thesis using Cons.IH [OF announced] by simp
  qed
qed

text \<open>The network neither loses, duplicates, reorders nor forges: over any sequence of sends,
  announcements and polls by any number of transports, what the transports of a destination have
  received, followed by what still waits there, is what waited before followed by exactly the messages
  sent to that destination, in order, each under the address of the transport that sent it.\<close>

theorem network_delivers_once:
  "taken_by d (fst (net_run ops n)) @ inbox (snd (net_run ops n)) d = inbox n d @ sent_to d ops"
  using network.delivered_once [of d "mail_ops ops" n] net_run_mail [of n n ops] by simp

end
