(* ===== verification/Client_Verification.thy ===== *)
theory Client_Verification
  imports Coordinator
begin

text \<open>
  \<^verbatim>\<open>client/verification.py\<close>: what a client checks of the results a coordinator sends, its signatures,
  the hash of each state, and the chain. A received \<open>PHASE_RESULT\<close> or \<open>MATCH_START\<close> is read into the
  record \<open>link\<close>; a \<open>MATCH_START\<close> has no \<open>previous_state_hash\<close>.
\<close>

section \<open>Received links\<close>

record link =
  lk_turn :: int
  lk_phase :: Phase
  lk_state :: bytes
  lk_hash :: string
  lk_previous :: "string option"
  lk_signature :: bytes

definition get_phase :: "message \<Rightarrow> string \<Rightarrow> Phase result" where
  "get_phase msg k =
     (case field_of msg k of
        Some (VEnum v) \<Rightarrow> enum_of_value phase_value [DIPLOMACY, ORDERS, RESOLUTION, RETREAT, BUILD] v
      | _ \<Rightarrow> Inl Unmodelled)"

definition link_of_phase_result :: "message \<Rightarrow> link result" where
  "link_of_phase_result msg =
     bind_result (get_int msg ''turn'') (\<lambda>t.
     bind_result (get_phase msg ''phase'') (\<lambda>p.
     bind_result (get_bytes msg ''canonical_state'') (\<lambda>b.
     bind_result (get_str msg ''state_hash'') (\<lambda>h.
     bind_result (get_optional_str msg ''previous_state_hash'') (\<lambda>prev.
     bind_result (get_bytes msg ''signature'') (\<lambda>sig.
       Inr \<lparr>lk_turn = t, lk_phase = p, lk_state = b, lk_hash = h, lk_previous = prev, lk_signature = sig\<rparr>))))))"

definition link_of_match_start :: "message \<Rightarrow> link result" where
  "link_of_match_start msg =
     bind_result (get_bytes msg ''canonical_state'') (\<lambda>b.
     bind_result (get_str msg ''state_hash'') (\<lambda>h.
     bind_result (get_bytes msg ''signature'') (\<lambda>sig.
       Inr \<lparr>lk_turn = 0, lk_phase = DIPLOMACY, lk_state = b, lk_hash = h, lk_previous = None, lk_signature = sig\<rparr>)))"

section \<open>The checks\<close>

text \<open>The reasons, the last with the hashes its text quotes.\<close>

datatype reason =
    MatchStartSignature
  | MatchStartHash
  | SignatureInvalid
  | HashMismatch
  | ChainBroken string "string option"

record VerificationIssue =
  vi_index :: nat
  vi_turn :: int
  vi_phase :: Phase
  vi_reason :: reason

record VerificationReport =
  vr_ok :: bool
  vr_checked :: nat
  vr_issues :: "VerificationIssue list"

definition verify_signature :: "externals \<Rightarrow> bytes \<Rightarrow> link \<Rightarrow> bool" where
  "verify_signature X public_key l = validate_signature X public_key (lk_signature l) (utf8_encode (lk_hash l))"

text \<open>\<open>bytes.fromhex\<close> stands outside the \<open>try\<close>; an empty string counts as no predecessor.\<close>

definition verify_hash_matches_state :: "externals \<Rightarrow> link \<Rightarrow> bool result" where
  "verify_hash_matches_state X l =
     (case game_state_from_canonical_bytes X (lk_state l) of
        Inl _ \<Rightarrow> Inr False
      | Inr state \<Rightarrow>
          bind_result
            (case lk_previous l of
               None \<Rightarrow> Inr None
             | Some p \<Rightarrow> if p = '''' then Inr None else bind_result (fromhex p) (\<lambda>b. Inr (Some b)))
            (\<lambda>previous.
          bind_result (hash_game_state_hex X state previous) (\<lambda>h. Inr (h = lk_hash l))))"

definition issue :: "nat \<Rightarrow> link \<Rightarrow> reason \<Rightarrow> VerificationIssue" where
  "issue i l why = \<lparr>vi_index = i, vi_turn = lk_turn l, vi_phase = lk_phase l, vi_reason = why\<rparr>"

text \<open>The body of the loop: the issues of one entry.\<close>

definition check_link :: "externals \<Rightarrow> bytes \<Rightarrow> string option \<Rightarrow> nat \<Rightarrow> link \<Rightarrow> VerificationIssue list result" where
  "check_link X public_key previous i l =
     bind_result (verify_hash_matches_state X l) (\<lambda>matches.
       Inr ((if \<not> verify_signature X public_key l then [issue i l SignatureInvalid] else []) @
            (if \<not> matches then [issue i l HashMismatch] else []) @
            (case previous of
               None \<Rightarrow> []
             | Some p \<Rightarrow> if lk_previous l \<noteq> Some p then [issue i l (ChainBroken p (lk_previous l))] else [])))"

fun check_links ::
    "externals \<Rightarrow> bytes \<Rightarrow> string option \<Rightarrow> nat \<Rightarrow> link list \<Rightarrow> VerificationIssue list result" where
  "check_links X public_key previous i [] = Inr []"
| "check_links X public_key previous i (l # ls) =
     bind_result (check_link X public_key previous i l) (\<lambda>issues.
     bind_result (check_links X public_key (Some (lk_hash l)) (i + 1) ls) (\<lambda>rest.
       Inr (issues @ rest)))"

definition check_start :: "externals \<Rightarrow> bytes \<Rightarrow> link option \<Rightarrow> VerificationIssue list result" where
  "check_start X public_key match_start =
     (case match_start of
        None \<Rightarrow> Inr []
      | Some l \<Rightarrow>
          bind_result (verify_hash_matches_state X l) (\<lambda>matches.
            Inr ((if \<not> verify_signature X public_key l
                  then [\<lparr>vi_index = 0, vi_turn = 0, vi_phase = DIPLOMACY, vi_reason = MatchStartSignature\<rparr>] else []) @
                 (if \<not> matches
                  then [\<lparr>vi_index = 0, vi_turn = 0, vi_phase = DIPLOMACY, vi_reason = MatchStartHash\<rparr>] else []))))"

definition verify_history ::
    "externals \<Rightarrow> bytes \<Rightarrow> link list \<Rightarrow> link option \<Rightarrow> VerificationReport result" where
  "verify_history X public_key phase_results match_start =
     bind_result (check_start X public_key match_start) (\<lambda>start.
     bind_result (check_links X public_key (map_option lk_hash match_start) 1 phase_results) (\<lambda>rest.
       let issues = start @ rest
       in Inr \<lparr>vr_ok = (issues = []),
               vr_checked = (if match_start = None then 0 else 1) + length phase_results, vr_issues = issues\<rparr>))"

definition reproduce_and_compare ::
    "externals \<Rightarrow> GameState \<Rightarrow> (string, Order) dict \<Rightarrow> GameState \<Rightarrow> (bool \<times> GameState) result" where
  "reproduce_and_compare X pre_state orders claimed_state =
     bind_result (movement_phase orders pre_state) (\<lambda>(computed, _).
     bind_result (hash_game_state_hex X computed None) (\<lambda>h.
     bind_result (hash_game_state_hex X claimed_state None) (\<lambda>h'.
       Inr (h = h', computed))))"

section \<open>What the report says\<close>

definition link_verifies :: "externals \<Rightarrow> bytes \<Rightarrow> link \<Rightarrow> bool" where
  "link_verifies X public_key l \<longleftrightarrow> verify_signature X public_key l \<and> verify_hash_matches_state X l = Inr True"

fun linked :: "string option \<Rightarrow> link list \<Rightarrow> bool" where
  "linked previous [] \<longleftrightarrow> True"
| "linked previous (l # ls) \<longleftrightarrow> (previous = None \<or> lk_previous l = previous) \<and> linked (Some (lk_hash l)) ls"

lemma check_link_ok:
  "check_link X pk previous i l = Inr [] \<longleftrightarrow> link_verifies X pk l \<and> (previous = None \<or> lk_previous l = previous)"
  by (auto simp: check_link_def link_verifies_def split: option.splits if_splits)

lemma check_links_ok:
  "check_links X pk previous i ls = Inr [] \<longleftrightarrow> list_all (link_verifies X pk) ls \<and> linked previous ls"
  by (induction ls arbitrary: previous i) (auto simp: check_link_ok)

text \<open>The report is "ok" exactly for signed, self-consistent and gapless results; every entry is counted.\<close>

lemma verify_history_ok:
  assumes "verify_history X pk ls start = Inr rep"
  shows "vr_ok rep \<longleftrightarrow>
      (case start of None \<Rightarrow> True | Some s \<Rightarrow> link_verifies X pk s) \<and>
      list_all (link_verifies X pk) ls \<and> linked (map_option lk_hash start) ls"
    and "vr_checked rep = length ls + (case start of None \<Rightarrow> 0 | Some _ \<Rightarrow> 1)"
proof -
  obtain xs ys where x: "check_start X pk start = Inr xs"
    and y: "check_links X pk (map_option lk_hash start) 1 ls = Inr ys"
    and rep: "vr_ok rep \<longleftrightarrow> xs = [] \<and> ys = []" "vr_checked rep = (if start = None then 0 else 1) + length ls"
    using assms by (auto simp: verify_history_def Let_def)
  have "xs = [] \<longleftrightarrow> (case start of None \<Rightarrow> True | Some s \<Rightarrow> link_verifies X pk s)"
    using x by (auto simp: check_start_def link_verifies_def split: option.splits if_splits)
  moreover have "ys = [] \<longleftrightarrow> list_all (link_verifies X pk) ls \<and> linked (map_option lk_hash start) ls"
    using y check_links_ok [of X pk "map_option lk_hash start" 1 ls] by simp
  ultimately show "vr_ok rep \<longleftrightarrow>
      (case start of None \<Rightarrow> True | Some s \<Rightarrow> link_verifies X pk s) \<and>
      list_all (link_verifies X pk) ls \<and> linked (map_option lk_hash start) ls"
    using rep(1) by blast
  show "vr_checked rep = length ls + (case start of None \<Rightarrow> 0 | Some _ \<Rightarrow> 1)"
    using rep(2) by (cases start) simp_all
qed

lemma verify_history_accepts:
  assumes "case start of None \<Rightarrow> True | Some s \<Rightarrow> link_verifies X pk s"
    and "list_all (link_verifies X pk) ls" "linked (map_option lk_hash start) ls"
  shows "\<exists>rep. verify_history X pk ls start = Inr rep \<and> vr_ok rep \<and> vr_issues rep = [] \<and>
    vr_checked rep = length ls + (case start of None \<Rightarrow> 0 | Some _ \<Rightarrow> 1)"
proof -
  have "check_start X pk start = Inr []"
    using assms(1) by (auto simp: check_start_def link_verifies_def split: option.splits)
  moreover have "check_links X pk (map_option lk_hash start) 1 ls = Inr []" using assms(2,3) by (simp add: check_links_ok)
  ultimately show ?thesis by (cases start) (simp_all add: verify_history_def)
qed

text \<open>A client that was away and missed a result sees a broken chain, although the coordinator is honest.\<close>

lemma gap_is_reported:
  assumes "verify_history X pk (ls @ [l, l'] @ ls') start = Inr rep" "lk_previous l' \<noteq> Some (lk_hash l)"
  shows "\<not> vr_ok rep"
proof -
  have "\<not> linked p (ls @ [l, l'] @ ls')" for p using assms(2) by (induction ls arbitrary: p) auto
  then show ?thesis using verify_history_ok(1) [OF assms(1)] by blast
qed

text \<open>The signed hash covers the board alone, and no check reads the turn and the phase of a result: a
  coordinator can give every link another turn and another phase, and the report stays as good.\<close>

definition relabels :: "link \<Rightarrow> link \<Rightarrow> bool" where
  "relabels l l' \<longleftrightarrow> l' = l\<lparr>lk_turn := lk_turn l', lk_phase := lk_phase l'\<rparr>"

lemma relabelled_link:
  assumes "relabels l l'"
  shows "lk_hash l' = lk_hash l" "lk_previous l' = lk_previous l" "link_verifies X pk l' = link_verifies X pk l"
    "verify_hash_matches_state X l' = verify_hash_matches_state X l"
proof -
  obtain t p where l': "l' = l\<lparr>lk_turn := t, lk_phase := p\<rparr>" using assms by (auto simp: relabels_def)
  show same: "lk_hash l' = lk_hash l" "lk_previous l' = lk_previous l" by (simp_all add: l')
  have "lk_state l' = lk_state l" "lk_signature l' = lk_signature l" by (simp_all add: l')
  with same show "link_verifies X pk l' = link_verifies X pk l" "verify_hash_matches_state X l' = verify_hash_matches_state X l"
    by (simp_all only: link_verifies_def verify_signature_def verify_hash_matches_state_def)
qed

lemma relabelled_unnoticed:
  assumes "list_all2 relabels ls ls'" "verify_history X pk ls start = Inr rep"
  shows "\<exists>rep'. verify_history X pk ls' start = Inr rep' \<and> vr_ok rep' = vr_ok rep \<and> vr_checked rep' = vr_checked rep"
proof -
  have same: "list_all (link_verifies X pk) ls' = list_all (link_verifies X pk) ls \<and> linked p ls' = linked p ls \<and>
      length ls' = length ls" for p
    using assms(1) by (induction arbitrary: p rule: list_all2_induct) (simp_all add: relabelled_link)
  have "\<exists>ys. check_links X pk p i ls' = Inr ys" if "check_links X pk p i ls = Inr xs" for p i xs
    using assms(1) that
  proof (induction arbitrary: p i xs rule: list_all2_induct)
    case (Cons l ls l' ls')
    then obtain b zs where "verify_hash_matches_state X l = Inr b" "check_links X pk (Some (lk_hash l)) (i + 1) ls = Inr zs"
      by (auto simp: check_link_def)
    with Cons.IH Cons.hyps(1) show ?case by (fastforce simp: check_link_def relabelled_link)
  qed simp
  then obtain rep' where "verify_history X pk ls' start = Inr rep'"
    using assms(2) by (fastforce simp: verify_history_def)
  with verify_history_ok [OF this] verify_history_ok [OF assms(2)] same show ?thesis by auto
qed

text \<open>Re-running the movement on the same orders reproduces the coordinator's board.\<close>

lemma reproduction_agrees:
  assumes "movement_phase orders pre = Inr (board, d)" "canonical_bytes X board = Inr b"
  shows "reproduce_and_compare X pre orders board = Inr (True, board)"
  using assms by (simp add: reproduce_and_compare_def hash_game_state_hex_def hash_game_state_def)

end
