(* ===== verification/Player_Client.thy ===== *)
theory Player_Client
  imports Match Transport Client_Verification
begin

text \<open>
  \<open>PlayerClient\<close> of \<^verbatim>\<open>client/transport.py\<close> with \<^verbatim>\<open>client/negotiations.py\<close>: the state of a session, the
  handlers of inbound messages, \<open>poll\<close>, and the outbound actions. The methods are actions on the state
  \<open>player\<close>; the clock, the external functions and the errors of the transport come from the
  \<open>environment\<close> of the coordinator's model.
\<close>

section \<open>Text\<close>

text \<open>\<open>bytes.decode("utf-8")\<close>: \<open>UnicodeDecodeError\<close>, a \<open>ValueError\<close>, on bytes that are no UTF-8.\<close>

definition continuation :: "8 word \<Rightarrow> bool" where
  "continuation b \<longleftrightarrow> 0x80 \<le> b \<and> b \<le> 0xBF"

fun valid_utf8 :: "bytes \<Rightarrow> bool" where
  "valid_utf8 [] \<longleftrightarrow> True"
| "valid_utf8 (a # s) \<longleftrightarrow>
     (if a < 0x80 then valid_utf8 s
      else if a < 0xC2 then False
      else if a < 0xE0 then (case s of b # t \<Rightarrow> continuation b \<and> valid_utf8 t | _ \<Rightarrow> False)
      else if a < 0xF0 then
        (case s of b # c # t \<Rightarrow>
             (if a = 0xE0 then 0xA0 \<le> b else 0x80 \<le> b) \<and> (if a = 0xED then b \<le> 0x9F else b \<le> 0xBF) \<and>
             continuation c \<and> valid_utf8 t
         | _ \<Rightarrow> False)
      else if a < 0xF5 then
        (case s of b # c # d # t \<Rightarrow>
             (if a = 0xF0 then 0x90 \<le> b else 0x80 \<le> b) \<and> (if a = 0xF4 then b \<le> 0x8F else b \<le> 0xBF) \<and>
             continuation c \<and> continuation d \<and> valid_utf8 t
         | _ \<Rightarrow> False)
      else False)"

definition decode_utf8 :: "bytes \<Rightarrow> string result" where
  "decode_utf8 b = (if valid_utf8 b then Inr (utf8_decode b) else Inl ValueError)"

text \<open>\<open>listen_for_announces\<close>: the coordinator's address and the match of each announcement.\<close>

definition listen_for_announces :: "Announcement list \<Rightarrow> (string \<times> string) list result" where
  "listen_for_announces announcements =
     map_result (\<lambda>a. bind_result (decode_utf8 (an_data a)) (\<lambda>m. Inr (an_destination a, m))) announcements"

section \<open>The session\<close>

record player =
  pc_identity :: bytes
  pc_coordinator :: string
  pc_match_id :: string
  pc_sequence :: int
  pc_game_info :: "message option"
  pc_faction_name :: "string option"
  pc_faction_names :: "string list"
  pc_match_parameters :: "(string \<times> canonical) list"
  pc_join_rejected_reason :: "string option"
  pc_match_status :: "MatchStatus option"
  pc_phase :: "Phase option"
  pc_turn :: "int option"
  pc_year :: "int option"
  pc_deadline :: "rat option"
  pc_match_start :: "message option"
  pc_phase_results :: "message list"
  pc_deadline_warnings :: "message list"
  pc_order_receipts :: "message list"
  pc_order_status :: "message option"
  pc_state_responses :: "message list"
  pc_draw_results :: "message list"
  pc_match_end :: "message option"
  pc_errors :: "message list"
  pc_negotiations :: "(string \<times> message) list"
  pc_negotiation_acks :: "message list"
  pc_sent :: "(string \<times> bytes) list"
  pc_readings :: nat

definition new_player :: "bytes \<Rightarrow> string \<Rightarrow> string \<Rightarrow> int \<Rightarrow> player" where
  "new_player identity coordinator_destination match_id initial_sequence_number =
     \<lparr>pc_identity = identity, pc_coordinator = coordinator_destination, pc_match_id = match_id,
      pc_sequence = initial_sequence_number, pc_game_info = None, pc_faction_name = None,
      pc_faction_names = [], pc_match_parameters = [], pc_join_rejected_reason = None,
      pc_match_status = None, pc_phase = None, pc_turn = None, pc_year = None, pc_deadline = None,
      pc_match_start = None, pc_phase_results = [], pc_deadline_warnings = [], pc_order_receipts = [],
      pc_order_status = None, pc_state_responses = [], pc_draw_results = [], pc_match_end = None,
      pc_errors = [], pc_negotiations = [], pc_negotiation_acks = [], pc_sent = [], pc_readings = 0\<rparr>"

section \<open>Handlers\<close>

definition get_status :: "message \<Rightarrow> string \<Rightarrow> MatchStatus result" where
  "get_status msg k =
     (case field_of msg k of
        Some (VEnum v) \<Rightarrow> enum_of_value match_status_value [LOBBY, ACTIVE, COMPLETED] v
      | _ \<Rightarrow> Inl Unmodelled)"

definition get_float :: "message \<Rightarrow> string \<Rightarrow> rat result" where
  "get_float msg k =
     (case field_of msg k of
        Some (VRaw (CFloat q)) \<Rightarrow> Inr q
      | Some (VRaw (CInt i)) \<Rightarrow> Inr (of_int i)
      | _ \<Rightarrow> Inl Unmodelled)"

fun str_of_value :: "field_value \<Rightarrow> string result" where
  "str_of_value (VRaw (CStr s)) = Inr s"
| "str_of_value _ = Inl Unmodelled"

definition get_names :: "message \<Rightarrow> string \<Rightarrow> string list result" where
  "get_names msg k = (case field_of msg k of Some (VTuple vs) \<Rightarrow> map_result str_of_value vs | _ \<Rightarrow> Inl Unmodelled)"

definition get_dict :: "message \<Rightarrow> string \<Rightarrow> (string \<times> canonical) list result" where
  "get_dict msg k = (case field_of msg k of Some (VRaw (CDict d)) \<Rightarrow> Inr d | _ \<Rightarrow> Inl Unmodelled)"

definition player_game_info :: "message \<Rightarrow> player \<Rightarrow> player result" where
  "player_game_info msg c =
     bind_result (get_status msg ''status'') (\<lambda>status.
       Inr (c\<lparr>pc_game_info := Some msg, pc_match_status := Some status\<rparr>))"

text \<open>\<open>dict(message.match_parameters)\<close> is a copy of a dictionary.\<close>

definition player_join_accepted :: "externals \<Rightarrow> message \<Rightarrow> player \<Rightarrow> player result" where
  "player_join_accepted X msg c =
     bind_result (get_bytes msg ''encrypted_faction'') (\<lambda>encrypted.
     bind_result (decrypt_with X (pc_identity c) encrypted) (\<lambda>plain.
     bind_result (decode_utf8 plain) (\<lambda>name.
     bind_result (get_names msg ''faction_names'') (\<lambda>names.
     bind_result (get_dict msg ''match_parameters'') (\<lambda>parameters.
       Inr (c\<lparr>pc_faction_name := Some name, pc_faction_names := names, pc_match_parameters := parameters,
         pc_join_rejected_reason := None\<rparr>))))))"

definition player_join_rejected :: "message \<Rightarrow> player \<Rightarrow> player result" where
  "player_join_rejected msg c =
     bind_result (get_str msg ''reason'') (\<lambda>reason. Inr (c\<lparr>pc_join_rejected_reason := Some reason\<rparr>))"

definition player_match_start :: "message \<Rightarrow> player \<Rightarrow> player result" where
  "player_match_start msg c =
     bind_result (get_names msg ''faction_names'') (\<lambda>names.
     bind_result (get_float msg ''deadline'') (\<lambda>deadline.
       Inr (c\<lparr>pc_match_start := Some msg, pc_match_status := Some ACTIVE, pc_faction_names := names,
         pc_deadline := Some deadline\<rparr>)))"

definition player_phase_start :: "message \<Rightarrow> player \<Rightarrow> player result" where
  "player_phase_start msg c =
     bind_result (get_phase msg ''phase'') (\<lambda>phs.
     bind_result (get_int msg ''turn'') (\<lambda>trn.
     bind_result (get_int msg ''year'') (\<lambda>yr.
     bind_result (get_float msg ''deadline'') (\<lambda>deadline.
       Inr (c\<lparr>pc_phase := Some phs, pc_turn := Some trn, pc_year := Some yr, pc_deadline := Some deadline\<rparr>)))))"

definition player_phase_result :: "message \<Rightarrow> player \<Rightarrow> player result" where
  "player_phase_result msg c = Inr (c\<lparr>pc_phase_results := pc_phase_results c @ [msg]\<rparr>)"

definition player_deadline_warning :: "message \<Rightarrow> player \<Rightarrow> player result" where
  "player_deadline_warning msg c = Inr (c\<lparr>pc_deadline_warnings := pc_deadline_warnings c @ [msg]\<rparr>)"

definition player_order_receipt :: "message \<Rightarrow> player \<Rightarrow> player result" where
  "player_order_receipt msg c = Inr (c\<lparr>pc_order_receipts := pc_order_receipts c @ [msg]\<rparr>)"

definition player_order_status :: "message \<Rightarrow> player \<Rightarrow> player result" where
  "player_order_status msg c = Inr (c\<lparr>pc_order_status := Some msg\<rparr>)"

definition player_state_response :: "message \<Rightarrow> player \<Rightarrow> player result" where
  "player_state_response msg c = Inr (c\<lparr>pc_state_responses := pc_state_responses c @ [msg]\<rparr>)"

definition player_draw_result :: "message \<Rightarrow> player \<Rightarrow> player result" where
  "player_draw_result msg c = Inr (c\<lparr>pc_draw_results := pc_draw_results c @ [msg]\<rparr>)"

definition player_match_end :: "message \<Rightarrow> player \<Rightarrow> player result" where
  "player_match_end msg c = Inr (c\<lparr>pc_match_end := Some msg, pc_match_status := Some COMPLETED\<rparr>)"

definition player_error :: "message \<Rightarrow> player \<Rightarrow> player result" where
  "player_error msg c = Inr (c\<lparr>pc_errors := pc_errors c @ [msg]\<rparr>)"

definition player_negotiation :: "string \<Rightarrow> message \<Rightarrow> player \<Rightarrow> player result" where
  "player_negotiation sender msg c = Inr (c\<lparr>pc_negotiations := pc_negotiations c @ [(sender, msg)]\<rparr>)"

definition player_negotiation_ack :: "message \<Rightarrow> player \<Rightarrow> player result" where
  "player_negotiation_ack msg c = Inr (c\<lparr>pc_negotiation_acks := pc_negotiation_acks c @ [msg]\<rparr>)"

lemmas player_handlers =
  player_game_info_def player_join_accepted_def player_join_rejected_def player_match_start_def
  player_phase_start_def player_phase_result_def player_deadline_warning_def player_order_receipt_def
  player_order_status_def player_state_response_def player_draw_result_def player_match_end_def
  player_error_def player_negotiation_def player_negotiation_ack_def

text \<open>The table \<open>_handlers\<close>; every handler but one ignores who sent the message.\<close>

fun player_handler :: "externals \<Rightarrow> MessageType \<Rightarrow> (message \<Rightarrow> string \<Rightarrow> player \<Rightarrow> player result) option" where
  "player_handler X GAME_INFO = Some (\<lambda>msg sender. player_game_info msg)"
| "player_handler X JOIN_ACCEPTED = Some (\<lambda>msg sender. player_join_accepted X msg)"
| "player_handler X JOIN_REJECTED = Some (\<lambda>msg sender. player_join_rejected msg)"
| "player_handler X MATCH_START = Some (\<lambda>msg sender. player_match_start msg)"
| "player_handler X PHASE_START = Some (\<lambda>msg sender. player_phase_start msg)"
| "player_handler X PHASE_RESULT = Some (\<lambda>msg sender. player_phase_result msg)"
| "player_handler X PHASE_DEADLINE_WARNING = Some (\<lambda>msg sender. player_deadline_warning msg)"
| "player_handler X ORDER_RECEIPT = Some (\<lambda>msg sender. player_order_receipt msg)"
| "player_handler X ORDER_STATUS = Some (\<lambda>msg sender. player_order_status msg)"
| "player_handler X STATE_RESPONSE = Some (\<lambda>msg sender. player_state_response msg)"
| "player_handler X DRAW_RESULT = Some (\<lambda>msg sender. player_draw_result msg)"
| "player_handler X MATCH_END = Some (\<lambda>msg sender. player_match_end msg)"
| "player_handler X ERROR = Some (\<lambda>msg sender. player_error msg)"
| "player_handler X NEGOTIATION = Some (\<lambda>msg sender. player_negotiation sender msg)"
| "player_handler X NEGOTIATION_ACK = Some (\<lambda>msg sender. player_negotiation_ack msg)"
| "player_handler X _ = None"

section \<open>Polling\<close>

text \<open>\<open>handler(message, inbound.sender)\<close> if there is a handler.\<close>

definition player_handle :: "externals \<Rightarrow> message \<Rightarrow> string \<Rightarrow> player \<Rightarrow> player result" where
  "player_handle X msg sender c =
     (case player_handler X (message_type msg) of None \<Rightarrow> Inr c | Some handler \<Rightarrow> handler msg sender c)"

text \<open>\<open>poll\<close> on the messages that \<open>transport.receive()\<close> returns.\<close>

fun player_poll :: "externals \<Rightarrow> InboundMessage list \<Rightarrow> (player, message list) act" where
  "player_poll X [] = act_return []"
| "player_poll X (inbound # rest) =
     (case read_message X (im_data inbound) of
        Inl e \<Rightarrow> if is_malformed e then player_poll X rest else act_raise e
      | Inr msg \<Rightarrow>
          act_bind (act_write (player_handle X msg (im_sender inbound))) (\<lambda>_.
          act_bind (player_poll X rest) (\<lambda>processed. act_return (msg # processed))))"

section \<open>Outbound actions\<close>

definition player_now :: "environment \<Rightarrow> (player, rat) act" where
  "player_now E c = (Inr (env_clock E (pc_readings c)), c\<lparr>pc_readings := pc_readings c + 1\<rparr>)"

definition player_next_sequence :: "(player, int) act" where
  "player_next_sequence c = (Inr (pc_sequence c + 1), c\<lparr>pc_sequence := pc_sequence c + 1\<rparr>)"

definition player_transport_send :: "environment \<Rightarrow> string \<Rightarrow> bytes \<Rightarrow> (player, unit) act" where
  "player_transport_send E destination data c =
     (case env_send_error E destination data of
        Some e \<Rightarrow> (Inl e, c)
      | None \<Rightarrow> (Inr (), c\<lparr>pc_sent := pc_sent c @ [(destination, data)]\<rparr>))"

definition player_send :: "environment \<Rightarrow> string \<Rightarrow> message \<Rightarrow> (player, unit) act" where
  "player_send E destination msg =
     act_bind (act_try (\<lambda>_. encode_message (env_externals E) msg)) (\<lambda>data. player_transport_send E destination data)"

text \<open>Every action stamps its message with \<open>_next_sequence()\<close> and \<open>_now()\<close>; \<open>_send\<close> goes to the
  coordinator.\<close>

definition stamped :: "environment \<Rightarrow> MessageType \<Rightarrow> (string \<times> field_value) list \<Rightarrow> (player, message) act" where
  "stamped E t fs =
     act_bind player_next_sequence (\<lambda>q. act_bind (player_now E) (\<lambda>ts. act_return (mk_message t q ts fs)))"

definition to_coordinator :: "environment \<Rightarrow> MessageType \<Rightarrow> (string \<times> field_value) list \<Rightarrow> (player, unit) act" where
  "to_coordinator E t fs =
     act_bind (stamped E t fs) (\<lambda>msg. act_bind (act_get pc_coordinator) (\<lambda>d. player_send E d msg))"

definition match_field :: "player \<Rightarrow> string \<times> field_value" where
  "match_field c = (''match_id'', VRaw (CStr (pc_match_id c)))"

definition player_discover :: "environment \<Rightarrow> (player, unit) act" where
  "player_discover E = to_coordinator E DISCOVER_GAME []"

definition player_join :: "environment \<Rightarrow> string option \<Rightarrow> (player, unit) act" where
  "player_join E display_name c =
     to_coordinator E JOIN_REQUEST
       [match_field c, (''player_public_key'', VRaw (CBytes (public_key_of (env_externals E) (pc_identity c)))),
        (''display_name'', str_value display_name)] c"

definition submit_orders :: "environment \<Rightarrow> Order list \<Rightarrow> int \<Rightarrow> (player, unit) act" where
  "submit_orders E orders revision c =
     to_coordinator E ORDER_SUBMIT
       [match_field c, (''revision'', VRaw (CInt revision)), (''orders'', VTuple (map VOrder orders))] c"

definition update_orders :: "environment \<Rightarrow> Order list \<Rightarrow> int \<Rightarrow> (player, unit) act" where
  "update_orders E orders revision c =
     to_coordinator E ORDER_UPDATE
       [match_field c, (''revision'', VRaw (CInt revision)), (''orders'', VTuple (map VOrder orders))] c"

definition cancel_orders :: "environment \<Rightarrow> int \<Rightarrow> (player, unit) act" where
  "cancel_orders E revision c = to_coordinator E ORDER_CANCEL [match_field c, (''revision'', VRaw (CInt revision))] c"

definition request_state :: "environment \<Rightarrow> int option \<Rightarrow> (player, unit) act" where
  "request_state E trn c =
     to_coordinator E STATE_REQUEST
       [match_field c, (''turn'', VRaw (case trn of None \<Rightarrow> CNone | Some t \<Rightarrow> CInt t))] c"

definition propose_draw :: "environment \<Rightarrow> int \<Rightarrow> (player, unit) act" where
  "propose_draw E trn c = to_coordinator E DRAW_PROPOSE [match_field c, (''turn'', VRaw (CInt trn))] c"

definition vote_draw :: "environment \<Rightarrow> int \<Rightarrow> bool \<Rightarrow> (player, unit) act" where
  "vote_draw E trn vote c =
     to_coordinator E DRAW_VOTE [match_field c, (''turn'', VRaw (CInt trn)), (''vote'', VRaw (CBool vote))] c"

text \<open>\<open>send_negotiation\<close> and \<open>send_negotiation_ack\<close> of the module, with the timestamp that the methods
  of the client pass, and the methods.\<close>

definition send_negotiation ::
    "environment \<Rightarrow> string \<Rightarrow> string \<Rightarrow> string \<Rightarrow> int \<Rightarrow> rat option \<Rightarrow> (player, message) act" where
  "send_negotiation E recipient match_id content sequence_number timestamp =
     act_bind (case timestamp of Some t \<Rightarrow> act_return t | None \<Rightarrow> player_now E) (\<lambda>ts.
     let msg = mk_message NEGOTIATION sequence_number ts
           [(''match_id'', VRaw (CStr match_id)), (''content'', VRaw (CStr content))]
     in act_bind (player_send E recipient msg) (\<lambda>_. act_return msg))"

definition send_negotiation_ack ::
    "environment \<Rightarrow> string \<Rightarrow> string \<Rightarrow> int \<Rightarrow> int \<Rightarrow> rat option \<Rightarrow> (player, message) act" where
  "send_negotiation_ack E recipient match_id acked sequence_number timestamp =
     act_bind (case timestamp of Some t \<Rightarrow> act_return t | None \<Rightarrow> player_now E) (\<lambda>ts.
     let msg = mk_message NEGOTIATION_ACK sequence_number ts
           [(''match_id'', VRaw (CStr match_id)), (''acked_sequence_number'', VRaw (CInt acked))]
     in act_bind (player_send E recipient msg) (\<lambda>_. act_return msg))"

definition player_negotiate :: "environment \<Rightarrow> string \<Rightarrow> string \<Rightarrow> (player, message) act" where
  "player_negotiate E recipient content c =
     act_bind player_next_sequence (\<lambda>q. act_bind (player_now E) (\<lambda>ts.
       send_negotiation E recipient (pc_match_id c) content q (Some ts))) c"

definition ack_negotiation :: "environment \<Rightarrow> string \<Rightarrow> int \<Rightarrow> (player, message) act" where
  "ack_negotiation E recipient acked c =
     act_bind player_next_sequence (\<lambda>q. act_bind (player_now E) (\<lambda>ts.
       send_negotiation_ack E recipient (pc_match_id c) acked q (Some ts))) c"

text \<open>\<open>group_by_sender\<close>: each sender's thread, senders in the order of their first message.\<close>

definition group_by_sender :: "(string \<times> message) list \<Rightarrow> (string, message list) dict" where
  "group_by_sender entries = group_by fst snd entries"

lemma thread_of_sender:
  "dict_get (group_by_sender entries) s [] = map snd (filter (\<lambda>x. fst x = s) entries)"
  by (simp add: group_by_sender_def dict_get_group_by)

section \<open>What a session remembers\<close>

text \<open>The messages of a batch that can be read, each with the address it came from.\<close>

definition readable :: "externals \<Rightarrow> InboundMessage list \<Rightarrow> (string \<times> message) list" where
  "readable X inbound =
     concat (map (\<lambda>i. case read_message X (im_data i) of Inl _ \<Rightarrow> [] | Inr msg \<Rightarrow> [(im_sender i, msg)]) inbound)"

definition of_type :: "MessageType \<Rightarrow> message list \<Rightarrow> message list" where
  "of_type t msgs = filter (\<lambda>msg. message_type msg = t) msgs"

text \<open>The list a session keeps of the messages of a type, and the latest one where it keeps only that.\<close>

fun session_log :: "MessageType \<Rightarrow> player \<Rightarrow> message list" where
  "session_log PHASE_RESULT c = pc_phase_results c"
| "session_log PHASE_DEADLINE_WARNING c = pc_deadline_warnings c"
| "session_log ORDER_RECEIPT c = pc_order_receipts c"
| "session_log STATE_RESPONSE c = pc_state_responses c"
| "session_log DRAW_RESULT c = pc_draw_results c"
| "session_log ERROR c = pc_errors c"
| "session_log NEGOTIATION c = map snd (pc_negotiations c)"
| "session_log NEGOTIATION_ACK c = pc_negotiation_acks c"
| "session_log _ c = []"

fun session_latest :: "MessageType \<Rightarrow> player \<Rightarrow> message option" where
  "session_latest GAME_INFO c = pc_game_info c"
| "session_latest MATCH_START c = pc_match_start c"
| "session_latest ORDER_STATUS c = pc_order_status c"
| "session_latest MATCH_END c = pc_match_end c"
| "session_latest _ c = None"

definition logged_types :: "MessageType list" where
  "logged_types =
     [PHASE_RESULT, PHASE_DEADLINE_WARNING, ORDER_RECEIPT, STATE_RESPONSE, DRAW_RESULT, ERROR, NEGOTIATION,
      NEGOTIATION_ACK]"

definition latest_types :: "MessageType list" where
  "latest_types = [GAME_INFO, MATCH_START, ORDER_STATUS, MATCH_END]"

fun latest :: "'a option \<Rightarrow> 'a list \<Rightarrow> 'a option" where
  "latest old [] = old"
| "latest old (x # xs) = latest (Some x) xs"

lemma latest_conv: "latest old xs = (if xs = [] then old else Some (last xs))"
  by (induction xs arbitrary: old) simp_all

lemma handle_facts:
  assumes "player_handle X msg sender c = Inr c'"
  shows "t \<in> set logged_types \<Longrightarrow> session_log t c' = session_log t c @ of_type t [msg]"
    and "t \<in> set latest_types \<Longrightarrow> session_latest t c' = latest (session_latest t c) (of_type t [msg])"
    and "pc_identity c' = pc_identity c" "pc_sequence c' = pc_sequence c" "pc_sent c' = pc_sent c"
    "pc_coordinator c' = pc_coordinator c" "pc_match_id c' = pc_match_id c"
    and "pc_negotiations c' = pc_negotiations c @ (if message_type msg = NEGOTIATION then [(sender, msg)] else [])"
  using assms
  by (cases "message_type msg";
      force simp: player_handle_def player_handlers of_type_def logged_types_def latest_types_def)+

lemma readable_Cons:
  "readable X (i # inbound) =
     (case read_message X (im_data i) of Inl _ \<Rightarrow> [] | Inr msg \<Rightarrow> [(im_sender i, msg)]) @ readable X inbound"
  by (simp add: readable_def)

lemma of_type_simps [simp]:
  "of_type t [] = []" "of_type t (msg # msgs) = (if message_type msg = t then msg # of_type t msgs else of_type t msgs)"
  by (simp_all add: of_type_def)

lemma poll_step:
  assumes "player_poll X (i # inbound) c = (Inr ms, c')"
  obtains (skipped) e where "read_message X (im_data i) = Inl e" "is_malformed e" "player_poll X inbound c = (Inr ms, c')"
    | (handled) msg c1 ms' where "read_message X (im_data i) = Inr msg" "player_handle X msg (im_sender i) c = Inr c1"
        "player_poll X inbound c1 = (Inr ms', c')" "ms = msg # ms'"
proof (cases "read_message X (im_data i)")
  case (Inl e)
  with assms show thesis by (cases "is_malformed e") (auto simp: act_run intro: skipped)
next
  case (Inr msg)
  with assms show thesis by (auto simp: act_bind_Inr act_write_Inr act_run intro: handled)
qed

theorem poll_remembers:
  assumes "player_poll X inbound c = (Inr ms, c')"
  shows "ms = map snd (readable X inbound)"
    and "t \<in> set logged_types \<Longrightarrow> session_log t c' = session_log t c @ of_type t ms"
    and "t \<in> set latest_types \<Longrightarrow> session_latest t c' = latest (session_latest t c) (of_type t ms)"
    and "pc_identity c' = pc_identity c" "pc_sequence c' = pc_sequence c"
    and "pc_negotiations c' = pc_negotiations c @ filter (\<lambda>x. message_type (snd x) = NEGOTIATION) (readable X inbound)"
proof -
  have "ms = map snd (readable X inbound) \<and>
      (t \<in> set logged_types \<longrightarrow> session_log t c' = session_log t c @ of_type t ms) \<and>
      (t \<in> set latest_types \<longrightarrow> session_latest t c' = latest (session_latest t c) (of_type t ms)) \<and>
      pc_identity c' = pc_identity c \<and> pc_sequence c' = pc_sequence c \<and>
      pc_negotiations c' = pc_negotiations c @ filter (\<lambda>x. message_type (snd x) = NEGOTIATION) (readable X inbound)"
    using assms
  proof (induction inbound arbitrary: c ms)
    case Nil
    then show ?case by (simp add: act_run readable_def)
  next
    case (Cons i inbound)
    from Cons.prems show ?case
    proof (cases rule: poll_step)
      case skipped
      then show ?thesis using Cons.IH [OF skipped(3)] by (simp add: readable_Cons)
    next
      case (handled msg c1 ms')
      then show ?thesis using Cons.IH [OF handled(3)] handled(1,4)
          handle_facts(1,2) [OF handled(2), of t] handle_facts(3-8) [OF handled(2)]
        by (auto simp: readable_Cons)
    qed
  qed
  then show "ms = map snd (readable X inbound)"
    and "t \<in> set logged_types \<Longrightarrow> session_log t c' = session_log t c @ of_type t ms"
    and "t \<in> set latest_types \<Longrightarrow> session_latest t c' = latest (session_latest t c) (of_type t ms)"
    and "pc_identity c' = pc_identity c" "pc_sequence c' = pc_sequence c"
    and "pc_negotiations c' = pc_negotiations c @ filter (\<lambda>x. message_type (snd x) = NEGOTIATION) (readable X inbound)"
    by blast+
qed

text \<open>A message that is too large, or whose enum value is unknown, stops the poll: the rest of the batch is
  lost, whoever sent it.\<close>

lemma unreadable_stops_poll:
  assumes "read_message X (im_data i) = Inl e" "\<not> is_malformed e"
  shows "player_poll X (i # rest) c = (Inl e, c)"
  using assms by (simp add: act_run)

end
