(* ===== verification/Client_Audit.thy ===== *)
theory Client_Audit
  imports Player_Client Match_Advance
begin

text \<open>
  The coordinator's record against the client's verification: the rows that \<open>_persist_phase_result\<close>
  writes (\<^verbatim>\<open>coordinator/match.py\<close>), sent as \<open>MATCH_START\<close> and \<open>PHASE_RESULT\<close> messages, polled by a
  \<open>PlayerClient\<close> (\<^verbatim>\<open>client/transport.py\<close>) and checked by \<open>verify_history\<close> (\<^verbatim>\<open>client/verification.py\<close>).
\<close>

section \<open>What a client verifies\<close>

text \<open>\<open>verify_history(coordinator, client.phase_results, match_start=client.match_start)\<close>.\<close>

definition verify_session :: "externals \<Rightarrow> bytes \<Rightarrow> player \<Rightarrow> VerificationReport result" where
  "verify_session X public_key c =
     bind_result (map_result link_of_phase_result (pc_phase_results c)) (\<lambda>ls.
     bind_result (case pc_match_start c of
         None \<Rightarrow> Inr None
       | Some msg \<Rightarrow> bind_result (link_of_match_start msg) (\<lambda>l. Inr (Some l))) (\<lambda>start.
       verify_history X public_key ls start))"

section \<open>Rows as links\<close>

definition link_of_row :: "phase_row \<Rightarrow> link" where
  "link_of_row r = \<lparr>lk_turn = ph_turn r, lk_phase = ph_phase r, lk_state = ph_state r, lk_hash = ph_hash r,
     lk_previous = ph_previous r, lk_signature = ph_signature r\<rparr>"

definition start_of_row :: "phase_row \<Rightarrow> link" where
  "start_of_row r = (link_of_row r)\<lparr>lk_turn := 0, lk_phase := DIPLOMACY, lk_previous := None\<rparr>"

lemma phase_result_link:
  "link_of_phase_result (phase_result_message q ts m yr r) = Inr (link_of_row r)"
  by (cases "ph_phase r"; cases "ph_previous r")
    (simp_all add: link_of_phase_result_def phase_result_message_def get_int_def get_phase_def get_bytes_def get_str_def
      get_optional_str_def enum_of_value_def link_of_row_def)

lemma match_start_link:
  "link_of_match_start (match_start_message m q ts names (ph_state r) (ph_hash r) (ph_signature r) dl) = Inr (start_of_row r)"
  by (simp add: link_of_match_start_def match_start_message_def get_bytes_def get_str_def start_of_row_def link_of_row_def)

lemma link_hash:
  assumes "digest_ok X" "link_ok X key prev r"
  shows "ph_hash r \<noteq> ''''"
proof -
  obtain gs p where "hash_game_state_hex X gs p = Inr (ph_hash r)" using assms(2) by (auto simp: link_ok_def)
  then obtain b where "hex_of (sha256 X b) = ph_hash r" by (auto simp: hash_game_state_hex_def hash_game_state_Inr)
  moreover have "sha256 X b \<noteq> []" using assms(1) unfolding digest_ok_def by (metis list.size(3) zero_neq_numeral)
  ultimately show ?thesis by (metis hex_of_Nil_iff)
qed

text \<open>A recorded link passes the client's checks under the coordinator's public key.\<close>

lemma row_verifies:
  assumes "codec_ok X" "identity_ok X" "link_ok X key prev r" "\<And>q. prev = Some q \<Longrightarrow> ph_hash q \<noteq> ''''"
  shows "link_verifies X (public_key_of X key) (link_of_row r)"
    and "prev = None \<Longrightarrow> link_verifies X (public_key_of X key) (start_of_row r)"
proof -
  obtain gs p where gs: "canonical_bytes X gs = Inr (ph_state r)"
    and p: "case prev of None \<Rightarrow> p = None | Some q \<Rightarrow> \<exists>b. fromhex (ph_hash q) = Inr b \<and> p = Some b"
    and h: "hash_game_state_hex X gs p = Inr (ph_hash r)"
    using assms(3) by (auto simp: link_ok_def)
  have state: "game_state_from_canonical_bytes X (ph_state r) = Inr (state_norm gs)"
    by (rule decode_canonical [OF assms(1) gs])
  have hash: "hash_game_state_hex X (state_norm gs) p = Inr (ph_hash r)"
    using h by (simp add: hash_game_state_hex_def hash_game_state_def canonical_bytes_def canonicalize_norm)
  have signed: "validate_signature X (public_key_of X key) (ph_signature r) (utf8_encode (ph_hash r))"
    using assms(2,3) by (simp add: link_ok_def identity_ok_def)
  have previous: "ph_previous r = map_option ph_hash prev" using assms(3) by (simp add: link_ok_def)
  show "link_verifies X (public_key_of X key) (link_of_row r)"
  proof (cases prev)
    case None
    then show ?thesis using state hash p signed previous
      by (simp add: link_verifies_def verify_signature_def verify_hash_matches_state_def link_of_row_def)
  next
    case (Some q)
    then show ?thesis using state hash p signed previous assms(4)
      by (auto simp: link_verifies_def verify_signature_def verify_hash_matches_state_def link_of_row_def)
  qed
  assume "prev = None"
  then show "link_verifies X (public_key_of X key) (start_of_row r)" using state hash p signed
    by (simp add: link_verifies_def verify_signature_def verify_hash_matches_state_def link_of_row_def start_of_row_def)
qed

lemma rows_verify:
  assumes "codec_ok X" "digest_ok X" "identity_ok X"
    and "chain_from X key prev rows" "\<And>q. prev = Some q \<Longrightarrow> ph_hash q \<noteq> ''''"
  shows "list_all (link_verifies X (public_key_of X key)) (map link_of_row rows)"
    and "linked (map_option ph_hash prev) (map link_of_row rows)"
proof -
  have "list_all (link_verifies X (public_key_of X key)) (map link_of_row rows) \<and>
      linked (map_option ph_hash prev) (map link_of_row rows)"
    using assms(4,5)
  proof (induction rows arbitrary: prev)
    case Nil
    then show ?case by simp
  next
    case (Cons r rows)
    then have l: "link_ok X key prev r" "chain_from X key (Some r) rows" by simp_all
    from Cons.IH [OF l(2)] link_hash [OF assms(2) l(1)] row_verifies(1) [OF assms(1,3) l(1) Cons.prems(2)] l(1)
    show ?case by (auto simp: link_of_row_def link_ok_def)
  qed
  then show "list_all (link_verifies X (public_key_of X key)) (map link_of_row rows)"
    and "linked (map_option ph_hash prev) (map link_of_row rows)" by simp_all
qed

lemma linked_anywhere: "linked p ls \<Longrightarrow> linked None ls"
  by (cases ls) simp_all

lemma chain_from_split:
  assumes "digest_ok X" "chain_from X key prev (before @ rows)" "\<And>q. prev = Some q \<Longrightarrow> ph_hash q \<noteq> ''''"
  obtains p where "chain_from X key p rows" "before = [] \<Longrightarrow> p = prev" "\<And>q. p = Some q \<Longrightarrow> ph_hash q \<noteq> ''''"
  using assms(2,3)
proof (induction before arbitrary: prev thesis)
  case Nil
  then show ?case by simp
next
  case (Cons r before)
  then have l: "link_ok X key prev r" "chain_from X key (Some r) (before @ rows)" by simp_all
  show ?case
    by (rule Cons.IH [OF _ l(2)]) (use Cons.prems(1) link_hash [OF assms(1) l(1)] in auto)
qed

lemma chain_from_prefix: "chain_from X key p (rows @ after) \<Longrightarrow> chain_from X key p rows"
  by (induction rows arbitrary: p) simp_all

section \<open>Announcements on the wire\<close>

datatype chain_message = Began phase_row | Resolved phase_row

fun announces :: "externals \<Rightarrow> string \<Rightarrow> bytes \<Rightarrow> chain_message \<Rightarrow> bool" where
  "announces X m data (Resolved r) \<longleftrightarrow>
     (\<exists>q ts yr. 0 \<le> q \<and> 0 < ts \<and> encode_message X (phase_result_message q ts m yr r) = Inr data)"
| "announces X m data (Began r) \<longleftrightarrow>
     (\<exists>q ts names dl. 0 \<le> q \<and> 0 < ts \<and> 0 < dl \<and>
        encode_message X (match_start_message m q ts names (ph_state r) (ph_hash r) (ph_signature r) dl) = Inr data)"

text \<open>A batch of inbound messages that carries some announcements of the coordinator, in order, among
  messages that announce nothing.\<close>

inductive carries :: "externals \<Rightarrow> string \<Rightarrow> InboundMessage list \<Rightarrow> chain_message list \<Rightarrow> bool" for X m where
  nothing: "carries X m [] []"
| announced: "announces X m (im_data i) a \<Longrightarrow> carries X m inbound as \<Longrightarrow> carries X m (i # inbound) (a # as)"
| other: "(\<And>msg. read_message X (im_data i) = Inr msg \<Longrightarrow> message_type msg \<notin> {PHASE_RESULT, MATCH_START}) \<Longrightarrow>
    carries X m inbound as \<Longrightarrow> carries X m (i # inbound) as"

lemma phase_result_reads:
  assumes "codec_ok X" "encode_message X (phase_result_message q ts m yr r) = Inr data"
    and "0 \<le> q" "0 < ts" "m \<noteq> ''''" "ph_hash r \<noteq> ''''"
  shows "read_message X data = Inr (phase_result_message q ts m yr r)"
proof (rule read_encoded [OF assms(1) _ assms(2)])
  show "well_typed (phase_result_message q ts m yr r)" unfolding phase_result_message_def
    by (rule well_typed_mk) (cases "ph_previous r"; simp)
  show "validate_message (phase_result_message q ts m yr r) = Inr ()"
    using assms(3-6) by (simp add: phase_result_message_def validate_mk types_without_match_id_def require_def)
qed

lemma match_start_reads:
  assumes "codec_ok X" "encode_message X (match_start_message m q ts names b h sig dl) = Inr data"
    and "0 \<le> q" "0 < ts" "0 < dl" "m \<noteq> ''''" "h \<noteq> ''''"
  shows "read_message X data = Inr (match_start_message m q ts names b h sig dl)"
proof (rule read_encoded [OF assms(1) _ assms(2)])
  show "well_typed (match_start_message m q ts names b h sig dl)" unfolding match_start_message_def
    by (rule well_typed_mk) (simp add: names_value_def list_all_iff)
  show "validate_message (match_start_message m q ts names b h sig dl) = Inr ()"
    using assms(3-7) by (simp add: match_start_message_def validate_mk types_without_match_id_def require_def
        require_positive_def compare_number_def)
qed

lemma announcement_reads:
  assumes "codec_ok X" "announces X m data a" "m \<noteq> ''''" "case a of Began r \<Rightarrow> ph_hash r \<noteq> '''' | Resolved r \<Rightarrow> ph_hash r \<noteq> ''''"
  obtains msg where "read_message X data = Inr msg"
    "message_type msg = (case a of Began _ \<Rightarrow> MATCH_START | Resolved _ \<Rightarrow> PHASE_RESULT)"
    "case a of Began r \<Rightarrow> link_of_match_start msg = Inr (start_of_row r) | Resolved r \<Rightarrow> link_of_phase_result msg = Inr (link_of_row r)"
proof (cases a)
  case (Resolved r)
  then obtain q ts yr where "read_message X data = Inr (phase_result_message q ts m yr r)"
    using assms by (auto dest: phase_result_reads)
  then show thesis by (rule that) (simp_all add: Resolved phase_result_link, simp add: phase_result_message_def)
next
  case (Began r)
  then obtain q ts names dl where
    "read_message X data = Inr (match_start_message m q ts names (ph_state r) (ph_hash r) (ph_signature r) dl)"
    using assms by (auto dest: match_start_reads)
  then show thesis by (rule that) (simp_all add: Began match_start_link, simp add: match_start_message_def)
qed

text \<open>What polling such a batch leaves in the session.\<close>

lemma carries_remembered:
  assumes "codec_ok X" "m \<noteq> ''''" "carries X m inbound as"
    and "\<And>r. Began r \<in> set as \<or> Resolved r \<in> set as \<Longrightarrow> ph_hash r \<noteq> ''''"
  shows "map_result link_of_phase_result (of_type PHASE_RESULT (map snd (readable X inbound))) =
      Inr (concat (map (\<lambda>a. case a of Began _ \<Rightarrow> [] | Resolved r \<Rightarrow> [link_of_row r]) as))"
    and "map_result link_of_match_start (of_type MATCH_START (map snd (readable X inbound))) =
      Inr (concat (map (\<lambda>a. case a of Began r \<Rightarrow> [start_of_row r] | Resolved _ \<Rightarrow> []) as))"
proof -
  have "map_result link_of_phase_result (of_type PHASE_RESULT (map snd (readable X inbound))) =
        Inr (concat (map (\<lambda>a. case a of Began _ \<Rightarrow> [] | Resolved r \<Rightarrow> [link_of_row r]) as)) \<and>
      map_result link_of_match_start (of_type MATCH_START (map snd (readable X inbound))) =
        Inr (concat (map (\<lambda>a. case a of Began r \<Rightarrow> [start_of_row r] | Resolved _ \<Rightarrow> []) as))"
    using assms(3,4)
  proof (induction rule: carries.induct)
    case nothing
    then show ?case by (simp add: readable_def)
  next
    case (announced i a inbound as)
    have "case a of Began r \<Rightarrow> ph_hash r \<noteq> '''' | Resolved r \<Rightarrow> ph_hash r \<noteq> ''''"
      using announced.prems by (cases a) simp_all
    then obtain msg where msg: "read_message X (im_data i) = Inr msg"
      "message_type msg = (case a of Began _ \<Rightarrow> MATCH_START | Resolved _ \<Rightarrow> PHASE_RESULT)"
      "case a of Began r \<Rightarrow> link_of_match_start msg = Inr (start_of_row r) | Resolved r \<Rightarrow> link_of_phase_result msg = Inr (link_of_row r)"
      by (rule announcement_reads [OF assms(1) announced.hyps(1) assms(2)])
    moreover have "Began r \<in> set as \<or> Resolved r \<in> set as \<Longrightarrow> ph_hash r \<noteq> []" for r
      using announced.prems [of r] by auto
    note announced.IH [OF this]
    ultimately show ?case by (cases a) (simp_all add: readable_Cons)
  next
    case (other i inbound as)
    then show ?case by (cases "read_message X (im_data i)") (simp_all add: readable_Cons)
  qed
  then show "map_result link_of_phase_result (of_type PHASE_RESULT (map snd (readable X inbound))) =
      Inr (concat (map (\<lambda>a. case a of Began _ \<Rightarrow> [] | Resolved r \<Rightarrow> [link_of_row r]) as))"
    and "map_result link_of_match_start (of_type MATCH_START (map snd (readable X inbound))) =
      Inr (concat (map (\<lambda>a. case a of Began r \<Rightarrow> [start_of_row r] | Resolved _ \<Rightarrow> []) as))"
    by simp_all
qed

text \<open>The announcements of a stretch of the chain: from the start of the match, or from later on.\<close>

fun stretch :: "bool \<Rightarrow> phase_row list \<Rightarrow> chain_message list" where
  "stretch True (r # rows) = Began r # map Resolved rows"
| "stretch _ rows = map Resolved rows"

lemma stretch_links:
  "concat (map (\<lambda>a. case a of Began _ \<Rightarrow> [] | Resolved r \<Rightarrow> [link_of_row r]) (stretch b rows)) =
     map link_of_row (if b then tl rows else rows)"
  "concat (map (\<lambda>a. case a of Began r \<Rightarrow> [start_of_row r] | Resolved _ \<Rightarrow> []) (stretch b rows)) =
     (if b \<and> rows \<noteq> [] then [start_of_row (hd rows)] else [])"
proof -
  have c: "concat (map ((\<lambda>a. case a of Began _ \<Rightarrow> [] | Resolved r \<Rightarrow> [link_of_row r]) \<circ> Resolved) rs) = map link_of_row rs"
    "concat (map ((\<lambda>a. case a of Began r \<Rightarrow> [start_of_row r] | Resolved _ \<Rightarrow> []) \<circ> Resolved) rs) = []" for rs
    by (induction rs) simp_all
  show "concat (map (\<lambda>a. case a of Began _ \<Rightarrow> [] | Resolved r \<Rightarrow> [link_of_row r]) (stretch b rows)) =
     map link_of_row (if b then tl rows else rows)"
    "concat (map (\<lambda>a. case a of Began r \<Rightarrow> [start_of_row r] | Resolved _ \<Rightarrow> []) (stretch b rows)) =
     (if b \<and> rows \<noteq> [] then [start_of_row (hd rows)] else [])"
    by (cases "(b, rows)" rule: stretch.cases; simp add: c)+
qed

lemma map_result_single: "map_result f xs = Inr [y] \<longleftrightarrow> (\<exists>x. xs = [x] \<and> f x = Inr y)"
  by (cases xs; cases "tl xs") auto

lemma map_result_Nil: "map_result f xs = Inr [] \<longleftrightarrow> xs = []"
  by (cases xs) auto

text \<open>An honest coordinator is found honest: from a sound history, a client that has received the
  announcements of a stretch of the hash chain, its beginning by \<open>MATCH_START\<close> or any later part by
  \<open>PHASE_RESULT\<close>s, in order, among whatever other messages, verifies it without an issue, link by link,
  under the public key of the coordinator.\<close>

theorem honest_history_verifies:
  assumes "codec_ok X" and "digest_ok X" and "identity_ok X" and "history_ok X m s" and "m \<noteq> ''''"
    and "map_of (t_matches s) m = Some mr" and "get_hash_chain s m = before @ rows @ after"
    and "from_start \<Longrightarrow> before = []"
    and "carries X m inbound (stretch from_start rows)"
    and "player_poll X inbound (new_player key destination m n) = (Inr ms, c)"
  shows "\<exists>rep. verify_session X (public_key_of X (mr_private_key mr)) c = Inr rep \<and> vr_ok rep \<and>
    vr_issues rep = [] \<and> vr_checked rep = length rows"
proof -
  let ?pk = "public_key_of X (mr_private_key mr)" and ?b = "from_start \<and> rows \<noteq> []"
  have "chain_from X (mr_private_key mr) None (before @ rows @ after)"
    using assms(4,6,7) by (simp add: history_ok_def)
  then obtain p where p: "chain_from X (mr_private_key mr) p rows" "from_start \<Longrightarrow> p = None"
    "\<And>q. p = Some q \<Longrightarrow> ph_hash q \<noteq> ''''"
    using assms(8) by (metis chain_from_split [OF assms(2)] chain_from_prefix option.distinct(1))
  have hashes: "ph_hash r \<noteq> ''''" if "r \<in> set rows" for r
    using that p(1) by (induction rows arbitrary: p) (auto dest: link_hash [OF assms(2)])
  have "Began r \<in> set (stretch from_start rows) \<or> Resolved r \<in> set (stretch from_start rows) \<Longrightarrow> ph_hash r \<noteq> ''''" for r
    using hashes by (cases "(from_start, rows)" rule: stretch.cases) auto
  note got = carries_remembered [OF assms(1,5,9) this, unfolded stretch_links]
  note log = poll_remembers [OF assms(10)]
  have ls: "map_result link_of_phase_result (pc_phase_results c) = Inr (map link_of_row (if from_start then tl rows else rows))"
    using log(2) [of PHASE_RESULT] log(1) got(1) by (simp add: logged_types_def new_player_def)
  have st: "(case pc_match_start c of None \<Rightarrow> Inr None | Some msg \<Rightarrow> bind_result (link_of_match_start msg) (\<lambda>l. Inr (Some l))) =
      Inr (if ?b then Some (start_of_row (hd rows)) else None)"
    using log(3) [of MATCH_START] log(1) got(2)
    by (auto simp: latest_types_def new_player_def latest_conv map_result_single map_result_Nil split: if_splits)
  note v = rows_verify [OF assms(1-3) p(1,3)]
  show ?thesis
  proof (cases ?b)
    case True
    then obtain r rest where r: "rows = r # rest" by (cases rows) auto
    have "link_verifies X ?pk (start_of_row r)"
      using row_verifies(2) [OF assms(1,3) _ _ p(2)] p(1,3) True r by simp
    moreover have "linked (Some (lk_hash (start_of_row r))) (map link_of_row rest)"
      using v(2) by (simp add: r start_of_row_def link_of_row_def)
    ultimately show ?thesis
      using verify_history_accepts [where start = "Some (start_of_row r)" and X = X and pk = ?pk and ls = "map link_of_row rest"]
        v(1) True by (simp add: verify_session_def ls st r)
  next
    case False
    have rows: "(if from_start then tl rows else rows) = rows" using False by auto
    have "verify_session X ?pk c = verify_history X ?pk (map link_of_row rows) None"
      by (simp only: verify_session_def ls st rows False if_False bind_result_simps)
    then show ?thesis
      using verify_history_accepts [where start = None and X = X and pk = ?pk and ls = "map link_of_row rows"]
        v(1) linked_anywhere [OF v(2)] by simp
  qed
qed

definition small_board :: GameState where
  "small_board = \<lparr>regions = [], factions = [], units = [], supply_centers = [], phase = ORDERS, turn = 1, year = 1\<rparr>"

definition small_row :: phase_row where
  "small_row = projr (make_link reference [7] None ''m'' 1 ORDERS small_board 1)"

lemma small_link: "make_link reference [7] None ''m'' 1 ORDERS small_board 1 = Inr small_row"
proof -
  have "\<exists>r. make_link reference [7] None ''m'' 1 ORDERS small_board 1 = Inr r"
    by (simp add: make_link_def canonical_bytes_def hash_game_state_hex_def hash_game_state_def)
  then show ?thesis by (auto simp: small_row_def)
qed

lemma small_sizes:
  "length (ph_state small_row) \<le> 400" "length (ph_hash small_row) = 64" "length (ph_signature small_row) = 65"
  "ph_previous small_row = None" "ph_phase small_row = ORDERS" "ph_turn small_row = 1"
proof -
  note r = make_link_ok [OF small_link]
  have "ph_state small_row = enc (canonicalize_state small_board)" using r(6) by (simp add: canonical_bytes_def)
  moreover have "length (enc (canonicalize_state small_board)) \<le> 400"
    by (simp add: small_board_def canonicalize_state_def sorted_dict_def enc_bytes_def enc_nat_def enc_int_def utf8_encode_def)
  ultimately show "length (ph_state small_row) \<le> 400" by simp
  have hex: "length (hex_of b) = 2 * length b" for b by (induction b) (simp_all add: hex_of_def hex_byte_def)
  obtain b where b: "hex_of (sha256 reference b) = ph_hash small_row"
    using r(1) by (auto simp: link_ok_def hash_game_state_hex_def hash_game_state_Inr)
  have "length (sha256 reference b) = 32" using reference_ok(2) by (simp add: digest_ok_def)
  then show h: "length (ph_hash small_row) = 64" by (simp add: b [symmetric] hex)
  have "ph_signature small_row = 7 # utf8_encode (ph_hash small_row)"
    using r(1) by (simp add: link_ok_def reference_def)
  then show "length (ph_signature small_row) = 65" using h by (simp add: utf8_encode_def)
  show "ph_previous small_row = None" using r(1) by (simp add: link_ok_def)
  show "ph_phase small_row = ORDERS" "ph_turn small_row = 1" by (simp_all add: r)
qed

lemma small_announcement:
  obtains b where "encode_message reference (phase_result_message 1 1 ''m'' 1 small_row) = Inr b"
proof -
  have "canonicalize (py_message (phase_result_message 1 1 ''m'' 1 small_row)) = CDict
     [(''canonical_state'', CBytes (ph_state small_row)), (''match_id'', CStr ''m''),
      (''message_type'', CStr ''PHASE_RESULT''), (''phase'', CStr ''orders''), (''previous_state_hash'', CNone),
      (''protocol_version'', CInt 1), (''sequence_number'', CInt 1), (''signature'', CBytes (ph_signature small_row)),
      (''state_hash'', CStr (ph_hash small_row)), (''timestamp'', CFloat 1), (''turn'', CInt 1), (''year'', CInt 1)]"
    by (simp add: phase_result_message_def py_message_def mk_message_def PROTOCOL_VERSION_def small_sizes(4-6))
  moreover have "length (utf8_encode s) = length s" for s by (simp add: utf8_encode_def)
  ultimately have "length (enc (canonicalize (py_message (phase_result_message 1 1 ''m'' 1 small_row)))) \<le> MAX_MESSAGE_SIZE"
    using small_sizes(1) by (simp add: enc_bytes_def enc_nat_def enc_int_def MAX_MESSAGE_SIZE_def small_sizes(2,3))
  then show thesis using that by (simp add: encode_message_def)
qed

theorem honest_history_verifies_witness:
  "\<exists>data ms c rep. player_poll reference [\<lparr>im_sender = ''07'', im_data = []\<rparr>, \<lparr>im_sender = ''07'', im_data = data\<rparr>]
       (new_player [1] ''07'' ''m'' 0) = (Inr ms, c) \<and>
     verify_session reference [7] c = Inr rep \<and> vr_ok rep \<and> vr_checked rep = 1"
proof -
  let ?s = "duel\<lparr>t_phases := [small_row]\<rparr>"
  note h = single_link_history [OF small_link]
  obtain b where b: "encode_message reference (phase_result_message 1 1 ''m'' 1 small_row) = Inr b"
    by (rule small_announcement)
  let ?in = "[\<lparr>im_sender = ''07'', im_data = []\<rparr>, \<lparr>im_sender = ''07'', im_data = b\<rparr>]"
  have noise: "read_message reference [] = Inl DecodingError"
    by (simp add: read_message_def decode_message_def reference_def reference_unpackb_def)
  have a: "announces reference ''m'' b (Resolved small_row)"
    using b by (auto intro!: exI [of _ 1])
  have "carries reference ''m'' [\<lparr>im_sender = ''07'', im_data = b\<rparr>] [Resolved small_row]"
    using a by (intro carries.announced carries.nothing) simp
  then have "carries reference ''m'' ?in [Resolved small_row]" by (rule carries.other [rotated]) (simp add: noise)
  then have c: "carries reference ''m'' ?in (stretch False [small_row])" by simp
  have "ph_hash small_row \<noteq> ''''" by (rule link_hash [OF reference_ok(2) make_link_ok(1) [OF small_link]])
  then obtain msg where "read_message reference b = Inr msg" "message_type msg = PHASE_RESULT"
    using announcement_reads [OF reference_ok(1) a] by auto
  then obtain ms c where run: "player_poll reference ?in (new_player [1] ''07'' ''m'' 0) = (Inr ms, c)"
    by (auto simp: noise is_malformed_def act_simps act_bind_def player_handle_def player_handlers)
  have m: "map_of (t_matches ?s) ''m'' = Some playing_match" by (simp add: duel_def)
  have "public_key_of reference (mr_private_key playing_match) = [7]"
    by (simp add: playing_match_def waiting_match_def)
  with honest_history_verifies [OF reference_ok h(1) _ m, where before = "[]" and after = "[]" and rows = "[small_row]"
      and from_start = False, OF _ _ _ c run] h(2) run
  show ?thesis by auto
qed

text \<open>The report cannot tell whose fault an issue is: the client takes a \<open>PHASE_RESULT\<close> from anyone, so
  a third party can make the history of an honest coordinator fail.\<close>

lemma forged_result_discredits:
  assumes "player_poll X inbound c = (Inr ms, c')" "(sender, msg) \<in> set (readable X inbound)"
    and "message_type msg = PHASE_RESULT" "link_of_phase_result msg = Inr l" "\<not> verify_signature X pk l"
    and "verify_session X pk c' = Inr rep"
  shows "\<not> vr_ok rep"
proof -
  obtain ls start where ls: "map_result link_of_phase_result (pc_phase_results c') = Inr ls"
    and v: "verify_history X pk ls start = Inr rep"
    using assms(6) by (auto simp: verify_session_def)
  have "msg \<in> set (pc_phase_results c')"
    using poll_remembers(1) [OF assms(1)] poll_remembers(2) [OF assms(1), of PHASE_RESULT] assms(2,3)
    by (force simp: logged_types_def of_type_def)
  then have "l \<in> set ls" using map_result_Inr [OF ls] assms(4) by (auto simp: list_all2_conv_all_nth in_set_conv_nth)
  then show ?thesis using verify_history_ok(1) [OF v] assms(5) by (auto simp: list_all_iff link_verifies_def)
qed

end
