(* ===== verification/Announcements.thy ===== *)
theory Announcements
  imports Client_Audit
begin

text \<open>
  What the coordinator (\<^verbatim>\<open>coordinator/match.py\<close>) tells the players of the history it records, in any run:
  the \<open>MATCH_START\<close> and \<open>PHASE_RESULT\<close> messages a player is sent are about rows of the hash chain, in the
  order of the chain and each at most once; and what a client can find wrong with them.
\<close>

section \<open>Every method only writes rows\<close>

interpretation writing: preserved "store_write\<^sup>*\<^sup>*"
  by unfold_locales (simp, rule rtranclp_trans)

lemma lobby_writes: "store_write\<^sup>*\<^sup>* s (snd (lobby_start_match X m key q tm dl s))"
  unfolding lobby_start_match_def Let_def
  by (intro writing.keeps writing.keep_write) (blast intro: store_write.intros)+

interpretation writes: coordinator_relation E "\<lambda>_. store_write\<^sup>*\<^sup>*" for E
  by unfold_locales (blast intro: lobby_writes store_write.intros rtranclp_trans)+

lemma writes_ok: "store_write\<^sup>*\<^sup>* s s' \<Longrightarrow> store_ok s \<Longrightarrow> store_ok s'"
  by (induction rule: rtranclp_induct) (auto intro: store_write_ok)

section \<open>The type of a message on the wire\<close>

lemma map_of_filter_key: "map_of xs k = map_of (filter (\<lambda>p. fst p = k) xs) k"
  by (induction xs) auto

lemma map_of_stable: "map_of (sort_key fst xs) k = map_of xs k"
proof -
  have "filter (\<lambda>p. fst p = k) (sort_key fst xs) = filter (\<lambda>p. fst p = k) xs"
    by (rule sort_key_stable)
  then show ?thesis using map_of_filter_key by metis
qed

lemma sent_type:
  assumes "codec_ok X" "encode_message X msg = Inr b" "read_message X b = Inr msg'"
  shows "message_type msg' = message_type msg"
proof -
  have "packb X (canonicalize (py_message msg)) = Inr b"
    using assms(2) by (auto simp: encode_message_def split: sum.splits if_splits)
  then have "unpackb X b = Inr (canonicalize (py_message msg))" using assms(1) by (simp add: codec_ok_def)
  moreover have "decode_message X b = Inr msg'" using assms(3) by (simp add: read_message_def)
  ultimately have "decode_envelope (canonicalize (py_message msg)) = Inr msg'"
    by (simp add: decode_message_def split: if_splits)
  moreover have "map_of (sort_key fst (map (\<lambda>(k, v). (k, canonicalize v))
      ((''message_type'', PyEnum (message_type_value (message_type msg))) #
        map (\<lambda>(k, v). (k, py_of_value v)) (fields_of msg)))) ''message_type'' =
      Some (CStr (message_type_value (message_type msg)))"
    unfolding map_of_stable by simp
  ultimately show ?thesis
    by (auto simp: decode_envelope_def py_message_def simp del: list.map sort_key_simps)
qed

section \<open>What a call adds\<close>

text \<open>The messages that reach the player with the address \<open>d\<close>, as they arrive there.\<close>

definition addressed :: "string \<Rightarrow> string \<Rightarrow> (string \<times> bytes) list \<Rightarrow> InboundMessage list" where
  "addressed sender d sent =
     map (\<lambda>(_, data). \<lparr>im_sender = sender, im_data = data\<rparr>) (filter (\<lambda>(destination, _). destination = d) sent)"

lemma addressed_append: "addressed sender d (xs @ ys) = addressed sender d xs @ addressed sender d ys"
  by (simp add: addressed_def)

fun announced_row :: "chain_message \<Rightarrow> phase_row" where
  "announced_row (Began r) = r"
| "announced_row (Resolved r) = r"

text \<open>\<open>MATCH_START\<close> is about a first link.\<close>

definition opening_first :: "chain_message list \<Rightarrow> bool" where
  "opening_first as \<longleftrightarrow> (\<forall>r. Began r \<in> set as \<longrightarrow> ph_previous r = None)"

text \<open>Some messages tell each player of some of the rows, in order.\<close>

definition tells_of :: "externals \<Rightarrow> string \<Rightarrow> (string \<times> bytes) list \<Rightarrow> phase_row list \<Rightarrow> bool" where
  "tells_of X m sent rows \<longleftrightarrow>
     (\<forall>sender d. \<exists>as. carries X m (addressed sender d sent) as \<and> subseq (map announced_row as) rows \<and> opening_first as)"

lemma carries_append: "carries X m xs as \<Longrightarrow> carries X m ys bs \<Longrightarrow> carries X m (xs @ ys) (as @ bs)"
  by (induction rule: carries.induct) (auto intro: carries.intros)

lemma tells_nothing [simp]: "tells_of X m [] rows"
  by (auto simp: tells_of_def addressed_def opening_first_def intro!: exI [of _ "[]"] carries.nothing)

lemma tells_append:
  assumes "tells_of X m sent rows" "tells_of X m sent' rows'"
  shows "tells_of X m (sent @ sent') (rows @ rows')"
  unfolding tells_of_def
proof (intro allI)
  fix sender d
  obtain as bs where "carries X m (addressed sender d sent) as" "subseq (map announced_row as) rows" "opening_first as"
    "carries X m (addressed sender d sent') bs" "subseq (map announced_row bs) rows'" "opening_first bs"
    using assms unfolding tells_of_def by meson
  then show "\<exists>as. carries X m (addressed sender d (sent @ sent')) as \<and> subseq (map announced_row as) (rows @ rows') \<and>
      opening_first as"
    by (intro exI [of _ "as @ bs"])
      (auto simp: addressed_append opening_first_def intro: carries_append list_emb_append_mono)
qed

text \<open>A call of the coordinator: it extends the chain and tells of rows of the extension.\<close>

definition call_tells :: "externals \<Rightarrow> coord \<Rightarrow> coord \<Rightarrow> bool" where
  "call_tells X c c' \<longleftrightarrow>
     co_match_id c' = co_match_id c \<and>
     (store_ok (co_store c) \<longrightarrow> store_ok (co_store c') \<and>
       (\<exists>sent rows. co_sent c' = co_sent c @ sent \<and>
          get_hash_chain (co_store c') (co_match_id c) = get_hash_chain (co_store c) (co_match_id c) @ rows \<and>
          tells_of X (co_match_id c) sent rows))"

interpretation telling: preserved "call_tells X" for X
proof
  show "call_tells X c c" for c by (auto simp: call_tells_def intro!: exI [of _ "[]"])
  show "call_tells X c c''" if a: "call_tells X c c'" and b: "call_tells X c' c''" for c c' c''
  proof (cases "store_ok (co_store c)")
    case True
    then obtain sent rows where 1: "co_sent c' = co_sent c @ sent" "store_ok (co_store c')"
      "get_hash_chain (co_store c') (co_match_id c) = get_hash_chain (co_store c) (co_match_id c) @ rows"
      "tells_of X (co_match_id c) sent rows" using a by (auto simp: call_tells_def)
    with b a obtain sent' rows' where 2: "co_sent c'' = co_sent c' @ sent'" "store_ok (co_store c'')"
      "get_hash_chain (co_store c'') (co_match_id c) = get_hash_chain (co_store c') (co_match_id c) @ rows'"
      "tells_of X (co_match_id c) sent' rows'" by (auto simp: call_tells_def)
    show ?thesis
      using a b 1 2 tells_append [OF 1(4) 2(4)] by (auto simp: call_tells_def intro!: exI [of _ "rows @ rows'"])
  qed (use a b in \<open>auto simp: call_tells_def\<close>)
qed

lemma chain_writes: "store_write\<^sup>*\<^sup>* s s' \<Longrightarrow> \<exists>rows. get_hash_chain s' m = get_hash_chain s m @ rows"
proof (induction rule: rtranclp_induct)
  case (step s1 s2)
  have "\<exists>rows. get_hash_chain s2 m = get_hash_chain s1 m @ rows"
    using step.hyps(2)
  proof (cases rule: store_write.cases)
    case (w_phase m' tn ph cs h p sg t)
    then show ?thesis by (auto simp: get_hash_chain_def dest: frame_record_phase(7))
  qed (auto simp: get_hash_chain_def create_match_def enqueue_admin_command_def mark_admin_command_processed_def Let_def
      dest: frame_save frame_deadline frame_paused frame_add_player frame_record_order frame_order_status frame_vote
        frame_sequence split: if_splits)
  with step.IH show ?case by auto
qed simp

text \<open>Calls that send nothing.\<close>

lemma quiet_tells:
  assumes "writes.R c c'" "co_sent c' = co_sent c"
  shows "call_tells X c c'"
  using assms writes_ok chain_writes [of "co_store c" "co_store c'" "co_match_id c"]
  by (auto simp: writes.R_def call_tells_def)

section \<open>Sending\<close>

lemma for_sends:
  "\<exists>n. snd (act_for ps (\<lambda>p. transport_send E (f p) data) c) =
     c\<lparr>co_sent := co_sent c @ map (\<lambda>p. (f p, data)) (take n ps)\<rparr>"
proof (induction ps arbitrary: c)
  case Nil
  then show ?case by (simp add: act_run)
next
  case (Cons p ps)
  show ?case
  proof (cases "env_send_error E (f p) data")
    case None
    obtain n where "snd (act_for ps (\<lambda>p. transport_send E (f p) data) (c\<lparr>co_sent := co_sent c @ [(f p, data)]\<rparr>)) =
        c\<lparr>co_sent := co_sent c @ [(f p, data)] @ map (\<lambda>p. (f p, data)) (take n ps)\<rparr>"
      using Cons.IH [of "c\<lparr>co_sent := co_sent c @ [(f p, data)]\<rparr>"] by auto
    moreover have "transport_send E (f p) data c = (Inr (), c\<lparr>co_sent := co_sent c @ [(f p, data)]\<rparr>)"
      by (simp add: transport_send_def None)
    ultimately show ?thesis by (intro exI [of _ "Suc n"]) (simp add: act_bind_def)
  next
    case (Some e)
    then show ?thesis by (intro exI [of _ 0]) (simp add: act_bind_def transport_send_def)
  qed
qed

definition untold :: "externals \<Rightarrow> bytes \<Rightarrow> bool" where
  "untold X data \<longleftrightarrow> (\<forall>msg. read_message X data = Inr msg \<longrightarrow> message_type msg \<notin> {PHASE_RESULT, MATCH_START})"

lemma carries_untold: "(\<And>i. i \<in> set xs \<Longrightarrow> untold X (im_data i)) \<Longrightarrow> carries X m xs []"
proof (induction xs)
  case (Cons i xs)
  then have "untold X (im_data i)" "carries X m xs []" by simp_all
  then show ?case by (intro carries.other) (auto simp: untold_def)
qed (simp add: carries.nothing)

lemma tells_untold:
  assumes "untold X data"
  shows "tells_of X m (map (\<lambda>p. (f p, data)) ps) rows"
  unfolding tells_of_def
  by (intro allI exI [of _ "[]"]) (auto simp: addressed_def opening_first_def assms intro!: carries_untold)

text \<open>The same announcement to addresses that differ: each reads it once, or cannot read it.\<close>

lemma tells_once:
  assumes "untold X data \<or> announces X m data a" "distinct (map f ps)" "opening_first [a]"
  shows "tells_of X m (map (\<lambda>p. (f p, data)) ps) [announced_row a]"
proof (cases "untold X data")
  case True
  then show ?thesis by (rule tells_untold)
next
  case False
  with assms(1) have a: "announces X m data a" by simp
  show ?thesis
    unfolding tells_of_def
  proof (intro allI)
    fix sender d
    have "filter (\<lambda>(destination, _). destination = d) (map (\<lambda>p. (f p, data)) ps) =
        (if d \<in> set (map f ps) then [(d, data)] else [])"
      using assms(2) by (induction ps) auto
    then have "addressed sender d (map (\<lambda>p. (f p, data)) ps) =
        (if d \<in> set (map f ps) then [\<lparr>im_sender = sender, im_data = data\<rparr>] else [])"
      by (simp add: addressed_def)
    then show "\<exists>as. carries X m (addressed sender d (map (\<lambda>p. (f p, data)) ps)) as \<and>
        subseq (map announced_row as) [announced_row a] \<and> opening_first as"
      using a assms(3)
      by (intro exI [of _ "if d \<in> set (map f ps) then [a] else []"])
        (auto simp: opening_first_def intro: carries.intros)
  qed
qed

lemma player_addresses:
  assumes "store_ok s"
  shows "distinct (map (\<lambda>p. hex_of (pl_public_key p)) (take n (list_players s m)))"
proof -
  have "distinct (map player_key (t_players s))" by (rule store_okD(2) [OF assms])
  then have "distinct (map pl_public_key (filter (\<lambda>r. pl_match r = m) (t_players s)))"
    by (auto simp: distinct_map player_key_def inj_on_def)
  then have "distinct (map pl_public_key (list_players s m))"
    by (simp add: list_players_def distinct_map)
  then have "distinct (map pl_public_key (take n (list_players s m)))"
    unfolding take_map [symmetric] by (rule distinct_take)
  then show ?thesis by (auto simp: distinct_map inj_on_def hex_of_inj)
qed

lemma broadcast_sends:
  "\<exists>data n. (encode_message (env_externals E) msg = Inr data \<or> n = 0) \<and>
     snd (broadcast_to_all E msg c) = c\<lparr>co_sent := co_sent c @
       map (\<lambda>p. (hex_of (pl_public_key p), data)) (take n (list_players (co_store c) (co_match_id c)))\<rparr>"
proof (cases "encode_message (env_externals E) msg")
  case (Inl e)
  then show ?thesis by (intro exI [of _ "[]"] exI [of _ 0]) (simp add: broadcast_to_all_def act_simps)
next
  case (Inr data)
  have "snd (broadcast_to_all E msg c) = snd (act_for (list_players (co_store c) (co_match_id c))
      (\<lambda>p. transport_send E (hex_of (pl_public_key p)) data) c)"
    by (simp add: broadcast_to_all_def act_simps Inr read_store_def)
  with Inr for_sends [of "list_players (co_store c) (co_match_id c)" E "\<lambda>p. hex_of (pl_public_key p)" data c]
  show ?thesis by auto
qed

text \<open>Messages about anything else.\<close>

definition ordinary :: "message \<Rightarrow> bool" where
  "ordinary msg \<longleftrightarrow> message_type msg \<notin> {PHASE_RESULT, MATCH_START}"

lemma ordinary_untold: "codec_ok X \<Longrightarrow> ordinary msg \<Longrightarrow> encode_message X msg = Inr data \<Longrightarrow> untold X data"
  unfolding untold_def ordinary_def by (intro allI impI) (simp only: sent_type not_False_eq_True)

lemma call_sent:
  assumes "co_match_id c' = co_match_id c" "co_store c' = co_store c" "co_sent c' = co_sent c @ sent"
    and "tells_of X (co_match_id c) sent []"
  shows "call_tells X c c'"
  using assms by (auto simp: call_tells_def)

lemma tell_broadcast:
  assumes "codec_ok (env_externals E)" "ordinary msg"
  shows "call_tells (env_externals E) c (snd (broadcast_to_all E msg c))"
proof -
  obtain data n where "encode_message (env_externals E) msg = Inr data \<or> n = 0"
    and s: "snd (broadcast_to_all E msg c) = c\<lparr>co_sent := co_sent c @
      map (\<lambda>p. (hex_of (pl_public_key p), data)) (take n (list_players (co_store c) (co_match_id c)))\<rparr>"
    using broadcast_sends [of E msg c] by blast
  then show ?thesis
    by (intro call_sent) (auto intro: tells_untold ordinary_untold [OF assms])
qed

lemma tell_reply:
  assumes "codec_ok (env_externals E)" "ordinary msg"
  shows "call_tells (env_externals E) c (snd (reply E k msg c))"
proof (cases "encode_message (env_externals E) msg")
  case (Inl e)
  then show ?thesis by (simp add: reply_def act_simps telling.R_refl)
next
  case (Inr data)
  have "tells_of (env_externals E) m (map (\<lambda>p. (hex_of k, data)) [()]) []" for m
    by (rule tells_untold [OF ordinary_untold [OF assms Inr]])
  then show ?thesis
    by (cases "env_send_error E (hex_of k) data")
      (auto simp: reply_def act_simps Inr transport_send_def telling.R_refl intro: call_sent)
qed

section \<open>The methods\<close>

lemma tell_basic:
  "call_tells X c (snd (now E c))" "call_tells X c (snd (time_or_now E t c))" "call_tells X c (snd (random_pick E c))"
  "call_tells X c (snd (next_sequence c))" "call_tells X c (snd (set_warned b c))" "call_tells X c (snd (read_store f c))"
  "call_tells X c (snd (join_allowed k tm c))" "call_tells X c (snd (require_match_state c))"
  "call_tells X c (snd (turn_start_state E tn c))" "call_tells X c (snd (load_game_state E c))"
  "call_tells X c (snd (adjudicate E st c))" "call_tells X c (snd (skip_diplomacy landing c))"
proof -
  show "call_tells X c (snd (time_or_now E t c))"
    by (cases t) (auto simp: time_or_now_def act_run telling.R_refl now_def intro!: quiet_tells writes.R_same)
qed (auto simp: reads_same skip_diplomacy_same telling.R_refl now_def random_pick_def next_sequence_def set_warned_def
    join_allowed_def Let_def intro!: quiet_tells writes.R_same)

lemma tell_on_store:
  assumes "store_write\<^sup>*\<^sup>* (co_store c) (snd (f (co_match_id c) (co_store c)))"
  shows "call_tells X c (snd (on_store f c))"
proof (rule quiet_tells)
  show "writes.R c (snd (on_store f c))" by (rule writes.keep_on_store) (rule assms)
  show "co_sent (snd (on_store f c)) = co_sent c"
    by (simp add: on_store_def act_zoom_def split: prod.split)
qed

lemma tell_write: "(\<And>s'. w (co_match_id c) (co_store c) = Inr s' \<Longrightarrow> store_write (co_store c) s') \<Longrightarrow>
    call_tells X c (snd (on_store (\<lambda>m. act_write (w m)) c))"
  by (rule tell_on_store) (rule writing.keep_write, blast)

lemmas tell_frames = telling.keeps tell_basic

text \<open>The answers of the services.\<close>

lemma ordinary_messages [simp]:
  "ordinary (game_info_message q ts m st n)" "ordinary (error_message q ts c d)" "ordinary (state_response q ts m r)"
  "ordinary (match_end_message q ts m why h)" "ordinary (deadline_warning_message q ts m ph secs)"
  "ordinary (phase_start_message q ts m st dl)"
  by (simp_all add: ordinary_def game_info_message_def error_message_def state_response_def match_end_message_def
      deadline_warning_message_def phase_start_message_def)

lemma on_store_Inr: "on_store f c = (Inr x, c') \<longleftrightarrow>
    (\<exists>s'. f (co_match_id c) (co_store c) = (Inr x, s') \<and> c' = c\<lparr>co_store := s'\<rparr>)"
  by (auto simp: on_store_def act_zoom_def split: prod.splits)

lemma ordinary_join: "on_store (\<lambda>m. handle_join_request X m rq q t pick) c = (Inr msg, c') \<Longrightarrow> ordinary msg"
  by (auto simp: on_store_Inr handle_join_request_def accept_join_def act_bind_Inr act_run ordinary_def Let_def
      split: option.splits prod.splits if_splits)

lemma ordinary_receipts:
  "on_store (\<lambda>m. handle_order_submit X gs m k rq tn ph q ts) c = (Inr msg, c') \<Longrightarrow> ordinary msg"
  "on_store (\<lambda>m. handle_order_cancel X m k rq tn ph q ts) c = (Inr msg, c') \<Longrightarrow> ordinary msg"
  by (auto simp: on_store_Inr handle_order_submit_def handle_order_cancel_def act_bind_Inr act_run ordinary_def Let_def
      rejected_receipt_def order_receipt_def split: option.splits if_splits)

lemma ordinary_draws:
  "on_store (\<lambda>m. handle_draw_vote m k tn v q ts rule) c = (Inr msg, c') \<Longrightarrow> ordinary msg"
  "on_store (\<lambda>m. handle_draw_propose m k tn q ts rule) c = (Inr msg, c') \<Longrightarrow> ordinary msg"
  by (auto simp: on_store_Inr handle_draw_vote_def handle_draw_propose_def evaluate_draw_def act_bind_Inr act_run
      ordinary_def draw_result_message_def split: if_splits)

lemma tell_handlers:
  assumes X: "codec_ok (env_externals E)"
  shows "call_tells (env_externals E) c (snd (on_discover_game E k msg c))"
    and "call_tells (env_externals E) c (snd (on_join_request E k msg c))"
    and "call_tells (env_externals E) c (snd (on_order_submit E k msg c))"
    and "call_tells (env_externals E) c (snd (on_order_cancel E k msg c))"
    and "call_tells (env_externals E) c (snd (on_state_request E k msg c))"
  unfolding on_discover_game_def on_join_request_def on_order_submit_def on_order_cancel_def on_state_request_def
  by (intro tell_frames tell_reply [OF X] tell_on_store writes.store_join writes.store_submit writes.store_cancel
      ordinary_messages; (elim ordinary_join ordinary_receipts)?)+

lemma tell_finalize:
  assumes X: "codec_ok (env_externals E)" and "ordinary msg"
  shows "call_tells (env_externals E) c (snd (finalize_draw E msg c))"
proof -
  have "store_write\<^sup>*\<^sup>* (co_store c') (snd (apply_result (co_match_id c') state msg (co_store c')))"
    if "require_match_state c0 = (Inr state, c')" for c0 c' state
    using that by (auto simp: require_match_state_Inr intro: writes.store_apply)
  then show ?thesis unfolding finalize_draw_def
    by (intro tell_frames tell_broadcast [OF X] tell_on_store ordinary_messages assms(2))
qed

lemma tell_draws:
  assumes X: "codec_ok (env_externals E)"
  shows "call_tells (env_externals E) c (snd (on_draw_propose E k msg c))"
    and "call_tells (env_externals E) c (snd (on_draw_vote E k msg c))"
  unfolding on_draw_propose_def on_draw_vote_def
  by (intro tell_frames tell_on_store writes.store_vote tell_finalize [OF X]; (elim ordinary_draws)?)+

lemma tell_handler:
  assumes X: "codec_ok (env_externals E)"
  shows "handler_of E t = Some h \<Longrightarrow> call_tells (env_externals E) c (snd (h k msg c))"
  by (cases t) (auto intro: tell_handlers [OF X] tell_draws [OF X])

lemma tell_inbound:
  assumes X: "codec_ok (env_externals E)"
  shows "call_tells (env_externals E) c (snd (handle_inbound E sender data c))"
proof -
  have "call_tells (env_externals E) c (snd (dispatch E k msg c))" for k msg c
    unfolding dispatch_def
    by (intro tell_frames tell_write tell_handler [OF X]; (rule store_write.w_sequence)?)
  then show ?thesis
    unfolding handle_inbound_def
    by (cases "read_message (env_externals E) data")
      (auto intro!: tell_frames tell_reply [OF X] ordinary_messages)
qed

lemma tell_operator:
  assumes X: "codec_ok (env_externals E)"
  shows "call_tells (env_externals E) c (snd (end_match E reason t c))"
    and "call_tells (env_externals E) c (snd (pause E t c))" and "call_tells (env_externals E) c (snd (resume E t c))"
  unfolding end_match_def pause_def resume_def
  by (intro tell_frames tell_write tell_broadcast [OF X] ordinary_messages; (blast intro: store_write.intros)?)+

section \<open>Announcing a recorded row\<close>

text \<open>Between the recording of the row \<open>r\<close> and its announcement.\<close>

definition still :: "coord \<Rightarrow> coord \<Rightarrow> bool" where
  "still c c' \<longleftrightarrow> co_match_id c' = co_match_id c \<and> co_sent c' = co_sent c \<and>
     (store_ok (co_store c) \<longrightarrow> store_ok (co_store c')) \<and>
     get_hash_chain (co_store c') (co_match_id c) = get_hash_chain (co_store c) (co_match_id c)"

definition owed :: "externals \<Rightarrow> phase_row \<Rightarrow> coord \<Rightarrow> coord \<Rightarrow> bool" where
  "owed X r c c' \<longleftrightarrow> co_match_id c' = co_match_id c \<and>
     (store_ok (co_store c) \<longrightarrow> store_ok (co_store c') \<and>
       get_hash_chain (co_store c') (co_match_id c) = get_hash_chain (co_store c) (co_match_id c) \<and>
       (\<exists>sent. co_sent c' = co_sent c @ sent \<and> tells_of X (co_match_id c) sent [r]))"

lemma still_refl: "still c c"
  by (simp add: still_def)

lemma still_owed: "still c c' \<Longrightarrow> owed X r c c'"
  by (auto simp: still_def owed_def)

lemma owed_after: "still c c1 \<Longrightarrow> owed X r c1 c2 \<Longrightarrow> owed X r c c2"
  by (auto simp: still_def owed_def)

lemma owed_bind:
  assumes "still c (snd (m c))" "\<And>x c1. m c = (Inr x, c1) \<Longrightarrow> owed X r c1 (snd (f x c1))"
  shows "owed X r c (snd (act_bind m f c))"
proof (cases "m c")
  case (Pair res c1)
  with assms show ?thesis by (cases res) (auto simp: act_bind_def intro: still_owed owed_after)
qed

lemma still_steps:
  "still c (snd (act_get f c))" "still c (snd (act_try g c))" "still c (snd (next_sequence c))"
  "still c (snd (set_warned b c))" "still c (snd (on_store (\<lambda>m. act_write (set_deadline m d)) c))"
proof -
  show "still c (snd (on_store (\<lambda>m. act_write (set_deadline m d)) c))"
  proof (cases "set_deadline (co_match_id c) d (co_store c)")
    case (Inr s')
    then show ?thesis
      by (simp add: still_def on_store_def act_zoom_def act_write_def get_hash_chain_def frame_deadline(3) [OF Inr]
          match_updates_ok(2) [OF Inr])
  qed (simp add: still_def on_store_def act_zoom_def act_write_def)
qed (simp_all add: still_def act_run next_sequence_def set_warned_def)

lemma phase_result_told:
  assumes "codec_ok X" "encode_message X (phase_result_message q ts m yr r) = Inr data"
  shows "untold X data \<or> announces X m data (Resolved r)"
proof (cases "0 \<le> q \<and> 0 < ts")
  case False
  have "well_typed (phase_result_message q ts m yr r)" unfolding phase_result_message_def
    by (rule well_typed_mk) (cases "ph_previous r"; simp)
  from decode_encode [OF assms(1) this assms(2)] False have "read_message X data = Inl ValidationError"
    by (auto simp: read_message_def phase_result_message_def validate_mk)
  then show ?thesis by (simp add: untold_def)
qed (use assms in auto)

lemma match_start_told:
  assumes "codec_ok X" "encode_message X (match_start_message m q ts names (ph_state r) (ph_hash r) (ph_signature r) dl) = Inr data"
  shows "untold X data \<or> announces X m data (Began r)"
proof (cases "0 \<le> q \<and> 0 < ts \<and> 0 < dl")
  case False
  let ?msg = "match_start_message m q ts names (ph_state r) (ph_hash r) (ph_signature r) dl"
  have "well_typed ?msg" unfolding match_start_message_def
    by (rule well_typed_mk) (simp add: names_value_def list_all_iff)
  from decode_encode [OF assms(1) this assms(2)] False have "\<exists>e. read_message X data = Inl e"
    by (auto simp: read_message_def match_start_message_def validate_mk types_without_match_id_def require_def
        require_positive_def compare_number_def)
  then show ?thesis by (auto simp: untold_def)
qed (use assms in auto)

lemma owed_broadcast:
  assumes "\<And>data. encode_message (env_externals E) msg = Inr data \<Longrightarrow>
      untold (env_externals E) data \<or> announces (env_externals E) (co_match_id c) data a"
    and "opening_first [a]"
  shows "owed (env_externals E) (announced_row a) c (snd (broadcast_to_all E msg c))"
proof -
  let ?ps = "list_players (co_store c) (co_match_id c)"
  obtain data n where n: "encode_message (env_externals E) msg = Inr data \<or> n = 0"
    and s: "snd (broadcast_to_all E msg c) = c\<lparr>co_sent := co_sent c @
      map (\<lambda>p. (hex_of (pl_public_key p), data)) (take n ?ps)\<rparr>"
    using broadcast_sends [of E msg c] by blast
  have "tells_of (env_externals E) (co_match_id c) (map (\<lambda>p. (hex_of (pl_public_key p), data)) (take n ?ps)) [announced_row a]"
    if "store_ok (co_store c)"
    using n
  proof
    assume "encode_message (env_externals E) msg = Inr data"
    from tells_once [OF assms(1) [OF this] player_addresses [OF that] assms(2)] show ?thesis .
  qed simp
  then show ?thesis by (auto simp: s owed_def)
qed

lemma owed_then:
  assumes "owed X r c c1" "co_match_id c2 = co_match_id c1" "co_store c2 = co_store c1" "co_sent c2 = co_sent c1 @ sent"
    and "tells_of X (co_match_id c) sent []"
  shows "owed X r c c2"
  using assms tells_append [of X "co_match_id c" _ "[r]" sent "[]"] by (auto simp: owed_def)

lemma owed_chat:
  assumes "owed (env_externals E) r c c1" "codec_ok (env_externals E)" "ordinary msg"
  shows "owed (env_externals E) r c (snd (broadcast_to_all E msg c1))"
proof -
  obtain data n where "encode_message (env_externals E) msg = Inr data \<or> n = 0"
    and s: "snd (broadcast_to_all E msg c1) = c1\<lparr>co_sent := co_sent c1 @
      map (\<lambda>p. (hex_of (pl_public_key p), data)) (take n (list_players (co_store c1) (co_match_id c1)))\<rparr>"
    using broadcast_sends [of E msg c1] by blast
  then show ?thesis
    by (intro owed_then [OF assms(1)]) (auto intro: tells_untold ordinary_untold [OF assms(2,3)])
qed

lemma owed_announce:
  assumes X: "codec_ok (env_externals E)"
  shows "owed (env_externals E) r c (snd (announce_phase E landing r t dl c))"
  unfolding announce_phase_def
proof ((rule owed_bind, rule still_steps)+)
  fix m c1 q c2
  assume m: "act_get co_match_id c = (Inr m, c1)" and q: "next_sequence c1 = (Inr q, c2)"
  have here: "co_match_id c2 = m" using m q by (auto simp: act_run next_sequence_def)
  let ?res = "phase_result_message q t m (ms_year landing) r"
  have sent: "owed (env_externals E) r c2 (snd (broadcast_to_all E ?res c2))"
    using owed_broadcast [where E = E and msg = ?res and c = c2 and a = "Resolved r"] phase_result_told [OF X] here
    by (simp add: opening_first_def)
  show "owed (env_externals E) r c2 (snd (act_bind (broadcast_to_all E ?res) (\<lambda>_.
      act_bind next_sequence (\<lambda>q'. broadcast_to_all E (phase_start_message q' t m landing dl))) c2))"
  proof (cases "broadcast_to_all E ?res c2")
    case (Pair res c3)
    then show ?thesis
    proof (cases res)
      case (Inr u)
      have "owed (env_externals E) r c2 (c3\<lparr>co_sequence := co_sequence c3 + 1\<rparr>)"
        by (rule owed_then [where ?c1.0 = c3 and sent = "[]"]) (use sent Pair in simp_all)
      from owed_chat [OF this X] show ?thesis using Pair Inr by (simp add: act_bind_def next_sequence_def)
    qed (use sent in \<open>simp add: act_bind_def\<close>)
  qed
qed

lemma persist_records:
  assumes "persist_phase_result E tn ph gs key tm c = (res, c')"
  shows "(\<exists>e. res = Inl e) \<and> c' = c \<or>
    (\<exists>r. res = Inr r \<and> co_match_id c' = co_match_id c \<and> co_sent c' = co_sent c \<and> store_write (co_store c) (co_store c') \<and>
       get_hash_chain (co_store c') (co_match_id c) = get_hash_chain (co_store c) (co_match_id c) @ [r])"
proof (cases "make_link (env_externals E) key (get_latest_phase_result (co_store c) (co_match_id c)) (co_match_id c) tn ph gs tm")
  case (Inl e)
  then have "persist_phase_result E tn ph gs key tm c = (Inl e, c)"
    by (simp add: persist_phase_result_def read_store_def act_simps)
  with assms show ?thesis by auto
next
  case (Inr r)
  note link = make_link_ok [OF Inr]
  let ?w = "record_phase_result (co_match_id c) tn ph (ph_state r) (ph_hash r) (ph_previous r) (ph_signature r) tm (co_store c)"
  show ?thesis
  proof (cases ?w)
    case fail: (Inl e)
    then show ?thesis using assms Inr
      by (auto simp: persist_phase_result_def read_store_def act_simps act_bind_def on_store_def act_zoom_def act_write_def)
  next
    case stored: (Inr s')
    have row: "\<lparr>ph_match = co_match_id c, ph_turn = tn, ph_phase = ph, ph_state = ph_state r, ph_hash = ph_hash r,
        ph_previous = ph_previous r, ph_signature = ph_signature r, ph_resolved_at = tm\<rparr> = r"
      by (cases r) (use link in simp)
    have "get_hash_chain s' (co_match_id c) = get_hash_chain (co_store c) (co_match_id c) @ [r]"
      using link(2) by (simp add: get_hash_chain_def frame_record_phase(7) [OF stored] row)
    moreover have "store_write (co_store c) s'" by (rule store_write.w_phase [OF stored])
    moreover have "res = Inr r" "c' = c\<lparr>co_store := s'\<rparr>" using assms Inr stored
      by (auto simp: persist_phase_result_def read_store_def act_simps act_bind_def on_store_def act_zoom_def act_write_def)
    ultimately show ?thesis by simp
  qed
qed

lemma recorded_and_told:
  assumes "owed X r c1 c2" "co_match_id c1 = co_match_id c" "co_sent c1 = co_sent c"
    and "store_write\<^sup>*\<^sup>* (co_store c) (co_store c1)"
    and "get_hash_chain (co_store c1) (co_match_id c) = get_hash_chain (co_store c) (co_match_id c) @ [r]"
  shows "call_tells X c c2"
  using assms writes_ok [OF assms(4)] by (auto simp: owed_def call_tells_def)

lemma tell_recorded:
  assumes "\<And>r c1. owed X r c1 (snd (f r c1))"
  shows "call_tells X c (snd (act_bind (persist_phase_result E tn ph gs key tm) f c))"
proof (cases "persist_phase_result E tn ph gs key tm c")
  case (Pair res c1)
  from persist_records [OF Pair] show ?thesis
  proof (elim disjE exE conjE)
    fix e assume "res = Inl e" "c1 = c"
    with Pair show ?thesis by (simp add: act_bind_def telling.R_refl)
  next
    fix r assume r: "res = Inr r" "co_match_id c1 = co_match_id c" "co_sent c1 = co_sent c" "store_write (co_store c) (co_store c1)"
      "get_hash_chain (co_store c1) (co_match_id c) = get_hash_chain (co_store c) (co_match_id c) @ [r]"
    have "store_write\<^sup>*\<^sup>* (co_store c) (co_store c1)" using r(4) by (rule r_into_rtranclp)
    from recorded_and_told [OF assms r(2,3) this r(5)] have "call_tells X c (snd (f r c1))" .
    with Pair r(1) show ?thesis by (simp add: act_bind_def)
  qed
qed

lemma tell_advance:
  assumes X: "codec_ok (env_externals E)"
  shows "call_tells (env_externals E) c (snd (advance_phase E t c))"
  unfolding advance_phase_def skip_diplomacy_def [symmetric]
  apply (rule telling.keep_bind, rule tell_basic)+
  apply (rule telling.keep_case_prod)
  apply (rule telling.keep_bind, rule tell_basic)
  apply (rule telling.keep_bind, rule tell_write, erule store_write.w_state)
  apply (rule tell_recorded)
  apply (rule owed_bind, rule still_steps)+
  apply (rule owed_announce [OF X])
  done

text \<open>The start of a match: the first row, recorded by the lobby, goes out with \<open>MATCH_START\<close>.\<close>

lemma tell_opening:
  assumes X: "codec_ok (env_externals E)"
  shows "call_tells (env_externals E) c (snd (act_bind
    (on_store (\<lambda>m. lobby_start_match (env_externals E) m key q tm dl)) (broadcast_to_all E) c))"
proof (cases "lobby_start_match (env_externals E) (co_match_id c) key q tm dl (co_store c)")
  case (Pair res s')
  let ?m = "co_match_id c" and ?c1 = "c\<lparr>co_store := s'\<rparr>"
  have run: "on_store (\<lambda>m. lobby_start_match (env_externals E) m key q tm dl) c = (res, ?c1)"
    by (simp add: on_store_def act_zoom_def Pair)
  have writes: "store_write\<^sup>*\<^sup>* (co_store c) (co_store ?c1)"
    using lobby_writes [of "co_store c" "env_externals E" ?m key q tm dl] by (simp add: Pair)
  show ?thesis
  proof (cases res)
    case (Inl e)
    have "call_tells (env_externals E) c ?c1"
      by (rule quiet_tells) (use writes in \<open>simp_all add: writes.R_def\<close>)
    then show ?thesis by (simp add: act_bind_def run Inl)
  next
    case (Inr msg)
    obtain state created canonical h s1 s2 names where
      s1: "save_match_state ?m (state\<lparr>ms_status := ACTIVE, ms_phase := DIPLOMACY, ms_turn := 1, ms_year := 1\<rparr>) (co_store c) = Inr s1"
      and s2: "record_phase_result ?m 1 DIPLOMACY canonical h None (sign_with (env_externals E) key (utf8_encode h)) tm s1 = Inr s2"
      and s': "set_deadline ?m (Some dl) s2 = Inr s'"
      and msg: "msg = match_start_message ?m q tm names canonical h (sign_with (env_externals E) key (utf8_encode h)) dl"
      by (rule start_match_Inr [OF Pair [unfolded Inr]])
    let ?r = "\<lparr>ph_match = ?m, ph_turn = 1, ph_phase = DIPLOMACY, ph_state = canonical, ph_hash = h, ph_previous = None,
        ph_signature = sign_with (env_externals E) key (utf8_encode h), ph_resolved_at = tm\<rparr>"
    have chain: "get_hash_chain (co_store ?c1) ?m = get_hash_chain (co_store c) ?m @ [?r]"
      by (simp add: get_hash_chain_def frame_deadline(3) [OF s'] frame_record_phase(7) [OF s2] frame_save(3) [OF s1])
    have "owed (env_externals E) (announced_row (Began ?r)) ?c1 (snd (broadcast_to_all E msg ?c1))"
      by (rule owed_broadcast)
        (use match_start_told [OF X, where r = ?r] in \<open>simp_all add: msg opening_first_def\<close>)
    from recorded_and_told [OF this _ _ writes, of] chain
    show ?thesis by (simp add: act_bind_def run Inr)
  qed
qed

lemma act_bind_assoc: "act_bind (act_bind m f) g c = act_bind m (\<lambda>x. act_bind (f x) g) c"
  by (simp add: act_bind_def split: prod.split sum.split)

lemma tell_start:
  assumes X: "codec_ok (env_externals E)"
  shows "call_tells (env_externals E) c (snd (start_match E c))"
  unfolding start_match_def
  apply (rule telling.keep_bind, rule tell_basic)+
  apply (rule telling.keep_bind, rule telling.keep_pure)
  apply (rule telling.keep_bind, rule tell_basic)
  apply (subst act_bind_assoc [symmetric])
  apply (rule telling.keep_bind, rule tell_opening [OF X])
  apply (rule telling.keep_bind, rule tell_basic)
  apply (rule telling.keep_bind, rule telling.keep_pure)
  apply (rule telling.keep_bind, rule tell_write, erule store_write.w_state)
  apply (rule tell_recorded)
  apply (rule owed_bind, rule still_steps)+
  apply (rule owed_announce [OF X])
  done

lemma tell_deadline:
  assumes X: "codec_ok (env_externals E)"
  shows "call_tells (env_externals E) c (snd (check_deadline E t c))"
  unfolding check_deadline_def Let_def
  by (intro tell_frames tell_advance [OF X] tell_broadcast [OF X] ordinary_messages)

lemma tell_poll:
  assumes X: "codec_ok (env_externals E)"
  shows "call_tells (env_externals E) c (snd (poll E inbound c))"
  unfolding poll_def
  by (intro tell_frames tell_deadline [OF X] telling.keep_for tell_inbound [OF X])

section \<open>Any run\<close>

lemma call_keeps_told:
  assumes "call_tells X c c'" "store_ok (co_store c)" "tells_of X (co_match_id c) (co_sent c) (get_hash_chain (co_store c) (co_match_id c))"
  shows "co_match_id c' = co_match_id c \<and> store_ok (co_store c') \<and>
    tells_of X (co_match_id c) (co_sent c') (get_hash_chain (co_store c') (co_match_id c))"
  using assms tells_append by (force simp: call_tells_def)

lemma perform_keeps_told:
  assumes "codec_ok (env_externals E)" "store_ok (co_store c)"
    and "tells_of (env_externals E) (co_match_id c) (co_sent c) (get_hash_chain (co_store c) (co_match_id c))"
  shows "co_match_id (snd (perform E e c)) = co_match_id c \<and> store_ok (co_store (snd (perform E e c))) \<and>
    tells_of (env_externals E) (co_match_id c) (co_sent (snd (perform E e c)))
      (get_hash_chain (co_store (snd (perform E e c))) (co_match_id c))"
proof (cases "\<exists>config. e = Restart config")
  case True
  with assms(2) show ?thesis by (auto simp: new_coordinator_def)
next
  case False
  have "call_tells (env_externals E) c (snd (announce c))"
    by (rule quiet_tells) (simp_all add: announce_def writes.R_same)
  with False have "call_tells (env_externals E) c (snd (perform E e c))"
    using tell_inbound [OF assms(1)] tell_poll [OF assms(1)] tell_start [OF assms(1)] tell_operator [OF assms(1)]
      tell_deadline [OF assms(1)] tell_advance [OF assms(1)]
    by (cases e) simp_all
  then show ?thesis using assms(2,3) by (rule call_keeps_told)
qed

lemma run_told:
  assumes "codec_ok (env_externals E)" "store_ok (co_store c)"
    and "tells_of (env_externals E) (co_match_id c) (co_sent c) (get_hash_chain (co_store c) (co_match_id c))"
  shows "tells_of (env_externals E) (co_match_id c) (co_sent (run E es c))
    (get_hash_chain (co_store (run E es c)) (co_match_id c))"
  using assms(2,3)
proof (induction es arbitrary: c)
  case (Cons e es)
  from perform_keeps_told [OF assms(1) Cons.prems, of e] Cons.IH [of "snd (perform E e c)"] show ?case
    by (simp add: run_def)
qed (simp add: run_def)

section \<open>What a client can find wrong\<close>

lemma chain_link:
  assumes "digest_ok X" "chain_from X key prev rows" "r \<in> set rows" "\<And>q. prev = Some q \<Longrightarrow> ph_hash q \<noteq> ''''"
  shows "\<exists>q. link_ok X key q r \<and> (\<forall>x. q = Some x \<longrightarrow> ph_hash x \<noteq> '''')"
  using assms(2-4)
proof (induction rows arbitrary: prev)
  case (Cons x rows)
  then have l: "link_ok X key prev x" "chain_from X key (Some x) rows" by simp_all
  show ?case
  proof (cases "r = x")
    case True
    with l Cons.prems(3) show ?thesis by blast
  next
    case False
    then show ?thesis using Cons.IH [OF l(2)] Cons.prems(2) link_hash [OF assms(1) l(1)] by auto
  qed
qed simp

lemma check_links_gaps:
  assumes "list_all (link_verifies X pk) ls"
  shows "\<exists>found. check_links X pk previous n ls = Inr found \<and> (\<forall>i\<in>set found. \<exists>h h'. vi_reason i = ChainBroken h h')"
  using assms
proof (induction ls arbitrary: previous n)
  case (Cons l ls)
  then obtain found where "check_links X pk (Some (lk_hash l)) (n + 1) ls = Inr found"
    "\<forall>i\<in>set found. \<exists>h h'. vi_reason i = ChainBroken h h'" by force
  with Cons.prems show ?case
    by (auto simp: check_link_def link_verifies_def issue_def split: option.splits)
qed simp

lemma map_result_last: "map_result f xs = Inr ys \<Longrightarrow> xs \<noteq> [] \<Longrightarrow> ys \<noteq> [] \<and> f (last xs) = Inr (last ys)"
  by (induction xs arbitrary: ys) auto

lemma resolved_rows:
  "concat (map (\<lambda>a. case a of Began _ \<Rightarrow> [] | Resolved r \<Rightarrow> [link_of_row r]) as) =
     map link_of_row (map announced_row (filter (\<lambda>a. \<exists>r. a = Resolved r) as))"
  "concat (map (\<lambda>a. case a of Began r \<Rightarrow> [start_of_row r] | Resolved _ \<Rightarrow> []) as) =
     map start_of_row (map announced_row (filter (\<lambda>a. \<exists>r. a = Began r) as))"
  by (induction as; auto split: chain_message.splits)+

section \<open>Properties of the announcements\<close>

text \<open>C4: The coordinator tells every player the history it records, and nothing else: in any run, whatever
  messages arrive and whatever fails, the \<open>MATCH_START\<close> and \<open>PHASE_RESULT\<close> messages that an address is
  sent announce rows of the recorded hash chain, in the order of the chain and each row at most once, and
  \<open>MATCH_START\<close> announces a row without a predecessor.\<close>

theorem announcements_follow_history:
  assumes "codec_ok (env_externals E)" and "store_ok (co_store c)" and "co_sent c = []"
  shows "\<exists>as. carries (env_externals E) (co_match_id c) (addressed sender d (co_sent (run E es c))) as \<and>
    subseq (map announced_row as) (get_hash_chain (co_store (run E es c)) (co_match_id c)) \<and>
    (\<forall>r. Began r \<in> set as \<longrightarrow> ph_previous r = None)"
proof -
  have "tells_of (env_externals E) (co_match_id c) (co_sent (run E es c)) (get_hash_chain (co_store (run E es c)) (co_match_id c))"
    by (rule run_told [OF assms(1,2)]) (simp add: assms(3))
  then show ?thesis unfolding tells_of_def opening_first_def by blast
qed

theorem announcements_follow_history_witness:
  "\<exists>as. carries reference ''m'' (addressed ''07'' ''01'' (co_sent (run quiet_environment
     [Start, Inbound ''01'' [192], Advance, Restart None, Advance] (new_coordinator ''m'' full_lobby None)))) as"
  using announcements_follow_history [of quiet_environment "new_coordinator ''m'' full_lobby None"]
    full_lobby_history reference_ok(1)
  by (force simp: quiet_environment_def new_coordinator_def history_ok_def)

lemma run_verified:
  assumes "codec_ok X" "digest_ok X" "identity_ok X" "history_ok X m s" "m \<noteq> ''''"
    and "map_of (t_matches s) m = Some mr" "tells_of X m sent (get_hash_chain s m)"
    and "player_poll X (addressed sender d sent) (new_player key destination m n) = (Inr ms, p)"
  shows "\<exists>rows rep. subseq rows (get_hash_chain s m) \<and>
    map_result link_of_phase_result (pc_phase_results p) = Inr (map link_of_row rows) \<and>
    verify_session X (public_key_of X (mr_private_key mr)) p = Inr rep \<and>
    (\<forall>i\<in>set (vr_issues rep). \<exists>h h'. vi_reason i = ChainBroken h h')"
proof -
  let ?pk = "public_key_of X (mr_private_key mr)"
  obtain as where as: "carries X m (addressed sender d sent) as" "subseq (map announced_row as) (get_hash_chain s m)"
    "opening_first as"
    using assms(7) unfolding tells_of_def by blast
  have chain: "chain_from X (mr_private_key mr) None (get_hash_chain s m)" using assms(4,6) by (simp add: history_ok_def)
  have genuine: "\<exists>q. link_ok X (mr_private_key mr) q (announced_row a) \<and> (\<forall>x. q = Some x \<longrightarrow> ph_hash x \<noteq> '''')"
    if "a \<in> set as" for a
    by (rule chain_link [OF assms(2) chain]) (use that list_emb_set [OF as(2), of "announced_row a"] in auto)
  have hashes: "Began r \<in> set as \<or> Resolved r \<in> set as \<Longrightarrow> ph_hash r \<noteq> ''''" for r
    using genuine link_hash [OF assms(2)] by fastforce
  note got = carries_remembered [OF assms(1,5) as(1) hashes, unfolded resolved_rows]
  note log = poll_remembers [OF assms(8)]
  let ?rows = "map announced_row (filter (\<lambda>a. \<exists>r. a = Resolved r) as)"
    and ?first = "map announced_row (filter (\<lambda>a. \<exists>r. a = Began r) as)"
  have ls: "map_result link_of_phase_result (pc_phase_results p) = Inr (map link_of_row ?rows)"
    using log(2) [of PHASE_RESULT] log(1) got(1) by (simp add: logged_types_def new_player_def)
  have verifies: "list_all (link_verifies X ?pk) (map link_of_row ?rows)"
    using genuine row_verifies(1) [OF assms(1,3)] by (fastforce simp: list_all_iff)
  have first: "\<forall>r\<in>set ?first. link_verifies X ?pk (start_of_row r)"
  proof
    fix r assume "r \<in> set ?first"
    then have r: "Began r \<in> set as" by auto
    then obtain q where q: "link_ok X (mr_private_key mr) q r" "\<forall>x. q = Some x \<longrightarrow> ph_hash x \<noteq> ''''"
      using genuine by fastforce
    moreover have "q = None" using r as(3) q(1) by (cases q) (auto simp: opening_first_def link_ok_def)
    ultimately show "link_verifies X ?pk (start_of_row r)" using row_verifies(2) [OF assms(1,3) q(1)] by simp
  qed
  have start: "\<exists>start. (case pc_match_start p of None \<Rightarrow> Inr None
      | Some msg \<Rightarrow> bind_result (link_of_match_start msg) (\<lambda>l. Inr (Some l))) = Inr start \<and>
      check_start X ?pk start = Inr []"
  proof (cases "of_type MATCH_START ms = []")
    case True
    then show ?thesis using log(3) [of MATCH_START] by (simp add: latest_types_def new_player_def check_start_def)
  next
    case False
    have "pc_match_start p = Some (last (of_type MATCH_START ms))"
      using log(3) [of MATCH_START] False by (simp add: latest_types_def new_player_def latest_conv)
    moreover have "map start_of_row ?first \<noteq> [] \<and> link_of_match_start (last (of_type MATCH_START ms)) = Inr (last (map start_of_row ?first))"
      using map_result_last [OF got(2)] False log(1) by simp
    moreover have "link_verifies X ?pk (last (map start_of_row ?first))"
      if "map start_of_row ?first \<noteq> []" using first last_in_set [OF that] by auto
    ultimately show ?thesis by (auto simp: check_start_def link_verifies_def)
  qed
  then obtain start where start: "(case pc_match_start p of None \<Rightarrow> Inr None
      | Some msg \<Rightarrow> bind_result (link_of_match_start msg) (\<lambda>l. Inr (Some l))) = Inr start" "check_start X ?pk start = Inr []"
    by blast
  obtain found where "check_links X ?pk (map_option lk_hash start) 1 (map link_of_row ?rows) = Inr found"
    "\<forall>i\<in>set found. \<exists>h h'. vi_reason i = ChainBroken h h'"
    using check_links_gaps [OF verifies] by blast
  then have "\<exists>rep. verify_session X ?pk p = Inr rep \<and> (\<forall>i\<in>set (vr_issues rep). \<exists>h h'. vi_reason i = ChainBroken h h')"
    by (simp add: verify_session_def ls start verify_history_def Let_def)
  moreover have "subseq ?rows (get_hash_chain s m)"
    by (rule subseq_order.trans [OF subseq_map as(2)]) simp
  ultimately show ?thesis using ls by blast
qed

text \<open>C5: An honest coordinator cannot be convicted: after any run from a sound history, a client that polls
  what it was sent holds genuine results, rows of the recorded chain in their order, and the only issue its
  verification can report under the coordinator's key is a gap, never a signature or a hash.\<close>

theorem honest_run_verifies:
  assumes "codec_ok (env_externals E)" and "digest_ok (env_externals E)" and "identity_ok (env_externals E)"
    and "history_ok (env_externals E) (co_match_id c) (co_store c)" and "co_match_id c \<noteq> ''''" and "co_sent c = []"
    and "map_of (t_matches (co_store (run E es c))) (co_match_id c) = Some mr"
    and "player_poll (env_externals E) (addressed sender d (co_sent (run E es c)))
      (new_player key destination (co_match_id c) n) = (Inr ms, p)"
  shows "\<exists>rows rep. subseq rows (get_hash_chain (co_store (run E es c)) (co_match_id c)) \<and>
    map_result link_of_phase_result (pc_phase_results p) = Inr (map link_of_row rows) \<and>
    verify_session (env_externals E) (public_key_of (env_externals E) (mr_private_key mr)) p = Inr rep \<and>
    (\<forall>i\<in>set (vr_issues rep). \<exists>h h'. vi_reason i = ChainBroken h h')"
proof (rule run_verified [OF assms(1-3) _ assms(5,7) _ assms(8)])
  show "history_ok (env_externals E) (co_match_id c) (co_store (run E es c))"
    using history.keep_run [of E c es] assms(4) unfolding history.R_def history_grows_def by simp
  show "tells_of (env_externals E) (co_match_id c) (co_sent (run E es c)) (get_hash_chain (co_store (run E es c)) (co_match_id c))"
    using run_told [OF assms(1), of c es] assms(4,6) by (simp add: history_ok_def)
qed

definition reproach :: message where
  "reproach = error_message 1 1 ''MALFORMED_MESSAGE'' ''malformed''"

lemma reproach_sent:
  obtains b where "encode_message reference reproach = Inr b" "read_message reference b = Inr reproach"
    "co_sent (run quiet_environment [Inbound ''01'' []] (new_coordinator ''m'' full_lobby None)) = [(''01'', b)]"
    "t_matches (co_store (run quiet_environment [Inbound ''01'' []] (new_coordinator ''m'' full_lobby None))) =
      t_matches full_lobby"
proof -
  have "length (enc (canonicalize (py_message reproach))) \<le> MAX_MESSAGE_SIZE"
    by (simp add: reproach_def error_message_def py_message_def mk_message_def PROTOCOL_VERSION_def enc_bytes_def enc_nat_def
        enc_int_def utf8_encode_def MAX_MESSAGE_SIZE_def)
  then obtain b where b: "encode_message reference reproach = Inr b" by (simp add: encode_message_def)
  have "well_typed reproach" unfolding reproach_def error_message_def by (rule well_typed_mk) simp
  moreover have "validate_message reproach = Inr ()"
    by (simp add: reproach_def error_message_def validate_mk types_without_match_id_def require_def)
  ultimately have r: "read_message reference b = Inr reproach" by (rule read_encoded [OF reference_ok(1) _ b])
  have noise: "read_message reference [] = Inl DecodingError"
    by (simp add: read_message_def decode_message_def reference_def reference_unpackb_def)
  let ?c = "new_coordinator ''m'' full_lobby None"
  have h: "hex_of [1] = ''01''" by (simp add: hex_of_def hex_byte_def hex_digit_def hex_digits_def)
  then have "fromhex ''01'' = Inr [1]" using fromhex_hex [of "[1]"] by simp
  with h have "run quiet_environment [Inbound ''01'' []] ?c =
      ?c\<lparr>co_sequence := 1, co_readings := 1, co_sent := [(''01'', b)]\<rparr>"
    using b by (simp add: run_def handle_inbound_def act_simps quiet_environment_def noise is_malformed_def
        next_sequence_def now_def act_bind_def reply_def transport_send_def new_coordinator_def reproach_def [symmetric])
  then show thesis using that [OF b r] by (simp add: new_coordinator_def)
qed

theorem honest_run_verifies_witness:
  "\<exists>p rep rows. player_poll reference (addressed ''07'' ''01'' (co_sent (run quiet_environment [Inbound ''01'' []]
       (new_coordinator ''m'' full_lobby None)))) (new_player [1] ''07'' ''m'' 0) = (Inr [reproach], p) \<and>
     verify_session reference [7] p = Inr rep \<and>
     map_result link_of_phase_result (pc_phase_results p) = Inr (map link_of_row rows)"
proof -
  let ?c = "new_coordinator ''m'' full_lobby None" and ?es = "[Inbound ''01'' []]"
  obtain b where b: "read_message reference b = Inr reproach" and sent: "co_sent (run quiet_environment ?es ?c) = [(''01'', b)]"
    and kept: "t_matches (co_store (run quiet_environment ?es ?c)) = t_matches full_lobby"
    by (rule reproach_sent)
  have type: "message_type reproach = ERROR" by (simp add: reproach_def error_message_def)
  obtain p where p: "player_poll reference (addressed ''07'' ''01'' (co_sent (run quiet_environment ?es ?c)))
      (new_player [1] ''07'' ''m'' 0) = (Inr [reproach], p)"
    by (simp add: sent addressed_def b act_simps act_bind_def player_handle_def player_handlers type)
  have m: "map_of (t_matches (co_store (run quiet_environment ?es ?c))) ''m'' = Some waiting_match"
    unfolding kept by (simp add: full_lobby_def)
  show ?thesis
    using honest_run_verifies [where E = quiet_environment and c = ?c and es = ?es and mr = waiting_match, OF _ _ _ _ _ _ _ ]
      reference_ok full_lobby_history p m
    by (force simp: quiet_environment_def new_coordinator_def waiting_match_def reference_def)
qed

end
