(* ===== verification/Conformance.thy ===== *)
theory Conformance
  imports Announcements Typed_Input
begin

text \<open>
  Protocol conformance of the coordinator (\<^verbatim>\<open>coordinator/match.py\<close> over \<^verbatim>\<open>protocol/messages.py\<close> and
  \<^verbatim>\<open>protocol/encoding.py\<close>): whatever happens in a run, every message it sends is one its receiver decodes,
  with every field of the annotated type.
\<close>

section \<open>Dictionaries on the wire\<close>

text \<open>A dictionary arrives with its keys sorted.\<close>

definition wire_form :: "canonical \<Rightarrow> canonical" where
  "wire_form c = canonicalize (py_of_canonical c)"

lemma wire_form_simps [simp]:
  "wire_form (CDict d) = CDict (sort_key fst (map (\<lambda>(k, v). (k, wire_form v)) d))"
  "wire_form (CList xs) = CList (map wire_form xs)"
  by (simp_all add: wire_form_def comp_def case_prod_beta')

lemma wire_form_idem: "wire_form (wire_form c) = wire_form c"
proof (induction c)
  case (CDict d)
  have "map (\<lambda>(k, v). (k, wire_form v)) (sort_key fst (map (\<lambda>(k, v). (k, wire_form v)) d)) =
      sort_key fst (map (\<lambda>(k, v). (k, wire_form v)) d)"
    by (rule map_idI) (use CDict in force)
  then show ?case by (simp add: sort_key_sorted_id)
qed (simp_all add: wire_form_def comp_def)

definition settle :: "field_value \<Rightarrow> field_value" where
  "settle v = (case v of VRaw (CDict d) \<Rightarrow> VRaw (wire_form (CDict d)) | _ \<Rightarrow> v)"

lemma settle_same: "canonicalize (py_of_value (settle v)) = canonicalize (py_of_value v)"
proof (cases "\<exists>d. v = VRaw (CDict d)")
  case True
  then obtain d where v: "v = VRaw (CDict d)" by blast
  have "canonicalize (py_of_value (settle v)) = wire_form (wire_form (CDict d))"
    by (simp add: v settle_def wire_form_def del: wire_form_simps)
  also have "\<dots> = wire_form (CDict d)" by (rule wire_form_idem)
  finally show ?thesis by (simp add: v wire_form_def del: wire_form_simps)
next
  case False
  then have "settle v = v" by (auto simp: settle_def split: field_value.split canonical.split)
  then show ?thesis by simp
qed

text \<open>A value of the annotated type; a dictionary in any order.\<close>

definition suits :: "hint \<Rightarrow> field_value \<Rightarrow> bool" where
  "suits h v \<longleftrightarrow> (if h = HDict then \<exists>d. v = VRaw (CDict d) else fits h v)"

lemma fits_dict: "fits h (VRaw (CDict d)) \<Longrightarrow> wire_form (CDict d) = CDict d"
  by (induction h) (simp_all add: wire_form_def del: wire_form_simps)

lemma suits_settle: "suits h v \<Longrightarrow> fits h (settle v)"
proof (cases "\<exists>d. v = VRaw (CDict d)")
  case True
  moreover assume "suits h v"
  ultimately obtain d where v: "v = VRaw (CDict d)" and h: "h = HDict \<or> fits h (VRaw (CDict d))"
    by (auto simp: suits_def split: if_splits)
  obtain d' where d': "wire_form (CDict d) = CDict d'" by simp
  show ?thesis
    using h
  proof
    assume "h = HDict"
    moreover have "wire_form (CDict d') = CDict d'" using wire_form_idem [of "CDict d"] unfolding d' .
    moreover have "settle v = VRaw (CDict d')" by (simp add: v settle_def d' del: wire_form_simps)
    ultimately show ?thesis
      by (simp add: wire_form_def del: wire_form_simps canonicalize.simps py_of_canonical.simps)
  next
    assume "fits h (VRaw (CDict d))"
    with fits_dict [OF this] show ?thesis by (simp add: v settle_def del: wire_form_simps)
  qed
next
  case False
  moreover assume "suits h v"
  ultimately show ?thesis by (auto simp: settle_def suits_def split: if_splits field_value.split canonical.split)
qed

definition proper :: "message \<Rightarrow> bool" where
  "proper msg \<longleftrightarrow>
     list_all2 (\<lambda>(k, v) (name, h). k = name \<and> suits h v) (fields_of msg) (class_fields (message_type msg))"

definition settled :: "message \<Rightarrow> message" where
  "settled msg = msg\<lparr>fields_of := map (\<lambda>(k, v). (k, settle v)) (fields_of msg)\<rparr>"

lemma settled_well_typed: "proper msg \<Longrightarrow> well_typed (settled msg)"
  by (auto simp: proper_def well_typed_def settled_def list_all2_map1 case_prod_beta' suits_settle
      elim!: list_all2_mono)

text \<open>What a receiver makes of a proper message.\<close>

lemma proper_decodes:
  assumes "codec_ok X" "proper msg" "encode_message X msg = Inr b"
  shows "decode_message X b = Inr (settled msg)"
proof (rule decode_encode [OF assms(1) settled_well_typed [OF assms(2)]])
  have "canonicalize (py_message (settled msg)) = canonicalize (py_message msg)"
    by (simp add: py_message_def settled_def comp_def case_prod_beta' settle_same)
  then show "encode_message X (settled msg) = Inr b" using assms(3) by (simp add: encode_message_def)
qed

lemma proper_mk:
  assumes "list_all2 (\<lambda>(k, v) (name, h). k = name \<and> suits h v) fs (body_fields t)"
  shows "proper (mk_message t s ts fs)"
  using assms by (simp add: proper_def mk_message_def class_fields_def envelope_fields_def suits_def)

section \<open>The messages of the coordinator\<close>

lemma fits_optional [simp]:
  "fits (HOptional HStr) (str_value s)" "fits (HOptional h) (VRaw CNone)"
  "fits (HOptional (HEnum vals)) (VEnum x) \<longleftrightarrow> x \<in> set vals"
  by (cases s) simp_all

lemma proper_messages [simp]:
  "proper (game_info_message q ts m st n)" "proper (error_message q ts code d)" "proper (state_response q ts m r)"
  "proper (match_end_message q ts m why h)" "proper (deadline_warning_message q ts m ph secs)"
  "proper (phase_start_message q ts m st dl)" "proper (phase_result_message q ts m yr r)"
  "proper (match_start_message m q ts names b hash sig dl)" "proper (join_rejected m q ts why)"
  "proper (join_accepted m q ts c)" "proper (order_receipt q ts m rv hash os)" "proper (draw_result_message q ts m tn a votes)"
  unfolding game_info_message_def error_message_def state_response_def match_end_message_def deadline_warning_message_def
    phase_start_message_def phase_result_message_def match_start_message_def join_rejected_def join_accepted_def
    order_receipt_def draw_result_message_def
  by (rule proper_mk; simp add: suits_def names_value_def list_all_iff del: fits.simps(2))+

section \<open>Everything sent is proper\<close>

text \<open>Bytes that decode to a well-typed message of one of the classes the coordinator sends.\<close>

definition spoken_types :: "MessageType list" where
  "spoken_types = [GAME_INFO, JOIN_ACCEPTED, JOIN_REJECTED, ORDER_RECEIPT, PHASE_START, PHASE_RESULT,
     PHASE_DEADLINE_WARNING, STATE_RESPONSE, DRAW_RESULT, MATCH_START, MATCH_END, ERROR]"

definition understood :: "externals \<Rightarrow> bytes \<Rightarrow> bool" where
  "understood X data \<longleftrightarrow>
     (\<exists>msg. decode_message X data = Inr msg \<and> well_typed msg \<and> message_type msg \<in> set spoken_types)"

definition speaks :: "externals \<Rightarrow> coord \<Rightarrow> coord \<Rightarrow> bool" where
  "speaks X c c' \<longleftrightarrow> (\<exists>sent. co_sent c' = co_sent c @ sent \<and> (\<forall>(d, data) \<in> set sent. understood X data))"

definition speakable :: "message \<Rightarrow> bool" where
  "speakable msg \<longleftrightarrow> proper msg \<and> message_type msg \<in> set spoken_types"

interpretation speaking: preserved "speaks X" for X
proof
  show "speaks X c c" for c by (auto simp: speaks_def intro: exI [of _ "[]"])
  show "speaks X c c''" if ab: "speaks X c c'" "speaks X c' c''" for c c' c''
  proof -
    obtain s1 s2 where "co_sent c' = co_sent c @ s1" "\<forall>(d, data) \<in> set s1. understood X data"
      "co_sent c'' = co_sent c' @ s2" "\<forall>(d, data) \<in> set s2. understood X data"
      using ab unfolding speaks_def by blast
    then show ?thesis unfolding speaks_def by (intro exI [of _ "s1 @ s2"]) auto
  qed
qed

lemma speakable_messages [simp]:
  "speakable (game_info_message q ts m st n)" "speakable (error_message q ts code d)" "speakable (state_response q ts m r)"
  "speakable (match_end_message q ts m why h)" "speakable (deadline_warning_message q ts m ph secs)"
  "speakable (phase_start_message q ts m st dl)" "speakable (phase_result_message q ts m yr r)"
  "speakable (match_start_message m q ts names b hash sig dl)" "speakable (join_rejected m q ts why)"
  "speakable (join_accepted m q ts c)" "speakable (order_receipt q ts m rv hash os)"
  "speakable (draw_result_message q ts m tn a votes)"
  unfolding speakable_def
  by (simp_all only: proper_messages)
    (simp_all add: spoken_types_def game_info_message_def error_message_def state_response_def match_end_message_def
      deadline_warning_message_def phase_start_message_def phase_result_message_def match_start_message_def
      order_receipt_def draw_result_message_def)

lemma encoded_understood:
  assumes "codec_ok X" "speakable msg" "encode_message X msg = Inr data"
  shows "understood X data"
  using proper_decodes [OF assms(1) _ assms(3)] settled_well_typed [of msg] assms(2)
  by (auto simp: understood_def speakable_def settled_def)

lemma quiet_speaks: "co_sent c' = co_sent c \<Longrightarrow> speaks X c c'"
  by (auto simp: speaks_def)

lemma speak_basic:
  "speaks X c (snd (now E c))" "speaks X c (snd (time_or_now E t c))" "speaks X c (snd (random_pick E c))"
  "speaks X c (snd (next_sequence c))" "speaks X c (snd (set_warned b c))" "speaks X c (snd (read_store f c))"
  "speaks X c (snd (join_allowed k tm c))" "speaks X c (snd (require_match_state c))"
  "speaks X c (snd (turn_start_state E tn c))" "speaks X c (snd (load_game_state E c))"
  "speaks X c (snd (adjudicate E st c))" "speaks X c (snd (skip_diplomacy landing c))" "speaks X c (snd (on_store g c))"
  "speaks X c (snd (persist_phase_result E tn ph gs key t2 c))"
proof -
  show os: "speaks X c (snd (on_store g c))" for g :: "string \<Rightarrow> (store, 'c) act" and c
    by (rule quiet_speaks) (simp add: on_store_def act_zoom_def split: prod.split)
  show "speaks X c (snd (time_or_now E t c))"
    by (cases t) (simp_all add: time_or_now_def act_run now_def quiet_speaks)
  have rd: "speaks X c (snd (read_store f c))" for f :: "string \<Rightarrow> store \<Rightarrow> 'd result" and c by (simp add: quiet_speaks)
  show "speaks X c (snd (persist_phase_result E tn ph gs key t2 c))"
    using persist_records [of E tn ph gs key t2 c] by (cases "persist_phase_result E tn ph gs key t2 c") (auto intro: quiet_speaks)
qed (simp_all add: reads_same skip_diplomacy_same now_def random_pick_def next_sequence_def set_warned_def
    join_allowed_def Let_def quiet_speaks)

lemma speak_reply:
  assumes "codec_ok (env_externals E)" "speakable msg"
  shows "speaks (env_externals E) c (snd (reply E k msg c))"
proof (cases "encode_message (env_externals E) msg")
  case (Inl e)
  then show ?thesis by (simp add: reply_def act_simps quiet_speaks)
next
  case (Inr data)
  with encoded_understood [OF assms Inr] show ?thesis
    by (cases "env_send_error E (hex_of k) data")
      (auto simp: reply_def act_simps transport_send_def speaks_def)
qed

lemma speak_broadcast:
  assumes "codec_ok (env_externals E)" "speakable msg"
  shows "speaks (env_externals E) c (snd (broadcast_to_all E msg c))"
proof -
  obtain data n where "encode_message (env_externals E) msg = Inr data \<or> n = 0"
    and s: "snd (broadcast_to_all E msg c) = c\<lparr>co_sent := co_sent c @
      map (\<lambda>p. (hex_of (pl_public_key p), data)) (take n (list_players (co_store c) (co_match_id c)))\<rparr>"
    using broadcast_sends [of E msg c] by blast
  then show ?thesis using encoded_understood [OF assms] by (auto simp: speaks_def)
qed

lemmas speak_frames = speaking.keeps speak_basic

text \<open>The answers of the services.\<close>

lemma speakable_join: "on_store (\<lambda>m. handle_join_request X m rq q t pick) c = (Inr msg, c') \<Longrightarrow> speakable msg"
  by (auto simp: on_store_Inr handle_join_request_def accept_join_def act_bind_Inr act_run Let_def
      split: option.splits prod.splits if_splits)

lemma speakable_receipts:
  "on_store (\<lambda>m. handle_order_submit X gs m k rq tn ph q ts) c = (Inr msg, c') \<Longrightarrow> speakable msg"
  "on_store (\<lambda>m. handle_order_cancel X m k rq tn ph q ts) c = (Inr msg, c') \<Longrightarrow> speakable msg"
  by (auto simp: on_store_Inr handle_order_submit_def handle_order_cancel_def act_bind_Inr act_run Let_def
      rejected_receipt_def split: option.splits if_splits)

lemma speakable_draws:
  "on_store (\<lambda>m. handle_draw_vote m k tn v q ts rule) c = (Inr msg, c') \<Longrightarrow> speakable msg"
  "on_store (\<lambda>m. handle_draw_propose m k tn q ts rule) c = (Inr msg, c') \<Longrightarrow> speakable msg"
  by (auto simp: on_store_Inr handle_draw_vote_def handle_draw_propose_def evaluate_draw_def act_bind_Inr act_run
      split: if_splits)

lemma speakable_start:
  "on_store (\<lambda>m. lobby_start_match X m key q tm dl) c = (Inr msg, c') \<Longrightarrow> speakable msg"
  by (auto simp: on_store_Inr elim!: start_match_Inr)

lemma speak_handlers:
  assumes X: "codec_ok (env_externals E)"
  shows "handler_of E t = Some h \<Longrightarrow> speaks (env_externals E) c (snd (h k msg c))"
proof -
  have final: "speaks (env_externals E) c (snd (finalize_draw E msg c))" if "speakable msg" for msg c
    unfolding finalize_draw_def by (intro speak_frames speak_broadcast [OF X] speakable_messages that)
  have "speaks (env_externals E) c (snd (on_discover_game E k msg c))"
    "speaks (env_externals E) c (snd (on_join_request E k msg c))"
    "speaks (env_externals E) c (snd (on_order_submit E k msg c))"
    "speaks (env_externals E) c (snd (on_order_cancel E k msg c))"
    "speaks (env_externals E) c (snd (on_state_request E k msg c))"
    "speaks (env_externals E) c (snd (on_draw_propose E k msg c))" "speaks (env_externals E) c (snd (on_draw_vote E k msg c))"
    unfolding on_discover_game_def on_join_request_def on_order_submit_def on_order_cancel_def on_state_request_def
      on_draw_propose_def on_draw_vote_def
    by (intro speak_frames speak_reply [OF X] final speakable_messages;
        (elim speakable_join speakable_receipts speakable_draws)?)+
  then show "handler_of E t = Some h \<Longrightarrow> speaks (env_externals E) c (snd (h k msg c))" by (cases t) auto
qed

lemma speak_methods:
  assumes X: "codec_ok (env_externals E)"
  shows "speaks (env_externals E) c (snd (handle_inbound E sender data c))"
    and "speaks (env_externals E) c (snd (advance_phase E t c))" and "speaks (env_externals E) c (snd (start_match E c))"
    and "speaks (env_externals E) c (snd (end_match E why t c))"
    and "speaks (env_externals E) c (snd (pause E t c))" and "speaks (env_externals E) c (snd (resume E t c))"
    and "speaks (env_externals E) c (snd (check_deadline E t c))" and "speaks (env_externals E) c (snd (poll E inbound c))"
proof -
  have "speaks (env_externals E) c (snd (dispatch E k msg c))" for k msg c
    unfolding dispatch_def by (intro speak_frames speak_handlers [OF X])
  then show inbound: "speaks (env_externals E) c (snd (handle_inbound E sender data c))" for sender data c
    unfolding handle_inbound_def
    by (cases "read_message (env_externals E) data")
      (auto intro!: speak_frames speak_reply [OF X] speakable_messages)
  have news: "speaks (env_externals E) c (snd (announce_phase E landing r tm dl c))" for landing r tm dl c
    unfolding announce_phase_def by (intro speak_frames speak_broadcast [OF X] speakable_messages)
  show advance: "speaks (env_externals E) c (snd (advance_phase E t c))" for t c
    unfolding advance_phase_def skip_diplomacy_def [symmetric] by (intro speak_frames news)
  show "speaks (env_externals E) c (snd (start_match E c))"
    unfolding start_match_def
    by (intro speak_frames news speak_broadcast [OF X]; (elim speakable_start)?)
  show "speaks (env_externals E) c (snd (end_match E why t c))" "speaks (env_externals E) c (snd (pause E t c))"
    "speaks (env_externals E) c (snd (resume E t c))"
    unfolding end_match_def pause_def resume_def
    by (intro speak_frames speak_broadcast [OF X] speakable_messages)+
  show deadline: "speaks (env_externals E) c (snd (check_deadline E t c))" for t c
    unfolding check_deadline_def Let_def
    by (intro speak_frames advance speak_broadcast [OF X] speakable_messages)
  show "speaks (env_externals E) c (snd (poll E inbound c))"
    unfolding poll_def by (intro speak_frames deadline speaking.keep_for inbound)
qed

lemma speak_perform:
  assumes X: "codec_ok (env_externals E)" and "\<forall>(d, data) \<in> set (co_sent c). understood (env_externals E) data"
  shows "\<forall>(d, data) \<in> set (co_sent (snd (perform E e c))). understood (env_externals E) data"
proof (cases "\<exists>config. e = Restart config")
  case True
  then show ?thesis by (auto simp: new_coordinator_def)
next
  case False
  then have "speaks (env_externals E) c (snd (perform E e c))"
    by (cases e) (simp_all add: speak_methods [OF X] announce_def quiet_speaks)
  with assms(2) show ?thesis by (auto simp: speaks_def)
qed

section \<open>Conformance\<close>

text \<open>C19: The coordinator speaks the protocol: in any run whose inbound messages, as far as they can be decoded,
  have fields of the annotated types, and whatever fails, every message it sends to anybody decodes at its
  receiver to a message of one of the twelve classes it speaks, with exactly the fields of the class and each
  field of its annotated type. Without typed input it does not: a receipt repeats the match and the revision of
  the submission, and the result of a draw the turn of the vote, of whatever type they came.\<close>

theorem coordinator_conforms:
  assumes "codec_ok (env_externals E)" and "list_all (typed_event (env_externals E)) es" and "co_sent c = []"
    and "(d, data) \<in> set (co_sent (run E es c))"
  shows "\<exists>msg. decode_message (env_externals E) data = Inr msg \<and> well_typed msg \<and> message_type msg \<in> set spoken_types"
proof -
  have "\<forall>(d, data) \<in> set (co_sent (run E es c)). understood (env_externals E) data"
    if "\<forall>(d, data) \<in> set (co_sent c). understood (env_externals E) data"
    using that
  proof (induction es arbitrary: c)
    case (Cons e es)
    from Cons.IH [OF speak_perform [OF assms(1) Cons.prems]] show ?case by (simp add: run_def)
  qed (simp add: run_def)
  with assms(3,4) show ?thesis by (auto simp: understood_def)
qed

theorem coordinator_conforms_witness:
  "\<exists>data msg. co_sent (run quiet_environment [Inbound ''01'' []] (new_coordinator ''m'' full_lobby None)) = [(''01'', data)] \<and>
     decode_message reference data = Inr msg \<and> well_typed msg"
proof -
  obtain b where sent: "co_sent (run quiet_environment [Inbound ''01'' []] (new_coordinator ''m'' full_lobby None)) = [(''01'', b)]"
    by (rule reproach_sent)
  moreover have "typed_event reference (Inbound ''01'' [])"
    by (simp add: typed_data_def decode_message_def reference_def reference_unpackb_def)
  ultimately show ?thesis
    using coordinator_conforms [where E = quiet_environment and c = "new_coordinator ''m'' full_lobby None"
        and es = "[Inbound ''01'' []]" and d = "''01''" and data = b] reference_ok(1)
    by (auto simp: quiet_environment_def new_coordinator_def)
qed

end
