(* ===== verification/Join_Throttle.thy ===== *)
theory Join_Throttle
  imports Match_History
begin

text \<open>
  The throttle of \<open>_on_join_request\<close> (\<^verbatim>\<open>coordinator/match.py\<close>): how many join requests of one key are let
  through, over a sequence of requests of any keys.
\<close>

section \<open>A sequence of requests\<close>

text \<open>The requests, each a key with the reading of the clock, that \<open>join_allowed\<close> lets through.\<close>

fun let_through :: "(bytes \<times> rat) list \<Rightarrow> coord \<Rightarrow> (bytes \<times> rat) list \<times> coord" where
  "let_through [] c = ([], c)"
| "let_through ((key, t) # rest) c =
     (case join_allowed key t c of
        (Inr True, c') \<Rightarrow> (let (ps, c'') = let_through rest c' in ((key, t) # ps, c''))
      | (_, c') \<Rightarrow> let_through rest c')"

definition times_of :: "bytes \<Rightarrow> (bytes \<times> rat) list \<Rightarrow> rat list" where
  "times_of key ps = map snd (filter (\<lambda>p. fst p = key) ps)"

definition window :: "rat \<Rightarrow> rat list \<Rightarrow> rat list" where
  "window t0 ts = filter (\<lambda>t. t0 \<le> t \<and> t < t0 + JOIN_RATE_LIMIT_WINDOW_SECONDS) ts"

definition recent :: "rat \<Rightarrow> rat list \<Rightarrow> rat list" where
  "recent t ts = filter (\<lambda>a. t - a < JOIN_RATE_LIMIT_WINDOW_SECONDS) ts"

text \<open>The attempts remembered for a key agree with the ones let through, as far as they still matter.\<close>

definition remembers :: "coord \<Rightarrow> rat \<Rightarrow> bytes \<Rightarrow> rat list \<Rightarrow> bool" where
  "remembers c since key past \<longleftrightarrow> (\<forall>t\<ge>since. recent t (dict_get (co_joins c) key []) = recent t past)"

lemma recent_recent: "since \<le> t \<Longrightarrow> recent t (recent since ts) = recent t ts"
  by (auto simp: recent_def intro: filter_cong)

lemma recent_append: "recent t (xs @ ys) = recent t xs @ recent t ys"
  by (simp add: recent_def)

lemma join_allowed_run:
  "join_allowed key t c =
     (let old = recent t (dict_get (co_joins c) key []);
          new = (if JOIN_RATE_LIMIT_MAX_ATTEMPTS \<le> length old then old else old @ [t])
      in (Inr (length old < JOIN_RATE_LIMIT_MAX_ATTEMPTS), c\<lparr>co_joins := AList.update key new (co_joins c)\<rparr>))"
  by (simp add: join_allowed_def recent_def Let_def not_le)

lemma remembers_step:
  assumes "remembers c since key past" "since \<le> t" "join_allowed k t c = (Inr ok, c')"
  shows "remembers c' t key (if ok \<and> k = key then past @ [t] else past)"
    and "k = key \<Longrightarrow> ok \<longleftrightarrow> length (recent t past) < JOIN_RATE_LIMIT_MAX_ATTEMPTS"
proof -
  let ?old = "recent t (dict_get (co_joins c) k [])"
  have same: "recent t' (dict_get (co_joins c) key []) = recent t' past" if "since \<le> t'" for t'
    using assms(1) that by (simp add: remembers_def)
  have ok: "ok \<longleftrightarrow> length ?old < JOIN_RATE_LIMIT_MAX_ATTEMPTS"
    and c': "c' = c\<lparr>co_joins := AList.update k (if ok then ?old @ [t] else ?old) (co_joins c)\<rparr>"
    using assms(3) by (auto simp: join_allowed_run Let_def)
  show "k = key \<Longrightarrow> ok \<longleftrightarrow> length (recent t past) < JOIN_RATE_LIMIT_MAX_ATTEMPTS"
    using ok same [OF assms(2)] by simp
  show "remembers c' t key (if ok \<and> k = key then past @ [t] else past)"
    unfolding remembers_def
  proof (intro allI impI)
    fix t' assume t': "t \<le> t'"
    then have "recent t' (dict_get (co_joins c) key []) = recent t' past" using same assms(2) by simp
    then show "recent t' (dict_get (co_joins c') key []) = recent t' (if ok \<and> k = key then past @ [t] else past)"
      using recent_recent [OF t'] by (auto simp: c' dict_get_def map_of_update recent_append)
  qed
qed

text \<open>At most five requests of a key in any sixty seconds.\<close>

definition throttled :: "rat list \<Rightarrow> bool" where
  "throttled ts \<longleftrightarrow> (\<forall>t0. length (window t0 ts) \<le> JOIN_RATE_LIMIT_MAX_ATTEMPTS)"

lemma throttled_snoc:
  assumes "throttled past" "length (recent t past) < JOIN_RATE_LIMIT_MAX_ATTEMPTS"
  shows "throttled (past @ [t])"
  unfolding throttled_def
proof
  fix t0
  show "length (window t0 (past @ [t])) \<le> JOIN_RATE_LIMIT_MAX_ATTEMPTS"
  proof (cases "t0 \<le> t \<and> t < t0 + JOIN_RATE_LIMIT_WINDOW_SECONDS")
    case True
    then have "window t0 past = window t0 (recent t past)" by (auto simp: window_def recent_def intro: filter_cong)
    then have "length (window t0 past) \<le> length (recent t past)" by (simp add: window_def)
    with assms(2) True show ?thesis by (simp add: window_def)
  next
    case False
    then have "window t0 (past @ [t]) = window t0 past" by (simp only: window_def filter_append) auto
    then show ?thesis using assms(1) by (simp add: throttled_def)
  qed
qed

lemma let_through_throttled:
  assumes "remembers c since key past" "throttled past" "sorted (since # map snd requests)"
  shows "throttled (past @ times_of key (fst (let_through requests c)))"
  using assms
proof (induction requests arbitrary: c since past)
  case Nil
  then show ?case by (simp add: times_of_def)
next
  case (Cons r requests)
  obtain k t where r: "r = (k, t)" by (cases r)
  obtain ok c' where step: "join_allowed k t c = (Inr ok, c')" by (simp add: join_allowed_run Let_def)
  note kept = remembers_step [OF Cons.prems(1) _ step]
  have later: "since \<le> t" "sorted (t # map snd requests)" using Cons.prems(3) by (simp_all add: r)
  have "throttled (if ok \<and> k = key then past @ [t] else past)"
    using throttled_snoc [OF Cons.prems(2), of t] kept(2) [OF later(1)] Cons.prems(2) by auto
  from Cons.IH [OF kept(1) [OF later(1)] this later(2)] show ?case
    by (cases ok) (auto simp: r step times_of_def split: prod.split if_splits)
qed

section \<open>The bound\<close>

lemma refused_join:
  assumes "get_bytes msg ''player_public_key'' = Inr key"
    and "fst (join_allowed key (env_clock E (co_readings c)) (c\<lparr>co_readings := co_readings c + 1\<rparr>)) = Inr False"
  shows "\<exists>c'. on_join_request E pk msg c = (Inr (), c') \<and> co_store c' = co_store c \<and> co_sent c' = co_sent c"
proof -
  obtain c' where step: "join_allowed key (env_clock E (co_readings c)) (c\<lparr>co_readings := co_readings c + 1\<rparr>) = (Inr False, c')"
    using assms(2) by (metis prod.collapse)
  moreover have "co_store c' = co_store c" "co_sent c' = co_sent c" using step by (auto simp: join_allowed_run Let_def)
  ultimately show ?thesis
    by (simp add: on_join_request_def act_bind_def now_def assms(1) act_run)
qed

text \<open>C40: Nobody floods the lobby: as long as the clock does not go back, of the join requests that name one
  key at most five are let through in any sixty seconds, however the requests of other keys are mixed in,
  and a request that is not let through changes nothing in the store and is not answered.\<close>

theorem join_throttle:
  assumes "co_joins c = []" and "sorted (map snd requests)"
  shows "length (window t0 (times_of key (fst (let_through requests c)))) \<le> 5 \<and>
    (\<forall>E pk msg c. get_bytes msg ''player_public_key'' = Inr key \<and>
       fst (join_allowed key (env_clock E (co_readings c)) (c\<lparr>co_readings := co_readings c + 1\<rparr>)) = Inr False \<longrightarrow>
       (\<exists>c'. on_join_request E pk msg c = (Inr (), c') \<and> co_store c' = co_store c \<and> co_sent c' = co_sent c))"
proof -
  let ?start = "case requests of [] \<Rightarrow> 0 | r # _ \<Rightarrow> snd r"
  have "sorted (?start # map snd requests)" using assms(2) by (cases requests) auto
  moreover have "remembers c ?start key []" using assms(1) by (simp add: remembers_def dict_get_def)
  ultimately have "throttled (times_of key (fst (let_through requests c)))"
    using let_through_throttled [of c ?start key "[]" requests] by (simp add: throttled_def window_def)
  then have "length (window t0 (times_of key (fst (let_through requests c)))) \<le> 5"
    by (simp add: throttled_def JOIN_RATE_LIMIT_MAX_ATTEMPTS_def)
  then show ?thesis using refused_join by blast
qed

theorem join_throttle_witness:
  "times_of [1] (fst (let_through [([1], 0), ([1], 10), ([2], 11), ([1], 20), ([1], 30), ([1], 40), ([1], 50), ([1], 61)]
       (new_coordinator ''m'' empty_store None))) = [0, 10, 20, 30, 40, 61] \<and>
   length (window 10 [0, 10, 20, 30, 40, 61]) \<le> 5"
proof -
  let ?rs = "[([1], 0), ([1], 10), ([2], 11), ([1], 20), ([1], 30), ([1], 40), ([1], 50), ([1], 61)] :: (bytes \<times> rat) list"
  have times: "times_of [1] (fst (let_through ?rs (new_coordinator ''m'' empty_store None))) = [0, 10, 20, 30, 40, 61]"
    by (simp add: join_allowed_def new_coordinator_def dict_get_def JOIN_RATE_LIMIT_WINDOW_SECONDS_def
        JOIN_RATE_LIMIT_MAX_ATTEMPTS_def times_of_def)
  then show ?thesis
    using join_throttle [of "new_coordinator ''m'' empty_store None" ?rs 10 "[1]"]
    by (simp add: new_coordinator_def)
qed

end
