(* ===== verification/Client_Orders.thy ===== *)
theory Client_Orders
  imports Movement
begin

text \<open>
  \<^verbatim>\<open>client/orders.py\<close>: the options a player is offered for a unit, and the composition of an order from
  a chosen option. The property compares them with \<open>normalize_order\<close>, by which the adjudicator decides
  whether it takes an order as it is or replaces it by a hold.
\<close>

section \<open>Options\<close>

definition get_orderable_units :: "GameState \<Rightarrow> string \<Rightarrow> Unit list" where
  "get_orderable_units st f = sort_key region_id (get_units_for_faction st f)"

definition get_move_options :: "GameState \<Rightarrow> Unit \<Rightarrow> string list" where
  "get_move_options st u = get_legal_moves st u"

definition get_support_hold_options :: "GameState \<Rightarrow> Unit \<Rightarrow> string list" where
  "get_support_hold_options st u =
     filter (\<lambda>r. get_unit_at st r \<noteq> None \<and> can_move_to st u r) (sort (neighbours (region_id u)))"

definition get_support_move_options :: "GameState \<Rightarrow> Unit \<Rightarrow> (string \<times> string) list" where
  "get_support_move_options st u =
     concat (map
       (\<lambda>s. case get_unit_at st s of
          None \<Rightarrow> []
        | Some supported \<Rightarrow> map (Pair s) (filter (can_move_to st u) (get_legal_moves st supported)))
       (sort (neighbours (region_id u))))"

section \<open>Composition\<close>

text \<open>The final \<open>raise\<close> of the source cannot be reached: the four order types are all there are.\<close>

fun compose_order :: "Unit \<Rightarrow> OrderType \<Rightarrow> (string, string) dict \<Rightarrow> Order result" where
  "compose_order u HOLD kwargs = Inr (HoldOrder (region_id u))"
| "compose_order u MOVE kwargs =
     bind_result (lookup_or_raise kwargs ''destination_id'') (\<lambda>d. Inr (MoveOrder (region_id u) d))"
| "compose_order u SUPPORT_HOLD kwargs =
     bind_result (lookup_or_raise kwargs ''supported_region_id'') (\<lambda>s. Inr (SupportHoldOrder (region_id u) s))"
| "compose_order u SUPPORT_MOVE kwargs =
     bind_result (lookup_or_raise kwargs ''supported_region_id'') (\<lambda>s.
     bind_result (lookup_or_raise kwargs ''supported_destination_id'') (\<lambda>d.
       Inr (SupportMoveOrder (region_id u) s d)))"

fun_cases compose_order_InrE: "compose_order u t kwargs = Inr ord"

lemma composed_region: "compose_order u t kwargs = Inr ord \<Longrightarrow> unit_region_id ord = region_id u \<and> order_type ord = t"
  by (elim compose_order_InrE) (auto dest!: sym [of "Inr ord"])

text \<open>The choices put before a player: an order type and the arguments of one option.\<close>

definition choices :: "GameState \<Rightarrow> Unit \<Rightarrow> (OrderType \<times> (string, string) dict) list" where
  "choices st u =
     [(HOLD, [])] @
     map (\<lambda>d. (MOVE, [(''destination_id'', d)])) (get_move_options st u) @
     map (\<lambda>s. (SUPPORT_HOLD, [(''supported_region_id'', s)])) (get_support_hold_options st u) @
     map (\<lambda>(s, d). (SUPPORT_MOVE, [(''supported_region_id'', s), (''supported_destination_id'', d)]))
       (get_support_move_options st u)"

definition offered :: "GameState \<Rightarrow> Unit \<Rightarrow> Order \<Rightarrow> bool" where
  "offered st u ord \<longleftrightarrow> list_ex (\<lambda>(t, kwargs). compose_order u t kwargs = Inr ord) (choices st u)"

section \<open>Facts\<close>

lemma support_hold_options:
  "s \<in> set (get_support_hold_options st u) \<longleftrightarrow> unit_at st s \<noteq> None \<and> can_move_to st u s"
  by (auto simp: get_support_hold_options_def get_unit_at_def unit_at_def neighbours_conv can_move_to_conv)

lemma support_move_options:
  "(s, d) \<in> set (get_support_move_options st u) \<longleftrightarrow>
     adjacent (region_id u) s \<and> (\<exists>v. unit_at st s = Some v \<and> can_move_to st v d) \<and> can_move_to st u d"
  by (cases "unit_at st s")
    (auto simp: get_support_move_options_def get_unit_at_def unit_at_def neighbours_conv set_get_legal_moves
      split: option.splits intro!: bexI [of _ s])

lemma offered_conv:
  "offered st u ord \<longleftrightarrow> unit_region_id ord = region_id u \<and>
     (case ord of
        HoldOrder _ \<Rightarrow> True
      | MoveOrder _ d \<Rightarrow> d \<in> set (get_move_options st u)
      | SupportHoldOrder _ s \<Rightarrow> s \<in> set (get_support_hold_options st u)
      | SupportMoveOrder _ s d \<Rightarrow> (s, d) \<in> set (get_support_move_options st u))"
  by (cases ord) (force simp: offered_def choices_def list_ex_iff bex_Un case_prod_beta)+

lemma orderable_units:
  "u \<in> set (get_orderable_units st f) \<longleftrightarrow> u \<in> set (units st) \<and> faction_id u = f"
  by (auto simp: get_orderable_units_def get_units_for_faction_def)

text \<open>One order for each of several units passes the structural validation, here and at the coordinator.\<close>

lemma composed_orders_valid:
  assumes "occupancy_ok st" "distinct us" "set us \<subseteq> set (get_orderable_units st f)"
    and "list_all2 (\<lambda>u ord. unit_region_id ord = region_id u) us ords"
  shows "validate_orders st f ords = []"
proof -
  have regions: "map unit_region_id ords = map region_id us" using assms(4) by induction simp_all
  then have "set (map unit_region_id ords) = region_id ` set us" by simp
  moreover have "region_id ` set us \<subseteq> set (map region_id (get_units_for_faction st f))"
    using assms(3) by (auto simp: get_orderable_units_def)
  ultimately have owned: "unit_region_id ord \<in> set (map region_id (get_units_for_faction st f))" if "ord \<in> set ords" for ord
    using that by (metis image_eqI list.set_map subsetD)
  have "inj_on region_id (set (units st))" using assms(1) by (simp add: occupancy_ok_def distinct_map)
  moreover have "set us \<subseteq> set (units st)" using assms(3) by (auto simp: orderable_units)
  ultimately have "distinct (map unit_region_id ords)"
    using assms(2) unfolding regions distinct_map by (blast intro: inj_on_subset)
  with owned show ?thesis by (simp add: validate_orders_def validate_loop_Nil)
qed

text \<open>The options for a support leave out legal ones: the supported unit need not be a neighbour of the
  supporting one, only the destination, and the adjudicator counts such a support.\<close>

lemma legal_support_not_offered:
  "let u = \<lparr>unit_type = ARMY, faction_id = ''vet'', region_id = ''vet_peak''\<rparr>;
       v = \<lparr>unit_type = ARMY, faction_id = ''vet'', region_id = ''thr_heart''\<rparr>;
       st = create_default_map\<lparr>units := [u, v]\<rparr>;
       ord = SupportMoveOrder ''vet_peak'' ''thr_heart'' ''pale_ridge''
   in \<not> offered st u ord \<and> normalize_order st u (Some ord) = (ord, False) \<and> can_move_to st v ''pale_ridge''"
  by code_simp

text \<open>C36: The client offers for a unit exactly the orders the adjudicator takes as they are, except
  that it offers a support of a move only for units next to the supporting unit and only into regions
  these can reach themselves.\<close>

theorem offered_orders_exact:
  "offered st u ord \<longleftrightarrow>
     unit_region_id ord = region_id u \<and> normalize_order st u (Some ord) = (ord, False) \<and>
     (case ord of
        SupportMoveOrder _ s d \<Rightarrow>
          adjacent (region_id u) s \<and> (\<exists>v. unit_at st s = Some v \<and> can_move_to st v d)
      | _ \<Rightarrow> True)"
proof (cases ord)
  case (SupportMoveOrder r s d)
  then show ?thesis by (cases "unit_at st s") (auto simp: offered_conv normalize_order_def support_move_options)
qed (auto simp: offered_conv normalize_order_def support_hold_options get_move_options_def set_get_legal_moves
    split: option.splits)

end
