(* ===== verification/Client_Session.thy ===== *)
theory Client_Session
  imports Client_Audit Client_Orders
begin

text \<open>
  What the client's commands (\<^verbatim>\<open>client/cli.py\<close>) keep between two processes and how they use it: the session
  file, the logs of phase results and negotiations, the composition of an order from its command-line
  form, and the core of \<open>verify\<close>. A JSON file is modelled by the value written to it, a log by the list of its lines'
  values: \<open>json.loads\<close> reads back what \<open>json.dumps\<close> wrote for dictionaries of strings, numbers, lists and
  \<open>None\<close>. The commands themselves are in \<^verbatim>\<open>Client_Commands\<close>.
\<close>

section \<open>Records of messages\<close>

definition phase_result_to_record :: "message \<Rightarrow> (string, canonical) dict result" where
  "phase_result_to_record msg =
     bind_result (get_int msg ''turn'') (\<lambda>trn.
     bind_result (get_phase msg ''phase'') (\<lambda>phs.
     bind_result (get_int msg ''year'') (\<lambda>yr.
     bind_result (get_bytes msg ''canonical_state'') (\<lambda>state.
     bind_result (get_str msg ''state_hash'') (\<lambda>h.
     bind_result (get_optional_str msg ''previous_state_hash'') (\<lambda>prev.
     bind_result (get_bytes msg ''signature'') (\<lambda>sig.
       Inr [(''turn'', CInt trn), (''phase'', CStr (phase_value phs)), (''year'', CInt yr),
         (''canonical_state'', CStr (hex_of state)), (''state_hash'', CStr h),
         (''previous_state_hash'', case prev of None \<Rightarrow> CNone | Some p \<Rightarrow> CStr p),
         (''signature'', CStr (hex_of sig))])))))))"

definition record_to_phase_result :: "(string, canonical) dict \<Rightarrow> message result" where
  "record_to_phase_result d =
     bind_result (bind_result (lookup_or_raise d ''phase'') (enum_of phase_of_value)) (\<lambda>phs.
     bind_result (lookup_or_raise d ''turn'') (\<lambda>trn.
     bind_result (lookup_or_raise d ''year'') (\<lambda>yr.
     bind_result (bind_result (str_item (CDict d) ''canonical_state'') fromhex) (\<lambda>state.
     bind_result (lookup_or_raise d ''state_hash'') (\<lambda>h.
     bind_result (lookup_or_raise d ''previous_state_hash'') (\<lambda>prev.
     bind_result (bind_result (str_item (CDict d) ''signature'') fromhex) (\<lambda>sig.
       Inr (mk_message PHASE_RESULT 0 0
         [(''match_id'', VRaw (CStr '''')), (''phase'', VEnum (phase_value phs)), (''turn'', VRaw trn),
          (''year'', VRaw yr), (''canonical_state'', VRaw (CBytes state)), (''state_hash'', VRaw h),
          (''previous_state_hash'', VRaw prev), (''signature'', VRaw (CBytes sig))]))))))))"

definition match_start_to_record :: "message \<Rightarrow> (string, canonical) dict result" where
  "match_start_to_record msg =
     bind_result (get_str msg ''match_id'') (\<lambda>m.
     bind_result (get_names msg ''faction_names'') (\<lambda>names.
     bind_result (get_bytes msg ''canonical_state'') (\<lambda>state.
     bind_result (get_str msg ''state_hash'') (\<lambda>h.
     bind_result (get_bytes msg ''signature'') (\<lambda>sig.
     bind_result (get_float msg ''deadline'') (\<lambda>dl.
       Inr [(''match_id'', CStr m), (''faction_names'', CList (map CStr names)),
         (''canonical_state'', CStr (hex_of state)), (''state_hash'', CStr h), (''signature'', CStr (hex_of sig)),
         (''deadline'', CFloat dl)]))))))"

definition record_to_match_start :: "(string, canonical) dict \<Rightarrow> message result" where
  "record_to_match_start d =
     bind_result (lookup_or_raise d ''match_id'') (\<lambda>m.
     bind_result (bind_result (lookup_or_raise d ''faction_names'') iterate) (\<lambda>names.
     bind_result (bind_result (str_item (CDict d) ''canonical_state'') fromhex) (\<lambda>state.
     bind_result (lookup_or_raise d ''state_hash'') (\<lambda>h.
     bind_result (bind_result (str_item (CDict d) ''signature'') fromhex) (\<lambda>sig.
     bind_result (lookup_or_raise d ''deadline'') (\<lambda>dl.
       Inr (mk_message MATCH_START 0 0
         [(''match_id'', VRaw m), (''faction_names'', VTuple (map VRaw names)), (''canonical_state'', VRaw (CBytes state)),
          (''state_hash'', VRaw h), (''signature'', VRaw (CBytes sig)), (''deadline'', VRaw dl)])))))))"

section \<open>The session directory\<close>

record session_dir =
  sd_session :: "(string, canonical) dict option"
  sd_results :: "(string, canonical) dict list"
  sd_negotiations :: "(string, canonical) dict list"

record cli =
  cl_player :: player
  cl_dir :: session_dir

text \<open>\<open>_connect\<close> on the session file: a new \<open>PlayerClient\<close> that goes on from the last sequence number.\<close>

definition connect :: "bytes \<Rightarrow> string \<Rightarrow> (string, canonical) dict \<Rightarrow> player result" where
  "connect identity match_id session =
     bind_result (lookup_or_raise session ''coordinator_host'') (\<lambda>_.
     bind_result (lookup_or_raise session ''coordinator_port'') (\<lambda>_.
     bind_result (str_item (CDict session) ''coordinator_pub'') (\<lambda>pub.
     bind_result (as_int (dict_get session ''last_sequence_number'' (CInt 0))) (\<lambda>n.
       Inr (new_player identity pub match_id n)))))"

definition persist_sequence :: "(string, canonical) dict \<Rightarrow> cli \<Rightarrow> cli" where
  "persist_sequence session w =
     w\<lparr>cl_dir := (cl_dir w)\<lparr>sd_session :=
       Some (AList.update ''last_sequence_number'' (CInt (pc_sequence (cl_player w))) session)\<rparr>\<rparr>"

section \<open>Polling and logging\<close>

text \<open>\<open>seen_hashes\<close>: the hashes of the log that is on disk.\<close>

definition logged_hashes :: "(string, canonical) dict list \<Rightarrow> canonical set result" where
  "logged_hashes entries = bind_result (map_result (\<lambda>r. lookup_or_raise r ''state_hash'') entries) (\<lambda>hs. Inr (set hs))"

text \<open>The loop over \<open>client.phase_results\<close>.\<close>

fun log_results ::
    "message list \<Rightarrow> canonical set \<Rightarrow> (string, canonical) dict list \<Rightarrow> (canonical set \<times> (string, canonical) dict list) result" where
  "log_results [] seen entries = Inr (seen, entries)"
| "log_results (msg # msgs) seen entries =
     bind_result (get_str msg ''state_hash'') (\<lambda>h.
     if CStr h \<in> seen then log_results msgs seen entries
     else
       bind_result (phase_result_to_record msg) (\<lambda>r.
         log_results msgs (insert (CStr h) seen) (entries @ [r])))"

definition negotiation_record :: "string \<times> message \<Rightarrow> (string, canonical) dict result" where
  "negotiation_record = (\<lambda>(sender, msg).
     bind_result (get_str msg ''content'') (\<lambda>content.
     bind_result (get_float msg ''timestamp'') (\<lambda>ts.
       Inr [(''sender'', CStr sender), (''content'', CStr content), (''timestamp'', CFloat ts)])))"

text \<open>\<open>_poll_and_log\<close>: the loop, on the batches that \<open>receive()\<close> returns until the time is up, and the
  negotiations.\<close>

fun poll_rounds :: "externals \<Rightarrow> InboundMessage list list \<Rightarrow> canonical set \<Rightarrow> (cli, unit) act" where
  "poll_rounds X [] seen = act_return ()"
| "poll_rounds X (inbound # batches) seen =
     act_bind (act_zoom cl_player (\<lambda>c w. w\<lparr>cl_player := c\<rparr>) (player_poll X inbound)) (\<lambda>_.
     act_bind (act_try (\<lambda>w. log_results (pc_phase_results (cl_player w)) seen (sd_results (cl_dir w)))) (\<lambda>(seen', entries).
     act_bind (act_write (\<lambda>w. Inr (w\<lparr>cl_dir := (cl_dir w)\<lparr>sd_results := entries\<rparr>\<rparr>))) (\<lambda>_.
       poll_rounds X batches seen')))"

definition poll_and_log :: "externals \<Rightarrow> InboundMessage list list \<Rightarrow> (cli, unit) act" where
  "poll_and_log X batches =
     act_bind (act_try (\<lambda>w. logged_hashes (sd_results (cl_dir w)))) (\<lambda>seen.
     act_bind (poll_rounds X batches seen) (\<lambda>_.
     act_write (\<lambda>w. bind_result (map_result negotiation_record (pc_negotiations (cl_player w))) (\<lambda>rs.
       Inr (w\<lparr>cl_dir := (cl_dir w)\<lparr>sd_negotiations := sd_negotiations (cl_dir w) @ rs\<rparr>\<rparr>)))))"

section \<open>Commands\<close>

text \<open>\<open>spec.split(":")\<close>.\<close>

fun split_colon :: "string \<Rightarrow> string list" where
  "split_colon [] = [[]]"
| "split_colon (c # cs) =
     (if c = CHR '':'' then [] # split_colon cs
      else (case split_colon cs of part # parts \<Rightarrow> (c # part) # parts | [] \<Rightarrow> [[c]]))"

definition nth_or_raise :: "'a list \<Rightarrow> nat \<Rightarrow> 'a result" where
  "nth_or_raise xs i = (if i < length xs then Inr (xs ! i) else Inl IndexError)"

text \<open>One order of \<open>cmd_order\<close>: \<open>None\<close> where the command exits because the region is not the player's.
  Unpacking fewer than two parts is a \<open>ValueError\<close>.\<close>

definition order_of_spec :: "(string, Unit) dict \<Rightarrow> string \<Rightarrow> Order option result" where
  "order_of_spec mine spec =
     (case split_colon spec of
        r # t # rest \<Rightarrow>
          (case map_of mine r of
             None \<Rightarrow> Inr None
           | Some u \<Rightarrow>
               bind_result (order_type_of_value t) (\<lambda>ot.
               bind_result
                 (case ot of
                    MOVE \<Rightarrow> bind_result (nth_or_raise rest 0) (\<lambda>d. Inr [(''destination_id'', d)])
                  | SUPPORT_HOLD \<Rightarrow> bind_result (nth_or_raise rest 0) (\<lambda>s. Inr [(''supported_region_id'', s)])
                  | SUPPORT_MOVE \<Rightarrow>
                      bind_result (nth_or_raise rest 0) (\<lambda>s.
                      bind_result (nth_or_raise rest 1) (\<lambda>d.
                        Inr [(''supported_region_id'', s), (''supported_destination_id'', d)]))
                  | HOLD \<Rightarrow> Inr []) (\<lambda>kwargs.
               bind_result (compose_order u ot kwargs) (\<lambda>ord. Inr (Some ord)))))
      | _ \<Rightarrow> Inl ValueError)"

text \<open>\<open>faction_id\<close> is found by the name of the session in the received state.\<close>

definition faction_of_name :: "GameState \<Rightarrow> string \<Rightarrow> string option" where
  "faction_of_name st n = map_option fst (find (\<lambda>(_, f). fa_name f = n) (factions st))"

text \<open>\<open>cmd_verify\<close> on the log and the session file.\<close>

definition cmd_verify :: "externals \<Rightarrow> session_dir \<Rightarrow> VerificationReport option result" where
  "cmd_verify X d =
     (case sd_session d of
        None \<Rightarrow> Inr None
      | Some session \<Rightarrow>
          bind_result (case map_of session ''match_start'' of
              None \<Rightarrow> Inr None
            | Some (CDict r) \<Rightarrow> bind_result (record_to_match_start r) (\<lambda>msg. bind_result (link_of_match_start msg) (\<lambda>l. Inr (Some l)))
            | Some _ \<Rightarrow> Inl TypeError) (\<lambda>start.
          bind_result (map_result record_to_phase_result (sd_results d)) (\<lambda>msgs.
          bind_result (map_result link_of_phase_result msgs) (\<lambda>ls.
          if ls = [] \<and> start = None then Inr None
          else
            bind_result (bind_result (str_item (CDict session) ''coordinator_pub'') fromhex) (\<lambda>pub.
            bind_result (verify_history X pub ls start) (\<lambda>rep. Inr (Some rep)))))))"

section \<open>Reading back\<close>

lemma phase_of_value_value [simp]: "phase_of_value (phase_value p) = Inr p"
  by (cases p) (simp_all add: phase_of_value_def enum_of_value_def)

lemma get_phase_mk: "get_phase (mk_message t q ts fs) ''phase'' =
    (case map_of fs ''phase'' of Some (VEnum v) \<Rightarrow> phase_of_value v | _ \<Rightarrow> Inl Unmodelled)"
  unfolding get_phase_def phase_of_value_def by simp

text \<open>A logged result is read back as the link that was received.\<close>

lemma record_roundtrip:
  assumes "phase_result_to_record msg = Inr r"
  shows "\<exists>msg' l. record_to_phase_result r = Inr msg' \<and> link_of_phase_result msg' = Inr l \<and> link_of_phase_result msg = Inr l"
    and "\<exists>h. get_str msg ''state_hash'' = Inr h \<and> lookup_or_raise r ''state_hash'' = Inr (CStr h)"
proof -
  obtain trn phs yr state h prev sig where f: "get_int msg ''turn'' = Inr trn" "get_phase msg ''phase'' = Inr phs"
    "get_int msg ''year'' = Inr yr" "get_bytes msg ''canonical_state'' = Inr state" "get_str msg ''state_hash'' = Inr h"
    "get_optional_str msg ''previous_state_hash'' = Inr prev" "get_bytes msg ''signature'' = Inr sig"
    and r: "r = [(''turn'', CInt trn), (''phase'', CStr (phase_value phs)), (''year'', CInt yr),
         (''canonical_state'', CStr (hex_of state)), (''state_hash'', CStr h),
         (''previous_state_hash'', case prev of None \<Rightarrow> CNone | Some p \<Rightarrow> CStr p),
         (''signature'', CStr (hex_of sig))]"
    using assms by (auto simp: phase_result_to_record_def)
  show "\<exists>h. get_str msg ''state_hash'' = Inr h \<and> lookup_or_raise r ''state_hash'' = Inr (CStr h)"
    by (simp add: r f(5))
  have "link_of_phase_result msg = Inr \<lparr>lk_turn = trn, lk_phase = phs, lk_state = state, lk_hash = h,
      lk_previous = prev, lk_signature = sig\<rparr>"
    by (simp add: link_of_phase_result_def f)
  then show "\<exists>msg' l. record_to_phase_result r = Inr msg' \<and> link_of_phase_result msg' = Inr l \<and> link_of_phase_result msg = Inr l"
    by (cases prev) (auto simp: record_to_phase_result_def r str_item_def fromhex_hex link_of_phase_result_def get_phase_mk
        get_int_def get_str_def get_bytes_def get_optional_str_def)
qed

lemma match_start_roundtrip:
  assumes "match_start_to_record msg = Inr r"
  shows "\<exists>msg' l. record_to_match_start r = Inr msg' \<and> link_of_match_start msg' = Inr l \<and> link_of_match_start msg = Inr l"
  using assms
  by (auto simp: match_start_to_record_def record_to_match_start_def str_item_def fromhex_hex link_of_match_start_def
      get_str_def get_bytes_def)

section \<open>The log\<close>

definition logged_links :: "(string, canonical) dict list \<Rightarrow> link list result" where
  "logged_links entries = bind_result (map_result record_to_phase_result entries) (map_result link_of_phase_result)"

text \<open>The first link of each hash that is not known yet.\<close>

fun fresh_links :: "string set \<Rightarrow> link list \<Rightarrow> link list" where
  "fresh_links known [] = []"
| "fresh_links known (l # ls) =
     (if lk_hash l \<in> known then fresh_links known ls else l # fresh_links (insert (lk_hash l) known) ls)"

lemma fresh_links_append:
  "fresh_links known (a @ b) = fresh_links known a @ fresh_links (known \<union> lk_hash ` set a) b"
  by (induction a arbitrary: known) (auto simp: insert_absorb)

lemma fresh_links_known: "lk_hash ` set ls \<subseteq> known \<Longrightarrow> fresh_links known ls = []"
  by (induction ls) auto

lemma map_result_append:
  "map_result f (xs @ ys) = Inr zs \<longleftrightarrow> (\<exists>a b. zs = a @ b \<and> map_result f xs = Inr a \<and> map_result f ys = Inr b)"
  by (induction xs arbitrary: zs) (auto simp: Cons_eq_append_conv)

lemma logged_links_snoc:
  "logged_links entries = Inr ls \<Longrightarrow> record_to_phase_result r = Inr msg \<Longrightarrow> link_of_phase_result msg = Inr l \<Longrightarrow>
   logged_links (entries @ [r]) = Inr (ls @ [l])"
  by (auto simp: logged_links_def map_result_append)

lemma link_hash_field: "link_of_phase_result msg = Inr l \<Longrightarrow> get_str msg ''state_hash'' = Inr (lk_hash l)"
  by (auto simp: link_of_phase_result_def)

lemma log_results_links:
  assumes "log_results msgs (CStr ` known) entries = Inr (seen', entries')"
    and "logged_links entries = Inr ls" "map_result link_of_phase_result msgs = Inr new"
  shows "seen' = CStr ` (known \<union> lk_hash ` set new) \<and> logged_links entries' = Inr (ls @ fresh_links known new)"
  using assms
proof (induction msgs arbitrary: known entries ls new)
  case Nil
  then show ?case by simp
next
  case (Cons msg msgs)
  obtain l rest where new: "new = l # rest" "link_of_phase_result msg = Inr l" "map_result link_of_phase_result msgs = Inr rest"
    using Cons.prems(3) by auto
  note h = link_hash_field [OF new(2)]
  show ?case
  proof (cases "lk_hash l \<in> known")
    case True
    then show ?thesis using Cons.IH [of known entries ls rest] Cons.prems(1,2) new h by (auto simp: insert_absorb)
  next
    case False
    then have "CStr (lk_hash l) \<notin> CStr ` known" by auto
    then obtain r where r: "phase_result_to_record msg = Inr r"
      "log_results msgs (CStr ` insert (lk_hash l) known) (entries @ [r]) = Inr (seen', entries')"
      using Cons.prems(1) h by auto
    obtain msg' where "record_to_phase_result r = Inr msg'" "link_of_phase_result msg' = Inr l"
      using record_roundtrip(1) [OF r(1)] new(2) by auto
    from Cons.IH [OF r(2) logged_links_snoc [OF Cons.prems(2) this] new(3)] False show ?thesis by (simp add: new)
  qed
qed

lemma logged_hashes_links:
  assumes "logged_hashes entries = Inr seen" "logged_links entries = Inr ls"
  shows "seen = CStr ` lk_hash ` set ls"
proof -
  have "lookup_or_raise r ''state_hash'' = Inr (CStr (lk_hash l))"
    if "record_to_phase_result r = Inr msg" "link_of_phase_result msg = Inr l" for r msg l
    using that by (auto simp: record_to_phase_result_def link_of_phase_result_def get_str_def split: canonical.splits)
  then have "map_result (\<lambda>r. lookup_or_raise r ''state_hash'') entries = Inr (map (\<lambda>l. CStr (lk_hash l)) ls)"
    using assms(2) by (induction entries arbitrary: ls) (auto simp: logged_links_def)
  with assms(1) show ?thesis by (auto simp: logged_hashes_def)
qed

lemma readable_append: "readable X (a @ b) = readable X a @ readable X b"
  by (simp add: readable_def)

lemma of_type_append: "of_type t (a @ b) = of_type t a @ of_type t b"
  by (simp add: of_type_def)

text \<open>The rounds of one command: after each, the log holds what was there and the new results so far.\<close>

lemma poll_rounds_log:
  assumes "poll_rounds X batches (CStr ` (known \<union> lk_hash ` set old)) w = (Inr (), w')"
    and "map_result link_of_phase_result (pc_phase_results (cl_player w)) = Inr old"
    and "logged_links (sd_results (cl_dir w)) = Inr (base @ fresh_links known old)"
    and "map_result link_of_phase_result (of_type PHASE_RESULT (map snd (readable X (concat batches)))) = Inr new"
  shows "logged_links (sd_results (cl_dir w')) = Inr (base @ fresh_links known (old @ new)) \<and>
    sd_session (cl_dir w') = sd_session (cl_dir w)"
  using assms
proof (induction batches arbitrary: old new w)
  case Nil
  then show ?case by (simp add: act_run readable_def)
next
  case (Cons inbound batches)
  obtain a b where ab: "new = a @ b"
    "map_result link_of_phase_result (of_type PHASE_RESULT (map snd (readable X inbound))) = Inr a"
    "map_result link_of_phase_result (of_type PHASE_RESULT (map snd (readable X (concat batches)))) = Inr b"
    using Cons.prems(4) by (auto simp: readable_append of_type_append map_result_append)
  obtain ms c seen' entries where polled: "player_poll X inbound (cl_player w) = (Inr ms, c)"
    and logged: "log_results (pc_phase_results c) (CStr ` (known \<union> lk_hash ` set old)) (sd_results (cl_dir w)) = Inr (seen', entries)"
    and rest: "poll_rounds X batches seen' (w\<lparr>cl_player := c, cl_dir := (cl_dir w)\<lparr>sd_results := entries\<rparr>\<rparr>) = (Inr (), w')"
    using Cons.prems(1)
    by (auto simp: act_bind_Inr act_write_Inr act_run act_zoom_def split: prod.splits)
  have "pc_phase_results c = pc_phase_results (cl_player w) @ of_type PHASE_RESULT (map snd (readable X inbound))"
    using poll_remembers(2) [OF polled, of PHASE_RESULT] poll_remembers(1) [OF polled] by (simp add: logged_types_def)
  then have results: "map_result link_of_phase_result (pc_phase_results c) = Inr (old @ a)"
    using Cons.prems(2) ab(2) by (simp add: map_result_append)
  have grown: "seen' = CStr ` (known \<union> lk_hash ` set (old @ a))"
    "logged_links entries = Inr (base @ fresh_links known (old @ a))"
    using log_results_links [OF logged Cons.prems(3) results] by (auto simp: fresh_links_append fresh_links_known Un_assoc)
  show ?case using Cons.IH [OF rest [unfolded grown(1)] _ _ ab(3)] results grown(2) by (simp add: ab(1))
qed

section \<open>Joining again\<close>

text \<open>\<open>cmd_join\<close> starts its client without the last sequence number, so a second \<open>join\<close> with the identity on
  disk repeats number 1: once the coordinator has seen that number from this key, it drops the request as a
  replay, without an answer.\<close>

definition join_client :: "bytes \<Rightarrow> string \<Rightarrow> string \<Rightarrow> player" where
  "join_client identity coordinator_pub match_id = new_player identity coordinator_pub match_id 0"

lemma rejoin_is_dropped:
  assumes "codec_ok (env_externals E)" "player_join E name (join_client identity pub m) = (Inr (), c)"
    and "0 < env_clock E 0" "m \<noteq> ''''" "public_key_of (env_externals E) identity \<noteq> []"
    and "fromhex sender = Inr pk"
    and "get_last_sequence_number (co_store d) (co_match_id d) (public_key_of (env_externals E) identity) = Some l" "1 \<le> l"
  shows "\<exists>data. pc_sent c = [(pub, data)] \<and> handle_inbound E sender data d = (Inr (), d)"
proof -
  let ?X = "env_externals E" and ?key = "public_key_of (env_externals E) identity"
  let ?msg = "mk_message JOIN_REQUEST 1 (env_clock E 0)
    [(''match_id'', VRaw (CStr m)), (''player_public_key'', VRaw (CBytes ?key)), (''display_name'', str_value name)]"
  obtain data where data: "encode_message ?X ?msg = Inr data" "pc_sent c = [(pub, data)]"
    using assms(2)
    by (auto simp: player_join_def to_coordinator_def stamped_def player_next_sequence_def player_now_def player_send_def
        player_transport_send_def match_field_def join_client_def new_player_def act_bind_Inr act_run
        split: option.splits)
  have "well_typed ?msg" by (rule well_typed_mk) (cases name; simp)
  moreover have "validate_message ?msg = Inr ()"
    using assms(3-5) by (simp add: validate_mk types_without_match_id_def require_def)
  ultimately have read: "read_message ?X data = Inr ?msg" using read_encoded [OF assms(1) _ data(1)] by blast
  have "replay_key pk ?msg = Inr ?key" "get_int ?msg ''sequence_number'' = Inr 1"
    by (simp_all add: replay_key_def get_bytes_def get_int_def)
  from seen_is_dropped [OF this assms(7,8)] data(2) show ?thesis
    by (simp add: handle_readable [OF read] assms(6))
qed

definition new_dir :: session_dir where
  "new_dir = \<lparr>sd_session = None, sd_results = [], sd_negotiations = []\<rparr>"

text \<open>Results with different hashes, none of them logged before, are all logged.\<close>

lemma fresh_links_distinct:
  "distinct (map lk_hash ls) \<Longrightarrow> lk_hash ` set ls \<inter> known = {} \<Longrightarrow> fresh_links known ls = ls"
  by (induction ls arbitrary: known) auto

text \<open>\<open>verify\<close> verifies the links of the log.\<close>

lemma verify_reads_log:
  assumes "sd_session d = Some session" "map_of session ''match_start'' = None"
    and "str_item (CDict session) ''coordinator_pub'' = Inr (hex_of pub)"
    and "logged_links (sd_results d) = Inr ls" "ls \<noteq> []" "verify_history X pub ls None = Inr rep"
  shows "cmd_verify X d = Inr (Some rep)"
  using assms by (auto simp: cmd_verify_def logged_links_def fromhex_hex)

text \<open>C35: The log of a client keeps every result exactly once across its processes: after a command has
  polled, the links read back from the log on disk are those that were there, followed by the links of the
  results received, of each new hash the first, in the order they came.\<close>

theorem log_keeps_results:
  assumes "poll_and_log X batches w = (Inr (), w')" and "pc_phase_results (cl_player w) = []"
    and "logged_links (sd_results (cl_dir w)) = Inr ls"
    and "map_result link_of_phase_result (of_type PHASE_RESULT (map snd (readable X (concat batches)))) = Inr received"
  shows "logged_links (sd_results (cl_dir w')) = Inr (ls @ fresh_links (lk_hash ` set ls) received)"
proof -
  obtain seen w1 where seen: "logged_hashes (sd_results (cl_dir w)) = Inr seen"
    and rounds: "poll_rounds X batches seen w = (Inr (), w1)" and dir: "sd_results (cl_dir w') = sd_results (cl_dir w1)"
    using assms(1) by (auto simp: poll_and_log_def act_bind_Inr act_write_Inr act_run)
  have "logged_links (sd_results (cl_dir w1)) = Inr (ls @ fresh_links (lk_hash ` set ls) ([] @ received))"
    using poll_rounds_log [where known = "lk_hash ` set ls" and old = "[]" and base = ls and w = w and w' = w1, OF _ _ _ assms(4)]
      rounds assms(2,3) logged_hashes_links [OF seen assms(3)] by simp
  then show ?thesis by (simp add: dir)
qed

theorem log_keeps_results_witness:
  "\<exists>data w'. poll_and_log reference [[], [\<lparr>im_sender = ''07'', im_data = data\<rparr>], []]
       \<lparr>cl_player = new_player [1] ''07'' ''m'' 0, cl_dir = new_dir\<rparr> = (Inr (), w') \<and>
     logged_links (sd_results (cl_dir w')) = Inr [link_of_row small_row]"
proof -
  let ?msg = "phase_result_message 1 1 ''m'' 1 small_row"
  let ?w = "\<lparr>cl_player = new_player [1] ''07'' ''m'' 0, cl_dir = new_dir\<rparr>"
  obtain b where b: "encode_message reference ?msg = Inr b" by (rule small_announcement)
  have "ph_hash small_row \<noteq> ''''" using small_sizes(2) by auto
  then have read: "read_message reference b = Inr ?msg" using phase_result_reads [OF reference_ok(1) b] by simp
  have recorded: "\<exists>r. phase_result_to_record ?msg = Inr r"
    by (simp add: phase_result_to_record_def phase_result_message_def get_int_def get_phase_mk get_bytes_def get_str_def
        get_optional_str_def small_sizes(4,5) phase_of_value_def enum_of_value_def)
  have hash: "get_str ?msg ''state_hash'' = Inr (ph_hash small_row)" "message_type ?msg = PHASE_RESULT"
    by (simp_all add: phase_result_message_def get_str_def)
  let ?in = "[[], [\<lparr>im_sender = ''07'', im_data = b\<rparr>], []]"
  obtain w' where run: "poll_and_log reference ?in ?w = (Inr (), w')"
    using recorded
    by (auto simp: poll_and_log_def new_dir_def logged_hashes_def act_simps act_bind_def act_write_def act_zoom_def read
        player_handle_def player_handlers hash new_player_def)
  have "map_result link_of_phase_result (of_type PHASE_RESULT (map snd (readable reference (concat ?in)))) =
      Inr [link_of_row small_row]"
    by (simp add: readable_def read hash phase_result_link)
  from log_keeps_results [OF run _ _ this, of "[]"] run show ?thesis
    by (auto simp: new_player_def new_dir_def logged_links_def)
qed

end
