(* ===== verification/Order_Delivery.thy ===== *)
theory Order_Delivery
  imports Client_Session
begin

text \<open>
  The way of an order from a player to the board: what \<open>PlayerClient.submit_orders\<close> (\<^verbatim>\<open>client/transport.py\<close>)
  sends is decoded, validated, checked against replays and recorded by \<open>MatchCoordinator.handle_inbound\<close>
  (\<^verbatim>\<open>coordinator/match.py\<close>), and stands among the orders that the adjudication takes.
\<close>

section \<open>At the store\<close>

lemma latest_bounds_rows:
  assumes "store_ok s" "\<And>q. latest_order s m k t = Some q \<Longrightarrow> or_revision q < rv"
  shows "((m, k), t, rv) \<notin> set (map order_key (t_orders s))"
proof
  assume "((m, k), t, rv) \<in> set (map order_key (t_orders s))"
  then obtain r where r: "r \<in> set (t_orders s)" "or_match r = m" "or_public_key r = k" "or_turn r = t" "or_revision r = rv"
    by (auto simp: order_key_def)
  then obtain q where q: "latest_order s m k t = Some q" using latest_order_None [of s m k t] by (cases "latest_order s m k t") auto
  then have "rv \<le> or_revision q" using r latest_order_iff [OF assms(1)] by (auto simp: is_latest_def)
  with assms(2) [OF q] show False by simp
qed

text \<open>A valid submission that is newer than what the player submitted before is accepted.\<close>

lemma submit_accepts:
  assumes ok: "store_ok s" and m: "m \<in> set (map fst (t_matches s))"
    and f: "get_player_faction s m k = Some f" "validate_orders gs f (rq_orders rq) = []"
    and new: "\<And>q. latest_order s m k trn = Some q \<Longrightarrow> or_revision q < rq_revision rq \<and> sql_range (or_revision q)"
    and range: "sql_range trn" "sql_range (rq_revision rq)"
    and packed: "encode_orders X (rq_orders rq) = Inr b"
  shows "\<exists>s' h. handle_order_submit X gs m k rq trn ORDERS q ts s =
    (Inr (order_receipt q ts (rq_match_id rq) (rq_revision rq) h ACCEPTED), s')"
proof -
  let ?st = "order_state_value ACCEPTED" and ?old = "order_state_value SUPERSEDED"
  have h: "hash_orders X (rq_orders rq) = Inr (hex_of (sha256 X b))"
    using packed by (simp add: hash_orders_def encode_orders_def)
  have key: "((m, k), trn, rq_revision rq) \<notin> set (map order_key (t_orders s))"
    using new by (intro latest_bounds_rows [OF ok]) simp
  obtain s1 where s1: "(case latest_order s m k trn of None \<Rightarrow> act_return ()
      | Some p \<Rightarrow> act_write (update_order_status m k trn (or_revision p) ?old)) s = (Inr (), s1)"
    and kept: "map order_key (t_orders s1) = map order_key (t_orders s)" "t_matches s1 = t_matches s"
  proof (cases "latest_order s m k trn")
    case (Some p)
    then have "((m, k), trn, or_revision p) \<in> set (map order_key (t_orders s))"
      using latest_order_iff [OF ok] by (force simp: is_latest_def order_key_def)
    then show thesis using that Some new [OF Some] range(1)
      by (simp add: act_simps update_order_status_def with_ints_def Let_def order_key_status del: set_map map_map)
  qed (use that in \<open>simp add: act_run\<close>)
  obtain s2 where s2: "record_order_submission m k trn (rq_revision rq) b (hex_of (sha256 X b)) ?st ts s1 = Inr s2"
    using key kept m range
    by (auto simp: record_order_submission_def with_ints_def check_match_def insert_row_def order_key_def simp del: set_map)
  have "get_latest_order s m k trn = Inr (latest_order s m k trn)" using range(1) by (simp add: range_latest)
  moreover have "\<not> (case latest_order s m k trn of None \<Rightarrow> False | Some p \<Rightarrow> rq_revision rq \<le> or_revision p)"
    using new by (auto split: option.split)
  ultimately show ?thesis
    using f h packed s1 s2
    by (cases "latest_order s m k trn") (auto simp: handle_order_submit_def act_simps Let_def)
qed

lemma submission_recorded:
  assumes "codec_ok X" "store_ok s"
    and "handle_order_submit X gs m k rq trn ORDERS q ts s =
      (Inr (order_receipt q ts (rq_match_id rq) (rq_revision rq) h ACCEPTED), s')"
  shows "(\<exists>row. latest_order s' m k trn = Some row \<and> or_revision row = rq_revision rq \<and>
      {ord. contributes X row ord} = set (rq_orders rq)) \<and>
    (\<forall>m' k' t'. (m', k', t') \<noteq> (m, k, trn) \<longrightarrow> latest_order s' m' k' t' = latest_order s m' k' t')"
  using assms(3)
proof (cases rule: submit_answered)
  case refused
  have "order_state_value ACCEPTED \<noteq> order_state_value REJECTED" by simp
  with refused(2) show ?thesis unfolding is_rejected_def receipt_state by (simp only: option.inject field_value.inject)
next
  case (recorded f h' b st s1)
  have "field_of (order_receipt q ts (rq_match_id rq) (rq_revision rq) h ACCEPTED) ''state'' =
      field_of (order_receipt q ts (rq_match_id rq) (rq_revision rq) h' st) ''state''" by (simp only: recorded(10))
  then have "order_state_value ACCEPTED = order_state_value st"
    unfolding receipt_state by (simp only: option.inject field_value.inject)
  then have "ACCEPTED = st" by (rule order_state_value_inj [THEN iffD1])
  note st = this [symmetric]
  note latest = submit_recorded_latest [OF assms(2) recorded(4) recorded(8) recorded(9)]
  then show ?thesis using decode_encode_orders [OF assms(1) recorded(6)] by (auto simp: st contributes_def)
qed

section \<open>From the player to the store\<close>

text \<open>What the board is loaded from does not change with the sequence numbers.\<close>

lemma load_same_tables:
  assumes "load_game_state E d = (Inr gs, d)" "t_matches s = t_matches (co_store d)" "t_phases s = t_phases (co_store d)"
  shows "load_game_state E (d\<lparr>co_store := s\<rparr>) = (Inr gs, d\<lparr>co_store := s\<rparr>)"
proof -
  have "get_match s = get_match (co_store d)" "get_phase_result s = get_phase_result (co_store d)"
    "get_latest_phase_result s = get_latest_phase_result (co_store d)"
    using assms(2,3)
    by (simp_all add: get_match_def get_phase_result_def get_latest_phase_result_def get_hash_chain_def fun_eq_iff)
  then show ?thesis
    using assms(1)
    by (auto simp: load_game_state_def require_match_state_def read_store_def act_bind_Inr act_run split: option.splits)
qed

lemma submitted_message:
  assumes "submit_orders C orders revision p = (Inr (), p')"
  obtains data where "encode_message (env_externals C) (mk_message ORDER_SUBMIT (pc_sequence p + 1) (env_clock C (pc_readings p))
      [(''match_id'', VRaw (CStr (pc_match_id p))), (''revision'', VRaw (CInt revision)), (''orders'', VTuple (map VOrder orders))]) =
      Inr data"
    and "pc_sent p' = pc_sent p @ [(pc_coordinator p, data)]"
  using assms
  by (auto simp: submit_orders_def to_coordinator_def stamped_def player_next_sequence_def player_now_def player_send_def
      player_transport_send_def match_field_def act_bind_Inr act_run split: option.splits)

lemma submission_read:
  assumes "codec_ok X" "0 < ts" "0 \<le> n" "m \<noteq> ''''" "0 \<le> revision"
    and "encode_message X (mk_message ORDER_SUBMIT n ts
      [(''match_id'', VRaw (CStr m)), (''revision'', VRaw (CInt revision)), (''orders'', VTuple (map VOrder orders))]) = Inr data"
  shows "read_message X data = Inr (mk_message ORDER_SUBMIT n ts
      [(''match_id'', VRaw (CStr m)), (''revision'', VRaw (CInt revision)), (''orders'', VTuple (map VOrder orders))])"
proof -
  let ?msg = "mk_message ORDER_SUBMIT n ts
      [(''match_id'', VRaw (CStr m)), (''revision'', VRaw (CInt revision)), (''orders'', VTuple (map VOrder orders))]"
  have "list_all (fits HOrder) (map VOrder orders)" by (simp add: list_all_iff)
  then have "well_typed ?msg" by (intro well_typed_mk) (simp add: body_defs)
  moreover have "validate_message ?msg = Inr ()"
    using assms(2-5) by (simp add: validate_mk types_without_match_id_def require_def require_non_negative_def compare_number_def)
  ultimately show ?thesis using read_encoded [OF assms(1) _ assms(6)] by blast
qed

lemma orders_read_back: "map_result order_of_value (map VOrder orders) = Inr orders"
  by (induction orders) simp_all

lemma submission_handled:
  fixes n revision :: int and ts :: rat and m :: string and orders :: "Order list"
  defines "msg \<equiv> mk_message ORDER_SUBMIT n ts
      [(''match_id'', VRaw (CStr m)), (''revision'', VRaw (CInt revision)), (''orders'', VTuple (map VOrder orders))]"
  assumes st: "get_match (co_store d) (co_match_id d) = Some (st, created)" and gs: "load_game_state E d = (Inr gs, d)"
    and fresh: "\<And>l. get_last_sequence_number (co_store d) (co_match_id d) pk = Some l \<Longrightarrow> l < n"
    and seq: "record_sequence_number (co_match_id d) pk n (co_store d) = Inr s1"
    and run: "\<And>q t. \<exists>h s2. handle_order_submit (env_externals E) gs (co_match_id d) pk \<lparr>rq_match_id = m, rq_revision = revision, rq_orders = orders\<rparr>
      (ms_turn st) (ms_phase st) q t s1 = (Inr (order_receipt q t m revision h ACCEPTED), s2) \<and> P s2"
  shows "P (co_store (snd (dispatch E pk msg d)))"
proof -
  let ?rq = "\<lparr>rq_match_id = m, rq_revision = revision, rq_orders = orders\<rparr>"
  let ?d1 = "d\<lparr>co_store := s1\<rparr>" and ?q = "co_sequence d + 1" and ?t = "env_clock E (co_readings d)"
  obtain h s2 where s2: "handle_order_submit (env_externals E) gs (co_match_id d) pk ?rq (ms_turn st) (ms_phase st) ?q ?t s1 =
    (Inr (order_receipt ?q ?t m revision h ACCEPTED), s2)" "P s2" using run by blast
  let ?d2 = "d\<lparr>co_sequence := ?q, co_readings := co_readings d + 1, co_store := s2\<rparr>"
  have "get_match s1 (co_match_id d) = Some (st, created)" using st frame_sequence(2) [OF seq] by (simp add: get_match_def)
  then have "require_match_state ?d1 = (Inr st, ?d1)" by (simp add: require_match_state_def read_store_def act_run)
  moreover have "load_game_state E ?d1 = (Inr gs, ?d1)"
    by (rule load_same_tables [OF gs]) (use frame_sequence [OF seq] in simp_all)
  moreover have "order_request_of msg (get_orders msg ''orders'') = Inr ?rq"
    by (simp add: msg_def order_request_of_def get_orders_def get_str_def get_int_def orders_read_back)
  ultimately have "on_order_submit E pk msg ?d1 = reply E pk (order_receipt ?q ?t m revision h ACCEPTED) ?d2"
    using s2(1) by (simp add: on_order_submit_def act_bind_def act_run next_sequence_def now_def on_store_def act_zoom_def)
  moreover have "dispatch E pk msg d = on_order_submit E pk msg ?d1"
  proof -
    have "replay_key pk msg = Inr pk" "get_int msg ''sequence_number'' = Inr n" "message_type msg = ORDER_SUBMIT"
      by (simp_all add: msg_def replay_key_def get_int_def)
    moreover have "\<not> (case get_last_sequence_number (co_store d) (co_match_id d) pk of None \<Rightarrow> False | Some l \<Rightarrow> n \<le> l)"
      using fresh by (auto split: option.split)
    ultimately show ?thesis
      using seq by (simp add: dispatch_def act_bind_def act_run read_store_def on_store_def act_zoom_def act_write_def)
  qed
  ultimately have "dispatch E pk msg d = reply E pk (order_receipt ?q ?t m revision h ACCEPTED) ?d2" by simp
  then show ?thesis using s2(2) same_store_reply [of ?d2 E pk] by (simp add: same_store_def)
qed

text \<open>C15: Orders that arrive count: when a player submits orders that are valid on the board of a match in its
  orders phase, as a newer revision and with a fresh sequence number, then the bytes that the player's client
  sends, handled by the coordinator, make them the player's latest revision, contributing exactly these orders
  to the adjudication, and change no other player's.\<close>

theorem submitted_orders_in_force:
  fixes d :: coord and E :: environment
  defines "m \<equiv> co_match_id d" and "s \<equiv> co_store d" and "X \<equiv> env_externals E"
  assumes codec: "codec_ok X" "env_externals C = X"
    and sent: "submit_orders C orders revision p = (Inr (), p')" "pc_match_id p \<noteq> ''''" "0 < env_clock C (pc_readings p)"
    and numbers: "0 \<le> pc_sequence p" "sql_range (pc_sequence p + 1)" "0 \<le> revision" "sql_range revision"
    and match: "store_ok s" "get_match s m = Some (st, created)" "ms_phase st = ORDERS" "sql_range (ms_turn st)"
    and valid: "load_game_state E d = (Inr gs, d)" "get_player_faction s m pk = Some f" "validate_orders gs f orders = []"
    and packed: "encode_orders X orders = Inr blob"
    and newer: "\<forall>q. latest_order s m pk (ms_turn st) = Some q \<longrightarrow> or_revision q < revision \<and> sql_range (or_revision q)"
    and fresh: "\<forall>l. get_last_sequence_number s m pk = Some l \<longrightarrow> l \<le> pc_sequence p"
  shows "\<exists>data row s'. pc_sent p' = pc_sent p @ [(pc_coordinator p, data)] \<and>
    co_store (snd (handle_inbound E (hex_of pk) data d)) = s' \<and>
    latest_order s' m pk (ms_turn st) = Some row \<and> or_revision row = revision \<and>
    {ord. contributes X row ord} = set orders \<and>
    (\<forall>m' k t. (m', k, t) \<noteq> (m, pk, ms_turn st) \<longrightarrow> latest_order s' m' k t = latest_order s m' k t)"
proof -
  let ?n = "pc_sequence p + 1" and ?rq = "\<lparr>rq_match_id = pc_match_id p, rq_revision = revision, rq_orders = orders\<rparr>"
  let ?done = "\<lambda>s'. (\<exists>row. latest_order s' m pk (ms_turn st) = Some row \<and> or_revision row = revision \<and>
      {ord. contributes X row ord} = set orders) \<and>
    (\<forall>m' k t. (m', k, t) \<noteq> (m, pk, ms_turn st) \<longrightarrow> latest_order s' m' k t = latest_order s m' k t)"
  obtain data where data: "pc_sent p' = pc_sent p @ [(pc_coordinator p, data)]"
    and enc: "encode_message X (mk_message ORDER_SUBMIT ?n (env_clock C (pc_readings p))
      [(''match_id'', VRaw (CStr (pc_match_id p))), (''revision'', VRaw (CInt revision)),
       (''orders'', VTuple (map VOrder orders))]) = Inr data"
    using submitted_message [OF sent(1)] unfolding codec(2) by blast
  have read: "read_message X data = Inr (mk_message ORDER_SUBMIT ?n (env_clock C (pc_readings p))
      [(''match_id'', VRaw (CStr (pc_match_id p))), (''revision'', VRaw (CInt revision)),
       (''orders'', VTuple (map VOrder orders))])"
    using numbers by (intro submission_read [OF codec(1) sent(3) _ sent(2) _ enc]) simp_all
  have m: "m \<in> set (map fst (t_matches s))" using match(2) by (force simp: get_match_def dest: map_of_SomeD)
  then obtain s1 where s1: "record_sequence_number m pk ?n s = Inr s1"
    using numbers(2) by (auto simp: record_sequence_number_def with_ints_def check_match_def simp del: set_map)
  note kept = frame_sequence [OF s1]
  have same: "latest_order s1 = latest_order s" "get_player_faction s1 = get_player_faction s"
    by (simp_all add: kept latest_order_def order_revisions_def get_player_faction_def fun_eq_iff)
  have ok: "store_ok s1" by (rule record_sequence_ok [OF s1 match(1)])
  have run: "\<exists>h s2. handle_order_submit X gs m pk ?rq (ms_turn st) (ms_phase st) q t s1 =
      (Inr (order_receipt q t (pc_match_id p) revision h ACCEPTED), s2) \<and> ?done s2" for q t
  proof -
    obtain h s2 where h: "handle_order_submit X gs m pk ?rq (ms_turn st) ORDERS q t s1 =
        (Inr (order_receipt q t (rq_match_id ?rq) (rq_revision ?rq) h ACCEPTED), s2)"
      using submit_accepts [OF ok, of m pk f gs ?rq "ms_turn st" X blob q t] m valid match(4) packed newer numbers(4)
      by (auto simp: kept same)
    from submission_recorded [OF codec(1) ok h] h show ?thesis by (auto simp: match(3) same)
  qed
  have "?done (co_store (snd (dispatch E pk (mk_message ORDER_SUBMIT ?n (env_clock C (pc_readings p))
      [(''match_id'', VRaw (CStr (pc_match_id p))), (''revision'', VRaw (CInt revision)),
       (''orders'', VTuple (map VOrder orders))]) d)))"
    using submission_handled [OF match(2) [unfolded m_def s_def] valid(1) _ s1 [unfolded m_def s_def],
      where P = ?done and m = "pc_match_id p" and revision = revision and orders = orders] run fresh
    unfolding m_def s_def X_def by (simp add: less_iff_succ_less_eq)
  with data show ?thesis
    by (auto simp: handle_readable [OF read [unfolded X_def]] fromhex_hex)
qed


definition vet_player :: player where
  "vet_player = new_player [1] ''07'' ''m'' 0"

lemma vet_submits: "\<exists>p'. submit_orders quiet_environment [HoldOrder ''vet_peak''] 1 vet_player = (Inr (), p')"
proof -
  let ?msg = "mk_message ORDER_SUBMIT 1 1 [(''match_id'', VRaw (CStr ''m'')), (''revision'', VRaw (CInt 1)),
      (''orders'', VTuple [VOrder (HoldOrder ''vet_peak'')])]"
  have "length (enc (canonicalize (py_message ?msg))) \<le> MAX_MESSAGE_SIZE"
    by (simp add: py_message_def mk_message_def PROTOCOL_VERSION_def enc_bytes_def enc_nat_def enc_int_def utf8_encode_def
        MAX_MESSAGE_SIZE_def)
  then have "encode_message reference ?msg = Inr (enc (canonicalize (py_message ?msg)))" by (simp add: encode_message_def)
  then show ?thesis
    by (simp add: submit_orders_def to_coordinator_def stamped_def player_next_sequence_def player_now_def player_send_def
      player_transport_send_def match_field_def act_bind_def act_run vet_player_def new_player_def quiet_environment_def)
qed

lemma vet_hold_valid: "validate_orders (state_norm create_default_map) ''vet'' [HoldOrder ''vet_peak''] = []"
  by code_simp

lemma vet_board: "load_game_state quiet_environment (new_coordinator ''m'' first_turn None) =
  (Inr (state_norm create_default_map), new_coordinator ''m'' first_turn None)"
proof -
  have "get_phase_result first_turn ''m'' 1 ORDERS = Inr (Some first_row)"
    using make_link_ok(2-4) [OF first_turn_link]
    by (simp add: get_phase_result_def with_ints_def sql_range_def first_turn_def phase_key_def row_position_def)
  moreover have "game_state_from_canonical_bytes reference (ph_state first_row) = Inr (state_norm create_default_map)"
    by (rule decode_canonical [OF reference_ok(1) make_link_ok(6) [OF first_turn_link]])
  ultimately show ?thesis
    by (simp add: load_game_state_def require_match_state_def read_store_def act_bind_def act_run new_coordinator_def
        first_turn_match playing_match_def quiet_environment_def)
qed

theorem submitted_orders_in_force_witness:
  "\<exists>data row (p' :: player) s'. pc_sent p' = [(''07'', data)] \<and>
     co_store (snd (handle_inbound quiet_environment ''01'' data (new_coordinator ''m'' first_turn None))) = s' \<and>
     latest_order s' ''m'' [1] 1 = Some row \<and> {ord. contributes reference row ord} = {HoldOrder ''vet_peak''}"
proof -
  let ?d = "new_coordinator ''m'' first_turn None"
  obtain p' where p': "submit_orders quiet_environment [HoldOrder ''vet_peak''] 1 vet_player = (Inr (), p')"
    using vet_submits by blast
  have c: "co_match_id ?d = ''m''" "co_store ?d = first_turn" by (simp_all add: new_coordinator_def)
  have E: "env_externals quiet_environment = reference" by (simp add: quiet_environment_def)
  have p: "pc_match_id vet_player = ''m''" "pc_sequence vet_player = 0" "pc_sent vet_player = []"
      "pc_coordinator vet_player = ''07''"
    by (simp_all add: vet_player_def new_player_def)
  have empty: "latest_order first_turn ''m'' [1] 1 = None" "get_last_sequence_number first_turn ''m'' [1] = None"
    "get_player_faction first_turn ''m'' [1] = Some ''vet''"
    by (simp_all add: latest_order_def order_revisions_def get_last_sequence_number_def get_player_faction_def
        player_key_def seat_def first_turn_def duel_def empty_store_def)
  have st: "ms_phase (mr_state playing_match) = ORDERS" "ms_turn (mr_state playing_match) = 1"
    by (simp_all add: playing_match_def)
  have hex: "hex_of [1] = ''01''" by (simp add: hex_of_def hex_byte_def hex_digit_def hex_digits_def)
  obtain b where b: "encode_orders (env_externals quiet_environment) [HoldOrder ''vet_peak''] = Inr b"
    by (simp add: encode_orders_def E)
  have ok: "store_ok (co_store ?d)" using first_turn_history by (simp add: history_ok_def c)
  have clock: "0 < env_clock quiet_environment (pc_readings vet_player)"
    by (simp add: quiet_environment_def vet_player_def new_player_def)
  have codec: "codec_ok (env_externals quiet_environment)" unfolding E by (rule reference_ok(1))
  have get: "get_match (co_store ?d) (co_match_id ?d) = Some (mr_state playing_match, 1)"
    unfolding c by (rule first_turn_match)
  have nums: "pc_match_id vet_player \<noteq> ''''" "0 \<le> pc_sequence vet_player" "sql_range (pc_sequence vet_player + 1)"
    "(0::int) \<le> 1" "sql_range 1" "sql_range (ms_turn (mr_state playing_match))"
    by (simp_all add: p st sql_range_def)
  have seated: "get_player_faction (co_store ?d) (co_match_id ?d) [1] = Some ''vet''"
    unfolding c by (rule empty(3))
  have newer: "\<forall>q. latest_order (co_store ?d) (co_match_id ?d) [1] (ms_turn (mr_state playing_match)) = Some q \<longrightarrow>
      or_revision q < 1 \<and> sql_range (or_revision q)"
    unfolding c st empty by simp
  have fresh: "\<forall>l. get_last_sequence_number (co_store ?d) (co_match_id ?d) [1] = Some l \<longrightarrow> l \<le> pc_sequence vet_player"
    unfolding c empty by simp
  from submitted_orders_in_force [OF codec refl p' nums(1) clock nums(2-5) ok get st(1) nums(6) vet_board seated
      vet_hold_valid b newer fresh]
  obtain data row s' where "pc_sent p' = [(''07'', data)]"
    "co_store (snd (handle_inbound quiet_environment ''01'' data ?d)) = s'"
    "latest_order s' ''m'' [1] 1 = Some row" "{ord. contributes reference row ord} = set [HoldOrder ''vet_peak'']"
    unfolding c E p st hex append_Nil by (elim exE conjE)
  then show ?thesis unfolding list.set by (intro exI conjI) assumption+
qed

end
