(* ===== verification/Terminal.thy ===== *)
theory Terminal
  imports Coordinator
begin

text \<open>
  What the two command lines (\<^verbatim>\<open>coordinator/server.py\<close>, \<^verbatim>\<open>client/cli.py\<close>) share: the lines a process has
  printed, the formats of the values in them, and the addresses of the form \<open>HOST:PORT\<close> that both read.
  Texts are the bytes of their UTF-8 form; where Python looks at code points, the model stops at a
  character beyond ASCII.
\<close>

section \<open>Printing\<close>

record console =
  con_out :: "string list"
  con_err :: "string list"
  con_exit :: "int option"

definition print_line :: "string \<Rightarrow> ('a console_scheme, unit) act" where
  "print_line s w = (Inr (), w\<lparr>con_out := con_out w @ [s]\<rparr>)"

definition print_error :: "string \<Rightarrow> ('a console_scheme, unit) act" where
  "print_error s w = (Inr (), w\<lparr>con_err := con_err w @ [s]\<rparr>)"

definition print_lines :: "string list \<Rightarrow> ('a console_scheme, unit) act" where
  "print_lines ls w = (Inr (), w\<lparr>con_out := con_out w @ ls\<rparr>)"

text \<open>\<open>sys.exit(1)\<close>, and \<open>print(..., file=sys.stderr)\<close> before it.\<close>

definition sys_exit :: "('a console_scheme, 'b) act" where
  "sys_exit w = (Inl SystemExit, w\<lparr>con_exit := Some 1\<rparr>)"

definition give_up :: "string \<Rightarrow> ('a console_scheme, 'b) act" where
  "give_up s = act_bind (print_error s) (\<lambda>_. sys_exit)"

lemma print_run [act_simps]:
  "act_bind (print_line s) f w = f () (w\<lparr>con_out := con_out w @ [s]\<rparr>)"
  "act_bind (print_error s) f w = f () (w\<lparr>con_err := con_err w @ [s]\<rparr>)"
  "act_bind (print_lines ls) f w = f () (w\<lparr>con_out := con_out w @ ls\<rparr>)"
  "give_up s w = (Inl SystemExit, w\<lparr>con_err := con_err w @ [s], con_exit := Some 1\<rparr>)"
  by (simp_all add: act_bind_def print_line_def print_error_def print_lines_def give_up_def sys_exit_def)

section \<open>Formats\<close>

text \<open>\<open>{s:<n}\<close> and \<open>s[:n]\<close>, which count code points: the bytes that do not continue a character.\<close>

definition continues :: "char \<Rightarrow> bool" where
  "continues c \<longleftrightarrow> (128 :: nat) \<le> of_char c \<and> of_char c < (192 :: nat)"

definition ljust :: "nat \<Rightarrow> string \<Rightarrow> string" where
  "ljust n s = s @ replicate (n - length (filter (\<lambda>c. \<not> continues c) s)) (CHR '' '')"

fun take_points :: "nat \<Rightarrow> string \<Rightarrow> string" where
  "take_points n [] = []"
| "take_points n (c # cs) =
     (if continues c then c # take_points n cs
      else (case n of 0 \<Rightarrow> [] | Suc k \<Rightarrow> c # take_points k cs))"

text \<open>\<open>{x:.0f}\<close>: rounded half to even, with the sign of a negative number that rounds to zero.\<close>

definition round_half_even :: "rat \<Rightarrow> int" where
  "round_half_even x =
     (let f = \<lfloor>x\<rfloor>; d = x - of_int f in
      if d < 1 / 2 then f else if 1 / 2 < d then f + 1 else if even f then f else f + 1)"

definition show_seconds :: "rat \<Rightarrow> string" where
  "show_seconds x = (if x < 0 then ''-'' @ show_int (round_half_even (- x)) else show_int (round_half_even x))"

fun joined :: "string \<Rightarrow> string list \<Rightarrow> string" where
  "joined sep [] = ''''"
| "joined sep [s] = s"
| "joined sep (s # ss) = s @ sep @ joined sep ss"

text \<open>\<open>repr\<close> of a text: single quotes, unless it holds one and no double quote.\<close>

definition repr_char :: "char \<Rightarrow> char \<Rightarrow> string" where
  "repr_char quote_mark c =
     (let n = of_char c :: nat in
      if c = quote_mark \<or> n = 92 then [CHR 0x5C, c]
      else if n = 10 then [CHR 0x5C, CHR ''n'']
      else if n = 13 then [CHR 0x5C, CHR ''r'']
      else if n = 9 then [CHR 0x5C, CHR ''t'']
      else if n < 32 \<or> n = 127 then [CHR 0x5C, CHR ''x'', hex_digit (n div 16), hex_digit n]
      else [c])"

definition repr :: "string \<Rightarrow> string result" where
  "repr s =
     (if list_ex (\<lambda>c. (128 :: nat) \<le> of_char c) s then Inl Unmodelled
      else
        let mark = (if CHR 0x27 \<in> set s \<and> CHR 0x22 \<notin> set s then CHR 0x22 else CHR 0x27)
        in Inr ([mark] @ concat (map (repr_char mark) s) @ [mark]))"

definition repr_optional :: "string option \<Rightarrow> string result" where
  "repr_optional s = (case s of None \<Rightarrow> Inr ''None'' | Some t \<Rightarrow> repr t)"

definition show_bool :: "bool \<Rightarrow> string" where
  "show_bool b = (if b then ''True'' else ''False'')"

text \<open>The rounding is the closest whole number, and the even one of two.\<close>

lemma round_half_even_close: "\<bar>of_int (round_half_even x) - x\<bar> \<le> 1 / 2"
proof -
  have "of_int \<lfloor>x\<rfloor> \<le> x" "x < of_int \<lfloor>x\<rfloor> + 1" by linarith+
  then show ?thesis by (auto simp: round_half_even_def Let_def abs_le_iff)
qed

lemma round_half_even_int [simp]: "round_half_even (of_int i) = i"
  by (simp add: round_half_even_def)

section \<open>Paths\<close>

text \<open>\<open>str(Path(data_dir) / name)\<close> for a name without slashes: empty and \<open>.\<close> components go away.\<close>

fun split_slash :: "string \<Rightarrow> string list" where
  "split_slash [] = [[]]"
| "split_slash (c # cs) =
     (if c = CHR ''/'' then [] # split_slash cs
      else (case split_slash cs of part # parts \<Rightarrow> (c # part) # parts | [] \<Rightarrow> [[c]]))"

definition path_root :: "string \<Rightarrow> string" where
  "path_root s =
     (let slashes = takeWhile (\<lambda>c. c = CHR ''/'') s in
      if slashes = '''' then '''' else if length slashes = 2 then ''//'' else ''/'')"

definition path_in :: "string \<Rightarrow> string \<Rightarrow> string result" where
  "path_in data_dir name =
     (if CHR ''/'' \<in> set name then Inl Unmodelled
      else Inr (path_root data_dir @
        joined ''/'' (filter (\<lambda>p. p \<noteq> '''' \<and> p \<noteq> ''.'') (split_slash data_dir) @ [name])))"

section \<open>Addresses\<close>

definition is_digit :: "char \<Rightarrow> bool" where
  "is_digit c \<longleftrightarrow> (48 :: nat) \<le> of_char c \<and> of_char c \<le> (57 :: nat)"

text \<open>The ASCII characters that \<open>str.strip\<close> removes.\<close>

definition is_blank :: "char \<Rightarrow> bool" where
  "is_blank c \<longleftrightarrow> (of_char c :: nat) \<in> {9, 10, 11, 12, 13, 28, 29, 30, 31, 32}"

text \<open>\<open>int(s)\<close> of a text of digits.\<close>

fun read_digits :: "nat \<Rightarrow> string \<Rightarrow> nat" where
  "read_digits n [] = n"
| "read_digits n (c # cs) = read_digits (10 * n + (of_char c - 48)) cs"

text \<open>\<open>value.rpartition(":")\<close> without the separator: what is before the last colon and after it.\<close>

definition rpartition :: "string \<Rightarrow> string \<times> string" where
  "rpartition s =
     (if CHR '':'' \<in> set s
      then (rev (tl (dropWhile (\<lambda>c. c \<noteq> CHR '':'') (rev s))), rev (takeWhile (\<lambda>c. c \<noteq> CHR '':'') (rev s)))
      else ('''', s))"

text \<open>The body of \<open>_parse_listen\<close> and of \<open>_parse_connect\<close>, which differ in the text of the error only;
  \<open>str.isdigit\<close> is false for an empty text.\<close>

definition parse_address :: "string \<Rightarrow> (string \<times> nat) result" where
  "parse_address s =
     (let (host, port) = rpartition s in
      if host = '''' then Inl ArgumentTypeError
      else if list_ex (\<lambda>c. (128 :: nat) \<le> of_char c) port then Inl Unmodelled
      else if port = '''' \<or> \<not> list_all is_digit port then Inl ArgumentTypeError
      else Inr (host, read_digits 0 port))"

definition parse_listen :: "string \<Rightarrow> (string \<times> nat) result" where
  "parse_listen = parse_address"

definition parse_connect :: "string \<Rightarrow> (string \<times> nat) result" where
  "parse_connect = parse_address"

lemma show_nat_digits: "list_all is_digit (show_nat n) \<and> show_nat n \<noteq> ''''"
proof (induction n rule: show_nat.induct)
  case (1 n)
  have "is_digit (char_of (48 + k))" if "k < 10" for k :: nat using that by (simp add: is_digit_def)
  then show ?case using 1 by (subst (1 2) show_nat.simps) auto
qed

lemma digits_of: "list_all is_digit (show_nat n)" "show_nat n \<noteq> []"
  using show_nat_digits by blast+

lemma show_nat_head: "0 < n \<Longrightarrow> hd (show_nat n) \<noteq> CHR ''0''"
proof (induction n rule: show_nat.induct)
  case (1 n)
  show ?case
  proof (cases "n < 10")
    case True
    with 1(2) have "n \<in> {1, 2, 3, 4, 5, 6, 7, 8, 9}" by auto
    then show ?thesis by (subst show_nat.simps) (auto simp: char_of_eq_iff)
  next
    case False
    then have "hd (show_nat (n div 10)) \<noteq> CHR ''0''" by (intro 1(1)) auto
    with False digits_of(2) show ?thesis by (subst show_nat.simps) simp
  qed
qed

lemma show_int_head: "\<exists>c t. show_int i = c # t \<and> (c = CHR ''-'' \<or> is_digit c)"
proof -
  obtain c t where "show_nat (nat i) = c # t" "is_digit c"
    using digits_of [of "nat i"] by (cases "show_nat (nat i)") auto
  then show ?thesis by (auto simp: show_int_def)
qed

lemma read_digits_append: "read_digits n (s @ [c]) = 10 * read_digits n s + (of_char c - 48)"
  by (induction s arbitrary: n) simp_all

lemma read_show_nat: "read_digits 0 (show_nat n) = n"
proof (induction n rule: show_nat.induct)
  case (1 n)
  have digit: "of_char (char_of (48 + k) :: char) - 48 = k" if "k < 10" for k :: nat using that by simp
  show ?case
  proof (cases "n < 10")
    case True
    then show ?thesis using digit [OF True] by (subst show_nat.simps) simp
  next
    case False
    then show ?thesis using 1 [OF False] digit [of "n mod 10"] by (subst show_nat.simps) (simp add: read_digits_append)
  qed
qed

lemma rpartition_colon:
  assumes "CHR '':'' \<notin> set port"
  shows "rpartition (host @ CHR '':'' # port) = (host, port)"
proof -
  have "takeWhile (\<lambda>c. c \<noteq> CHR '':'') (rev port @ CHR '':'' # rev host) = rev port"
    "dropWhile (\<lambda>c. c \<noteq> CHR '':'') (rev port @ CHR '':'' # rev host) = CHR '':'' # rev host"
    using assms by (auto simp: takeWhile_tail takeWhile_append dropWhile_append)
  then show ?thesis by (simp add: rpartition_def)
qed

text \<open>An address is read back as it is written.\<close>

lemma address_roundtrip:
  assumes "host \<noteq> ''''"
  shows "parse_address (host @ '':'' @ show_nat port) = Inr (host, port)"
proof -
  have d: "list_all is_digit (show_nat port)" "show_nat port \<noteq> ''''" using show_nat_digits by blast+
  then have "CHR '':'' \<notin> set (show_nat port)" and "\<not> list_ex (\<lambda>c. (128 :: nat) \<le> of_char c) (show_nat port)"
    by (auto simp: list_all_iff list_ex_iff is_digit_def)
  with assms d show ?thesis by (simp add: parse_address_def rpartition_colon read_show_nat)
qed

end
