(* ===== verification/Client_Commands.thy ===== *)
theory Client_Commands
  imports Client_Session Terminal
begin

text \<open>
  The commands of a player (\<^verbatim>\<open>client/cli.py\<close>) from the session on disk to what they print. The state is the
  console, the key file, the session directory and the \<open>PlayerClient\<close> of the process. What the network
  brings are the batches that \<open>receive()\<close> returns in the rounds of a polling loop until its time is up; a
  command with two loops has two lists. Text in quotes outside ASCII is where the model stops.
\<close>

section \<open>The process\<close>

record shell = console +
  sh_identity :: "bytes option"
  sh_dir :: session_dir
  sh_player :: player

definition on_player :: "(player, 'a) act \<Rightarrow> (shell, 'a) act" where
  "on_player = act_zoom sh_player (\<lambda>c w. w\<lparr>sh_player := c\<rparr>)"

definition on_session :: "(cli, 'a) act \<Rightarrow> (shell, 'a) act" where
  "on_session = act_zoom (\<lambda>w. \<lparr>cl_player = sh_player w, cl_dir = sh_dir w\<rparr>)
     (\<lambda>x w. w\<lparr>sh_player := cl_player x, sh_dir := cl_dir x\<rparr>)"

type_synonym session = "(string, canonical) dict"

definition load_session :: "string \<Rightarrow> string \<Rightarrow> (shell, session) act" where
  "load_session data_dir match_id =
     act_bind (act_get (\<lambda>w. sd_session (sh_dir w))) (\<lambda>session.
     case session of
       Some s \<Rightarrow> act_return s
     | None \<Rightarrow>
         act_bind (act_try (\<lambda>_. repr match_id)) (\<lambda>m.
         act_bind (act_try (\<lambda>_. repr data_dir)) (\<lambda>d.
           give_up (''no session for match '' @ m @ '' in '' @ d @ '' (run `join` first)''))))"

text \<open>\<open>json.dumps\<close> raises \<open>TypeError\<close> on \<open>bytes\<close>, before the file is opened.\<close>

fun has_bytes :: "canonical \<Rightarrow> bool" where
  "has_bytes (CBytes _) \<longleftrightarrow> True"
| "has_bytes (CList vs) \<longleftrightarrow> list_ex has_bytes vs"
| "has_bytes (CDict d) \<longleftrightarrow> list_ex (\<lambda>(k, v). has_bytes v) d"
| "has_bytes _ \<longleftrightarrow> False"

definition save_session :: "session \<Rightarrow> (shell, unit) act" where
  "save_session session =
     act_write (\<lambda>w. if has_bytes (CDict session) then Inl TypeError
       else Inr (w\<lparr>sh_dir := (sh_dir w)\<lparr>sd_session := Some session\<rparr>\<rparr>))"

text \<open>\<open>save_identity\<close> and \<open>load_identity\<close> (\<^verbatim>\<open>client/identity.py\<close>): the file holds the exported private key, by
  which the model represents an identity.\<close>

definition save_identity :: "bytes \<Rightarrow> (shell, unit) act" where
  "save_identity key = act_write (\<lambda>w. Inr (w\<lparr>sh_identity := Some key\<rparr>))"

definition load_identity :: "(shell, bytes) act" where
  "load_identity = act_try (\<lambda>w. case sh_identity w of None \<Rightarrow> Inl FileNotFoundError | Some key \<Rightarrow> Inr key)"

text \<open>\<open>_connect\<close> and \<open>_persist_sequence\<close>, which changes the session it is given.\<close>

definition connect_session :: "string \<Rightarrow> session \<Rightarrow> (shell, unit) act" where
  "connect_session match_id session =
     act_bind load_identity (\<lambda>key.
     act_bind (act_try (\<lambda>_. connect key match_id session)) (\<lambda>c.
       act_write (\<lambda>w. Inr (w\<lparr>sh_player := c\<rparr>))))"

definition persist :: "session \<Rightarrow> (shell, session) act" where
  "persist session =
     act_bind (on_session (act_write (\<lambda>x. Inr (persist_sequence session x)))) (\<lambda>_.
       act_get (\<lambda>w. AList.update ''last_sequence_number'' (CInt (pc_sequence (sh_player w))) session))"

text \<open>A loop that polls until its time is up or \<open>enough\<close> has arrived.\<close>

fun poll_until :: "externals \<Rightarrow> (player \<Rightarrow> bool) \<Rightarrow> InboundMessage list list \<Rightarrow> (player, unit) act" where
  "poll_until X enough [] = act_return ()"
| "poll_until X enough (inbound # batches) =
     act_bind (act_get enough) (\<lambda>stop.
     if stop then act_return ()
     else act_bind (player_poll X inbound) (\<lambda>_. poll_until X enough batches))"

section \<open>Values in texts\<close>

text \<open>\<open>{v}\<close>, \<open>{v:<n}\<close> and \<open>v[:n]\<close> for a value of a JSON file.\<close>

fun show_item :: "canonical \<Rightarrow> string result" where
  "show_item (CStr s) = Inr s"
| "show_item (CInt i) = Inr (show_int i)"
| "show_item (CBool b) = Inr (show_bool b)"
| "show_item CNone = Inr ''None''"
| "show_item _ = Inl Unmodelled"

fun padded :: "nat \<Rightarrow> canonical \<Rightarrow> string result" where
  "padded n (CStr s) = Inr (ljust n s)"
| "padded n (CInt i) = Inr (ljust n (show_int i))"
| "padded n (CBool b) = Inl Unmodelled"
| "padded n (CFloat q) = Inl Unmodelled"
| "padded n _ = Inl TypeError"

fun first_points :: "nat \<Rightarrow> canonical \<Rightarrow> string result" where
  "first_points n (CStr s) = Inr (take_points n s)"
| "first_points n (CList vs) = Inl Unmodelled"
| "first_points n (CDict d) = Inl Unmodelled"
| "first_points n (CBytes b) = Inl Unmodelled"
| "first_points n _ = Inl TypeError"

definition item :: "session \<Rightarrow> string \<Rightarrow> (canonical \<Rightarrow> 'a result) \<Rightarrow> 'a result" where
  "item d k f = bind_result (lookup_or_raise d k) f"

definition dash :: string where
  "dash = [CHR 0xE2, CHR 0x80, CHR 0x94]"

section \<open>discover and join\<close>

fun collect :: "Announcement list list \<Rightarrow> (string, string) dict \<Rightarrow> (string, string) dict result" where
  "collect [] found = Inr found"
| "collect (announcements # batches) found =
     bind_result (listen_for_announces announcements) (\<lambda>heard.
       collect batches (fold (\<lambda>(pub, m) d. AList.update m pub d) heard found))"

definition client_discover :: "string \<Rightarrow> rat \<Rightarrow> Announcement list list \<Rightarrow> (shell, unit) act" where
  "client_discover coordinator seconds batches =
     act_bind (act_try (\<lambda>_. parse_connect coordinator)) (\<lambda>_.
     act_bind (print_line (''listening for match announces via '' @ coordinator @ '' for '' @ show_seconds seconds @ ''s...'')) (\<lambda>_.
     act_bind (act_try (\<lambda>_. collect batches [])) (\<lambda>found.
     if found = [] then print_line ''no matches found''
     else print_lines (map (\<lambda>(m, pub). m @ ''  coordinator='' @ pub) found))))"

definition client_join ::
    "environment \<Rightarrow> string \<Rightarrow> string \<Rightarrow> string \<Rightarrow> string option \<Rightarrow> bytes \<Rightarrow> InboundMessage list list \<Rightarrow> (shell, unit) act" where
  "client_join E match_id coordinator coordinator_pub display_name new_key batches =
     act_bind (act_get sh_identity) (\<lambda>saved.
     act_bind (if saved \<noteq> None then load_identity else act_return new_key) (\<lambda>key.
     act_bind (save_identity key) (\<lambda>_.
     act_bind (act_try (\<lambda>_. parse_connect coordinator)) (\<lambda>(host, port).
     act_bind (act_write (\<lambda>w. Inr (w\<lparr>sh_player := join_client key coordinator_pub match_id\<rparr>))) (\<lambda>_.
     act_bind (on_player (player_join E display_name)) (\<lambda>_.
     act_bind (on_player (poll_until (env_externals E)
       (\<lambda>c. pc_faction_name c \<noteq> None \<or> pc_join_rejected_reason c \<noteq> None) batches)) (\<lambda>_.
     act_bind (act_get sh_player) (\<lambda>c.
     case pc_join_rejected_reason c of
       Some why \<Rightarrow> give_up (''join rejected: '' @ why)
     | None \<Rightarrow>
         (case pc_faction_name c of
            None \<Rightarrow> give_up ''no response from coordinator (timed out)''
          | Some f \<Rightarrow>
              act_bind (save_session
                [(''coordinator_pub'', CStr coordinator_pub), (''coordinator_host'', CStr host),
                 (''coordinator_port'', CInt (int port)), (''faction_name'', CStr f),
                 (''match_parameters'', CDict (pc_match_parameters c)),
                 (''last_sequence_number'', CInt (pc_sequence c))]) (\<lambda>_.
              act_bind (act_try (\<lambda>_. repr match_id)) (\<lambda>m.
                print_line (''joined match '' @ m @ '' as '' @ f))))))))))))"

section \<open>status\<close>

definition session_faction :: "session \<Rightarrow> GameState \<Rightarrow> string option" where
  "session_faction session st =
     (case map_of session ''faction_name'' of Some (CStr n) \<Rightarrow> faction_of_name st n | _ \<Rightarrow> None)"

text \<open>The loop over \<open>state.supply_centers.values()\<close>, and the owners by their number of centers.\<close>

definition center_counts :: "GameState \<Rightarrow> (string, nat) dict" where
  "center_counts st =
     fold (\<lambda>f d. AList.update f (dict_get d f 0 + 1) d) (filter (\<lambda>f. f \<noteq> '''') (map snd (supply_centers st))) []"

definition ranked_counts :: "GameState \<Rightarrow> (string \<times> nat) list" where
  "ranked_counts st = sort_key (\<lambda>(_, n). - int n) (center_counts st)"

definition uncontrolled :: "GameState \<Rightarrow> nat" where
  "uncontrolled st = length (filter (\<lambda>f. f = '''') (map snd (supply_centers st)))"

definition board_lines :: "GameState \<Rightarrow> string option \<Rightarrow> string list" where
  "board_lines st f =
     (let mine = (case f of None \<Rightarrow> [] | Some i \<Rightarrow> if i = '''' then [] else get_orderable_units st i);
          centers = sort (map fst (filter (\<lambda>(_, owner). Some owner = f) (supply_centers st)))
      in [''your units:''] @
         (if mine = [] then [''  (none)'']
          else map (\<lambda>u. ''  '' @ ljust 6 (unit_type_value (unit_type u)) @ '' '' @ region_id u) mine) @
         [''your supply centers: '' @ show_nat (length centers) @ '' ('' @
            (if joined '', '' centers = '''' then ''none'' else joined '', '' centers) @ '')'',
          ''control centers by faction:''] @
         map (\<lambda>(owner, n). ''  '' @
             ljust 12 (case map_of (factions st) owner of Some fa \<Rightarrow> fa_name fa | None \<Rightarrow> owner) @ '' '' @ show_nat n)
           (ranked_counts st) @
         (if uncontrolled st = 0 then [] else [''  (uncontrolled) '' @ show_nat (uncontrolled st)]))"

definition client_deadline_line :: "rat option \<Rightarrow> rat \<Rightarrow> string" where
  "client_deadline_line deadline current =
     (case deadline of
        Some d \<Rightarrow>
          ''deadline: '' @ (if d - current \<le> 0 then ''expired'' else show_seconds (d - current) @ ''s remaining'')
      | None \<Rightarrow> ''deadline: unknown (no PHASE_START/MATCH_START observed this session)'')"

definition response_state :: "environment \<Rightarrow> message \<Rightarrow> GameState result" where
  "response_state E msg = bind_result (get_bytes msg ''canonical_state'') (game_state_from_canonical_bytes (env_externals E))"

text \<open>\<open>request_state\<close>, \<open>_poll_and_log\<close> and \<open>_persist_sequence\<close>, as three commands begin.\<close>

definition fetch :: "environment \<Rightarrow> string \<Rightarrow> session \<Rightarrow> InboundMessage list list \<Rightarrow> (shell, session) act" where
  "fetch E match_id session batches =
     act_bind (connect_session match_id session) (\<lambda>_.
     act_bind (on_player (request_state E None)) (\<lambda>_.
     act_bind (on_session (poll_and_log (env_externals E) batches)) (\<lambda>_.
       persist session)))"

definition show_state :: "environment \<Rightarrow> session \<Rightarrow> message \<Rightarrow> rat \<Rightarrow> (shell, unit) act" where
  "show_state E session latest_response current =
     act_bind (act_try (\<lambda>_. response_state E latest_response)) (\<lambda>st.
     act_bind (act_try (\<lambda>_. get_int latest_response ''turn'')) (\<lambda>trn.
     act_bind (print_line (''turn:     '' @ show_int trn)) (\<lambda>_.
     act_bind (act_get sh_player) (\<lambda>c.
       print_lines
         ([''phase:    '' @ (case pc_phase c of Some p \<Rightarrow> phase_value p
             | None \<Rightarrow> ''unknown (no PHASE_START observed this session)''),
           client_deadline_line (pc_deadline c) current] @
          board_lines st (session_faction session st))))))"

definition client_status ::
    "environment \<Rightarrow> string \<Rightarrow> string \<Rightarrow> InboundMessage list list \<Rightarrow> rat \<Rightarrow> (shell, unit) act" where
  "client_status E data_dir match_id batches current =
     act_bind (load_session data_dir match_id) (\<lambda>session.
     act_bind (fetch E match_id session batches) (\<lambda>session'.
     act_bind (print_line (''match:    '' @ match_id)) (\<lambda>_.
     act_bind (act_try (\<lambda>_. item session' ''faction_name'' show_item)) (\<lambda>n.
     act_bind (print_line (''faction:  '' @ n)) (\<lambda>_.
     act_bind (act_get (\<lambda>w. pc_state_responses (sh_player w))) (\<lambda>responses.
     if responses = [] then print_line ''state:    no response from coordinator (is a `serve` process running?)''
     else show_state E session' (last responses) current))))))"

section \<open>negotiate\<close>

definition client_negotiate ::
    "environment \<Rightarrow> string \<Rightarrow> string \<Rightarrow> string \<Rightarrow> string \<Rightarrow> InboundMessage list list \<Rightarrow> (shell, unit) act" where
  "client_negotiate E data_dir match_id recipient content batches =
     act_bind (load_session data_dir match_id) (\<lambda>session.
     act_bind (connect_session match_id session) (\<lambda>_.
     act_bind (on_player (player_negotiate E recipient content)) (\<lambda>_.
     act_bind (print_line (''sent to '' @ recipient @ '': '' @ content)) (\<lambda>_.
     act_bind (on_session (poll_and_log (env_externals E) batches)) (\<lambda>_.
     act_bind (persist session) (\<lambda>_. act_return ()))))))"

section \<open>order and orders\<close>

text \<open>The orders of the command line, up to the first that is not for a unit of the player.\<close>

fun compose_specs :: "(string, Unit) dict \<Rightarrow> string list \<Rightarrow> (shell, Order list) act" where
  "compose_specs mine [] = act_return []"
| "compose_specs mine (spec # specs) =
     act_bind (act_try (\<lambda>_. order_of_spec mine spec)) (\<lambda>composed.
     case composed of
       None \<Rightarrow> give_up ([CHR 0x27] @ hd (split_colon spec) @ [CHR 0x27] @ '' is not one of your units'')
     | Some ord \<Rightarrow> act_bind (compose_specs mine specs) (\<lambda>rest. act_return (ord # rest)))"

fun error_text :: "order_error \<Rightarrow> string" where
  "error_text (NotOwned r f) = r @ '' is not one of '' @ f @ [CHR 0x27] @ ''s units''"
| "error_text (DuplicateOrder r) = ''duplicate order for unit at '' @ r"

definition get_order_state :: "message \<Rightarrow> string result" where
  "get_order_state msg = (case field_of msg ''state'' of Some (VEnum v) \<Rightarrow> Inr v | _ \<Rightarrow> Inl Unmodelled)"

definition prepare_orders :: "environment \<Rightarrow> session \<Rightarrow> message \<Rightarrow> string list \<Rightarrow> (shell, Order list) act" where
  "prepare_orders E session latest_response specs =
     act_bind (act_try (\<lambda>_. response_state E latest_response)) (\<lambda>st.
     act_bind (act_try (\<lambda>_. item session ''faction_name'' Inr)) (\<lambda>n.
     case session_faction session st of
       None \<Rightarrow>
         act_bind (act_try (\<lambda>_. case n of CStr t \<Rightarrow> repr t | v \<Rightarrow> show_item v)) (\<lambda>q.
           give_up (''could not find faction '' @ q @ '' in current state''))
     | Some f \<Rightarrow>
         act_bind (compose_specs (dict_comp region_id (\<lambda>u. u) (get_orderable_units st f)) specs) (\<lambda>orders.
         let errors = validate_orders st f orders in
         if errors = [] then act_return orders
         else
           act_bind (act_for errors (\<lambda>e. print_error (''invalid: '' @ error_text e))) (\<lambda>_.
             sys_exit))))"

definition show_receipt :: "session \<Rightarrow> message \<Rightarrow> (shell, unit) act" where
  "show_receipt session receipt =
     act_bind (act_try (\<lambda>_. get_int receipt ''revision'')) (\<lambda>revision.
     act_bind (act_try (\<lambda>_. get_order_state receipt)) (\<lambda>state.
     act_bind (act_try (\<lambda>_. get_str receipt ''order_hash'')) (\<lambda>order_hash.
     act_bind (save_session (AList.update ''last_order_receipt''
       (CDict [(''revision'', CInt revision), (''state'', CStr state), (''order_hash'', CStr order_hash)]) session)) (\<lambda>_.
       print_line (''orders '' @ state @ '': revision '' @ show_int revision @ '', hash '' @ order_hash)))))"

definition client_order ::
    "environment \<Rightarrow> string \<Rightarrow> string \<Rightarrow> int \<Rightarrow> string list \<Rightarrow> InboundMessage list list \<Rightarrow> InboundMessage list list \<Rightarrow>
     (shell, unit) act" where
  "client_order E data_dir match_id revision specs batches receipt_batches =
     act_bind (load_session data_dir match_id) (\<lambda>session.
     act_bind (fetch E match_id session batches) (\<lambda>session'.
     act_bind (act_get (\<lambda>w. pc_state_responses (sh_player w))) (\<lambda>responses.
     if responses = [] then give_up (''no state available from coordinator yet '' @ dash @ '' cannot compose orders'')
     else
       act_bind (prepare_orders E session' (last responses) specs) (\<lambda>orders.
       act_bind (on_player (submit_orders E orders revision)) (\<lambda>_.
       act_bind (on_player (poll_until (env_externals E) (\<lambda>c. pc_order_receipts c \<noteq> []) receipt_batches)) (\<lambda>_.
       act_bind (persist session') (\<lambda>session''.
       act_bind (act_get (\<lambda>w. pc_order_receipts (sh_player w))) (\<lambda>receipts.
       if receipts = [] then give_up ''no receipt from coordinator (timed out)''
       else show_receipt session'' (last receipts)))))))))"

definition client_orders :: "string \<Rightarrow> string \<Rightarrow> (shell, unit) act" where
  "client_orders data_dir match_id =
     act_bind (load_session data_dir match_id) (\<lambda>session.
     case dict_get session ''last_order_receipt'' CNone of
       CNone \<Rightarrow> print_line ''no orders submitted yet this match (from this client)''
     | CDict receipt \<Rightarrow>
         act_bind (act_try (\<lambda>_. item receipt ''revision'' show_item)) (\<lambda>revision.
         act_bind (act_try (\<lambda>_. item receipt ''state'' show_item)) (\<lambda>state.
         act_bind (act_try (\<lambda>_. item receipt ''order_hash'' show_item)) (\<lambda>order_hash.
           print_line (''revision '' @ revision @ '': '' @ state @ '' (hash '' @ order_hash @ '')''))))
     | _ \<Rightarrow> act_raise TypeError)"

section \<open>verify\<close>

fun reason_text :: "reason \<Rightarrow> string result" where
  "reason_text MatchStartSignature = Inr ''MATCH_START signature invalid''"
| "reason_text MatchStartHash = Inr ''MATCH_START state_hash does not match canonical_state''"
| "reason_text SignatureInvalid = Inr ''signature invalid''"
| "reason_text HashMismatch = Inr ''state_hash does not match canonical_state''"
| "reason_text (ChainBroken expected got) =
     bind_result (repr expected) (\<lambda>a. bind_result (repr_optional got) (\<lambda>b.
       Inr (''hash chain broken: expected previous_state_hash '' @ a @ '', got '' @ b)))"

definition issue_line :: "VerificationIssue \<Rightarrow> string result" where
  "issue_line i =
     bind_result (reason_text (vi_reason i)) (\<lambda>why.
       Inr (''  turn '' @ show_int (vi_turn i) @ '' '' @ phase_value (vi_phase i) @ '': '' @ why))"

text \<open>Catching a \<open>MATCH_START\<close> for a session that has none.\<close>

definition anchor :: "environment \<Rightarrow> string \<Rightarrow> session \<Rightarrow> InboundMessage list list \<Rightarrow> (shell, unit) act" where
  "anchor E match_id session batches =
     (if ''match_start'' \<in> set (map fst session) then act_return ()
      else
        act_bind (fetch E match_id session batches) (\<lambda>session'.
        act_bind (act_get (\<lambda>w. pc_match_start (sh_player w))) (\<lambda>start.
        case start of
          None \<Rightarrow> act_return ()
        | Some msg \<Rightarrow>
            act_bind (act_try (\<lambda>_. match_start_to_record msg)) (\<lambda>r.
              save_session (AList.update ''match_start'' (CDict r) session')))))"

definition client_verify :: "environment \<Rightarrow> string \<Rightarrow> string \<Rightarrow> InboundMessage list list \<Rightarrow> (shell, unit) act" where
  "client_verify E data_dir match_id batches =
     act_bind (load_session data_dir match_id) (\<lambda>session.
     act_bind (anchor E match_id session batches) (\<lambda>_.
     act_bind (act_try (\<lambda>w. cmd_verify (env_externals E) (sh_dir w))) (\<lambda>outcome.
     case outcome of
       None \<Rightarrow> give_up (''no phase history observed yet '' @ dash @ '' nothing to verify'')
     | Some rep \<Rightarrow>
         act_bind (print_line (''checked '' @ show_nat (vr_checked rep) @ '' link(s) in the hash chain'')) (\<lambda>_.
         if vr_ok rep then print_line (''OK '' @ dash @ '' signatures and hash chain check out'')
         else
           act_bind (print_line ''MISMATCH DETECTED:'') (\<lambda>_.
           act_bind (act_for (vr_issues rep) (\<lambda>i. act_bind (act_try (\<lambda>_. issue_line i)) print_line)) (\<lambda>_.
             sys_exit))))))"

section \<open>history and draw\<close>

definition result_line :: "session \<Rightarrow> string result" where
  "result_line r =
     bind_result (item r ''turn'' (padded 3)) (\<lambda>t.
     bind_result (item r ''phase'' (padded 10)) (\<lambda>p.
     bind_result (item r ''state_hash'' (first_points 16)) (\<lambda>h.
       Inr (''  turn '' @ t @ '' '' @ p @ '' hash='' @ h @ ''...''))))"

definition negotiation_line :: "session \<Rightarrow> string result" where
  "negotiation_line r =
     bind_result (item r ''sender'' (first_points 16)) (\<lambda>sender.
     bind_result (item r ''content'' show_item) (\<lambda>content.
       Inr (''  from '' @ sender @ ''...: '' @ content)))"

definition print_log :: "string \<Rightarrow> (session \<Rightarrow> string result) \<Rightarrow> session list \<Rightarrow> (shell, unit) act" where
  "print_log title line entries =
     act_bind (print_line title) (\<lambda>_.
     act_bind (if entries = [] then print_line ''  none observed yet'' else act_return ()) (\<lambda>_.
       act_for entries (\<lambda>r. act_bind (act_try (\<lambda>_. line r)) print_line)))"

definition client_history :: "environment \<Rightarrow> string \<Rightarrow> string \<Rightarrow> InboundMessage list list \<Rightarrow> (shell, unit) act" where
  "client_history E data_dir match_id batches =
     act_bind (load_session data_dir match_id) (\<lambda>session.
     act_bind (connect_session match_id session) (\<lambda>_.
     act_bind (on_session (poll_and_log (env_externals E) batches)) (\<lambda>_.
     act_bind (persist session) (\<lambda>_.
     act_bind (act_get sh_dir) (\<lambda>d.
     act_bind (print_log ''phase history:'' result_line (sd_results d)) (\<lambda>_.
       print_log ''negotiation history:'' negotiation_line (sd_negotiations d)))))))"

datatype draw_action = Propose | Vote bool

definition votes_text :: "(string \<times> canonical) list \<Rightarrow> string result" where
  "votes_text votes =
     bind_result (map_result (\<lambda>(name, v).
       bind_result (repr name) (\<lambda>n.
       case v of CBool b \<Rightarrow> Inr (n @ '': '' @ show_bool b) | _ \<Rightarrow> Inl Unmodelled)) votes) (\<lambda>entries.
       Inr (''{'' @ joined '', '' entries @ ''}''))"

definition show_draw :: "message \<Rightarrow> string result" where
  "show_draw result =
     bind_result (get_bool result ''accepted'') (\<lambda>accepted.
     bind_result (bind_result (get_dict result ''votes'') votes_text) (\<lambda>votes.
       Inr (''draw '' @ (if accepted then ''accepted'' else ''not (yet) accepted'') @ '': '' @ votes)))"

definition client_draw ::
    "environment \<Rightarrow> string \<Rightarrow> string \<Rightarrow> draw_action \<Rightarrow> int \<Rightarrow> InboundMessage list list \<Rightarrow> (shell, unit) act" where
  "client_draw E data_dir match_id action trn batches =
     act_bind (load_session data_dir match_id) (\<lambda>session.
     act_bind (connect_session match_id session) (\<lambda>_.
     act_bind (on_player (case action of Propose \<Rightarrow> propose_draw E trn | Vote vote \<Rightarrow> vote_draw E trn vote)) (\<lambda>_.
     act_bind (on_session (poll_and_log (env_externals E) batches)) (\<lambda>_.
     act_bind (persist session) (\<lambda>_.
     act_bind (act_get (\<lambda>w. pc_draw_results (sh_player w))) (\<lambda>results.
     if results = [] then print_line ''draw request sent (no result observed yet)''
     else act_bind (act_try (\<lambda>_. show_draw (last results))) print_line))))))"

section \<open>The count of the centers\<close>

lemma tally_get:
  "dict_get (fold (\<lambda>f d. AList.update f (dict_get d f 0 + 1) d) fs d) f 0 = dict_get d f 0 + count_list fs f"
  by (induction fs arbitrary: d) (auto simp: dict_get_update)

lemma tally_keys:
  "dict_ok d \<Longrightarrow> dict_ok (fold (\<lambda>f d. AList.update f (dict_get d f 0 + 1) d) fs d) \<and>
   fst ` set (fold (\<lambda>f d. AList.update f (dict_get d f 0 + 1) d) fs d) = fst ` set d \<union> set fs"
  by (induction fs arbitrary: d) (auto simp: dom_update [unfolded set_map])

lemma tally_entry:
  assumes "dict_ok d"
  shows "(k, n) \<in> set d \<longleftrightarrow> k \<in> fst ` set d \<and> dict_get d k 0 = n"
proof -
  have "(k, n) \<in> set d \<longleftrightarrow> map_of d k = Some n" using assms by (simp add: dict_ok_def)
  moreover have "k \<in> fst ` set d \<longleftrightarrow> map_of d k \<noteq> None" by (simp add: map_of_eq_None_iff)
  ultimately show ?thesis by (auto simp: dict_get_def)
qed

lemma count_owner:
  assumes "f \<noteq> ''''"
  shows "int (count_list (filter (\<lambda>f. f \<noteq> '''') (map snd (supply_centers st))) f) = get_supply_center_count st f"
proof -
  have "filter (\<lambda>x. f = x) (filter (\<lambda>f. f \<noteq> '''') owners) = filter (\<lambda>x. x = f) owners" for owners
    using assms by (auto intro: filter_cong)
  then show ?thesis by (simp add: count_list_eq_length_filter get_supply_center_count_def dict_values_def)
qed

lemma sum_counts:
  assumes "dict_ok d" "fst ` set d = set fs" "\<And>k n. (k, n) \<in> set d \<Longrightarrow> n = count_list fs k"
  shows "sum_list (map snd d) = length fs"
proof -
  have "map snd d = map (count_list fs) (map fst d)" using assms(3) by (auto simp: case_prod_beta)
  then have "sum_list (map snd d) = (\<Sum>k\<in>set (map fst d). count_list fs k)"
    using assms(1) by (simp only: dict_ok_def sum_list_distinct_conv_sum_set)
  also have "\<dots> = length fs" using assms(2) by (simp add: sum_count_set)
  finally show ?thesis .
qed

lemma sorted_descending: "sorted (map (\<lambda>(_, n). - int n) xs) \<Longrightarrow> sorted (rev (map snd xs))"
  by (induction xs) (auto simp: sorted_append)

text \<open>The tally of supply centers that \<open>status\<close> shows is right: it lists every faction that controls a
  center once, with the number of centers the engine counts for it, the largest first, and together with
  the uncontrolled ones the numbers add up to all centers of the board.\<close>

theorem status_counts_exact:
  "distinct (map fst (ranked_counts st)) \<and> sorted (rev (map snd (ranked_counts st))) \<and>
   set (ranked_counts st) = {(f, n). f \<noteq> '''' \<and> int n = get_supply_center_count st f \<and> 0 < n} \<and>
   sum_list (map snd (ranked_counts st)) + uncontrolled st = length (supply_centers st)"
proof -
  let ?fs = "filter (\<lambda>f. f \<noteq> '''') (map snd (supply_centers st))" and ?d = "center_counts st"
  have "dict_ok ([] :: (string, nat) dict)" by (simp add: dict_ok_def)
  from tally_keys [OF this, of ?fs, folded center_counts_def]
  have keys: "dict_ok ?d" "fst ` set ?d = set ?fs" by simp_all
  have entry: "(f, n) \<in> set ?d \<longleftrightarrow> f \<in> set ?fs \<and> n = count_list ?fs f" for f n
    unfolding tally_entry [OF keys(1)] keys(2) by (auto simp: center_counts_def tally_get simp del: One_nat_def)
  have exact: "(f, n) \<in> set ?d \<longleftrightarrow> f \<noteq> '''' \<and> int n = get_supply_center_count st f \<and> 0 < n" for f n
  proof (cases "f = ''''")
    case False
    then show ?thesis unfolding entry count_owner [OF False, symmetric] using count_list_0_iff [of ?fs f] by auto
  qed (simp add: entry)
  have "sum_list (map snd ?d) = length ?fs" by (rule sum_counts [OF keys]) (simp add: entry)
  moreover have "length ?fs + uncontrolled st = length (supply_centers st)"
    using length_filter_add [of "\<lambda>f. f \<noteq> ''''" "map snd (supply_centers st)"] by (simp add: uncontrolled_def)
  moreover have "sorted (rev (map snd (ranked_counts st)))"
    by (rule sorted_descending) (unfold ranked_counts_def, rule sorted_sort_key)
  moreover have "sum_list (map snd (ranked_counts st)) = sum_list (map snd ?d)"
  proof -
    have "mset (map snd (ranked_counts st)) = mset (map snd ?d)" by (simp add: ranked_counts_def)
    from arg_cong [OF this, of sum_mset] show ?thesis by (simp only: sum_mset_sum_list)
  qed
  ultimately show ?thesis using keys(1) exact by (auto simp: ranked_counts_def dict_ok_def)
qed

end
