(* ===== verification/Client_Numbers.thy ===== *)
theory Client_Numbers
  imports Client_Commands
begin

text \<open>
  The sequence numbers of a player over any sequence of commands: the coordinator takes a message only
  with a larger number than the last one from its sender, every command is a process of its own, and the
  number goes through the session file, which \<open>join\<close> begins. \<open>run_client\<close> is a process, from \<open>main\<close>'s call of
  the command to its end.
\<close>

section \<open>Processes\<close>

text \<open>The commands with their arguments: those that need a session, and the two that do not. A process has a
  command, what the network brings in its polling loops, the key that \<open>create_identity\<close> draws, and its clock.\<close>

datatype session_command =
    StatusCommand
  | NegotiateCommand string string
  | OrderCommand int "string list"
  | OrdersCommand
  | VerifyCommand
  | HistoryCommand
  | DrawCommand draw_action int

datatype client_command =
    DiscoverCommand string rat
  | JoinCommand string string "string option"
  | SessionCommand session_command

record process =
  pr_environment :: environment
  pr_command :: client_command
  pr_batches :: "InboundMessage list list"
  pr_receipt_batches :: "InboundMessage list list"
  pr_announcements :: "Announcement list list"
  pr_new_key :: bytes
  pr_time :: rat

definition no_client :: player where
  "no_client = new_player [] '''' '''' 0"

definition dispatch_session :: "string \<Rightarrow> string \<Rightarrow> process \<Rightarrow> session_command \<Rightarrow> (shell, unit) act" where
  "dispatch_session data_dir match_id p command =
     (case command of
        StatusCommand \<Rightarrow> client_status (pr_environment p) data_dir match_id (pr_batches p) (pr_time p)
      | NegotiateCommand recipient content \<Rightarrow>
          client_negotiate (pr_environment p) data_dir match_id recipient content (pr_batches p)
      | OrderCommand revision specs \<Rightarrow>
          client_order (pr_environment p) data_dir match_id revision specs (pr_batches p) (pr_receipt_batches p)
      | OrdersCommand \<Rightarrow> client_orders data_dir match_id
      | VerifyCommand \<Rightarrow> client_verify (pr_environment p) data_dir match_id (pr_batches p)
      | HistoryCommand \<Rightarrow> client_history (pr_environment p) data_dir match_id (pr_batches p)
      | DrawCommand action trn \<Rightarrow> client_draw (pr_environment p) data_dir match_id action trn (pr_batches p))"

definition dispatch_command :: "string \<Rightarrow> string \<Rightarrow> process \<Rightarrow> (shell, unit) act" where
  "dispatch_command data_dir match_id p =
     (case pr_command p of
        DiscoverCommand coordinator seconds \<Rightarrow> client_discover coordinator seconds (pr_announcements p)
      | JoinCommand coordinator coordinator_pub display_name \<Rightarrow>
          client_join (pr_environment p) match_id coordinator coordinator_pub display_name (pr_new_key p) (pr_batches p)
      | SessionCommand command \<Rightarrow> dispatch_session data_dir match_id p command)"

definition run_client :: "string \<Rightarrow> string \<Rightarrow> process \<Rightarrow> (shell, unit) act" where
  "run_client data_dir match_id p w =
     dispatch_command data_dir match_id p (w\<lparr>sh_player := no_client, con_exit := None\<rparr>)"

text \<open>A process came to its own end: it returned, or exited with a status, and no exception stopped it.\<close>

definition completed :: "'a result \<Rightarrow> shell \<Rightarrow> bool" where
  "completed r w \<longleftrightarrow> (case r of Inr _ \<Rightarrow> True | Inl _ \<Rightarrow> con_exit w \<noteq> None)"

section \<open>Numbers in the messages of a process\<close>

definition has_number :: "externals \<Rightarrow> int \<Rightarrow> string \<times> bytes \<Rightarrow> bool" where
  "has_number X q sent \<longleftrightarrow> (\<exists>t ts fs. encode_message X (mk_message t q ts fs) = Inr (snd sent))"

definition numbered :: "externals \<Rightarrow> player \<Rightarrow> player \<Rightarrow> bool" where
  "numbered X c c' \<longleftrightarrow>
     (\<exists>new qs. pc_sent c' = pc_sent c @ new \<and> list_all2 (has_number X) qs new \<and> sorted_wrt (<) qs \<and>
        (\<forall>q\<in>set qs. pc_sequence c < q \<and> q \<le> pc_sequence c') \<and> pc_sequence c \<le> pc_sequence c')"

lemma numberedI:
  "pc_sent c' = pc_sent c @ new \<Longrightarrow> list_all2 (has_number X) qs new \<Longrightarrow> sorted_wrt (<) qs \<Longrightarrow>
   (\<And>q. q \<in> set qs \<Longrightarrow> pc_sequence c < q \<and> q \<le> pc_sequence c') \<Longrightarrow> pc_sequence c \<le> pc_sequence c' \<Longrightarrow> numbered X c c'"
  unfolding numbered_def by blast

lemma numbered_trans:
  assumes "numbered X a b" "numbered X b c"
  shows "numbered X a c"
proof -
  obtain n1 q1 where 1: "pc_sent b = pc_sent a @ n1" "list_all2 (has_number X) q1 n1" "sorted_wrt (<) q1"
    "\<forall>q\<in>set q1. pc_sequence a < q \<and> q \<le> pc_sequence b" "pc_sequence a \<le> pc_sequence b"
    using assms(1) unfolding numbered_def by blast
  obtain n2 q2 where 2: "pc_sent c = pc_sent b @ n2" "list_all2 (has_number X) q2 n2" "sorted_wrt (<) q2"
    "\<forall>q\<in>set q2. pc_sequence b < q \<and> q \<le> pc_sequence c" "pc_sequence b \<le> pc_sequence c"
    using assms(2) unfolding numbered_def by blast
  show ?thesis
  proof (rule numberedI [of _ _ "n1 @ n2" _ "q1 @ q2"])
    show "sorted_wrt (<) (q1 @ q2)" using 1(3,4) 2(3,4) by (force simp: sorted_wrt_append)
  qed (use 1 2 in \<open>auto intro: list_all2_appendI\<close>)
qed

lemma numbered_same: "pc_sent c' = pc_sent c \<Longrightarrow> pc_sequence c \<le> pc_sequence c' \<Longrightarrow> numbered X c c'"
  by (rule numberedI [of _ _ "[]" _ "[]"]) simp_all

interpretation numbers: preserved "numbered X" for X
  by unfold_locales (auto intro: numbered_same numbered_trans)

lemma send_numbered:
  assumes "pc_sent c' = pc_sent c" "pc_sequence c' = q" "pc_sequence c < q"
  shows "numbered (env_externals E) c (snd (player_send E d (mk_message t q ts fs) c'))"
proof (cases "encode_message (env_externals E) (mk_message t q ts fs)")
  case (Inl e)
  then show ?thesis using assms by (simp add: player_send_def act_simps numbered_same)
next
  case (Inr data)
  show ?thesis
  proof (cases "env_send_error E d data")
    case None
    have "has_number (env_externals E) q (d, data)" using Inr by (auto simp: has_number_def)
    then show ?thesis using assms Inr None
      by (intro numberedI [of _ _ "[(d, data)]" _ "[q]"]) (simp_all add: player_send_def act_simps player_transport_send_def)
  qed (use assms Inr in \<open>simp add: player_send_def act_simps player_transport_send_def numbered_same\<close>)
qed

lemma to_coordinator_numbered: "numbered (env_externals E) c (snd (to_coordinator E t fs c))"
  using send_numbered [where E = E and c = c and q = "pc_sequence c + 1" and t = t and fs = fs and d = "pc_coordinator c"
      and ts = "env_clock E (pc_readings c)"
      and c' = "c\<lparr>pc_sequence := pc_sequence c + 1, pc_readings := pc_readings c + 1\<rparr>"]
  by (simp add: to_coordinator_def stamped_def player_next_sequence_def player_now_def act_simps act_bind_def)

lemma negotiate_numbered: "numbered (env_externals E) c (snd (player_negotiate E d content c))"
proof -
  let ?c = "c\<lparr>pc_sequence := pc_sequence c + 1, pc_readings := pc_readings c + 1\<rparr>"
  let ?msg = "mk_message NEGOTIATION (pc_sequence c + 1) (env_clock E (pc_readings c))
    [(''match_id'', VRaw (CStr (pc_match_id c))), (''content'', VRaw (CStr content))]"
  have "snd (player_negotiate E d content c) = snd (player_send E d ?msg ?c)"
    by (simp add: player_negotiate_def player_next_sequence_def player_now_def send_negotiation_def Let_def act_bind_def act_run
        split: prod.splits sum.splits)
  then show ?thesis using send_numbered [where E = E and c = c and q = "pc_sequence c + 1" and c' = ?c] by simp
qed

lemma join_numbered: "numbered (env_externals E) c (snd (player_join E name c))"
  by (simp add: player_join_def to_coordinator_numbered)

lemma requests_numbered:
  "numbered (env_externals E) c (snd (request_state E trn c))"
  "numbered (env_externals E) c (snd (submit_orders E orders revision c))"
  "numbered (env_externals E) c (snd (propose_draw E n c))"
  "numbered (env_externals E) c (snd (vote_draw E n vote c))"
  by (simp_all add: request_state_def submit_orders_def propose_draw_def vote_draw_def to_coordinator_numbered)

lemma poll_numbered: "numbered X c (snd (player_poll Y inbound c))"
proof (induction inbound arbitrary: c)
  case Nil
  then show ?case by (simp add: numbers.keep_pure)
next
  case (Cons i inbound)
  have "numbered X c (snd (act_write (player_handle Y msg sender) c))" for msg sender
    by (rule numbers.keep_write) (auto intro!: numbered_same simp: handle_facts)
  then show ?case
    using Cons.IH by (auto split: sum.split intro!: numbers.keep_bind numbers.keep_pure)
qed

lemma poll_until_numbered: "numbered X c (snd (poll_until Y enough batches c))"
  by (induction batches arbitrary: c)
    (auto intro!: numbers.keep_bind numbers.keep_pure poll_numbered)

section \<open>Numbers through the session file\<close>

definition session_number :: "session_dir \<Rightarrow> int" where
  "session_number d =
     (case sd_session d of
        None \<Rightarrow> 0
      | Some s \<Rightarrow> (case dict_get s ''last_sequence_number'' (CInt 0) of CInt n \<Rightarrow> n | _ \<Rightarrow> 0))"

text \<open>Before the number is written: steps that do not end the process nor touch the session.\<close>

definition working :: "externals \<Rightarrow> shell \<Rightarrow> shell \<Rightarrow> bool" where
  "working X w w' \<longleftrightarrow> con_exit w' = con_exit w \<and> sd_session (sh_dir w') = sd_session (sh_dir w) \<and>
     numbered X (sh_player w) (sh_player w')"

interpretation work: preserved "working X" for X
  by unfold_locales (auto simp: working_def intro: numbers.R_refl numbers.R_trans)

definition cli_working :: "externals \<Rightarrow> cli \<Rightarrow> cli \<Rightarrow> bool" where
  "cli_working X x x' \<longleftrightarrow> sd_session (cl_dir x') = sd_session (cl_dir x) \<and> numbered X (cl_player x) (cl_player x')"

interpretation logs: preserved "cli_working X" for X
  by unfold_locales (auto simp: cli_working_def intro: numbers.R_refl numbers.R_trans)

text \<open>After it: steps that only print.\<close>

definition quiet :: "shell \<Rightarrow> shell \<Rightarrow> bool" where
  "quiet w w' \<longleftrightarrow> sh_dir w' = sh_dir w \<and> sh_player w' = sh_player w"

interpretation talk: preserved quiet
  by unfold_locales (simp_all add: quiet_def)

lemma poll_rounds_working: "cli_working X x (snd (poll_rounds Y batches seen x))"
proof (induction batches arbitrary: x seen)
  case Nil
  then show ?case by (simp add: logs.keep_pure)
next
  case (Cons inbound batches)
  have "cli_working X y (snd (act_zoom cl_player (\<lambda>c w. w\<lparr>cl_player := c\<rparr>) (player_poll Y inbound) y))" for y
    using poll_numbered [of X "cl_player y" Y inbound] by (simp add: act_zoom_def cli_working_def case_prod_beta)
  moreover have "cli_working X y (snd (act_write (\<lambda>w. Inr (w\<lparr>cl_dir := (cl_dir w)\<lparr>sd_results := es\<rparr>\<rparr>)) y))" for y es
    by (rule logs.keep_write) (auto simp: cli_working_def)
  ultimately show ?case unfolding poll_rounds.simps using Cons.IH
    by (intro logs.keep_bind logs.keep_pure logs.keep_case_prod)
qed

lemma poll_and_log_working: "cli_working X x (snd (poll_and_log Y batches x))"
proof -
  have "cli_working X y (snd (act_write (\<lambda>w. bind_result (f w) (\<lambda>rs.
      Inr (w\<lparr>cl_dir := (cl_dir w)\<lparr>sd_negotiations := g w @ rs\<rparr>\<rparr>))) y))" for f g y
    by (rule logs.keep_write) (auto simp: cli_working_def)
  then show ?thesis unfolding poll_and_log_def
    by (intro logs.keep_bind logs.keep_pure poll_rounds_working)
qed

lemma on_player_working:
  assumes "\<And>c. numbered X c (snd (m c))"
  shows "working X w (snd (on_player m w))"
  using assms [of "sh_player w"] by (simp add: on_player_def act_zoom_def working_def case_prod_beta)

lemma on_session_working: "working X w (snd (on_session (poll_and_log Y batches) w))"
  using poll_and_log_working [of X "\<lparr>cl_player = sh_player w, cl_dir = sh_dir w\<rparr>" Y batches]
  by (simp add: on_session_def act_zoom_def working_def cli_working_def case_prod_beta)

lemma print_line_working: "working X w (snd (print_line s w))"
  by (simp add: print_line_def working_def numbers.R_refl)

lemma quiet_prints:
  "quiet w (snd (print_line s w))" "quiet w (snd (print_error s w))" "quiet w (snd (print_lines ls w))"
  "quiet w (snd (give_up s w))" "quiet w (snd (sys_exit w))"
  by (simp_all add: print_line_def print_error_def print_lines_def give_up_def sys_exit_def act_bind_def quiet_def)

section \<open>How a process ends\<close>

text \<open>A process that began its session at number \<open>n\<close>, before and after the number is written.\<close>

definition open_work :: "externals \<Rightarrow> int \<Rightarrow> shell \<Rightarrow> bool" where
  "open_work X n w \<longleftrightarrow> con_exit w = None \<and>
     (\<exists>c. pc_sent c = [] \<and> pc_sequence c = n \<and> numbered X c (sh_player w))"

definition settled :: "externals \<Rightarrow> int \<Rightarrow> shell \<Rightarrow> bool" where
  "settled X n w \<longleftrightarrow>
     (\<exists>qs. list_all2 (has_number X) qs (pc_sent (sh_player w)) \<and> sorted_wrt (<) qs \<and>
        (\<forall>q\<in>set qs. n < q \<and> q \<le> session_number (sh_dir w)) \<and> n \<le> session_number (sh_dir w))"

definition ends :: "(shell, 'a) act \<Rightarrow> (shell \<Rightarrow> bool) \<Rightarrow> shell \<Rightarrow> bool" where
  "ends m Q w \<longleftrightarrow> (completed (fst (m w)) (snd (m w)) \<longrightarrow> Q (snd (m w)))"

lemma ends_bind:
  assumes "\<And>e w'. m w = (Inl e, w') \<Longrightarrow> con_exit w' \<noteq> None \<Longrightarrow> Q w'"
    and "\<And>x w'. m w = (Inr x, w') \<Longrightarrow> ends (f x) Q w'"
  shows "ends (act_bind m f) Q w"
proof (cases "m w")
  case (Pair r w')
  with assms show ?thesis by (cases r) (auto simp: ends_def act_bind_def completed_def)
qed

lemma ends_work:
  assumes "open_work X n w" "working X w (snd (m w))"
    and "\<And>x w'. m w = (Inr x, w') \<Longrightarrow> open_work X n w' \<Longrightarrow> ends (f x) Q w'"
  shows "ends (act_bind m f) Q w"
proof (rule ends_bind)
  have still: "open_work X n w'" if "m w = (r, w')" for r w'
    using assms(1,2) that by (auto simp: open_work_def working_def intro: numbers.R_trans)
  show "Q w'" if "m w = (Inl e, w')" "con_exit w' \<noteq> None" for e w' using still [OF that(1)] that(2) by (simp add: open_work_def)
  show "ends (f x) Q w'" if "m w = (Inr x, w')" for x w' using assms(3) that still by blast
qed

lemma settled_quiet: "settled X n w \<Longrightarrow> quiet w w' \<Longrightarrow> settled X n w'"
  by (simp add: settled_def quiet_def)

lemma ends_quiet: "settled X n w \<Longrightarrow> quiet w (snd (m w)) \<Longrightarrow> ends m (settled X n) w"
  using settled_quiet by (auto simp: ends_def)

lemma ends_quiet_bind:
  assumes "settled X n w" "quiet w (snd (m w))"
    and "\<And>x w'. m w = (Inr x, w') \<Longrightarrow> quiet w w' \<Longrightarrow> settled X n w' \<Longrightarrow> ends (f x) (settled X n) w'"
  shows "ends (act_bind m f) (settled X n) w"
  by (rule ends_bind) (use assms settled_quiet in fastforce)+

section \<open>The steps that begin and settle the work\<close>

lemma settled_start: "pc_sent (sh_player w) = [] \<Longrightarrow> settled X (session_number (sh_dir w)) w"
  unfolding settled_def by (intro exI [of _ "[]"]) simp

lemma ends_load:
  assumes "pc_sent (sh_player w) = []" "n = session_number (sh_dir w)"
    and "\<And>session. sd_session (sh_dir w) = Some session \<Longrightarrow> ends (f session) (settled X n) w"
  shows "ends (act_bind (load_session data_dir m) f) (settled X n) w"
proof (cases "sd_session (sh_dir w)")
  case None
  have "quiet w (snd (load_session data_dir m w))"
    unfolding load_session_def by (intro talk.keeps quiet_prints)
  moreover have "fst (load_session data_dir m w) \<noteq> Inr x" for x
    by (auto simp: load_session_def act_bind_def act_run None give_up_def sys_exit_def print_error_def split: prod.splits sum.splits)
  ultimately show ?thesis
    using settled_quiet settled_start [OF assms(1)] unfolding assms(2) by (intro ends_bind) force+
next
  case (Some session)
  then have "act_bind (load_session data_dir m) f w = f session w"
    by (simp add: load_session_def act_bind_def act_run)
  with assms(3) [OF Some] show ?thesis by (simp add: ends_def)
qed

lemma ends_connect:
  assumes "con_exit w = None" "sd_session (sh_dir w) = Some session" "n = session_number (sh_dir w)"
    and "\<And>w'. open_work X n w' \<Longrightarrow> ends (f ()) Q w'"
  shows "ends (act_bind (connect_session m session) f) Q w"
proof (rule ends_bind)
  show "Q w'" if "connect_session m session w = (Inl e, w')" "con_exit w' \<noteq> None" for e w'
    using that assms(1) by (auto simp: connect_session_def load_identity_def act_bind_def act_run act_write_def split: option.splits sum.splits)
  show "ends (f x) Q w'" if connected: "connect_session m session w = (Inr x, w')" for x w'
  proof -
    obtain key c where c: "connect key m session = Inr c" "w' = w\<lparr>sh_player := c\<rparr>"
      using connected by (auto simp: connect_session_def load_identity_def act_bind_Inr act_write_Inr act_run split: option.splits)
    then obtain pub k where "as_int (dict_get session ''last_sequence_number'' (CInt 0)) = Inr k" "c = new_player key pub m k"
      by (auto simp: connect_def)
    then have "pc_sequence c = n" "pc_sent c = []"
      using assms(2,3) by (cases "dict_get session ''last_sequence_number'' (CInt 0)"; simp add: session_number_def new_player_def)+
    then have "open_work X n w'" using assms(1) c(2) numbers.R_refl [of X c] by (auto simp: open_work_def)
    then show ?thesis using assms(4) by simp
  qed
qed

lemma open_settled:
  assumes "open_work X n w" "session_number (sh_dir w) = pc_sequence (sh_player w)"
  shows "settled X n w"
proof -
  obtain c where c: "pc_sent c = []" "pc_sequence c = n" "numbered X c (sh_player w)"
    using assms(1) by (auto simp: open_work_def)
  then show ?thesis unfolding settled_def assms(2) numbered_def by auto
qed

lemma ends_persist:
  assumes "open_work X n w"
    and "\<And>s w'. open_work X n w' \<Longrightarrow> settled X n w' \<Longrightarrow> sd_session (sh_dir w') = Some s \<Longrightarrow> ends (f s) Q w'"
  shows "ends (act_bind (persist session) f) Q w"
proof -
  let ?s = "AList.update ''last_sequence_number'' (CInt (pc_sequence (sh_player w))) session"
  let ?w = "w\<lparr>sh_dir := (sh_dir w)\<lparr>sd_session := Some ?s\<rparr>\<rparr>"
  have run: "act_bind (persist session) f w = f ?s ?w"
    by (simp add: persist_def on_session_def act_zoom_def act_write_def persist_sequence_def act_bind_def act_run)
  have "open_work X n ?w" using assms(1) by (simp add: open_work_def)
  moreover have "session_number (sh_dir ?w) = pc_sequence (sh_player ?w)"
    by (simp add: session_number_def dict_get_update)
  ultimately have "ends (f ?s) Q ?w" using assms(2) open_settled by simp
  then show ?thesis by (simp add: ends_def run)
qed

lemma ends_fetch:
  assumes "con_exit w = None" "sd_session (sh_dir w) = Some session" "n = session_number (sh_dir w)"
    and "\<And>s w'. open_work (env_externals E) n w' \<Longrightarrow> settled (env_externals E) n w' \<Longrightarrow> sd_session (sh_dir w') = Some s \<Longrightarrow>
      ends (f s) Q w'"
  shows "ends (act_bind (fetch E m session batches) f) Q w"
proof -
  have split: "act_bind (fetch E m session batches) f =
    act_bind (connect_session m session) (\<lambda>_.
    act_bind (on_player (request_state E None)) (\<lambda>_.
    act_bind (on_session (poll_and_log (env_externals E) batches)) (\<lambda>_.
    act_bind (persist session) f)))"
    by (rule ext) (simp add: fetch_def act_bind_def split: prod.splits sum.splits)
  show ?thesis
    unfolding split
    by (rule ends_connect [OF assms(1-3)], erule ends_work, rule on_player_working, rule requests_numbered,
        erule ends_work, rule on_session_working, erule ends_persist, rule assms(4))
qed

lemma save_settled:
  assumes "settled X n w" "sd_session (sh_dir w) = Some s" "k \<noteq> ''last_sequence_number''"
  shows "settled X n (snd (save_session (AList.update k v s) w))"
  using assms by (simp add: save_session_def act_write_def settled_def session_number_def dict_get_update)

lemma ends_kept:
  assumes "settled X n (snd (m w))" "\<And>x w'. m w = (Inr x, w') \<Longrightarrow> settled X n w' \<Longrightarrow> ends (f x) (settled X n) w'"
  shows "ends (act_bind m f) (settled X n) w"
  by (rule ends_bind) (use assms in fastforce)+

lemma show_state_quiet: "quiet w (snd (show_state E session msg current w))"
  unfolding show_state_def by (intro talk.keeps quiet_prints)

lemma prepare_quiet: "quiet w (snd (prepare_orders E session msg specs w))"
proof -
  have specs: "quiet w (snd (compose_specs mine ss w))" for mine ss w
    by (induction ss arbitrary: w) (auto intro!: talk.keep_bind talk.keep_pure quiet_prints split: option.split)
  have errors: "quiet w (snd (act_for es (\<lambda>e. print_error (g e)) w))" for es and g :: "order_error \<Rightarrow> string" and w
    by (rule talk.keep_for) (rule quiet_prints)
  show ?thesis
    unfolding prepare_orders_def Let_def by (intro talk.keeps quiet_prints specs errors)
qed

lemma print_log_quiet: "quiet w (snd (print_log title line entries w))"
  unfolding print_log_def by (intro talk.keeps talk.keep_for quiet_prints)

section \<open>Every command\<close>

text \<open>The first state of a process.\<close>

definition begun :: "int \<Rightarrow> shell \<Rightarrow> bool" where
  "begun n w \<longleftrightarrow> con_exit w = None \<and> pc_sent (sh_player w) = [] \<and> n = session_number (sh_dir w)"

lemma begunD:
  assumes "begun n w"
  shows "con_exit w = None" "pc_sent (sh_player w) = []" "n = session_number (sh_dir w)"
  using assms by (simp_all add: begun_def)

lemma status_ends:
  assumes "begun n w"
  shows "ends (client_status E d m batches current) (settled (env_externals E) n) w"
  unfolding client_status_def
  by (rule ends_load [OF begunD(2,3) [OF assms]], rule ends_fetch [OF begunD(1) [OF assms] _ begunD(3) [OF assms]],
      assumption, erule ends_quiet, intro talk.keeps quiet_prints show_state_quiet)

lemma negotiate_ends:
  assumes "begun n w"
  shows "ends (client_negotiate E d m recipient content batches) (settled (env_externals E) n) w"
  unfolding client_negotiate_def
  by (rule ends_load [OF begunD(2,3) [OF assms]], rule ends_connect [OF begunD(1) [OF assms] _ begunD(3) [OF assms]],
      assumption, erule ends_work, rule on_player_working, rule negotiate_numbered,
      erule ends_work, rule print_line_working, erule ends_work, rule on_session_working,
      erule ends_persist, erule ends_quiet, rule talk.keep_pure)

lemma ends_try: "Q w \<Longrightarrow> (\<And>x. f w = Inr x \<Longrightarrow> ends (g x) Q w) \<Longrightarrow> ends (act_bind (act_try f) g) Q w"
  by (rule ends_bind) (auto simp: act_run)

lemma ends_get: "ends (g (f w)) Q w \<Longrightarrow> ends (act_bind (act_get f) g) Q w"
  by (simp add: ends_def act_simps)

lemma compose_specs_same: "compose_specs mine specs w = (Inr orders, w') \<Longrightarrow> w' = w"
  by (induction specs arbitrary: orders)
    (auto simp: act_bind_Inr act_run give_up_def print_error_def sys_exit_def split: option.splits)

lemma prepare_same: "prepare_orders E session msg specs w = (Inr orders, w') \<Longrightarrow> w' = w"
  unfolding prepare_orders_def
  by (auto simp: act_bind_Inr act_run give_up_def print_error_def sys_exit_def Let_def dest: compose_specs_same
      split: option.splits if_splits)

lemma ends_if: "(b \<Longrightarrow> ends m Q w) \<Longrightarrow> (\<not> b \<Longrightarrow> ends m' Q w) \<Longrightarrow> ends (if b then m else m') Q w"
  by simp

lemma ends_save:
  assumes "settled X n w" "sd_session (sh_dir w) = Some s" "k \<noteq> ''last_sequence_number''"
    and "\<And>w'. settled X n w' \<Longrightarrow> ends (f ()) (settled X n) w'"
  shows "ends (act_bind (save_session (AList.update k v s)) f) (settled X n) w"
proof (rule ends_kept)
  show "settled X n (snd (save_session (AList.update k v s) w))" by (rule save_settled) fact+
qed (simp add: assms(4))

lemma receipt_ends:
  assumes "settled X n w" "sd_session (sh_dir w) = Some s"
  shows "ends (show_receipt s receipt) (settled X n) w"
  unfolding show_receipt_def
  by (intro ends_try ends_save [OF assms] assms(1)) (simp, erule ends_quiet, rule quiet_prints)

lemma ends_prepare:
  assumes "settled X n w" "\<And>orders. ends (f orders) (settled X n) w"
  shows "ends (act_bind (prepare_orders E s msg specs) f) (settled X n) w"
proof (rule ends_bind)
  show "settled X n w'" if "prepare_orders E s msg specs w = (Inl e, w')" for e w'
    using settled_quiet [OF assms(1) prepare_quiet [of w E s msg specs]] that by simp
  show "ends (f orders) (settled X n) w'" if "prepare_orders E s msg specs w = (Inr orders, w')" for orders w'
    using prepare_same [OF that] assms(2) by simp
qed

lemma submit_ends:
  assumes "open_work (env_externals E) n w"
  shows "ends (act_bind (on_player (submit_orders E orders revision)) (\<lambda>_.
     act_bind (on_player (poll_until (env_externals E) enough receipts)) (\<lambda>_.
     act_bind (persist s) (\<lambda>s'.
     act_bind (act_get (\<lambda>w. pc_order_receipts (sh_player w))) (\<lambda>rs.
     if rs = [] then give_up t else show_receipt s' (last rs)))))) (settled (env_externals E) n) w"
  by (rule ends_work [OF assms], rule on_player_working, rule requests_numbered, erule ends_work, rule on_player_working,
      rule poll_until_numbered, erule ends_persist, rule ends_get, rule ends_if, erule ends_quiet, rule quiet_prints,
      erule (1) receipt_ends)

lemma order_ends:
  assumes "begun n w"
  shows "ends (client_order E d m revision specs batches receipts) (settled (env_externals E) n) w"
  unfolding client_order_def
  by (rule ends_load [OF begunD(2,3) [OF assms]], rule ends_fetch [OF begunD(1) [OF assms] _ begunD(3) [OF assms]],
      assumption, rule ends_get, rule ends_if, erule ends_quiet, rule quiet_prints, erule ends_prepare, erule submit_ends)

lemma history_ends:
  assumes "begun n w"
  shows "ends (client_history E d m batches) (settled (env_externals E) n) w"
  unfolding client_history_def
  by (rule ends_load [OF begunD(2,3) [OF assms]], rule ends_connect [OF begunD(1) [OF assms] _ begunD(3) [OF assms]],
      assumption, erule ends_work, rule on_session_working, erule ends_persist, erule ends_quiet,
      intro talk.keeps print_log_quiet)

lemma draw_ends:
  assumes "begun n w"
  shows "ends (client_draw E d m action trn batches) (settled (env_externals E) n) w"
proof -
  have "numbered (env_externals E) c (snd ((case action of Propose \<Rightarrow> propose_draw E trn | Vote v \<Rightarrow> vote_draw E trn v) c))" for c
    by (cases action) (simp_all add: requests_numbered)
  note request = on_player_working [OF this]
  show ?thesis
    unfolding client_draw_def
    by (rule ends_load [OF begunD(2,3) [OF assms]], rule ends_connect [OF begunD(1) [OF assms] _ begunD(3) [OF assms]],
        assumption, erule ends_work, rule request, erule ends_work, rule on_session_working, erule ends_persist,
        erule ends_quiet, intro talk.keeps quiet_prints)
qed

lemma begun_settled: "begun n w \<Longrightarrow> settled X n w"
  using settled_start by (auto simp: begun_def)

lemma orders_ends:
  assumes "begun n w"
  shows "ends (client_orders d m) (settled X n) w"
  unfolding client_orders_def
  apply (rule ends_load [OF begunD(2,3) [OF assms]], rule ends_quiet [OF begun_settled [OF assms]])
  subgoal for session
    by (cases "dict_get session ''last_order_receipt'' CNone")
      (simp_all del: append.simps add: talk.keep_pure talk.keep_bind quiet_prints)
  done

lemma anchor_ends:
  assumes "begun n w" "sd_session (sh_dir w) = Some session" "\<And>w'. settled (env_externals E) n w' \<Longrightarrow> ends (f ()) (settled (env_externals E) n) w'"
  shows "ends (act_bind (anchor E m session batches) f) (settled (env_externals E) n) w"
proof (cases "''match_start'' \<in> set (map fst session)")
  case True
  then show ?thesis using assms(3) [OF begun_settled [OF assms(1)]] by (simp add: anchor_def ends_def act_simps)
next
  case False
  let ?X = "env_externals E"
  have rest: "ends (act_bind (case start of None \<Rightarrow> act_return () | Some msg \<Rightarrow>
      act_bind (act_try (\<lambda>_. match_start_to_record msg)) (\<lambda>r. save_session (AList.update ''match_start'' (CDict r) s))) f)
      (settled ?X n) w1"
    if "settled ?X n w1" "sd_session (sh_dir w1) = Some s" for start s w1
  proof (rule ends_kept)
    show "settled ?X n (snd ((case start of None \<Rightarrow> act_return () | Some msg \<Rightarrow>
      act_bind (act_try (\<lambda>_. match_start_to_record msg)) (\<lambda>r. save_session (AList.update ''match_start'' (CDict r) s))) w1))"
      using that save_settled [OF that]
      by (cases start) (auto simp: act_run act_bind_def split: prod.split sum.split)
  qed (simp add: assms(3))
  have "act_bind (anchor E m session batches) f = act_bind (fetch E m session batches) (\<lambda>s.
      act_bind (act_get (\<lambda>w. pc_match_start (sh_player w))) (\<lambda>start.
      act_bind (case start of None \<Rightarrow> act_return () | Some msg \<Rightarrow>
        act_bind (act_try (\<lambda>_. match_start_to_record msg)) (\<lambda>r. save_session (AList.update ''match_start'' (CDict r) s))) f))"
    using False by (auto simp: anchor_def act_bind_def act_run fun_eq_iff split: prod.split sum.split option.split)
  then show ?thesis
    using ends_fetch [OF begunD(1) [OF assms(1)] assms(2) begunD(3) [OF assms(1)], of E "\<lambda>s.
      act_bind (act_get (\<lambda>w. pc_match_start (sh_player w))) (\<lambda>start.
      act_bind (case start of None \<Rightarrow> act_return () | Some msg \<Rightarrow>
        act_bind (act_try (\<lambda>_. match_start_to_record msg)) (\<lambda>r. save_session (AList.update ''match_start'' (CDict r) s))) f)",
      OF ends_get, OF rest]
    by simp
qed

lemma verify_ends:
  assumes "begun n w"
  shows "ends (client_verify E d m batches) (settled (env_externals E) n) w"
  unfolding client_verify_def
  by (rule ends_load [OF begunD(2,3) [OF assms]], rule anchor_ends [OF assms], assumption, erule ends_quiet,
      intro talk.keeps talk.keep_for quiet_prints)

section \<open>Beginning a session\<close>

definition is_join :: "process \<Rightarrow> bool" where
  "is_join p \<longleftrightarrow> (case pr_command p of JoinCommand _ _ _ \<Rightarrow> True | _ \<Rightarrow> False)"

lemma discover_quiet: "quiet w (snd (client_discover coordinator seconds announcements w))"
  unfolding client_discover_def by (intro talk.keeps quiet_prints)

lemma process_settled:
  assumes "run_client d m p w = (r, w')" "completed r w'" "\<not> is_join p"
  shows "settled (env_externals (pr_environment p)) (session_number (sh_dir w)) w'"
proof -
  let ?w = "w\<lparr>sh_player := no_client, con_exit := None\<rparr>" and ?n = "session_number (sh_dir w)"
  have begun: "begun ?n ?w" by (simp add: begun_def no_client_def new_player_def)
  note ends = begun [THEN status_ends] begun [THEN negotiate_ends] begun [THEN order_ends] begun [THEN orders_ends]
    begun [THEN verify_ends] begun [THEN history_ends] begun [THEN draw_ends]
  have "ends (dispatch_session d m p c) (settled (env_externals (pr_environment p)) ?n) ?w" for c
    unfolding dispatch_session_def by (cases c) (simp_all add: ends)
  moreover have "ends (client_discover c t as) (settled (env_externals (pr_environment p)) ?n) ?w" for c t as
    by (rule ends_quiet [OF begun_settled [OF begun]]) (rule discover_quiet)
  ultimately have "ends (dispatch_command d m p) (settled (env_externals (pr_environment p)) ?n) ?w"
    using assms(3) unfolding dispatch_command_def by (cases "pr_command p") (simp_all add: is_join_def)
  then show ?thesis using assms by (simp add: ends_def run_client_def)
qed

text \<open>Without a session no command sends anything, except \<open>join\<close>.\<close>

lemma no_session:
  assumes "sd_session (sh_dir w) = None"
  shows "quiet w (snd (act_bind (load_session data_dir m) f w))"
proof -
  have "quiet w (snd (load_session data_dir m w))"
    unfolding load_session_def by (intro talk.keeps quiet_prints)
  moreover have "fst (load_session data_dir m w) \<noteq> Inr x" for x
    using assms by (auto simp: load_session_def act_bind_def act_run give_up_def sys_exit_def print_error_def split: prod.splits sum.splits)
  ultimately show ?thesis by (cases "load_session data_dir m w"; cases "fst (load_session data_dir m w)") (auto simp: act_bind_def)
qed

lemma process_without_session:
  assumes "run_client d m p w = (r, w')" "sd_session (sh_dir w) = None" "\<not> is_join p"
  shows "pc_sent (sh_player w') = []" "sd_session (sh_dir w') = None"
proof -
  let ?w = "w\<lparr>sh_player := no_client, con_exit := None\<rparr>"
  have "sd_session (sh_dir ?w) = None" using assms(2) by simp
  note quiet = no_session [OF this]
  have "quiet ?w (snd (dispatch_session d m p c ?w))" for c
    unfolding dispatch_session_def
    by (cases c) (simp_all only: session_command.case client_status_def client_negotiate_def client_order_def
        client_orders_def client_verify_def client_history_def client_draw_def quiet)
  then have "quiet ?w (snd (dispatch_command d m p ?w))"
    using assms(3) discover_quiet by (auto simp: dispatch_command_def is_join_def split: client_command.splits)
  then show "pc_sent (sh_player w') = []" "sd_session (sh_dir w') = None"
    using assms(1,2) by (simp_all add: run_client_def quiet_def no_client_def new_player_def)
qed

text \<open>\<open>join\<close> numbers its messages from 1 on and leaves either a session with the last number or none.\<close>

definition unjoined :: "externals \<Rightarrow> shell \<Rightarrow> bool" where
  "unjoined X w \<longleftrightarrow> sd_session (sh_dir w) = None \<and>
     (\<exists>qs. list_all2 (has_number X) qs (pc_sent (sh_player w)) \<and> sorted_wrt (<) (0 # qs))"

definition joined_or_not :: "externals \<Rightarrow> shell \<Rightarrow> bool" where
  "joined_or_not X w \<longleftrightarrow> settled X 0 w \<or> unjoined X w"

lemma joining_unjoined: "open_work X 0 w \<Longrightarrow> sd_session (sh_dir w) = None \<Longrightarrow> unjoined X w"
  by (auto simp: open_work_def unjoined_def numbered_def)

lemma unjoined_quiet: "unjoined X w \<Longrightarrow> quiet w w' \<Longrightarrow> unjoined X w'"
  by (simp add: unjoined_def quiet_def)

definition joining :: "externals \<Rightarrow> shell \<Rightarrow> bool" where
  "joining X w \<longleftrightarrow> open_work X 0 w \<and> sd_session (sh_dir w) = None"

lemma ends_joining:
  assumes "joining X w" "working X w (snd (m w))"
    and "\<And>x w'. m w = (Inr x, w') \<Longrightarrow> joining X w' \<Longrightarrow> ends (f x) Q w'"
  shows "ends (act_bind m f) Q w"
proof (rule ends_work [of X 0])
  fix x w' assume "m w = (Inr x, w')" "open_work X 0 w'"
  with assms show "ends (f x) Q w'" by (simp add: joining_def working_def)
qed (use assms in \<open>simp_all add: joining_def\<close>)

lemma join_fails: "joining X w \<Longrightarrow> ends (give_up t) (joined_or_not X) w"
  using unjoined_quiet [OF joining_unjoined, of X w] quiet_prints(4) [of w t]
  by (auto simp: joining_def joined_or_not_def ends_def)

lemma join_succeeds:
  assumes "joining X w" "\<And>w'. settled X 0 w' \<Longrightarrow> ends (f ()) (joined_or_not X) w'"
    and "dict_get session ''last_sequence_number'' (CInt 0) = CInt (pc_sequence (sh_player w))"
  shows "ends (act_bind (save_session session) f) (joined_or_not X) w"
proof (rule ends_bind)
  have exit: "con_exit w = None" and work: "open_work X 0 w" using assms(1) by (simp_all add: joining_def open_work_def)
  show "joined_or_not X w'" if "save_session session w = (Inl e, w')" "con_exit w' \<noteq> None" for e w'
    using that exit by (auto simp: save_session_def act_write_def split: if_splits)
  show "ends (f x) (joined_or_not X) w'" if "save_session session w = (Inr x, w')" for x w'
  proof -
    have w': "w' = w\<lparr>sh_dir := (sh_dir w)\<lparr>sd_session := Some session\<rparr>\<rparr>"
      using that by (auto simp: save_session_def act_write_Inr split: if_splits)
    have "open_work X 0 w'" "session_number (sh_dir w') = pc_sequence (sh_player w')"
      using work assms(3) by (simp_all add: w' open_work_def session_number_def)
    from assms(2) [OF open_settled [OF this]] show ?thesis by simp
  qed
qed

lemma join_ends:
  assumes "con_exit w = None" "sd_session (sh_dir w) = None"
  shows "ends (client_join E m coordinator pub name new_key batches) (joined_or_not (env_externals E)) w"
proof -
  let ?X = "env_externals E"
  have asks: "ends (act_bind (on_player (player_join E name)) (\<lambda>_.
     act_bind (on_player (poll_until ?X enough batches)) (\<lambda>_.
     act_bind (act_get sh_player) (\<lambda>c.
     case pc_join_rejected_reason c of
       Some why \<Rightarrow> give_up (''join rejected: '' @ why)
     | None \<Rightarrow>
         (case pc_faction_name c of
            None \<Rightarrow> give_up ''no response from coordinator (timed out)''
          | Some f \<Rightarrow>
              act_bind (save_session
                [(''coordinator_pub'', CStr pub), (''coordinator_host'', CStr host),
                 (''coordinator_port'', CInt (int port)), (''faction_name'', CStr f),
                 (''match_parameters'', CDict (pc_match_parameters c)),
                 (''last_sequence_number'', CInt (pc_sequence c))]) (\<lambda>_.
              act_bind (act_try (\<lambda>_. repr m)) (\<lambda>m'.
                print_line (''joined match '' @ m' @ '' as '' @ f))))))))
     (joined_or_not ?X) w1" if "joining ?X w1" for enough host port w1
  proof (rule ends_joining [OF that], rule on_player_working, rule join_numbered,
      erule ends_joining, rule on_player_working, rule poll_until_numbered, rule ends_get)
    fix w2 assume w2: "joining ?X w2"
    have told: "ends (act_bind (act_try (\<lambda>_. repr m)) (\<lambda>m'. print_line (g m'))) (joined_or_not ?X) w3"
      if "settled ?X 0 w3" for g w3
      using that settled_quiet [OF that quiet_prints(1)]
      by (auto simp: ends_def act_bind_def act_run joined_or_not_def split: sum.split)
    show "ends (case pc_join_rejected_reason (sh_player w2) of
       Some why \<Rightarrow> give_up (''join rejected: '' @ why)
     | None \<Rightarrow>
         (case pc_faction_name (sh_player w2) of
            None \<Rightarrow> give_up ''no response from coordinator (timed out)''
          | Some f \<Rightarrow>
              act_bind (save_session
                [(''coordinator_pub'', CStr pub), (''coordinator_host'', CStr host),
                 (''coordinator_port'', CInt (int port)), (''faction_name'', CStr f),
                 (''match_parameters'', CDict (pc_match_parameters (sh_player w2))),
                 (''last_sequence_number'', CInt (pc_sequence (sh_player w2)))]) (\<lambda>_.
              act_bind (act_try (\<lambda>_. repr m)) (\<lambda>m'.
                print_line (''joined match '' @ m' @ '' as '' @ f))))) (joined_or_not ?X) w2"
      by (cases "pc_join_rejected_reason (sh_player w2)"; cases "pc_faction_name (sh_player w2)")
        (simp_all del: append.simps add: join_fails [OF w2] join_succeeds [OF w2 told] dict_get_def)
  qed
  have "joining ?X (w'\<lparr>sh_player := join_client key pub m\<rparr>)"
    if "con_exit w' = None" "sd_session (sh_dir w') = None" for key w'
  proof -
    have "pc_sent (join_client key pub m) = []" "pc_sequence (join_client key pub m) = 0"
      by (simp_all add: join_client_def new_player_def)
    with that numbers.R_refl [of ?X "join_client key pub m"] show ?thesis by (auto simp: joining_def open_work_def)
  qed
  note asks = asks [OF this]
  show ?thesis
    unfolding client_join_def
    using assms asks
    by (auto simp: ends_def act_bind_def act_run act_write_def save_identity_def load_identity_def completed_def
        split: option.split sum.split prod.split)
qed

lemma join_settled:
  assumes "run_client d m p w = (r, w')" "completed r w'" "is_join p" "sd_session (sh_dir w) = None"
  shows "joined_or_not (env_externals (pr_environment p)) w'"
proof -
  let ?w = "w\<lparr>sh_player := no_client, con_exit := None\<rparr>"
  have "ends (dispatch_command d m p) (joined_or_not (env_externals (pr_environment p))) ?w"
    using assms(3,4) join_ends [of ?w] by (auto simp: dispatch_command_def is_join_def split: client_command.splits)
  then show ?thesis using assms(1,2) by (simp add: ends_def run_client_def)
qed

section \<open>A game of commands\<close>

text \<open>One process after another on the same session: the messages they send, whether all of them completed,
  and what they leave behind.\<close>

fun play :: "string \<Rightarrow> string \<Rightarrow> process list \<Rightarrow> shell \<Rightarrow> (string \<times> bytes) list \<times> bool \<times> shell" where
  "play data_dir match_id [] w = ([], True, w)"
| "play data_dir match_id (p # ps) w =
     (let (r, w1) = run_client data_dir match_id p w;
          (sent, all_completed, w2) = play data_dir match_id ps w1
      in (pc_sent (sh_player w1) @ sent, completed r w1 \<and> all_completed, w2))"

lemma play_Cons:
  assumes "play d m (p # ps) w = (sent, True, w')"
  obtains r w1 rest where "run_client d m p w = (r, w1)" "completed r w1" "play d m ps w1 = (rest, True, w')"
    "sent = pc_sent (sh_player w1) @ rest"
  using assms by (auto split: prod.splits)

lemma play_silent:
  assumes "play d m ps w = (sent, True, w')" "\<forall>p\<in>set ps. \<not> is_join p" "sd_session (sh_dir w) = None"
  shows "sent = []"
  using assms
proof (induction ps arbitrary: w sent)
  case (Cons p ps)
  from Cons.prems(1) obtain r w1 rest where "run_client d m p w = (r, w1)" "play d m ps w1 = (rest, True, w')"
    "sent = pc_sent (sh_player w1) @ rest" by (rule play_Cons)
  with process_without_session [of d m p w r w1] Cons.IH [of w1 rest] Cons.prems(2,3) show ?case by simp
qed simp

lemma play_in_session:
  assumes "play d m ps w = (sent, True, w')" "\<forall>p\<in>set ps. \<not> is_join p"
    and "\<forall>p\<in>set ps. env_externals (pr_environment p) = X"
  shows "\<exists>qs. list_all2 (has_number X) qs sent \<and> sorted_wrt (<) (session_number (sh_dir w) # qs)"
  using assms
proof (induction ps arbitrary: w sent)
  case Nil
  then show ?case by (intro exI [of _ "[]"]) simp
next
  case (Cons p ps)
  from Cons.prems(1) obtain r w1 rest where run: "run_client d m p w = (r, w1)" "completed r w1"
    and rest: "play d m ps w1 = (rest, True, w')" "sent = pc_sent (sh_player w1) @ rest" by (rule play_Cons)
  let ?n = "session_number (sh_dir w)" and ?n1 = "session_number (sh_dir w1)"
  obtain q1 where q1: "list_all2 (has_number X) q1 (pc_sent (sh_player w1))" "sorted_wrt (<) q1"
    "\<forall>q\<in>set q1. ?n < q \<and> q \<le> ?n1" "?n \<le> ?n1"
    using process_settled [OF run] Cons.prems(2,3) by (auto simp: settled_def)
  obtain q2 where q2: "list_all2 (has_number X) q2 rest" "sorted_wrt (<) (?n1 # q2)"
    using Cons.IH [OF rest(1)] Cons.prems(2,3) by auto
  have "sorted_wrt (<) (?n # q1 @ q2)" using q1(2-4) q2(2) by (force simp: sorted_wrt_append)
  then show ?case using q1(1) q2(1) rest(2) by (intro exI [of _ "q1 @ q2"]) (simp add: list_all2_appendI)
qed

text \<open>C17: A player's messages never look like replays: over any sequence of commands that each come to their
  own end, in separate processes and with whatever the network brings, the sequence numbers of all the
  messages they send are strictly increasing and larger than the number in the session file at the beginning.
  The commands are any of the client's, as long as \<open>join\<close> is among them at most once, and only when there is
  no session yet: it always begins at number 1 (\<open>join_begins_at_one\<close>), so a second one would repeat it.\<close>

theorem numbers_never_repeat:
  assumes "play data_dir m ps w = (sent, True, w')" and "\<And>p. p \<in> set ps \<Longrightarrow> env_externals (pr_environment p) = X"
    and "length (filter is_join ps) \<le> 1" and "filter is_join ps \<noteq> [] \<Longrightarrow> sd_session (sh_dir w) = None"
  shows "\<exists>qs. list_all2 (has_number X) qs sent \<and> sorted_wrt (<) (session_number (sh_dir w) # qs)"
  using assms
proof (induction ps arbitrary: w sent)
  case Nil
  then show ?case by (intro exI [of _ "[]"]) simp
next
  case (Cons p ps)
  from Cons.prems(1) obtain r w1 rest where run: "run_client data_dir m p w = (r, w1)" "completed r w1"
    and rest: "play data_dir m ps w1 = (rest, True, w')" "sent = pc_sent (sh_player w1) @ rest" by (rule play_Cons)
  have X: "env_externals (pr_environment p) = X" "\<forall>q\<in>set ps. env_externals (pr_environment q) = X"
    using Cons.prems(2) by simp_all
  have none: "session_number (sh_dir w) = 0" if "sd_session (sh_dir w) = None" using that by (simp add: session_number_def)
  show ?case
  proof (cases "filter is_join (p # ps) = []")
    case True
    then have "\<forall>q\<in>set (p # ps). \<not> is_join q" by (simp add: filter_empty_conv split: if_splits)
    from play_in_session [OF Cons.prems(1) this] X show ?thesis by simp
  next
    case False
    with Cons.prems(4) have fresh: "sd_session (sh_dir w) = None" by simp
    show ?thesis
    proof (cases "is_join p")
      case True
      with Cons.prems(3) have others: "\<forall>q\<in>set ps. \<not> is_join q" by (simp add: filter_empty_conv)
      from join_settled [OF run True fresh] consider "settled X 0 w1" | "unjoined X w1"
        by (auto simp: joined_or_not_def X(1))
      then show ?thesis
      proof cases
        case 1
        obtain q2 where q2: "list_all2 (has_number X) q2 rest" "sorted_wrt (<) (session_number (sh_dir w1) # q2)"
          using play_in_session [OF rest(1) others X(2)] by blast
        from 1 obtain q1 where q1: "list_all2 (has_number X) q1 (pc_sent (sh_player w1))" "sorted_wrt (<) q1"
          "\<forall>q\<in>set q1. 0 < q \<and> q \<le> session_number (sh_dir w1)" "0 \<le> session_number (sh_dir w1)"
          by (auto simp: settled_def)
        have "sorted_wrt (<) (0 # q1 @ q2)" using q1(2-4) q2(2) by (force simp: sorted_wrt_append)
        then show ?thesis using q1(1) q2(1) rest(2) none [OF fresh]
          by (intro exI [of _ "q1 @ q2"]) (simp add: list_all2_appendI)
      next
        case 2
        then have "rest = []" using play_silent [OF rest(1) others] by (simp add: unjoined_def)
        with 2 rest(2) none [OF fresh] show ?thesis by (auto simp: unjoined_def)
      qed
    next
      case False
      note silent = process_without_session [OF run(1) fresh False]
      have "\<exists>qs. list_all2 (has_number X) qs rest \<and> sorted_wrt (<) (session_number (sh_dir w1) # qs)"
        by (rule Cons.IH [OF rest(1)]) (use Cons.prems(2,3) False silent in auto)
      then show ?thesis using silent rest(2) none [OF fresh] by (simp add: session_number_def)
    qed
  qed
qed

lemma proposal_encodes:
  assumes "q = 4 \<or> q = 5"
  shows "\<exists>b. encode_message reference (mk_message DRAW_PROPOSE q 1
    [(''match_id'', VRaw (CStr ''m'')), (''turn'', VRaw (CInt 1))]) = Inr b"
proof -
  let ?msg = "mk_message DRAW_PROPOSE q 1 [(''match_id'', VRaw (CStr ''m'')), (''turn'', VRaw (CInt 1))]"
  have "canonicalize (py_message ?msg) = CDict
     [(''match_id'', CStr ''m''), (''message_type'', CStr ''DRAW_PROPOSE''), (''protocol_version'', CInt 1),
      (''sequence_number'', CInt q), (''timestamp'', CFloat 1), (''turn'', CInt 1)]"
    by (simp add: py_message_def mk_message_def PROTOCOL_VERSION_def)
  moreover have "length (utf8_encode s) = length s" for s by (simp add: utf8_encode_def)
  ultimately have "length (enc (canonicalize (py_message ?msg))) \<le> MAX_MESSAGE_SIZE"
    using assms by (auto simp: enc_bytes_def enc_nat_def enc_int_def MAX_MESSAGE_SIZE_def)
  then show ?thesis by (simp add: encode_message_def reference_def)
qed

definition proposal :: process where
  "proposal = \<lparr>pr_environment = quiet_environment, pr_command = SessionCommand (DrawCommand Propose 1), pr_batches = [[]],
     pr_receipt_batches = [], pr_announcements = [], pr_new_key = [], pr_time = 0\<rparr>"

definition at_number :: "int \<Rightarrow> shell \<Rightarrow> bool" where
  "at_number n w \<longleftrightarrow> sh_identity w = Some [1] \<and> sh_dir w = new_dir\<lparr>sd_session :=
     Some [(''coordinator_host'', CStr ''h''), (''coordinator_port'', CInt 1), (''coordinator_pub'', CStr ''07''),
       (''last_sequence_number'', CInt n)]\<rparr>"

lemma propose_once:
  assumes "at_number n w" "n = 3 \<or> n = 4"
  shows "\<exists>data w'. run_client ''d'' ''m'' proposal w = (Inr (), w') \<and> pc_sent (sh_player w') = [(''07'', data)] \<and>
    at_number (n + 1) w'"
proof -
  obtain b where "encode_message reference (mk_message DRAW_PROPOSE (n + 1) 1
      [(''match_id'', VRaw (CStr ''m'')), (''turn'', VRaw (CInt 1))]) = Inr b"
    using proposal_encodes [of "n + 1"] assms(2) by auto
  then show ?thesis
    using assms(1)
    by (simp add: run_client_def dispatch_command_def dispatch_session_def proposal_def client_draw_def load_session_def at_number_def
        connect_session_def load_identity_def connect_def str_item_def lookup_or_raise_def propose_draw_def to_coordinator_def stamped_def
        player_next_sequence_def player_now_def player_send_def player_transport_send_def match_field_def new_player_def
        on_player_def on_session_def act_zoom_def poll_and_log_def logged_hashes_def persist_def persist_sequence_def
        print_line_def act_bind_def act_run act_write_def dict_get_def new_dir_def quiet_environment_def)
qed

theorem numbers_never_repeat_witness:
  "\<exists>a b w' qs. play ''d'' ''m'' [proposal, proposal] \<lparr>con_out = [], con_err = [], con_exit = None, sh_identity = Some [1],
       sh_dir = new_dir\<lparr>sd_session := Some [(''coordinator_host'', CStr ''h''), (''coordinator_port'', CInt 1),
         (''coordinator_pub'', CStr ''07''), (''last_sequence_number'', CInt 3)]\<rparr>, sh_player = no_client\<rparr> =
       ([(''07'', a), (''07'', b)], True, w') \<and>
     list_all2 (has_number reference) qs [(''07'', a), (''07'', b)] \<and> sorted_wrt (<) (3 # qs)"
proof -
  let ?w = "\<lparr>con_out = [], con_err = [], con_exit = None, sh_identity = Some [1],
       sh_dir = new_dir\<lparr>sd_session := Some [(''coordinator_host'', CStr ''h''), (''coordinator_port'', CInt 1),
         (''coordinator_pub'', CStr ''07''), (''last_sequence_number'', CInt 3)]\<rparr>, sh_player = no_client\<rparr>"
  have "at_number 3 ?w" by (simp add: at_number_def)
  then obtain a w1 where 1: "run_client ''d'' ''m'' proposal ?w = (Inr (), w1)" "pc_sent (sh_player w1) = [(''07'', a)]"
    "at_number 4 w1" using propose_once [of 3 ?w] by auto
  then obtain b w2 where 2: "run_client ''d'' ''m'' proposal w1 = (Inr (), w2)" "pc_sent (sh_player w2) = [(''07'', b)]"
    using propose_once [of 4 w1] by auto
  have run: "play ''d'' ''m'' [proposal, proposal] ?w = ([(''07'', a), (''07'', b)], True, w2)"
    by (simp add: 1 2 completed_def)
  have "env_externals (pr_environment p) = reference" if "p \<in> set [proposal, proposal]" for p
    using that by (simp add: proposal_def quiet_environment_def)
  moreover have "filter is_join [proposal, proposal] = []" by (simp add: is_join_def proposal_def)
  ultimately obtain qs where "list_all2 (has_number reference) qs [(''07'', a), (''07'', b)]" "sorted_wrt (<) (session_number (sh_dir ?w) # qs)"
    using numbers_never_repeat [OF run, of reference] by auto
  moreover have "session_number (sh_dir ?w) = 3" by (simp add: session_number_def dict_get_def)
  ultimately show ?thesis using run by auto
qed

section \<open>Where a number is used twice, and where a receipt is taken for another\<close>

text \<open>\<open>join\<close> takes no notice of an earlier session: the request it sends has number 1.\<close>

lemma join_begins_at_one:
  "pc_sent (snd (player_join E name (join_client key pub m))) = [] \<or>
   (\<exists>data. pc_sent (snd (player_join E name (join_client key pub m))) = [(pub, data)] \<and>
      has_number (env_externals E) 1 (pub, data))"
  by (auto simp: player_join_def to_coordinator_def stamped_def player_next_sequence_def player_now_def player_send_def
      player_transport_send_def join_client_def new_player_def act_bind_def act_run has_number_def split: sum.split option.split)

text \<open>An exception in the polling loop, which one unreadable message from anybody causes, ends the process
  before the number is written: the message is sent, the session still holds the old number, and the next
  command sends its message under the same one.\<close>

lemma failed_poll_keeps_number:
  assumes "sd_session (sh_dir w) = Some session" "sh_identity w = Some key" "connect key m session = Inr c"
    and "request_state E None c = (Inr (), c')" "logged_hashes (sd_results (sh_dir w)) = Inr seen"
    and "read_message (env_externals E) (im_data i) = Inl e" "\<not> is_malformed e"
  shows "\<exists>w'. client_status E d m ((i # rest) # batches) t w = (Inl e, w') \<and> sh_dir w' = sh_dir w \<and>
    pc_sent (sh_player w') = pc_sent c'"
  using assms
  by (simp add: client_status_def fetch_def load_session_def connect_session_def load_identity_def on_player_def on_session_def act_zoom_def
      poll_and_log_def act_bind_def act_run act_write_def)

text \<open>A receipt that was already there, from an earlier submission, ends the wait of \<open>order\<close> at once.\<close>

lemma earlier_receipt_ends_wait:
  assumes "pc_order_receipts c \<noteq> []"
  shows "poll_until X (\<lambda>c. pc_order_receipts c \<noteq> []) batches c = (Inr (), c)"
  using assms by (cases batches) (simp_all add: act_simps)

end
