(* ===== verification/Arguments.thy ===== *)
theory Arguments
  imports Terminal
begin

text \<open>
  What the two command lines use of \<^verbatim>\<open>argparse\<close>: a parser is a table of options and of subcommands, each with
  its positional arguments and options, and parsing goes through the arguments from left to right. An
  option can be written with its value behind \<open>=\<close> and be abbreviated to a prefix that no other option has;
  an argument is a value, and not an option, when it does not begin with a dash, looks like a negative
  number or contains a space. The texts of usage and help are left out. The model stops at the argument
  \<open>--\<close>, at a flag \<open>-h\<close> with something behind it, at characters beyond ASCII in an argument that is read as a
  number or begins with a dash, and at numbers with underscores, exponents or names.
\<close>

section \<open>Results\<close>

text \<open>\<open>HelpShown\<close> is the exit with status 0 of \<open>--help\<close>, \<open>UsageError\<close> the one with status 2 of \<open>parser.error\<close>.\<close>

datatype 'a parsed = Parsed 'a | HelpShown | UsageError | BeyondModel

fun bind_parsed :: "'a parsed \<Rightarrow> ('a \<Rightarrow> 'b parsed) \<Rightarrow> 'b parsed" where
  "bind_parsed (Parsed x) f = f x"
| "bind_parsed HelpShown f = HelpShown"
| "bind_parsed UsageError f = UsageError"
| "bind_parsed BeyondModel f = BeyondModel"

section \<open>Parsers\<close>

datatype conversion = Text | Integer | Number

datatype arg_value = ANone | AText string | AInt int | ANumber rat | AList "string list"

record option_spec =
  op_flag :: string
  op_dest :: string
  op_conversion :: conversion
  op_choices :: "string list option"
  op_required :: bool
  op_append :: bool
  op_default :: arg_value

record positional =
  ps_dest :: string
  ps_choices :: "string list option"

record subcommand =
  sc_name :: string
  sc_positionals :: "positional list"
  sc_options :: "option_spec list"

record parser =
  pr_options :: "option_spec list"
  pr_commands :: "subcommand list"

text \<open>\<open>add_argument\<close> with the keywords that the program gives.\<close>

definition add_option :: "string \<Rightarrow> string \<Rightarrow> option_spec" where
  "add_option flag dest = \<lparr>op_flag = flag, op_dest = dest, op_conversion = Text, op_choices = None, op_required = False,
     op_append = False, op_default = ANone\<rparr>"

definition required_option :: "string \<Rightarrow> string \<Rightarrow> option_spec" where
  "required_option flag dest = (add_option flag dest)\<lparr>op_required := True\<rparr>"

definition add_positional :: "string \<Rightarrow> positional" where
  "add_positional dest = \<lparr>ps_dest = dest, ps_choices = None\<rparr>"

datatype flag = HelpFlag | OptionFlag option_spec

definition flag_table :: "option_spec list \<Rightarrow> (string \<times> flag) list" where
  "flag_table os = [(''-h'', HelpFlag), (''--help'', HelpFlag)] @ map (\<lambda>opt. (op_flag opt, OptionFlag opt)) os"

section \<open>Arguments and options\<close>

definition negative_number :: "string \<Rightarrow> bool" where
  "negative_number s =
     (let t = tl s;
          u = (if t \<noteq> [] \<and> last t = CHR 0x0A then butlast t else t);
          ds = takeWhile is_digit u;
          rest = dropWhile is_digit u
      in (rest = [] \<and> ds \<noteq> []) \<or> (rest \<noteq> [] \<and> hd rest = CHR ''.'' \<and> tl rest \<noteq> [] \<and> list_all is_digit (tl rest)))"

datatype arg_class = Value | FlagArg flag "string option" | AmbiguousFlag | UnknownFlag | OutsideModel

definition before_equals :: "string \<Rightarrow> string" where
  "before_equals s = takeWhile (\<lambda>c. c \<noteq> CHR ''='') s"

definition after_equals :: "string \<Rightarrow> string option" where
  "after_equals s = (if CHR ''='' \<in> set s then Some (tl (dropWhile (\<lambda>c. c \<noteq> CHR ''='') s)) else None)"

definition abbreviated :: "(string \<times> flag) list \<Rightarrow> string \<Rightarrow> (string \<times> flag) list" where
  "abbreviated table s = filter (\<lambda>(name, _). take (length s) name = s) table"

definition classify :: "(string \<times> flag) list \<Rightarrow> string \<Rightarrow> arg_class" where
  "classify table s =
     (if s = [] \<or> hd s \<noteq> CHR ''-'' then Value
      else
        case map_of table s of
          Some f \<Rightarrow> FlagArg f None
        | None \<Rightarrow>
            if length s = 1 then Value
            else if s = ''--'' \<or> take 2 s = ''-h'' \<or> \<not> list_all (\<lambda>c. (of_char c :: nat) < 128) s then OutsideModel
            else
              (case (if after_equals s = None then None else map_of table (before_equals s)) of
                 Some f \<Rightarrow> FlagArg f (after_equals s)
               | None \<Rightarrow>
                   (case if take 2 s = ''--'' then abbreviated table (before_equals s) else [] of
                      [(_, f)] \<Rightarrow> FlagArg f (after_equals s)
                    | _ # _ \<Rightarrow> AmbiguousFlag
                    | [] \<Rightarrow> if negative_number s \<or> CHR '' '' \<in> set s then Value else UnknownFlag)))"

section \<open>Values\<close>

definition strip :: "string \<Rightarrow> string" where
  "strip s = rev (dropWhile is_blank (rev (dropWhile is_blank s)))"

definition unsigned_part :: "string \<Rightarrow> string" where
  "unsigned_part s = (if s \<noteq> [] \<and> hd s \<in> set ''+-'' then tl s else s)"

definition is_negative :: "string \<Rightarrow> bool" where
  "is_negative s \<longleftrightarrow> s \<noteq> [] \<and> hd s = CHR ''-''"

text \<open>\<open>int(s)\<close>: more than 4300 digits are an error.\<close>

definition read_integer :: "string \<Rightarrow> arg_value parsed" where
  "read_integer s =
     (let t = strip s; ds = unsigned_part t in
      if \<not> list_all (\<lambda>c. (of_char c :: nat) < 128) s \<or> CHR ''_'' \<in> set ds then BeyondModel
      else if ds = [] \<or> \<not> list_all is_digit ds \<or> 4300 < length ds then UsageError
      else Parsed (AInt (if is_negative t then - int (read_digits 0 ds) else int (read_digits 0 ds))))"

text \<open>\<open>float(s)\<close>, of which the model keeps the exact value.\<close>

definition read_number :: "string \<Rightarrow> arg_value parsed" where
  "read_number s =
     (let t = strip s; u = unsigned_part t;
          ds = takeWhile is_digit u; rest = dropWhile is_digit u;
          fs = (if rest = [] then [] else tl rest)
      in if \<not> list_all (\<lambda>c. (of_char c :: nat) < 128) s \<or> list_ex (\<lambda>c. c \<in> set ''_eEiInN'') u then BeyondModel
         else if (rest \<noteq> [] \<and> hd rest \<noteq> CHR ''.'') \<or> \<not> list_all is_digit fs \<or> ds @ fs = [] then UsageError
         else
           let q = (of_nat (read_digits 0 (ds @ fs)) / 10 ^ length fs :: rat)
           in Parsed (ANumber (if is_negative t then - q else q)))"

fun convert_value :: "conversion \<Rightarrow> string \<Rightarrow> arg_value parsed" where
  "convert_value Text s = Parsed (AText s)"
| "convert_value Integer s = read_integer s"
| "convert_value Number s = read_number s"

definition chosen :: "string list option \<Rightarrow> string \<Rightarrow> bool" where
  "chosen choices s \<longleftrightarrow> (case choices of None \<Rightarrow> True | Some cs \<Rightarrow> s \<in> set cs)"

section \<open>Parsing\<close>

type_synonym namespace = "(string, arg_value) dict"

text \<open>The actions \<open>store\<close> and \<open>append\<close>.\<close>

definition store_option :: "option_spec \<Rightarrow> string \<Rightarrow> namespace \<Rightarrow> namespace parsed" where
  "store_option opt s ns =
     bind_parsed (convert_value (op_conversion opt) s) (\<lambda>v.
     if \<not> chosen (op_choices opt) s then UsageError
     else if op_append opt then
       Parsed (AList.update (op_dest opt)
         (AList ((case map_of ns (op_dest opt) of Some (AList vs) \<Rightarrow> vs | _ \<Rightarrow> []) @ [s])) ns)
     else Parsed (AList.update (op_dest opt) v ns))"

text \<open>The arguments of a subcommand; the flag tells whether some were not recognized. Options that were not
  given keep their defaults.\<close>

definition finish_arguments :: "option_spec list \<Rightarrow> positional list \<Rightarrow> namespace \<Rightarrow> bool \<Rightarrow> (namespace \<times> bool) parsed" where
  "finish_arguments os ps ns extras =
     (if ps \<noteq> [] \<or> list_ex (\<lambda>opt. op_required opt \<and> op_dest opt \<notin> set (map fst ns)) os then UsageError
      else Parsed (ns @ map (\<lambda>opt. (op_dest opt, op_default opt))
        (filter (\<lambda>opt. op_dest opt \<notin> set (map fst ns)) os), extras))"

fun parse_arguments ::
    "option_spec list \<Rightarrow> positional list \<Rightarrow> string list \<Rightarrow> namespace \<Rightarrow> bool \<Rightarrow> (namespace \<times> bool) parsed" where
  "parse_arguments os ps [] ns extras = finish_arguments os ps ns extras"
| "parse_arguments os ps (s # ss) ns extras =
     (case classify (flag_table os) s of
        OutsideModel \<Rightarrow> BeyondModel
      | AmbiguousFlag \<Rightarrow> UsageError
      | UnknownFlag \<Rightarrow> parse_arguments os ps ss ns True
      | Value \<Rightarrow>
          (case ps of
             [] \<Rightarrow> parse_arguments os [] ss ns True
           | p # ps' \<Rightarrow>
               if chosen (ps_choices p) s then parse_arguments os ps' ss (AList.update (ps_dest p) (AText s) ns) extras
               else UsageError)
      | FlagArg HelpFlag None \<Rightarrow> HelpShown
      | FlagArg HelpFlag (Some _) \<Rightarrow> UsageError
      | FlagArg (OptionFlag opt) (Some v) \<Rightarrow>
          bind_parsed (store_option opt v ns) (\<lambda>ns'. parse_arguments os ps ss ns' extras)
      | FlagArg (OptionFlag opt) None \<Rightarrow>
          (case ss of
             [] \<Rightarrow> UsageError
           | v # ss' \<Rightarrow>
               (case classify (flag_table os) v of
                  Value \<Rightarrow> bind_parsed (store_option opt v ns) (\<lambda>ns'. parse_arguments os ps ss' ns' extras)
                | OutsideModel \<Rightarrow> BeyondModel
                | _ \<Rightarrow> UsageError)))"

text \<open>The arguments of the program: its own options, then the subcommand, which takes all that follow.\<close>

fun parse_main :: "parser \<Rightarrow> string list \<Rightarrow> namespace \<Rightarrow> bool \<Rightarrow> (string \<times> namespace) parsed" where
  "parse_main P [] ns extras = UsageError"
| "parse_main P (s # ss) ns extras =
     (case classify (flag_table (pr_options P)) s of
        OutsideModel \<Rightarrow> BeyondModel
      | AmbiguousFlag \<Rightarrow> UsageError
      | UnknownFlag \<Rightarrow> parse_main P ss ns True
      | Value \<Rightarrow>
          (case find (\<lambda>c. sc_name c = s) (pr_commands P) of
             None \<Rightarrow> UsageError
           | Some c \<Rightarrow>
               bind_parsed (parse_arguments (sc_options c) (sc_positionals c) ss [] False) (\<lambda>(ns', extras').
               bind_parsed (finish_arguments (pr_options P) [] ns False) (\<lambda>(ns'', _).
               if extras \<or> extras' then UsageError else Parsed (s, ns'' @ ns'))))
      | FlagArg HelpFlag None \<Rightarrow> HelpShown
      | FlagArg HelpFlag (Some _) \<Rightarrow> UsageError
      | FlagArg (OptionFlag opt) (Some v) \<Rightarrow> bind_parsed (store_option opt v ns) (\<lambda>ns'. parse_main P ss ns' extras)
      | FlagArg (OptionFlag opt) None \<Rightarrow>
          (case ss of
             [] \<Rightarrow> UsageError
           | v # ss' \<Rightarrow>
               (case classify (flag_table (pr_options P)) v of
                  Value \<Rightarrow> bind_parsed (store_option opt v ns) (\<lambda>ns'. parse_main P ss' ns' extras)
                | OutsideModel \<Rightarrow> BeyondModel
                | _ \<Rightarrow> UsageError)))"

definition parse_args :: "parser \<Rightarrow> string list \<Rightarrow> (string \<times> namespace) parsed" where
  "parse_args P argv = (if ''--'' \<in> set argv then BeyondModel else parse_main P argv [] False)"

end
