(* ===== verification/Json.thy ===== *)
theory Json
  imports Externals
begin

text \<open>
  The JSON texts that the coordinator's command line writes and \<open>serve\<close> reads (\<^verbatim>\<open>coordinator/server.py\<close>):
  \<open>json.dumps\<close> of a dictionary of strings and \<open>json.loads\<close> of such a text. \<open>json.dumps\<close> escapes every
  character outside printable ASCII; characters beyond ASCII, which become UTF-16 escapes, and other JSON
  texts are where the model stops.
\<close>

section \<open>Strings\<close>

definition quote :: char where "quote = CHR 0x22"
definition backslash :: char where "backslash = CHR 0x5C"

definition is_ascii :: "char \<Rightarrow> bool" where
  "is_ascii c \<longleftrightarrow> (of_char c :: nat) < 128"

text \<open>The short escapes, each with the character it stands for.\<close>

definition short_escapes :: "(char \<times> char) list" where
  "short_escapes =
     [(quote, quote), (backslash, backslash), (CHR 0x0A, CHR ''n''), (CHR 0x0D, CHR ''r''), (CHR 0x09, CHR ''t''),
      (CHR 0x0C, CHR ''f''), (CHR 0x08, CHR ''b'')]"

definition escape :: "char \<Rightarrow> string" where
  "escape c =
     (case map_of short_escapes c of
        Some e \<Rightarrow> [backslash, e]
      | None \<Rightarrow>
          if (32 :: nat) \<le> of_char c \<and> (of_char c :: nat) \<le> 126 then [c]
          else [backslash, CHR ''u'', CHR ''0'', CHR ''0'', hex_digit (of_char c div 16), hex_digit (of_char c)])"

definition unescape :: "char \<Rightarrow> char option" where
  "unescape e = map_of (map (\<lambda>(c, e). (e, c)) short_escapes) e"

fun hex_number :: "nat \<Rightarrow> string \<Rightarrow> nat option" where
  "hex_number n [] = Some n"
| "hex_number n (c # cs) = (case digit_value c of None \<Rightarrow> None | Some d \<Rightarrow> hex_number (16 * n + d) cs)"

text \<open>The rest of a string after its opening quote, and what follows the closing one.\<close>

function parse_chars :: "string \<Rightarrow> (string \<times> string) result" where
  "parse_chars s =
     (case s of
        [] \<Rightarrow> Inl ValueError
      | c # cs \<Rightarrow>
          if c = quote then Inr ([], cs)
          else if c = backslash then
            (case cs of
               [] \<Rightarrow> Inl ValueError
             | e # t \<Rightarrow>
                 if e = CHR ''u'' then
                   (case hex_number 0 (take 4 t) of
                      None \<Rightarrow> Inl ValueError
                    | Some n \<Rightarrow>
                        if length t < 4 then Inl ValueError
                        else if 128 \<le> n then Inl Unmodelled
                        else bind_result (parse_chars (drop 4 t)) (\<lambda>(s, r). Inr (char_of n # s, r)))
                 else
                   (case unescape e of
                      None \<Rightarrow> if e = CHR ''/'' then Inl Unmodelled else Inl ValueError
                    | Some d \<Rightarrow> bind_result (parse_chars t) (\<lambda>(s, r). Inr (d # s, r))))
          else if (of_char c :: nat) < 32 then Inl ValueError
          else bind_result (parse_chars cs) (\<lambda>(s, r). Inr (c # s, r)))"
  by pat_completeness auto
termination
  by (relation "measure length") auto

declare parse_chars.simps [simp del]

section \<open>Objects\<close>

definition json_string :: "string \<Rightarrow> string" where
  "json_string s = [quote] @ concat (map escape s) @ [quote]"

fun json_members :: "(string \<times> string) list \<Rightarrow> string" where
  "json_members [] = ''}''"
| "json_members [(k, v)] = json_string k @ '': '' @ json_string v @ ''}''"
| "json_members ((k, v) # rest) = json_string k @ '': '' @ json_string v @ '', '' @ json_members rest"

definition json_dumps :: "(string, string) dict \<Rightarrow> string result" where
  "json_dumps d =
     (if list_all (\<lambda>(k, v). list_all is_ascii k \<and> list_all is_ascii v) d then Inr (''{'' @ json_members d)
      else Inl Unmodelled)"

definition parse_string :: "string \<Rightarrow> (string \<times> string) result" where
  "parse_string s = (case s of c # cs \<Rightarrow> if c = quote then parse_chars cs else Inl Unmodelled | [] \<Rightarrow> Inl ValueError)"

text \<open>The members after the opening brace, with a bound on their number.\<close>

fun parse_members :: "nat \<Rightarrow> string \<Rightarrow> (string \<times> string) list result" where
  "parse_members 0 s = (if s = ''}'' then Inr [] else Inl Unmodelled)"
| "parse_members (Suc n) s =
     (if s = ''}'' then Inr []
      else
        bind_result (parse_string s) (\<lambda>(k, s1).
        if take 2 s1 \<noteq> '': '' then Inl Unmodelled
        else
          bind_result (parse_string (drop 2 s1)) (\<lambda>(v, s2).
          if s2 = ''}'' then Inr [(k, v)]
          else if take 2 s2 \<noteq> '', '' then Inl Unmodelled
          else bind_result (parse_members n (drop 2 s2)) (\<lambda>rest. Inr ((k, v) # rest)))))"

text \<open>\<open>json.loads\<close>: the members in order, a later one replacing an earlier one of the same key.\<close>

definition json_loads :: "string \<Rightarrow> (string, string) dict result" where
  "json_loads s =
     (case s of
        c # cs \<Rightarrow>
          if c = CHR ''{'' then bind_result (parse_members (length cs) cs) (\<lambda>ms. Inr (dict_comp fst snd ms))
          else Inl Unmodelled
      | [] \<Rightarrow> Inl ValueError)"

section \<open>The round trip\<close>

lemma quote_backslash [simp]: "backslash \<noteq> quote"
  by (simp add: quote_def backslash_def)

lemma parse_escaped:
  assumes "is_ascii c"
  shows "parse_chars (escape c @ t) = bind_result (parse_chars t) (\<lambda>(s, r). Inr (c # s, r))"
proof (cases "map_of short_escapes c")
  case (Some e)
  then have "unescape e = Some c" "e \<noteq> CHR ''u''"
    by (auto simp: short_escapes_def unescape_def quote_def backslash_def split: if_splits)
  with Some show ?thesis by (simp add: escape_def parse_chars.simps [of "backslash # e # t"])
next
  case None
  then have c: "c \<noteq> quote" "c \<noteq> backslash" by (auto simp: short_escapes_def)
  show ?thesis
  proof (cases "(32 :: nat) \<le> of_char c \<and> (of_char c :: nat) \<le> 126")
    case True
    with None c show ?thesis by (simp add: escape_def parse_chars.simps [of "c # t"])
  next
    case False
    let ?n = "of_char c :: nat"
    have n: "?n < 128" using assms by (simp add: is_ascii_def)
    then have "digit_value (hex_digit (?n div 16)) = Some (?n div 16)" "digit_value (hex_digit ?n) = Some (?n mod 16)"
      using digit_value_hex [of "?n div 16"] digit_value_hex [of "?n mod 16"] hex_digit_mod [of ?n] by simp_all
    moreover have "digit_value CHR ''0'' = Some 0" by (simp add: digit_value_def upt_rec)
    moreover have "16 * (?n div 16) + ?n mod 16 = ?n" by simp
    ultimately have "hex_number 0 [CHR ''0'', CHR ''0'', hex_digit (?n div 16), hex_digit ?n] = Some ?n"
      by (simp add: mult.commute)
    moreover have "escape c = [backslash, CHR ''u'', CHR ''0'', CHR ''0'', hex_digit (?n div 16), hex_digit ?n]"
      unfolding escape_def None using False by (simp only: if_False option.case)
    ultimately show ?thesis
      using n by (simp add: parse_chars.simps [of "backslash # CHR ''u'' # _"] del: hex_number.simps)
  qed
qed

lemma parse_json_string:
  assumes "list_all is_ascii s"
  shows "parse_string (json_string s @ r) = Inr (s, r)"
proof -
  have "parse_chars (concat (map escape s) @ quote # r) = Inr (s, r)"
    using assms by (induction s) (simp_all add: parse_chars.simps [of "quote # _"] parse_escaped)
  then show ?thesis by (simp add: parse_string_def json_string_def)
qed

lemma json_string_start: "json_string s @ r \<noteq> ''}''" "take 2 (json_string s) \<noteq> ''}''"
  by (simp_all add: json_string_def quote_def)

lemma parse_json_members:
  assumes "list_all (\<lambda>(k, v). list_all is_ascii k \<and> list_all is_ascii v) d" "length d \<le> n"
  shows "parse_members n (json_members d) = Inr d"
  using assms
proof (induction d arbitrary: n rule: json_members.induct)
  case 1
  then show ?case by (cases n) simp_all
next
  case (2 k v)
  then obtain n' where "n = Suc n'" by (cases n) auto
  with 2 show ?case by (simp add: parse_json_string json_string_start)
next
  case (3 k v x rest)
  then obtain n' where n: "n = Suc n'" by (cases n) auto
  have "parse_members n' (json_members (x # rest)) = Inr (x # rest)" by (rule "3.IH") (use "3.prems" n in auto)
  with 3(2) n show ?case by (simp add: parse_json_string json_string_start)
qed

lemma length_json_members: "length d < length (json_members d)"
  by (induction d rule: json_members.induct) (simp_all add: json_string_def)

text \<open>A payload is read back as it was written.\<close>

lemma json_roundtrip:
  assumes "json_dumps d = Inr s" "dict_ok d"
  shows "json_loads s = Inr d"
proof -
  have d: "list_all (\<lambda>(k, v). list_all is_ascii k \<and> list_all is_ascii v) d" "s = ''{'' @ json_members d"
    using assms(1) by (auto simp: json_dumps_def split: if_splits)
  have "parse_members (length (json_members d)) (json_members d) = Inr d"
    by (rule parse_json_members [OF d(1)]) (use length_json_members [of d] in simp)
  moreover have "dict_comp fst snd d = d" using assms(2) by (simp add: dict_comp_distinct dict_ok_def)
  ultimately show ?thesis by (simp add: json_loads_def d(2))
qed

end
