(* ===== verification/Server.thy ===== *)
theory Server
  imports Match_History Json
begin

text \<open>
  The operator's side of \<^verbatim>\<open>coordinator/server.py\<close>: a command is a row of the table \<open>admin_commands\<close> with
  a JSON payload; one process writes it and waits, the \<open>serve\<close> process reads it between two polls,
  executes it on its \<open>MatchCoordinator\<close> and marks it. The commands as the operator runs them are in
  \<^verbatim>\<open>Server_Commands\<close>.
\<close>

section \<open>Asking\<close>

text \<open>The payloads of \<open>cmd_start\<close>, \<open>cmd_advance_phase\<close>, \<open>cmd_pause\<close>, \<open>cmd_resume\<close> and \<open>cmd_end\<close>.\<close>

datatype command = CmdStart | CmdAdvancePhase | CmdPause | CmdResume | CmdEnd string

fun command_name :: "command \<Rightarrow> string" where
  "command_name CmdStart = ''start''"
| "command_name CmdAdvancePhase = ''advance-phase''"
| "command_name CmdPause = ''pause''"
| "command_name CmdResume = ''resume''"
| "command_name (CmdEnd _) = ''end''"

fun command_payload :: "command \<Rightarrow> (string, string) dict" where
  "command_payload (CmdEnd reason) = [(''reason'', reason)]"
| "command_payload _ = []"

text \<open>\<open>_enqueue_and_wait\<close>: the row it writes, and what it reports after reading the store at some later
  times, before its deadline.\<close>

definition enqueue :: "string \<Rightarrow> command \<Rightarrow> rat \<Rightarrow> store \<Rightarrow> (nat \<times> store) result" where
  "enqueue match_id cmd created_at s =
     bind_result (json_dumps (command_payload cmd)) (\<lambda>payload.
       enqueue_admin_command match_id (command_name cmd) payload created_at s)"

datatype report = ReportedDone | ReportedQueued

fun wait_for :: "nat \<Rightarrow> store list \<Rightarrow> report" where
  "wait_for i [] = ReportedQueued"
| "wait_for i (s # later) =
     (case get_admin_command s i of
        Some r \<Rightarrow> if ad_processed_at r \<noteq> None then ReportedDone else wait_for i later
      | None \<Rightarrow> wait_for i later)"

section \<open>Serving\<close>

definition process_admin_command :: "environment \<Rightarrow> admin_row \<Rightarrow> (coord, unit) act" where
  "process_admin_command E record =
     act_bind (act_try (\<lambda>_. json_loads (ad_payload record))) (\<lambda>payload.
     if ad_command record = ''start'' then start_match E
     else if ad_command record = ''advance-phase'' then advance_phase E None
     else if ad_command record = ''pause'' then pause E None
     else if ad_command record = ''resume'' then resume E None
     else if ad_command record = ''end'' then
       act_bind (act_try (\<lambda>_. lookup_or_raise payload ''reason'')) (\<lambda>reason. end_match E reason None)
     else act_return ())"

text \<open>The body of the loop over the pending commands: \<open>except Exception\<close> logs and goes on.\<close>

definition serve_command :: "environment \<Rightarrow> admin_row \<Rightarrow> (coord, unit) act" where
  "serve_command E record c =
     act_bind (now E) (\<lambda>t. on_store (\<lambda>_. act_write (mark_admin_command_processed (ad_id record) t)))
       (snd (process_admin_command E record c))"

definition serve_pending :: "environment \<Rightarrow> (coord, unit) act" where
  "serve_pending E =
     act_bind (read_store (\<lambda>m s. Inr (get_pending_admin_commands s m))) (\<lambda>records.
       act_for records (serve_command E))"

definition ANNOUNCE_INTERVAL_SECONDS :: rat where
  "ANNOUNCE_INTERVAL_SECONDS = 30"

text \<open>One round of \<open>serve\<close>: \<open>monotonic\<close> is the reading of the monotonic clock, the result the time of the
  last announcement.\<close>

definition serve_round :: "environment \<Rightarrow> (string \<times> bytes) list \<Rightarrow> rat \<Rightarrow> rat \<Rightarrow> (coord, rat) act" where
  "serve_round E inbound monotonic last_announce =
     act_bind (poll E inbound) (\<lambda>_.
     act_bind (serve_pending E) (\<lambda>_.
     if ANNOUNCE_INTERVAL_SECONDS \<le> monotonic - last_announce
     then act_bind announce (\<lambda>_. act_return monotonic) else act_return last_announce))"

section \<open>The coordinator does not touch the commands\<close>

interpretation untouched: coordinator_relation E "\<lambda>m s s'. t_admin s' = t_admin s" for E
proof
  fix m d s s'
  assume "set_deadline m d s = Inr s'"
  from set_deadline_conv [OF this] show "t_admin s' = t_admin s" by (rule frame_update_match)
next
  fix m d s s'
  assume "set_paused_remaining_seconds m d s = Inr s'"
  from set_paused_conv [OF this] show "t_admin s' = t_admin s" by (rule frame_update_match)
next
  fix s m st' s'
  assume "save_match_state m st' s = Inr s'"
  from save_match_state_conv [OF this] show "t_admin s' = t_admin s" by (rule frame_update_match)
next
  fix s m key q tm dl
  show "t_admin (snd (lobby_start_match (env_externals E) m key q tm dl s)) = t_admin s"
  proof (cases rule: start_match_states [where X = "env_externals E" and m = m and key = key and q = q and t = tm and dl = dl and s = s])
    case (saved st c s1)
    then show ?thesis using frame_update_match [OF save_match_state_conv [OF saved(3)]] by simp
  next
    case (recorded st c s1 s2 b h)
    have "t_admin s1 = t_admin s" by (rule frame_update_match [OF save_match_state_conv [OF recorded(3)]])
    moreover have "t_admin s2 = t_admin s1" by (rule frame_record_phase [OF recorded(6)])
    ultimately show ?thesis
      using recorded(7) by (auto dest!: set_deadline_conv dest: frame_update_match)
  qed simp
qed (auto dest: frame_add_player frame_record_order frame_order_status frame_vote frame_sequence frame_record_phase)

lemma process_untouched: "untouched.R c (snd (process_admin_command E record c))"
  unfolding process_admin_command_def
  by (intro untouched.co.keeps untouched.keep_start untouched.keep_advance untouched.keep_pause untouched.keep_resume
      untouched.keep_end)

section \<open>Every command is executed once and marked\<close>

definition mark_rows :: "nat set \<Rightarrow> admin_row list \<Rightarrow> admin_row list \<Rightarrow> bool" where
  "mark_rows ids rows rows' \<longleftrightarrow>
     list_all2 (\<lambda>a b. if ad_id a \<in> ids then \<exists>t. b = a\<lparr>ad_processed_at := Some t\<rparr> else b = a) rows rows'"

lemma mark_rows_refl: "mark_rows {} rows rows"
  by (simp add: mark_rows_def list_all2_same)

lemma mark_rows_trans: "mark_rows A rows rows1 \<Longrightarrow> mark_rows B rows1 rows2 \<Longrightarrow> mark_rows (A \<union> B) rows rows2"
  unfolding mark_rows_def by (erule (1) list_all2_trans [rotated]) (auto split: if_splits)

lemma serve_command_run:
  "serve_command E r c =
    (let c1 = snd (process_admin_command E r c)
     in (Inr (), c1\<lparr>co_readings := co_readings c1 + 1, co_store := (co_store c1)\<lparr>t_admin :=
      map (\<lambda>x. if ad_id x = ad_id r then x\<lparr>ad_processed_at := Some (env_clock E (co_readings c1))\<rparr> else x)
        (t_admin (co_store c1))\<rparr>\<rparr>))"
  by (simp add: serve_command_def now_def act_bind_def on_store_def act_zoom_def act_write_def
      mark_admin_command_processed_def Let_def)

lemma serve_command_marks:
  "fst (serve_command E r c) = Inr ()" "co_match_id (snd (serve_command E r c)) = co_match_id c"
  "mark_rows {ad_id r} (t_admin (co_store c)) (t_admin (co_store (snd (serve_command E r c))))"
proof -
  have "co_match_id (snd (process_admin_command E r c)) = co_match_id c"
    "t_admin (co_store (snd (process_admin_command E r c))) = t_admin (co_store c)"
    using process_untouched [of c E r] by (simp_all add: untouched.R_def)
  then show "fst (serve_command E r c) = Inr ()" "co_match_id (snd (serve_command E r c)) = co_match_id c"
    "mark_rows {ad_id r} (t_admin (co_store c)) (t_admin (co_store (snd (serve_command E r c))))"
    by (auto simp: serve_command_run Let_def mark_rows_def list_all2_conv_all_nth)
qed

lemma serve_commands_mark:
  "\<exists>c'. act_for rs (serve_command E) c = (Inr (), c') \<and> c' = fold (\<lambda>r c. snd (serve_command E r c)) rs c \<and>
     co_match_id c' = co_match_id c \<and> mark_rows (ad_id ` set rs) (t_admin (co_store c)) (t_admin (co_store c'))"
proof (induction rs arbitrary: c)
  case Nil
  then show ?case by (simp add: act_run mark_rows_refl)
next
  case (Cons r rs)
  obtain c1 where step: "serve_command E r c = (Inr (), c1)"
    using serve_command_marks(1) [where E = E and r = r and c = c] by (metis prod.collapse)
  note one = serve_command_marks [where E = E and r = r and c = c, unfolded step, simplified]
  obtain c' where c': "act_for rs (serve_command E) c1 = (Inr (), c')"
    "c' = fold (\<lambda>r c. snd (serve_command E r c)) rs c1" "co_match_id c' = co_match_id c"
    "mark_rows (ad_id ` set rs) (t_admin (co_store c1)) (t_admin (co_store c'))"
    using Cons.IH [of c1] one(2) by auto
  then show ?case using mark_rows_trans [OF one(3) c'(4)] by (auto simp: act_bind_def step)
qed

lemma mark_pending:
  assumes "mark_rows (ad_id ` set (get_pending_admin_commands s m)) (t_admin s) (t_admin s')"
  shows "get_pending_admin_commands s' m = []"
    and "r \<in> set (get_pending_admin_commands s m) \<Longrightarrow> wait_for (ad_id r) [s'] = ReportedDone"
proof -
  have rows: "list_all2 (\<lambda>a b. if ad_id a \<in> ad_id ` set (get_pending_admin_commands s m)
      then \<exists>t. b = a\<lparr>ad_processed_at := Some t\<rparr> else b = a) (t_admin s) (t_admin s')"
    using assms by (simp add: mark_rows_def)
  have "\<not> (ad_match b = m \<and> ad_processed_at b = None)" if mem: "b \<in> set (t_admin s')" for b
  proof -
    obtain a where a: "a \<in> set (t_admin s)" "if ad_id a \<in> ad_id ` set (get_pending_admin_commands s m)
        then \<exists>t. b = a\<lparr>ad_processed_at := Some t\<rparr> else b = a"
      using list_all2_right [OF rows mem] by blast
    then show ?thesis by (auto simp: get_pending_admin_commands_def split: if_splits)
  qed
  then show "get_pending_admin_commands s' m = []" by (simp add: get_pending_admin_commands_def filter_empty_conv)
  assume r: "r \<in> set (get_pending_admin_commands s m)"
  then have "r \<in> set (t_admin s)" by (simp add: get_pending_admin_commands_def)
  then obtain b where "b \<in> set (t_admin s')" "ad_id b = ad_id r"
    using list_all2_left [OF rows] r by (fastforce split: if_splits)
  then obtain b where b: "get_admin_command s' (ad_id r) = Some b" "b \<in> set (t_admin s')" "ad_id b = ad_id r"
    unfolding get_admin_command_def by (metis (mono_tags, lifting) find_None_iff find_Some_iff nth_mem option.exhaust)
  then have "ad_processed_at b \<noteq> None"
    using list_all2_right [OF rows b(2)] r b(3) by (force split: if_splits)
  with b(1) show "wait_for (ad_id r) [s'] = ReportedDone" by simp
qed

text \<open>What \<open>cmd_end\<close> asks for is what \<open>serve\<close> does, with the operator's reason.\<close>

lemma command_as_asked:
  assumes "json_dumps (command_payload cmd) = Inr payload" "ad_payload r = payload" "ad_command r = command_name cmd"
  shows "process_admin_command E r =
    (case cmd of CmdStart \<Rightarrow> start_match E | CmdAdvancePhase \<Rightarrow> advance_phase E None | CmdPause \<Rightarrow> pause E None
     | CmdResume \<Rightarrow> resume E None | CmdEnd reason \<Rightarrow> end_match E reason None)"
proof -
  have "dict_ok (command_payload cmd)" by (cases cmd) (simp_all add: dict_ok_def)
  from json_roundtrip [OF assms(1) this] show ?thesis
    by (cases cmd) (simp_all add: process_admin_command_def assms(2,3) act_simps lookup_or_raise_def fun_eq_iff)
qed

lemma serve_pending_run:
  obtains c' where "serve_pending E c = (Inr (), c')"
    "c' = fold (\<lambda>r c. snd (serve_command E r c)) (get_pending_admin_commands (co_store c) (co_match_id c)) c"
    "mark_rows (ad_id ` set (get_pending_admin_commands (co_store c) (co_match_id c)))
      (t_admin (co_store c)) (t_admin (co_store c'))"
  using serve_commands_mark [of "get_pending_admin_commands (co_store c) (co_match_id c)" E c]
  by (auto simp: serve_pending_def read_store_def act_bind_try)

text \<open>The operator's commands are executed once, in the order they were given, whatever happens: a
  pass of \<open>serve\<close> over the pending commands never raises, runs each of them on the state the previous one
  left, marks exactly these rows and no other, and leaves none pending.\<close>

theorem commands_served_once:
  "let s = co_store c; rs = get_pending_admin_commands s (co_match_id c);
       c' = fold (\<lambda>r c. snd (serve_command E r c)) rs c
   in serve_pending E c = (Inr (), c') \<and> get_pending_admin_commands (co_store c') (co_match_id c) = [] \<and>
      mark_rows (ad_id ` set rs) (t_admin s) (t_admin (co_store c'))"
proof -
  obtain c' where "serve_pending E c = (Inr (), c')"
    "c' = fold (\<lambda>r c. snd (serve_command E r c)) (get_pending_admin_commands (co_store c) (co_match_id c)) c"
    "mark_rows (ad_id ` set (get_pending_admin_commands (co_store c) (co_match_id c)))
      (t_admin (co_store c)) (t_admin (co_store c'))"
    by (rule serve_pending_run)
  with mark_pending(1) show ?thesis unfolding Let_def by metis
qed

text \<open>A command is reported as done also when it failed: starting a match without players.\<close>

lemma failed_command_reported_done:
  assumes "r \<in> set (get_pending_admin_commands (co_store c) (co_match_id c))"
  shows "wait_for (ad_id r) [co_store (snd (serve_pending E c))] = ReportedDone"
proof (rule serve_pending_run [of E c])
  fix c' assume "serve_pending E c = (Inr (), c')"
    and marks: "mark_rows (ad_id ` set (get_pending_admin_commands (co_store c) (co_match_id c)))
      (t_admin (co_store c)) (t_admin (co_store c'))"
  then show ?thesis using mark_pending(2) [OF marks assms] by (simp only: snd_conv)
qed

end
