(* ===== verification/Server_Commands.thy ===== *)
theory Server_Commands
  imports Server Terminal
begin

text \<open>
  The commands of the operator (\<^verbatim>\<open>coordinator/server.py\<close>) with what they print: the state is the console
  of the process and the files of the machine, each the database of a match. A database is shared with
  the processes that run at the same time: the waiting commands take, between two of their reads, a step
  of the others, which is any function on the database. \<open>print\<close> of a text outside ASCII in quotes is
  where the model stops; starting Reticulum and the log of \<open>serve\<close> are left out.
\<close>

section \<open>Files\<close>

record operator = console +
  op_files :: "(string, store) dict"

definition db_path :: "string \<Rightarrow> string \<Rightarrow> string result" where
  "db_path data_dir match_id = path_in data_dir (match_id @ ''.sqlite3'')"

text \<open>\<open>MatchStore(path)\<close> opens the database, a new one if there is none.\<close>

definition with_store :: "string \<Rightarrow> (store, 'a) act \<Rightarrow> (operator, 'a) act" where
  "with_store path = act_zoom (\<lambda>w. dict_get (op_files w) path empty_store)
     (\<lambda>s w. w\<lparr>op_files := AList.update path s (op_files w)\<rparr>)"

definition open_store :: "string \<Rightarrow> string \<Rightarrow> (operator, string) act" where
  "open_store data_dir match_id =
     act_bind (act_try (\<lambda>_. db_path data_dir match_id)) (\<lambda>path.
     act_bind (act_get (\<lambda>w. path \<in> set (map fst (op_files w)))) (\<lambda>there.
     if there then act_return path
     else
       act_bind (act_try (\<lambda>_. repr match_id)) (\<lambda>m.
       act_bind (act_try (\<lambda>_. repr data_dir)) (\<lambda>d.
         give_up (''no such match '' @ m @ '' in '' @ d @ '' (run `create` first)'')))))"

section \<open>create, status and list-players\<close>

text \<open>\<open>key\<close> is the private key of \<open>Identity.generate()\<close>, \<open>created_at\<close> the reading of the clock.\<close>

definition cmd_create :: "externals \<Rightarrow> string \<Rightarrow> string \<Rightarrow> bytes \<Rightarrow> rat \<Rightarrow> (operator, unit) act" where
  "cmd_create X data_dir match_id key created_at =
     act_bind (act_try (\<lambda>_. db_path data_dir match_id)) (\<lambda>path.
     act_bind (act_get (\<lambda>w. path \<in> set (map fst (op_files w)))) (\<lambda>there.
     if there then
       act_bind (act_try (\<lambda>_. repr match_id)) (\<lambda>m. give_up (''match '' @ m @ '' already exists at '' @ path))
     else
       act_bind (with_store path (act_write (create_match match_id key created_at))) (\<lambda>_.
       act_bind (act_try (\<lambda>_. repr match_id)) (\<lambda>m.
       act_bind (print_line (''created match '' @ m @ '' at '' @ path)) (\<lambda>_.
         print_line (''coordinator public key: '' @ hex_of (public_key_of X key)))))))"

definition deadline_line :: "MatchState \<Rightarrow> rat option \<Rightarrow> rat option \<Rightarrow> rat \<Rightarrow> string list" where
  "deadline_line st deadline paused current =
     (if ms_status st = COMPLETED then []
      else
        (case paused of
           Some p \<Rightarrow> [''deadline: paused ('' @ show_seconds p @ ''s remaining when resumed)'']
         | None \<Rightarrow>
             (case deadline of
                Some d \<Rightarrow>
                  [''deadline: '' @
                   (if d - current \<le> 0 then ''expired'' else show_seconds (d - current) @ ''s remaining'')]
              | None \<Rightarrow> [''deadline: none''])))"

definition status_lines ::
    "string \<Rightarrow> string \<Rightarrow> MatchState \<Rightarrow> nat \<Rightarrow> rat option \<Rightarrow> rat option \<Rightarrow> string list \<Rightarrow> rat \<Rightarrow> string list" where
  "status_lines match_id coordinator_pub st players deadline paused pending current =
     [''match:    '' @ match_id, ''pubkey:   '' @ coordinator_pub,
      ''status:   '' @ match_status_value (ms_status st), ''phase:    '' @ phase_value (ms_phase st),
      ''turn:     '' @ show_int (ms_turn st) @ ''  year: '' @ show_int (ms_year st),
      ''players:  '' @ show_nat players @ ''/'' @ show_nat MAX_PLAYERS] @
     deadline_line st deadline paused current @
     (if pending = [] then []
      else [''pending admin commands (no `serve` running?): '' @ joined '', '' pending])"

definition cmd_status :: "externals \<Rightarrow> string \<Rightarrow> string \<Rightarrow> rat \<Rightarrow> (operator, unit) act" where
  "cmd_status X data_dir match_id current =
     act_bind (open_store data_dir match_id) (\<lambda>path.
     act_bind (with_store path (act_get (\<lambda>s. get_match s match_id))) (\<lambda>record.
     act_bind (with_store path (act_get (\<lambda>s. list_players s match_id))) (\<lambda>players.
     act_bind (with_store path (act_try (\<lambda>s. get_deadline s match_id))) (\<lambda>deadline.
     act_bind (with_store path (act_try (\<lambda>s. get_paused_remaining_seconds s match_id))) (\<lambda>paused.
     act_bind (with_store path (act_get (\<lambda>s. get_pending_admin_commands s match_id))) (\<lambda>pending.
     act_bind (with_store path (act_try (\<lambda>s. load_coordinator_identity s match_id))) (\<lambda>key.
     case record of
       None \<Rightarrow>
         act_bind (print_lines [''match:    '' @ match_id, ''pubkey:   '' @ hex_of (public_key_of X key)]) (\<lambda>_.
           act_raise AttributeError)
     | Some (st, _) \<Rightarrow>
         print_lines (status_lines match_id (hex_of (public_key_of X key)) st (length players) deadline paused
           (map ad_command pending) current))))))))"

definition player_line :: "player_row \<Rightarrow> string result" where
  "player_line p =
     bind_result (faction_name_of (pl_faction p)) (\<lambda>n.
       Inr (ljust 12 n @ '' '' @ take 16 (hex_of (pl_public_key p)) @ ''...'' @
         (case pl_name p of
            None \<Rightarrow> ''''
          | Some d \<Rightarrow> if d = '''' then '''' else '' ('' @ d @ '')'')))"

definition cmd_list_players :: "string \<Rightarrow> string \<Rightarrow> (operator, unit) act" where
  "cmd_list_players data_dir match_id =
     act_bind (open_store data_dir match_id) (\<lambda>path.
     act_bind (with_store path (act_get (\<lambda>s. list_players s match_id))) (\<lambda>players.
     if players = [] then print_line ''no players joined yet''
     else act_for players (\<lambda>p. act_bind (act_try (\<lambda>_. player_line p)) print_line)))"

section \<open>The commands that serve executes\<close>

text \<open>The databases that the waiting process reads, one for each step of the others.\<close>

fun views :: "(store \<Rightarrow> store) list \<Rightarrow> store \<Rightarrow> store list" where
  "views [] s = []"
| "views (f # fs) s = f s # views fs (f s)"

text \<open>\<open>_enqueue_and_wait\<close>: \<open>others\<close> are the steps of the other processes before each read of the loop; the
  database goes on without the process once it has returned.\<close>

definition enqueue_and_wait ::
    "string \<Rightarrow> string \<Rightarrow> command \<Rightarrow> rat \<Rightarrow> (store \<Rightarrow> store) list \<Rightarrow> (operator, unit) act" where
  "enqueue_and_wait data_dir match_id cmd created_at others =
     act_bind (open_store data_dir match_id) (\<lambda>path.
     act_bind (with_store path (\<lambda>s.
       case enqueue match_id cmd created_at s of
         Inl e \<Rightarrow> (Inl e, s)
       | Inr (i, s') \<Rightarrow> (Inr (wait_for i (views others s')), last (s' # views others s')))) (\<lambda>outcome.
     case outcome of
       ReportedDone \<Rightarrow> print_line (command_name cmd @ '': done'')
     | ReportedQueued \<Rightarrow>
         print_error (command_name cmd @ '': queued (no running `serve` process picked it up yet)'')))"

section \<open>serve\<close>

text \<open>A round of the loop: the steps of the others on the database before it, the messages received, and
  the reading of the monotonic clock. The list ends where the operator interrupts the process.\<close>

record serve_input =
  si_others :: "store \<Rightarrow> store"
  si_inbound :: "(string \<times> bytes) list"
  si_monotonic :: rat

fun serve_loop :: "environment \<Rightarrow> serve_input list \<Rightarrow> rat \<Rightarrow> (coord, unit) act" where
  "serve_loop E [] last_announce = act_return ()"
| "serve_loop E (i # rounds) last_announce =
     act_bind (on_store (\<lambda>_. act_write (\<lambda>s. Inr (si_others i s)))) (\<lambda>_.
     act_bind (serve_round E (si_inbound i) (si_monotonic i) last_announce) (\<lambda>last_announce'.
       serve_loop E rounds last_announce'))"

definition cmd_serve ::
    "environment \<Rightarrow> string \<Rightarrow> string \<Rightarrow> string \<Rightarrow> rat \<Rightarrow> rat \<Rightarrow> rat \<Rightarrow> rat \<Rightarrow> serve_input list \<Rightarrow> (operator, coord) act" where
  "cmd_serve E data_dir match_id listen movement_seconds retreat_seconds adjustment_seconds started rounds =
     act_bind (open_store data_dir match_id) (\<lambda>path.
     act_bind (with_store path (act_try (\<lambda>s. load_coordinator_identity s match_id))) (\<lambda>identity.
     act_bind (act_try (\<lambda>_. parse_listen listen)) (\<lambda>address.
       with_store path (\<lambda>s.
         let config = \<lparr>movement_phase_seconds = movement_seconds, retreat_phase_seconds = retreat_seconds,
               adjustment_phase_seconds = adjustment_seconds, draw_rule = UNANIMOUS\<rparr>;
             (r, c) = act_bind announce (\<lambda>_. serve_loop E rounds started) (new_coordinator match_id s (Some config))
         in (case r of Inl e \<Rightarrow> Inl e | Inr _ \<Rightarrow> Inr c, co_store c)))))"

section \<open>Running the commands\<close>

lemma update_same: "map_of d k = Some v \<Longrightarrow> AList.update k v d = d"
  by (induction d) auto

lemma with_store_run:
  assumes "map_of (op_files w) path = Some s"
  shows "with_store path m w = (fst (m s), w\<lparr>op_files := AList.update path (snd (m s)) (op_files w)\<rparr>)"
  using assms by (simp add: with_store_def act_zoom_def dict_get_def split: prod.splits)

lemma with_store_read:
  assumes "map_of (op_files w) path = Some s"
  shows "act_bind (with_store path (act_get f)) g w = g (f s) w"
    and "act_bind (with_store path (act_try h)) g w = (case h s of Inl e \<Rightarrow> (Inl e, w) | Inr x \<Rightarrow> g x w)"
  by (simp_all add: act_bind_def with_store_run [OF assms] act_run update_same [OF assms])

lemma open_store_run:
  assumes "db_path data_dir match_id = Inr path"
  shows "path \<in> set (map fst (op_files w)) \<Longrightarrow> act_bind (open_store data_dir match_id) f w = f path w"
    and "path \<notin> set (map fst (op_files w)) \<Longrightarrow> repr match_id = Inr m \<Longrightarrow> repr data_dir = Inr d \<Longrightarrow>
      open_store data_dir match_id w =
        (Inl SystemExit, w\<lparr>con_err := con_err w @ [''no such match '' @ m @ '' in '' @ d @ '' (run `create` first)''], con_exit := Some 1\<rparr>)"
  using assms by (simp_all add: open_store_def act_bind_def act_run print_run)

lemma file_there: "map_of d k = Some v \<Longrightarrow> k \<in> set (map fst d)"
  by (metis map_of_eq_None_iff option.distinct(1) set_map)

text \<open>What the operator asks for.\<close>

definition asked :: "environment \<Rightarrow> command \<Rightarrow> (coord, unit) act" where
  "asked E cmd =
     (case cmd of CmdStart \<Rightarrow> start_match E | CmdAdvancePhase \<Rightarrow> advance_phase E None | CmdPause \<Rightarrow> pause E None
      | CmdResume \<Rightarrow> resume E None | CmdEnd reason \<Rightarrow> end_match E reason None)"

text \<open>A pass of \<open>serve\<close> over a database with one command.\<close>

lemma serve_one:
  assumes "store_ok s" "get_pending_admin_commands s m = []" "co_match_id c = m"
    and "json_dumps (command_payload cmd) = Inr payload"
    and r: "r = \<lparr>ad_id = length (t_admin s) + 1, ad_match = m, ad_command = command_name cmd, ad_payload = payload,
      ad_created_at = t, ad_processed_at = None\<rparr>"
    and c1: "c1 = snd (asked E cmd (c\<lparr>co_store := s\<lparr>t_admin := t_admin s @ [r]\<rparr>\<rparr>))"
  shows "serve_pending E (c\<lparr>co_store := s\<lparr>t_admin := t_admin s @ [r]\<rparr>\<rparr>) =
    (Inr (), c1\<lparr>co_readings := co_readings c1 + 1, co_store := (co_store c1)\<lparr>t_admin :=
      t_admin s @ [r\<lparr>ad_processed_at := Some (env_clock E (co_readings c1))\<rparr>]\<rparr>\<rparr>)"
proof -
  let ?s = "s\<lparr>t_admin := t_admin s @ [r]\<rparr>" and ?c = "c\<lparr>co_store := s\<lparr>t_admin := t_admin s @ [r]\<rparr>\<rparr>"
  have "filter (\<lambda>r. ad_match r = m \<and> ad_processed_at r = None) (t_admin s) = []"
    using assms(2) unfolding get_pending_admin_commands_def
    by (metis (no_types, lifting) length_0_conv length_sort)
  then have pending: "get_pending_admin_commands ?s m = [r]"
    by (simp add: get_pending_admin_commands_def r)
  have asked: "process_admin_command E r = asked E cmd"
    unfolding asked_def by (rule command_as_asked [OF assms(4)]) (simp_all add: r)
  then have "t_admin (co_store c1) = t_admin s @ [r]"
    using process_untouched [of ?c E r] by (simp add: untouched.R_def c1)
  moreover have "ad_id x \<noteq> ad_id r" if "x \<in> set (t_admin s)" for x :: admin_row
  proof -
    have "ad_id x \<in> set [1..<length (t_admin s) + 1]" using that by (metis image_eqI list.set_map store_okD(10) [OF assms(1)])
    then show ?thesis by (auto simp: r)
  qed
  ultimately have "map (\<lambda>x. if ad_id x = ad_id r then x\<lparr>ad_processed_at := Some u\<rparr> else x) (t_admin (co_store c1)) =
      t_admin s @ [r\<lparr>ad_processed_at := Some u\<rparr>]" for u
    by (auto intro: map_idI)
  with pending show ?thesis
    by (simp add: serve_pending_def read_store_def act_bind_try assms(3) serve_command_run Let_def asked act_bind_def act_run
        c1 [symmetric])
qed

lemma wait_through:
  assumes "\<And>r. get_admin_command s i = Some r \<Longrightarrow> ad_processed_at r = None"
  shows "wait_for i (views (replicate k (\<lambda>s. s) @ fs) s) = wait_for i (views fs s)"
  using assms by (induction k) (auto split: option.splits)

lemma last_through: "last (s # views (replicate k (\<lambda>s. s) @ fs) s) = last (s # views fs s)"
  by (induction k) simp_all

lemma new_command_read:
  assumes "store_ok s" "ad_id r = length (t_admin s) + 1"
  shows "get_admin_command (s'\<lparr>t_admin := t_admin s @ [r]\<rparr>) (length (t_admin s) + 1) = Some r"
proof -
  have "\<not> ad_id x = length (t_admin s) + 1" if "x \<in> set (t_admin s)" for x
  proof -
    have "ad_id x \<in> set [1..<length (t_admin s) + 1]" using that by (metis image_eqI list.set_map store_okD(10) [OF assms(1)])
    then show ?thesis by auto
  qed
  then have "find (\<lambda>x. ad_id x = length (t_admin s) + 1) (t_admin s) = None" by (auto simp: find_None_iff)
  then show ?thesis using assms(2) by (simp add: get_admin_command_def find_append)
qed

lemma enqueue_and_wait_run:
  assumes "db_path data_dir m = Inr path" "map_of (op_files w) path = Some s" "enqueue m cmd t s = Inr (i, s')"
  shows "enqueue_and_wait data_dir m cmd t others w =
    (let w' = w\<lparr>op_files := AList.update path (last (s' # views others s')) (op_files w)\<rparr> in
     case wait_for i (views others s') of
       ReportedDone \<Rightarrow> print_line (command_name cmd @ '': done'') w'
     | ReportedQueued \<Rightarrow>
         print_error (command_name cmd @ '': queued (no running `serve` process picked it up yet)'') w')"
  unfolding enqueue_and_wait_def open_store_run(1) [OF assms(1) file_there [OF assms(2)]]
  by (simp add: act_bind_def with_store_run [OF assms(2)] assms(3) Let_def del: last.simps split: report.split)

text \<open>C18: What the operator asks for is what happens, across the two processes: when no other command is
  pending, the process of the command writes one row, \<open>serve\<close> in its next pass over the database runs
  exactly the operation that was asked for, on the state it has reached, and marks the row, and the waiting
  process, however often it has read the database before, prints that the command is done and nothing
  else.\<close>

theorem operator_command_executed:
  assumes "db_path data_dir m = Inr path" "map_of (op_files w) path = Some s" "store_ok s"
    and "m \<in> set (map fst (t_matches s))" "get_pending_admin_commands s m = []"
    and "json_dumps (command_payload cmd) = Inr payload" "co_match_id c = m"
    and r: "r = \<lparr>ad_id = length (t_admin s) + 1, ad_match = m, ad_command = command_name cmd, ad_payload = payload,
      ad_created_at = t, ad_processed_at = None\<rparr>"
    and c1: "c1 = snd (asked E cmd (c\<lparr>co_store := s\<lparr>t_admin := t_admin s @ [r]\<rparr>\<rparr>))"
  shows "enqueue_and_wait data_dir m cmd t
      (replicate k (\<lambda>s. s) @ [\<lambda>s. co_store (snd (serve_pending E (c\<lparr>co_store := s\<rparr>)))]) w =
    (Inr (), w\<lparr>con_out := con_out w @ [command_name cmd @ '': done''],
       op_files := AList.update path ((co_store c1)\<lparr>t_admin :=
         t_admin s @ [r\<lparr>ad_processed_at := Some (env_clock E (co_readings c1))\<rparr>]\<rparr>) (op_files w)\<rparr>)"
proof -
  let ?s1 = "s\<lparr>t_admin := t_admin s @ [r]\<rparr>" and ?i = "length (t_admin s) + 1"
  let ?r = "r\<lparr>ad_processed_at := Some (env_clock E (co_readings c1))\<rparr>"
  let ?f = "\<lambda>s. co_store (snd (serve_pending E (c\<lparr>co_store := s\<rparr>)))"
  let ?others = "replicate k (\<lambda>s. s) @ [?f]" and ?s2 = "(co_store c1)\<lparr>t_admin := t_admin s @ [?r]\<rparr>"
  have enq: "enqueue m cmd t s = Inr (?i, ?s1)"
    using assms(4,6) by (simp add: enqueue_def enqueue_admin_command_def check_match_def Let_def r)
  have f: "?f ?s1 = ?s2" using serve_one [OF assms(3,5,7,6) r c1] by simp
  have read: "get_admin_command (s'\<lparr>t_admin := t_admin s @ [x]\<rparr>) ?i = Some x" if "ad_id x = ad_id r" for s' :: store and x
    by (rule new_command_read [OF assms(3)]) (simp add: that r)
  have fields: "ad_id r = ?i" "ad_processed_at r = None" by (simp_all add: r)
  have "wait_for ?i (views ?others ?s1) = wait_for ?i [?s2]"
    by (subst wait_through) (use read [of r s] fields in \<open>simp_all add: f\<close>)
  also have "\<dots> = ReportedDone" using read [of ?r "co_store c1"] by simp
  finally have waited: "wait_for ?i (views ?others ?s1) = ReportedDone" .
  have "last (?s1 # views ?others ?s1) = ?s2" unfolding last_through by (simp add: f)
  then show ?thesis
    unfolding enqueue_and_wait_run [OF assms(1,2) enq] Let_def waited by (simp add: print_line_def)
qed

definition timed_lobby :: store where
  "timed_lobby = empty_store\<lparr>t_matches := [(''m'', waiting_match\<lparr>mr_deadline := Some 100\<rparr>)]\<rparr>"

lemma pause_timed:
  assumes "co_match_id c = ''m''" "t_matches (co_store c) = t_matches timed_lobby" "co_readings c = 0"
  shows "t_matches (co_store (snd (pause quiet_environment None c))) =
    [(''m'', waiting_match\<lparr>mr_paused := Some 99\<rparr>)]"
    and "co_readings (snd (pause quiet_environment None c)) = 1"
  using assms
  by (simp_all add: pause_def time_or_now_def now_def read_store_def on_store_def act_zoom_def act_bind_def act_try_def
      act_write_def get_deadline_def match_column_def set_paused_remaining_seconds_def set_deadline_def update_match_def
      quiet_environment_def timed_lobby_def waiting_match_def)

theorem operator_command_executed_witness:
  "\<exists>w' s'. enqueue_and_wait ''/srv//data'' ''m'' CmdPause 5
      ([\<lambda>s. s] @ [\<lambda>s. co_store (snd (serve_pending quiet_environment ((new_coordinator ''m'' empty_store None)\<lparr>co_store := s\<rparr>)))])
      \<lparr>con_out = [], con_err = [], con_exit = None, op_files = [(''/srv/data/m.sqlite3'', timed_lobby)]\<rparr> = (Inr (), w') \<and>
     con_out w' = [''pause: done''] \<and> op_files w' = [(''/srv/data/m.sqlite3'', s')] \<and>
     t_matches s' = [(''m'', waiting_match\<lparr>mr_paused := Some 99\<rparr>)] \<and>
     map ad_processed_at (t_admin s') = [Some 2]"
proof -
  let ?w = "\<lparr>con_out = [], con_err = [], con_exit = None, op_files = [(''/srv/data/m.sqlite3'', timed_lobby)]\<rparr>"
  let ?c = "new_coordinator ''m'' empty_store None"
  have path: "db_path ''/srv//data'' ''m'' = Inr ''/srv/data/m.sqlite3''"
    by (simp add: db_path_def path_in_def path_root_def)
  have dump: "json_dumps (command_payload CmdPause) = Inr ''{}''" by (simp add: json_dumps_def)
  let ?row = "\<lparr>ad_id = 1, ad_match = ''m'', ad_command = ''pause'', ad_payload = ''{}'', ad_created_at = 5,
    ad_processed_at = None\<rparr>"
  let ?c' = "?c\<lparr>co_store := timed_lobby\<lparr>t_admin := [?row]\<rparr>\<rparr>"
  have tables: "store_ok timed_lobby" "get_pending_admin_commands timed_lobby ''m'' = []" "t_admin timed_lobby = []"
    "map fst (t_matches timed_lobby) = [''m'']"
    by (simp_all add: timed_lobby_def empty_store_def store_ok_def dict_ok_def all_in_matches_def get_pending_admin_commands_def)
  have "t_matches (co_store (snd (pause quiet_environment None ?c'))) = [(''m'', waiting_match\<lparr>mr_paused := Some 99\<rparr>)]"
    "co_readings (snd (pause quiet_environment None ?c')) = 1"
    by (rule pause_timed; simp add: new_coordinator_def)+
  with operator_command_executed [where k = 1 and E = quiet_environment and c = ?c and cmd = CmdPause and m = "''m''"
      and s = timed_lobby and w = ?w and t = 5 and data_dir = "''/srv//data''",
      OF path _ tables(1) _ tables(2) dump _ refl refl] tables(3,4)
  show ?thesis by (simp add: new_coordinator_def asked_def quiet_environment_def)
qed

section \<open>Creating and looking\<close>

lemma small_numbers: "show_nat 0 = ''0''" "show_nat 1 = ''1''" "show_nat (Suc 0) = ''1''" "show_nat 7 = ''7''"
  by code_simp+

text \<open>A match that was just created is shown in its lobby, under the key that \<open>create\<close> printed, and nothing but
  its own database is written.\<close>

theorem created_match_shown:
  assumes "db_path data_dir m = Inr path" "path \<notin> set (map fst (op_files w))" "repr m = Inr quoted"
  shows "\<exists>s w'. cmd_create X data_dir m key t w = (Inr (), w') \<and> op_files w' = op_files w @ [(path, s)] \<and> store_ok s \<and>
    cmd_status X data_dir m current w' = (Inr (), w'\<lparr>con_out := con_out w @
      [''created match '' @ quoted @ '' at '' @ path, ''coordinator public key: '' @ hex_of (public_key_of X key),
       ''match:    '' @ m, ''pubkey:   '' @ hex_of (public_key_of X key), ''status:   lobby'', ''phase:    diplomacy'',
       ''turn:     1  year: 1'', ''players:  0/7'', ''deadline: none'']\<rparr>)"
proof -
  let ?row = "\<lparr>mr_state = initial_match_state, mr_private_key = key, mr_deadline = None, mr_paused = None, mr_created_at = t\<rparr>"
  let ?s = "empty_store\<lparr>t_matches := [(m, ?row)]\<rparr>"
  let ?w = "w\<lparr>op_files := op_files w @ [(path, ?s)], con_out := con_out w @ [''created match '' @ quoted @ '' at '' @ path,
    ''coordinator public key: '' @ hex_of (public_key_of X key)]\<rparr>"
  have empty: "t_matches empty_store = []" by (simp add: empty_store_def)
  have new: "dict_get (op_files w) path empty_store = empty_store"
    using assms(2) by (simp add: dict_get_def map_of_eq_None_iff [THEN iffD2])
  have "cmd_create X data_dir m key t w = (Inr (), ?w)"
    using assms by (simp add: cmd_create_def act_bind_def act_run with_store_def act_zoom_def new act_write_def
        create_match_def print_line_def update_fresh empty)
  moreover have there: "map_of (op_files ?w) path = Some ?s"
    using map_of_eq_None_iff [THEN iffD2, OF assms(2) [unfolded set_map]] by (simp add: map_add_def)
  have "cmd_status X data_dir m current ?w = (Inr (), ?w\<lparr>con_out := con_out ?w @
      status_lines m (hex_of (public_key_of X key)) initial_match_state 0 None None [] current\<rparr>)"
    unfolding cmd_status_def open_store_run(1) [OF assms(1) file_there [OF there]] with_store_read [OF there]
    by (simp add: get_match_def list_players_def get_deadline_def get_paused_remaining_seconds_def match_column_def
        get_pending_admin_commands_def load_coordinator_identity_def empty_store_def print_lines_def)
  moreover have "status_lines m (hex_of (public_key_of X key)) initial_match_state 0 None None [] current =
      [''match:    '' @ m, ''pubkey:   '' @ hex_of (public_key_of X key), ''status:   lobby'', ''phase:    diplomacy'',
       ''turn:     1  year: 1'', ''players:  0/7'', ''deadline: none'']"
    by (simp add: status_lines_def deadline_line_def initial_match_state_def show_int_def small_numbers MAX_PLAYERS_def)
  moreover have "store_ok ?s" by (simp add: empty_store_def store_ok_def dict_ok_def all_in_matches_def)
  ultimately show ?thesis by (intro exI [of _ ?s] exI [of _ ?w]) (simp only: operator.simps append_assoc append.simps, simp)
qed

text \<open>A command on a match without a database says so and touches nothing.\<close>

lemma no_such_match:
  assumes "db_path data_dir m = Inr path" "path \<notin> set (map fst (op_files w))" "repr m = Inr q" "repr data_dir = Inr d"
  shows "enqueue_and_wait data_dir m cmd t others w =
    (Inl SystemExit, w\<lparr>con_err := con_err w @ [''no such match '' @ q @ '' in '' @ d @ '' (run `create` first)''], con_exit := Some 1\<rparr>)"
  using open_store_run(2) [OF assms] by (simp add: enqueue_and_wait_def act_bind_def)

end
