(* ===== verification/Command_Lines.thy ===== *)
theory Command_Lines
  imports Arguments Client_Numbers Server_Commands
begin

text \<open>
  The command lines of both programs (\<open>build_parser\<close> and \<open>main\<close> of \<^verbatim>\<open>client/cli.py\<close> and \<^verbatim>\<open>coordinator/server.py\<close>):
  the tables of their subcommands, what the parsed namespace asks for, and the process from its arguments to
  its end. The type of a request is what \<open>args.func(args)\<close> reads of the namespace.
\<close>

section \<open>The parsers\<close>

definition plain_subcommand :: "string \<Rightarrow> subcommand" where
  "plain_subcommand name = \<lparr>sc_name = name, sc_positionals = [add_positional ''match_id''], sc_options = []\<rparr>"

definition p_discover :: subcommand where
  "p_discover = \<lparr>sc_name = ''discover'', sc_positionals = [],
     sc_options = [required_option ''--coordinator'' ''coordinator'',
       (add_option ''--seconds'' ''seconds'')\<lparr>op_conversion := Number, op_default := ANumber 10\<rparr>]\<rparr>"

definition p_join :: subcommand where
  "p_join = (plain_subcommand ''join'')\<lparr>sc_options :=
     [required_option ''--coordinator'' ''coordinator'', required_option ''--coordinator-pub'' ''coordinator_pub'',
      add_option ''--display-name'' ''display_name'']\<rparr>"

definition p_negotiate :: subcommand where
  "p_negotiate = (plain_subcommand ''negotiate'')\<lparr>sc_options :=
     [required_option ''--to'' ''to'', required_option ''--message'' ''message'']\<rparr>"

definition p_order :: subcommand where
  "p_order = (plain_subcommand ''order'')\<lparr>sc_options :=
     [(required_option ''--revision'' ''revision'')\<lparr>op_conversion := Integer\<rparr>,
      (required_option ''--order'' ''order'')\<lparr>op_append := True\<rparr>]\<rparr>"

definition p_draw :: subcommand where
  "p_draw = \<lparr>sc_name = ''draw'', sc_positionals = [add_positional ''match_id'',
       \<lparr>ps_dest = ''action'', ps_choices = Some [''propose'', ''vote'']\<rparr>],
     sc_options = [(required_option ''--turn'' ''turn'')\<lparr>op_conversion := Integer\<rparr>,
       (add_option ''--vote'' ''vote'')\<lparr>op_choices := Some [''yes'', ''no'']\<rparr>]\<rparr>"

definition client_parser :: parser where
  "client_parser =
     \<lparr>pr_options = [(add_option ''--data-dir'' ''data_dir'')\<lparr>op_default := AText ''.rns-diplomacy-client''\<rparr>],
      pr_commands = [p_discover, p_join, plain_subcommand ''status'', p_negotiate, p_order, plain_subcommand ''orders'',
        plain_subcommand ''verify'', plain_subcommand ''history'', p_draw]\<rparr>"

definition p_end :: subcommand where
  "p_end = (plain_subcommand ''end'')\<lparr>sc_options := [required_option ''--reason'' ''reason'']\<rparr>"

definition phase_option :: "string \<Rightarrow> string \<Rightarrow> int \<Rightarrow> option_spec" where
  "phase_option flag dest seconds =
     (add_option flag dest)\<lparr>op_conversion := Number, op_default := ANumber (of_int seconds)\<rparr>"

definition p_serve :: subcommand where
  "p_serve = (plain_subcommand ''serve'')\<lparr>sc_options :=
     [required_option ''--listen'' ''listen'',
      phase_option ''--movement-seconds'' ''movement_seconds'' DEFAULT_MOVEMENT_PHASE_SECONDS,
      phase_option ''--retreat-seconds'' ''retreat_seconds'' DEFAULT_RETREAT_PHASE_SECONDS,
      phase_option ''--adjustment-seconds'' ''adjustment_seconds'' DEFAULT_ADJUSTMENT_PHASE_SECONDS]\<rparr>"

definition coordinator_parser :: parser where
  "coordinator_parser =
     \<lparr>pr_options = [(add_option ''--data-dir'' ''data_dir'')\<lparr>op_default := AText ''.rns-diplomacy''\<rparr>],
      pr_commands = [plain_subcommand ''create'', plain_subcommand ''status'', plain_subcommand ''list-players'',
        plain_subcommand ''start'', plain_subcommand ''advance-phase'', plain_subcommand ''pause'',
        plain_subcommand ''resume'', p_end, p_serve]\<rparr>"

section \<open>What a command asks for\<close>

text \<open>Reading an attribute; the parser gives every attribute that a command reads the type of its option.\<close>

definition text_of :: "namespace \<Rightarrow> string \<Rightarrow> string" where
  "text_of ns k = (case map_of ns k of Some (AText s) \<Rightarrow> s | _ \<Rightarrow> '''')"

definition optional_text_of :: "namespace \<Rightarrow> string \<Rightarrow> string option" where
  "optional_text_of ns k = (case map_of ns k of Some (AText s) \<Rightarrow> Some s | _ \<Rightarrow> None)"

definition int_of :: "namespace \<Rightarrow> string \<Rightarrow> int" where
  "int_of ns k = (case map_of ns k of Some (AInt i) \<Rightarrow> i | _ \<Rightarrow> 0)"

definition number_of_arg :: "namespace \<Rightarrow> string \<Rightarrow> rat" where
  "number_of_arg ns k = (case map_of ns k of Some (ANumber q) \<Rightarrow> q | _ \<Rightarrow> 0)"

definition texts_of :: "namespace \<Rightarrow> string \<Rightarrow> string list" where
  "texts_of ns k = (case map_of ns k of Some (AList ss) \<Rightarrow> ss | _ \<Rightarrow> [])"

datatype client_request =
    DiscoverRequest string rat
  | JoinRequest string string string "string option"
  | SessionRequest string session_command

definition client_request_of :: "string \<Rightarrow> namespace \<Rightarrow> client_request" where
  "client_request_of name ns =
     (let m = text_of ns ''match_id'' in
      if name = ''discover'' then DiscoverRequest (text_of ns ''coordinator'') (number_of_arg ns ''seconds'')
      else if name = ''join'' then
        JoinRequest m (text_of ns ''coordinator'') (text_of ns ''coordinator_pub'') (optional_text_of ns ''display_name'')
      else SessionRequest m
        (if name = ''status'' then StatusCommand
         else if name = ''negotiate'' then NegotiateCommand (text_of ns ''to'') (text_of ns ''message'')
         else if name = ''order'' then OrderCommand (int_of ns ''revision'') (texts_of ns ''order'')
         else if name = ''orders'' then OrdersCommand
         else if name = ''verify'' then VerifyCommand
         else if name = ''history'' then HistoryCommand
         else DrawCommand (if text_of ns ''action'' = ''propose'' then Propose else Vote (text_of ns ''vote'' = ''yes''))
           (int_of ns ''turn'')))"

text \<open>\<open>main\<close> up to the call of the command: a vote needs its value.\<close>

definition client_arguments :: "string list \<Rightarrow> (string \<times> client_request) parsed" where
  "client_arguments argv =
     bind_parsed (parse_args client_parser argv) (\<lambda>(name, ns).
     if name = ''draw'' \<and> text_of ns ''action'' = ''vote'' \<and> optional_text_of ns ''vote'' = None then UsageError
     else Parsed (text_of ns ''data_dir'', client_request_of name ns))"

datatype operator_request =
    CreateRequest string
  | StatusRequest string
  | PlayersRequest string
  | CommandRequest string command
  | ServeRequest string string rat rat rat

definition operator_request_of :: "string \<Rightarrow> namespace \<Rightarrow> operator_request" where
  "operator_request_of name ns =
     (let m = text_of ns ''match_id'' in
      if name = ''create'' then CreateRequest m
      else if name = ''status'' then StatusRequest m
      else if name = ''list-players'' then PlayersRequest m
      else if name = ''serve'' then
        ServeRequest m (text_of ns ''listen'') (number_of_arg ns ''movement_seconds'') (number_of_arg ns ''retreat_seconds'')
          (number_of_arg ns ''adjustment_seconds'')
      else CommandRequest m
        (if name = ''start'' then CmdStart
         else if name = ''advance-phase'' then CmdAdvancePhase
         else if name = ''pause'' then CmdPause
         else if name = ''resume'' then CmdResume
         else CmdEnd (text_of ns ''reason'')))"

definition operator_arguments :: "string list \<Rightarrow> (string \<times> operator_request) parsed" where
  "operator_arguments argv =
     bind_parsed (parse_args coordinator_parser argv) (\<lambda>(name, ns).
       Parsed (text_of ns ''data_dir'', operator_request_of name ns))"

section \<open>The processes\<close>

text \<open>What the parser does instead of a command; the texts it prints are left out.\<close>

definition exit_with :: "int \<Rightarrow> ('a console_scheme, 'b) act" where
  "exit_with status w = (Inl SystemExit, w\<lparr>con_exit := Some status\<rparr>)"

definition with_parsed :: "'r parsed \<Rightarrow> ('r \<Rightarrow> ('a console_scheme, unit) act) \<Rightarrow> ('a console_scheme, unit) act" where
  "with_parsed parsed f =
     (case parsed of
        Parsed r \<Rightarrow> f r
      | HelpShown \<Rightarrow> exit_with 0
      | UsageError \<Rightarrow> exit_with 2
      | BeyondModel \<Rightarrow> act_raise Unmodelled)"

text \<open>A client's process, with the command of its arguments; \<open>discover\<close> has no match.\<close>

definition client_main :: "string list \<Rightarrow> process \<Rightarrow> (shell, unit) act" where
  "client_main argv p =
     with_parsed (client_arguments argv) (\<lambda>(data_dir, request).
     case request of
       DiscoverRequest coordinator seconds \<Rightarrow>
         run_client data_dir '''' (p\<lparr>pr_command := DiscoverCommand coordinator seconds\<rparr>)
     | JoinRequest match_id coordinator coordinator_pub display_name \<Rightarrow>
         run_client data_dir match_id (p\<lparr>pr_command := JoinCommand coordinator coordinator_pub display_name\<rparr>)
     | SessionRequest match_id command \<Rightarrow>
         run_client data_dir match_id (p\<lparr>pr_command := SessionCommand command\<rparr>))"

text \<open>The inputs of an operator's process: the key drawn by \<open>create\<close>, the clock, the steps of the others while a
  command waits, and the rounds of \<open>serve\<close>.\<close>

record operator_input =
  oi_environment :: environment
  oi_key :: bytes
  oi_time :: rat
  oi_others :: "(store \<Rightarrow> store) list"
  oi_rounds :: "serve_input list"

definition operator_main :: "string list \<Rightarrow> operator_input \<Rightarrow> (operator, unit) act" where
  "operator_main argv i =
     with_parsed (operator_arguments argv) (\<lambda>(data_dir, request).
     case request of
       CreateRequest m \<Rightarrow> cmd_create (env_externals (oi_environment i)) data_dir m (oi_key i) (oi_time i)
     | StatusRequest m \<Rightarrow> cmd_status (env_externals (oi_environment i)) data_dir m (oi_time i)
     | PlayersRequest m \<Rightarrow> cmd_list_players data_dir m
     | CommandRequest m cmd \<Rightarrow> enqueue_and_wait data_dir m cmd (oi_time i) (oi_others i)
     | ServeRequest m listen movement retreat adjustment \<Rightarrow>
         act_bind (cmd_serve (oi_environment i) data_dir m listen movement retreat adjustment (oi_time i) (oi_rounds i))
           (\<lambda>_. act_return ()))"

section \<open>Command lines\<close>

text \<open>How a request is written.\<close>

fun client_line :: "client_request \<Rightarrow> string list" where
  "client_line (DiscoverRequest coordinator seconds) =
     [''discover'', ''--coordinator'', coordinator, ''--seconds'', show_int \<lfloor>seconds\<rfloor>]"
| "client_line (JoinRequest m coordinator pub display_name) =
     [''join'', m, ''--coordinator'', coordinator, ''--coordinator-pub'', pub] @
     (case display_name of None \<Rightarrow> [] | Some n \<Rightarrow> [''--display-name'', n])"
| "client_line (SessionRequest m c) =
     (case c of
        StatusCommand \<Rightarrow> [''status'', m]
      | NegotiateCommand recipient content \<Rightarrow> [''negotiate'', m, ''--to'', recipient, ''--message'', content]
      | OrderCommand revision specs \<Rightarrow>
          [''order'', m, ''--revision'', show_int revision] @ concat (map (\<lambda>s. [''--order'', s]) specs)
      | OrdersCommand \<Rightarrow> [''orders'', m]
      | VerifyCommand \<Rightarrow> [''verify'', m]
      | HistoryCommand \<Rightarrow> [''history'', m]
      | DrawCommand Propose trn \<Rightarrow> [''draw'', m, ''propose'', ''--turn'', show_int trn]
      | DrawCommand (Vote v) trn \<Rightarrow>
          [''draw'', m, ''vote'', ''--turn'', show_int trn, ''--vote'', if v then ''yes'' else ''no''])"

text \<open>A value that begins with a dash could be taken for an option; numbers have at most 4300 digits.\<close>

definition no_dash :: "string \<Rightarrow> bool" where
  "no_dash s \<longleftrightarrow> s = [] \<or> hd s \<noteq> CHR ''-''"

definition short_int :: "int \<Rightarrow> bool" where
  "short_int i \<longleftrightarrow> length (show_nat (nat \<bar>i\<bar>)) \<le> 4300"

fun writable :: "client_request \<Rightarrow> bool" where
  "writable (DiscoverRequest coordinator seconds) \<longleftrightarrow> no_dash coordinator \<and> seconds \<in> \<int>"
| "writable (JoinRequest m coordinator pub display_name) \<longleftrightarrow>
     no_dash m \<and> no_dash coordinator \<and> no_dash pub \<and> (case display_name of None \<Rightarrow> True | Some n \<Rightarrow> no_dash n)"
| "writable (SessionRequest m c) \<longleftrightarrow>
     no_dash m \<and>
     (case c of
        NegotiateCommand recipient content \<Rightarrow> no_dash recipient \<and> no_dash content
      | OrderCommand revision specs \<Rightarrow> short_int revision \<and> specs \<noteq> [] \<and> list_all no_dash specs
      | DrawCommand action trn \<Rightarrow> short_int trn
      | _ \<Rightarrow> True)"

section \<open>A command line is read as it was written\<close>

lemma no_dash_value: "no_dash s \<Longrightarrow> classify T s = Value" "no_dash s \<Longrightarrow> s \<noteq> ''--''"
  by (auto simp: no_dash_def classify_def)

lemma show_int_cases:
  obtains n where "0 \<le> i" "show_int i = show_nat n" "n = nat i" | n where "i < 0" "show_int i = CHR ''-'' # show_nat n" "n = nat (- i)"
  by (cases "i < 0") (auto simp: show_int_def)

lemma digits_plain:
  "strip (show_nat n) = show_nat n" "strip (CHR ''-'' # show_nat n) = CHR ''-'' # show_nat n"
  "takeWhile is_digit (show_nat n) = show_nat n" "dropWhile is_digit (show_nat n) = []"
  "hd (show_nat n) \<noteq> CHR ''-''" "hd (show_nat n) \<notin> set ''+-''" "CHR ''_'' \<notin> set (show_nat n)" "last (show_nat n) \<noteq> CHR 0x0A"
  "list_all (\<lambda>c. (of_char c :: nat) < 128) (show_nat n)" "\<not> list_ex (\<lambda>c. c \<in> set ''_eEiInN'') (show_nat n)"
proof -
  have d: "\<forall>c\<in>set (show_nat n). is_digit c" "show_nat n \<noteq> []" using digits_of by (auto simp: list_all_iff)
  then have e: "is_digit (hd (show_nat n))" "is_digit (last (show_nat n))" by auto
  have blank: "\<not> is_blank c" if "is_digit c \<or> c = CHR ''-''" for c using that by (auto simp: is_digit_def is_blank_def)
  have keep: "strip s = s" if "s \<noteq> []" "\<not> is_blank (hd s)" "\<not> is_blank (last s)" for s
  proof -
    have "dropWhile is_blank s = s" using that(1,2) by (cases s) auto
    moreover have "dropWhile is_blank (rev s) = rev s" using that(1,3) by (cases s rule: rev_cases) auto
    ultimately show ?thesis by (simp add: strip_def)
  qed
  show "strip (show_nat n) = show_nat n" "strip (CHR ''-'' # show_nat n) = CHR ''-'' # show_nat n"
    using d e blank by (simp_all add: keep)
  show "takeWhile is_digit (show_nat n) = show_nat n" "dropWhile is_digit (show_nat n) = []"
    using d by (simp_all add: takeWhile_eq_all_conv dropWhile_eq_Nil_conv)
  show "hd (show_nat n) \<noteq> CHR ''-''" "hd (show_nat n) \<notin> set ''+-''" "last (show_nat n) \<noteq> CHR 0x0A" using e by (auto simp: is_digit_def)
  show "CHR ''_'' \<notin> set (show_nat n)" "list_all (\<lambda>c. (of_char c :: nat) < 128) (show_nat n)"
    "\<not> list_ex (\<lambda>c. c \<in> set ''_eEiInN'') (show_nat n)"
    using d(1) by (auto simp: list_all_iff list_ex_iff is_digit_def)
qed

lemma show_int_parts:
  "strip (show_int i) = show_int i" "unsigned_part (show_int i) = show_nat (nat \<bar>i\<bar>)" "is_negative (show_int i) \<longleftrightarrow> i < 0"
  "list_all (\<lambda>c. (of_char c :: nat) < 128) (show_int i)"
  using digits_of(2) digits_plain
  by (cases rule: show_int_cases [of i]; auto simp: unsigned_part_def is_negative_def)+

lemma int_value: "short_int i \<Longrightarrow> convert_value Integer (show_int i) = Parsed (AInt i)"
  using digits_of [of "nat \<bar>i\<bar>"] digits_plain(7) [of "nat \<bar>i\<bar>"]
  by (auto simp: short_int_def read_integer_def Let_def show_int_parts read_show_nat)

lemma number_value: "convert_value Number (show_int i) = Parsed (ANumber (of_int i))"
proof -
  let ?u = "show_nat (nat \<bar>i\<bar>)"
  have q: "(if i < 0 then - of_nat (nat \<bar>i\<bar>) else of_nat (nat \<bar>i\<bar>)) = (of_int i :: rat)" by simp
  have "convert_value Number (show_int i) = Parsed (ANumber (if i < 0 then - of_nat (nat \<bar>i\<bar>) else of_nat (nat \<bar>i\<bar>)))"
    unfolding convert_value.simps read_number_def Let_def show_int_parts
    using digits_plain(3,4,10) [of "nat \<bar>i\<bar>"] digits_of(2) [of "nat \<bar>i\<bar>"] show_int_parts(4) [of i]
    by (simp add: read_show_nat digits_plain(3,4) del: set_simps)
  then show ?thesis unfolding q .
qed

definition long_flags :: "(string \<times> flag) list \<Rightarrow> bool" where
  "long_flags T \<longleftrightarrow> list_all (\<lambda>(name, _). 1 < length name \<and> \<not> is_digit (name ! 1)) T"

lemma int_argument:
  assumes "long_flags T"
  shows "classify T (show_int i) = Value" "show_int i \<noteq> ''--''"
proof -
  have "classify T (show_int i) = Value \<and> show_int i \<noteq> ''--''"
  proof (cases "i < 0")
    case False
    then show ?thesis using digits_plain(5) [of "nat i"] digits_of(2) by (auto simp: show_int_def classify_def)
  next
    case True
    obtain c t where c: "show_nat (nat (- i)) = c # t" "is_digit c"
      using digits_of [of "nat (- i)"] by (cases "show_nat (nat (- i))") auto
    then have s: "show_int i = CHR ''-'' # c # t" using True by (simp add: show_int_def)
    have no: "c \<noteq> CHR ''-'' \<and> c \<noteq> CHR ''h'' \<and> CHR ''='' \<notin> set (c # t)"
      using c digits_of(1) [of "nat (- i)"] by (auto simp: is_digit_def list_all_iff)
    have "map_of T (show_int i) = None"
      using assms c(2) by (force simp: map_of_eq_None_iff long_flags_def list_all_iff s)
    moreover have "negative_number (show_int i)"
      using digits_plain(8) [of "nat (- i)"] digits_of [of "nat (- i)"] True
      by (simp add: negative_number_def Let_def show_int_def digits_plain(3,4) list_all_iff)
    ultimately show ?thesis using no show_int_parts(4) [of i] by (simp add: classify_def s after_equals_def)
  qed
  then show "classify T (show_int i) = Value" "show_int i \<noteq> ''--''" by blast+
qed

declare parse_main.simps [simp del]

text \<open>The line of a subcommand parses as the arguments of the subcommand do.\<close>

lemma line_parses:
  assumes "find (\<lambda>c. sc_name c = name) (pr_commands P) = Some c"
    and "pr_options P = [(add_option ''--data-dir'' ''data_dir'')\<lparr>op_default := v\<rparr>]"
    and "no_dash d" "no_dash name" "''--'' \<notin> set ss"
    and "parse_arguments (sc_options c) (sc_positionals c) ss [] False = Parsed (ns, False)"
  shows "parse_args P (''--data-dir'' # d # name # ss) = Parsed (name, (''data_dir'', AText d) # ns)"
proof -
  have "parse_main P (''--data-dir'' # d # name # ss) [] False = parse_main P (name # ss) [(''data_dir'', AText d)] False"
    using no_dash_value(1) [OF assms(3)]
    by (simp add: parse_main.simps(2) [of _ "''--data-dir''"])
      (simp add: assms(2) flag_table_def classify_def [of _ "''--data-dir''"] add_option_def store_option_def chosen_def)
  also have "\<dots> = Parsed (name, (''data_dir'', AText d) # ns)"
    using assms(1,6) no_dash_value(1) [OF assms(4)]
    by (simp add: parse_main.simps finish_arguments_def) (simp add: assms(2) add_option_def)
  finally show ?thesis
    using assms(5) no_dash_value(2) [OF assms(3)] no_dash_value(2) [OF assms(4)] by (auto simp: parse_args_def)
qed

lemmas subcommand_defs = plain_subcommand_def p_discover_def p_join_def p_negotiate_def p_order_def p_draw_def p_end_def
  p_serve_def phase_option_def

lemmas argument_simps = classify_def [of _ "CHR ''-'' # _"] add_option_def required_option_def add_positional_def
  store_option_def chosen_def

lemma client_subcommands:
  "find (\<lambda>c. sc_name c = ''discover'') (pr_commands client_parser) = Some p_discover"
  "find (\<lambda>c. sc_name c = ''join'') (pr_commands client_parser) = Some p_join"
  "find (\<lambda>c. sc_name c = ''negotiate'') (pr_commands client_parser) = Some p_negotiate"
  "find (\<lambda>c. sc_name c = ''order'') (pr_commands client_parser) = Some p_order"
  "find (\<lambda>c. sc_name c = ''draw'') (pr_commands client_parser) = Some p_draw"
  "name \<in> {''status'', ''orders'', ''verify'', ''history''} \<Longrightarrow>
     find (\<lambda>c. sc_name c = name) (pr_commands client_parser) = Some (plain_subcommand name)"
  by (auto simp: client_parser_def subcommand_defs)

lemma client_options: "pr_options client_parser =
    [(add_option ''--data-dir'' ''data_dir'')\<lparr>op_default := AText ''.rns-diplomacy-client''\<rparr>]"
  by (simp add: client_parser_def)

lemmas client_parses = line_parses [OF _ client_options]

lemma client_flags: "c \<in> set (pr_commands client_parser) \<Longrightarrow> long_flags (flag_table (sc_options c))"
  by (auto simp: client_parser_def subcommand_defs long_flags_def flag_table_def add_option_def required_option_def is_digit_def)

lemma dashes: "no_dash s \<Longrightarrow> ''--'' \<noteq> s" "''--'' \<noteq> show_int i"
  using no_dash_value(2) [of s] int_argument(2) [of "[]" i] by (auto simp: long_flags_def)

lemma flag_values:
  "no_dash s \<Longrightarrow> classify (flag_table (sc_options c)) s = Value"
  "c \<in> {p_discover, p_order, p_draw} \<Longrightarrow> classify (flag_table (sc_options c)) (show_int i) = Value"
proof -
  have "set (pr_commands client_parser) \<supseteq> {p_discover, p_order, p_draw}" by (simp add: client_parser_def)
  then show "c \<in> {p_discover, p_order, p_draw} \<Longrightarrow> classify (flag_table (sc_options c)) (show_int i) = Value"
    using client_flags int_argument(1) by blast
qed (rule no_dash_value)

text \<open>The arguments of each subcommand.\<close>

lemma plain_arguments:
  "no_dash m \<Longrightarrow> parse_arguments (sc_options (plain_subcommand name)) (sc_positionals (plain_subcommand name)) [m] [] False =
     Parsed ([(''match_id'', AText m)], False)"
  by (simp add: plain_subcommand_def no_dash_value add_positional_def chosen_def finish_arguments_def)

lemma negotiate_arguments:
  assumes "no_dash m" "no_dash recipient" "no_dash content"
  shows "parse_arguments (sc_options p_negotiate) (sc_positionals p_negotiate) [m, ''--to'', recipient, ''--message'', content] [] False =
    Parsed ([(''match_id'', AText m), (''to'', AText recipient), (''message'', AText content)], False)"
  using assms by (simp add: no_dash_value flag_table_def argument_simps subcommand_defs finish_arguments_def)

lemma more_orders:
  assumes "list_all no_dash specs" "xs \<noteq> []"
  shows "parse_arguments (sc_options p_order) [] (concat (map (\<lambda>s. [''--order'', s]) specs))
      [(''match_id'', AText m), (''revision'', AInt i), (''order'', AList xs)] False =
    Parsed ([(''match_id'', AText m), (''revision'', AInt i), (''order'', AList (xs @ specs))], False)"
  using assms
proof (induction specs arbitrary: xs)
  case Nil
  then show ?case by (simp add: subcommand_defs finish_arguments_def argument_simps)
next
  case (Cons s specs)
  have "classify (flag_table (sc_options p_order)) ''--order'' =
      FlagArg (OptionFlag ((required_option ''--order'' ''order'')\<lparr>op_append := True\<rparr>)) None"
    by (simp add: subcommand_defs flag_table_def argument_simps)
  with Cons show ?case by (simp add: no_dash_value store_option_def chosen_def required_option_def add_option_def)
qed

lemma order_arguments:
  assumes "no_dash m" "short_int revision" "specs \<noteq> []" "list_all no_dash specs"
  shows "parse_arguments (sc_options p_order) (sc_positionals p_order)
      (m # ''--revision'' # show_int revision # concat (map (\<lambda>s. [''--order'', s]) specs)) [] False =
    Parsed ([(''match_id'', AText m), (''revision'', AInt revision), (''order'', AList specs)], False)"
proof -
  obtain s rest where specs: "specs = s # rest" using assms(3) by (cases specs) auto
  have c: "classify (flag_table (sc_options p_order)) ''--revision'' =
      FlagArg (OptionFlag ((required_option ''--revision'' ''revision'')\<lparr>op_conversion := Integer\<rparr>)) None"
    "classify (flag_table (sc_options p_order)) ''--order'' =
      FlagArg (OptionFlag ((required_option ''--order'' ''order'')\<lparr>op_append := True\<rparr>)) None"
    by (simp_all add: subcommand_defs flag_table_def argument_simps)
  have p: "sc_positionals p_order = [add_positional ''match_id'']" by (simp add: subcommand_defs)
  show ?thesis
    using assms(1,2,4) more_orders [of rest "[s]" m revision]
    by (simp add: specs p c flag_values no_dash_value store_option_def int_value chosen_def required_option_def
        add_option_def add_positional_def del: convert_value.simps(2,3))
qed

lemma draw_arguments:
  assumes "no_dash m" "short_int trn"
  shows "parse_arguments (sc_options p_draw) (sc_positionals p_draw) [m, ''propose'', ''--turn'', show_int trn] [] False =
      Parsed ([(''match_id'', AText m), (''action'', AText ''propose''), (''turn'', AInt trn), (''vote'', ANone)], False)"
    and "answer = ''yes'' \<or> answer = ''no'' \<Longrightarrow>
      parse_arguments (sc_options p_draw) (sc_positionals p_draw) [m, ''vote'', ''--turn'', show_int trn, ''--vote'', answer] [] False =
      Parsed ([(''match_id'', AText m), (''action'', AText ''vote''), (''turn'', AInt trn), (''vote'', AText answer)], False)"
    and "parse_arguments (sc_options p_draw) (sc_positionals p_draw) [m, ''vote'', ''--turn'', show_int trn] [] False =
      Parsed ([(''match_id'', AText m), (''action'', AText ''vote''), (''turn'', AInt trn), (''vote'', ANone)], False)"
proof -
  have p: "sc_positionals p_draw = [add_positional ''match_id'', \<lparr>ps_dest = ''action'', ps_choices = Some [''propose'', ''vote'']\<rparr>]"
    "sc_options p_draw = [(required_option ''--turn'' ''turn'')\<lparr>op_conversion := Integer\<rparr>,
     (add_option ''--vote'' ''vote'')\<lparr>op_choices := Some [''yes'', ''no'']\<rparr>]"
    by (simp_all add: subcommand_defs)
  have c: "classify (flag_table (sc_options p_draw)) ''--turn'' =
      FlagArg (OptionFlag ((required_option ''--turn'' ''turn'')\<lparr>op_conversion := Integer\<rparr>)) None"
    "classify (flag_table (sc_options p_draw)) ''--vote'' =
      FlagArg (OptionFlag ((add_option ''--vote'' ''vote'')\<lparr>op_choices := Some [''yes'', ''no'']\<rparr>)) None"
    by (simp_all add: p(2) flag_table_def argument_simps)
  note run = p(1) c flag_values no_dash_value no_dash_def [of "''propose''"] no_dash_def [of "''vote''"] no_dash_def [of "''yes''"]
    no_dash_def [of "''no''"] store_option_def int_value chosen_def required_option_def add_option_def add_positional_def
  note ends = p(2) finish_arguments_def required_option_def add_option_def
  show "parse_arguments (sc_options p_draw) (sc_positionals p_draw) [m, ''propose'', ''--turn'', show_int trn] [] False =
      Parsed ([(''match_id'', AText m), (''action'', AText ''propose''), (''turn'', AInt trn), (''vote'', ANone)], False)"
    using assms by (simp add: run del: convert_value.simps(2,3)) (simp add: ends)
  show "answer = ''yes'' \<or> answer = ''no'' \<Longrightarrow>
      parse_arguments (sc_options p_draw) (sc_positionals p_draw) [m, ''vote'', ''--turn'', show_int trn, ''--vote'', answer] [] False =
      Parsed ([(''match_id'', AText m), (''action'', AText ''vote''), (''turn'', AInt trn), (''vote'', AText answer)], False)"
    using assms by (elim disjE; simp add: run del: convert_value.simps(2,3); simp add: ends)
  show "parse_arguments (sc_options p_draw) (sc_positionals p_draw) [m, ''vote'', ''--turn'', show_int trn] [] False =
      Parsed ([(''match_id'', AText m), (''action'', AText ''vote''), (''turn'', AInt trn), (''vote'', ANone)], False)"
    using assms by (simp add: run del: convert_value.simps(2,3)) (simp add: ends)
qed

lemma discover_arguments:
  assumes "no_dash coordinator"
  shows "parse_arguments (sc_options p_discover) (sc_positionals p_discover)
      [''--coordinator'', coordinator, ''--seconds'', show_int i] [] False =
    Parsed ([(''coordinator'', AText coordinator), (''seconds'', ANumber (of_int i))], False)"
proof -
  have p: "sc_positionals p_discover = []" "sc_options p_discover = [required_option ''--coordinator'' ''coordinator'',
     (add_option ''--seconds'' ''seconds'')\<lparr>op_conversion := Number, op_default := ANumber 10\<rparr>]"
    by (simp_all add: subcommand_defs)
  have c: "classify (flag_table (sc_options p_discover)) ''--coordinator'' =
      FlagArg (OptionFlag (required_option ''--coordinator'' ''coordinator'')) None"
    "classify (flag_table (sc_options p_discover)) ''--seconds'' =
      FlagArg (OptionFlag ((add_option ''--seconds'' ''seconds'')\<lparr>op_conversion := Number, op_default := ANumber 10\<rparr>)) None"
    by (simp_all add: p(2) flag_table_def argument_simps)
  show ?thesis
    using assms
    by (simp add: p(1) c flag_values store_option_def number_value chosen_def required_option_def add_option_def
        del: convert_value.simps(2,3))
      (simp add: p(2) finish_arguments_def required_option_def add_option_def)
qed

definition optional_text :: "string option \<Rightarrow> arg_value" where
  "optional_text s = (case s of None \<Rightarrow> ANone | Some t \<Rightarrow> AText t)"

lemma join_arguments:
  assumes "no_dash m" "no_dash coordinator" "no_dash pub" "\<And>n. display_name = Some n \<Longrightarrow> no_dash n"
  shows "parse_arguments (sc_options p_join) (sc_positionals p_join)
      ([m, ''--coordinator'', coordinator, ''--coordinator-pub'', pub] @
       (case display_name of None \<Rightarrow> [] | Some n \<Rightarrow> [''--display-name'', n])) [] False =
    Parsed ([(''match_id'', AText m), (''coordinator'', AText coordinator), (''coordinator_pub'', AText pub),
      (''display_name'', optional_text display_name)], False)"
proof -
  have p: "sc_positionals p_join = [add_positional ''match_id'']" "sc_options p_join =
     [required_option ''--coordinator'' ''coordinator'', required_option ''--coordinator-pub'' ''coordinator_pub'',
      add_option ''--display-name'' ''display_name'']"
    by (simp_all add: subcommand_defs)
  have c: "classify (flag_table (sc_options p_join)) ''--coordinator'' =
      FlagArg (OptionFlag (required_option ''--coordinator'' ''coordinator'')) None"
    "classify (flag_table (sc_options p_join)) ''--coordinator-pub'' =
      FlagArg (OptionFlag (required_option ''--coordinator-pub'' ''coordinator_pub'')) None"
    "classify (flag_table (sc_options p_join)) ''--display-name'' =
      FlagArg (OptionFlag (add_option ''--display-name'' ''display_name'')) None"
    by (simp_all add: p(2) flag_table_def argument_simps)
  show ?thesis
    using assms
    by (cases display_name)
      (simp_all add: p(1) c flag_values no_dash_value store_option_def chosen_def required_option_def add_option_def
        add_positional_def optional_text_def, simp_all add: p(2) finish_arguments_def required_option_def add_option_def)
qed

text \<open>The whole lines.\<close>

lemmas reads = client_arguments_def client_request_of_def text_of_def optional_text_of_def int_of_def texts_of_def
  number_of_arg_def

lemma session_line_read:
  assumes d: "no_dash d" and "writable (SessionRequest m c)"
  shows "client_arguments (''--data-dir'' # d # client_line (SessionRequest m c)) = Parsed (d, SessionRequest m c)"
proof -
  have m: "no_dash m" using assms(2) by simp
  have plain: "parse_args client_parser (''--data-dir'' # d # name # [m]) =
      Parsed (name, (''data_dir'', AText d) # [(''match_id'', AText m)])"
    if "name \<in> {''status'', ''orders'', ''verify'', ''history''}" for name
    by (rule client_parses [OF client_subcommands(6) [OF that] d _ _ plain_arguments [OF m]])
      (use that m in \<open>auto simp: dashes no_dash_def [of name]\<close>)
  show ?thesis
  proof (cases c)
    case (NegotiateCommand recipient content)
    then have ok: "no_dash recipient" "no_dash content" using assms(2) by simp_all
    have "''--'' \<notin> set [m, ''--to'', recipient, ''--message'', content]" using m ok by (simp add: dashes)
    from client_parses [OF client_subcommands(3) d _ this negotiate_arguments [OF m ok]] show ?thesis
      by (simp add: NegotiateCommand reads no_dash_def)
  next
    case (OrderCommand revision specs)
    then have ok: "short_int revision" "specs \<noteq> []" "list_all no_dash specs" using assms(2) by simp_all
    have "''--'' \<notin> set (m # ''--revision'' # show_int revision # concat (map (\<lambda>s. [''--order'', s]) specs))"
      using m ok(3) dashes by (auto simp: list_all_iff)
    from client_parses [OF client_subcommands(4) d _ this order_arguments [OF m ok]] show ?thesis
      by (simp add: OrderCommand reads no_dash_def)
  next
    case (DrawCommand action trn)
    then have t: "short_int trn" using assms(2) by simp
    show ?thesis
    proof (cases action)
      case Propose
      have "''--'' \<notin> set [m, ''propose'', ''--turn'', show_int trn]" using m by (simp add: dashes)
      from client_parses [OF client_subcommands(5) d _ this draw_arguments(1) [OF m t]] show ?thesis
        by (simp add: DrawCommand Propose reads no_dash_def)
    next
      case (Vote v)
      let ?v = "if v then ''yes'' else ''no''"
      have "''--'' \<notin> set [m, ''vote'', ''--turn'', show_int trn, ''--vote'', ?v]" using m by (simp add: dashes)
      from client_parses [OF client_subcommands(5) d _ this draw_arguments(2) [OF m t]] show ?thesis
        by (cases v) (simp_all add: DrawCommand Vote reads no_dash_def)
    qed
  qed (use plain in \<open>simp_all add: reads\<close>)
qed

text \<open>The option of a vote is needed, and only there.\<close>

lemma vote_needs_answer:
  assumes "no_dash d" "no_dash m" "short_int trn"
  shows "client_arguments [''--data-dir'', d, ''draw'', m, ''vote'', ''--turn'', show_int trn] = UsageError"
proof -
  have "parse_arguments (sc_options p_draw) (sc_positionals p_draw) [m, ''vote'', ''--turn'', show_int trn] [] False =
      Parsed ([(''match_id'', AText m), (''action'', AText ''vote''), (''turn'', AInt trn), (''vote'', ANone)], False)"
    by (rule draw_arguments(3) [OF assms(2,3)])
  moreover have "''--'' \<notin> set [m, ''vote'', ''--turn'', show_int trn]" using assms(2) by (simp add: dashes)
  ultimately show ?thesis
    using client_parses [OF client_subcommands(5) assms(1)] by (simp add: client_arguments_def text_of_def optional_text_of_def no_dash_def)
qed

section \<open>The operator's command lines\<close>

fun operator_line :: "operator_request \<Rightarrow> string list" where
  "operator_line (CreateRequest m) = [''create'', m]"
| "operator_line (StatusRequest m) = [''status'', m]"
| "operator_line (PlayersRequest m) = [''list-players'', m]"
| "operator_line (CommandRequest m cmd) = [command_name cmd, m] @ (case cmd of CmdEnd reason \<Rightarrow> [''--reason'', reason] | _ \<Rightarrow> [])"
| "operator_line (ServeRequest m listen movement retreat adjustment) =
     [''serve'', m, ''--listen'', listen, ''--movement-seconds'', show_int \<lfloor>movement\<rfloor>,
      ''--retreat-seconds'', show_int \<lfloor>retreat\<rfloor>, ''--adjustment-seconds'', show_int \<lfloor>adjustment\<rfloor>]"

fun writable_request :: "operator_request \<Rightarrow> bool" where
  "writable_request (CreateRequest m) \<longleftrightarrow> no_dash m"
| "writable_request (StatusRequest m) \<longleftrightarrow> no_dash m"
| "writable_request (PlayersRequest m) \<longleftrightarrow> no_dash m"
| "writable_request (CommandRequest m cmd) \<longleftrightarrow> no_dash m \<and> (case cmd of CmdEnd reason \<Rightarrow> no_dash reason | _ \<Rightarrow> True)"
| "writable_request (ServeRequest m listen movement retreat adjustment) \<longleftrightarrow>
     no_dash m \<and> no_dash listen \<and> movement \<in> \<int> \<and> retreat \<in> \<int> \<and> adjustment \<in> \<int>"

lemma operator_options: "pr_options coordinator_parser =
    [(add_option ''--data-dir'' ''data_dir'')\<lparr>op_default := AText ''.rns-diplomacy''\<rparr>]"
  by (simp add: coordinator_parser_def)

lemmas operator_parses = line_parses [OF _ operator_options]

lemma operator_subcommands:
  "name \<in> {''create'', ''status'', ''list-players'', ''start'', ''advance-phase'', ''pause'', ''resume''} \<Longrightarrow>
     find (\<lambda>c. sc_name c = name) (pr_commands coordinator_parser) = Some (plain_subcommand name)"
  "find (\<lambda>c. sc_name c = ''end'') (pr_commands coordinator_parser) = Some p_end"
  "find (\<lambda>c. sc_name c = ''serve'') (pr_commands coordinator_parser) = Some p_serve"
  by (auto simp: coordinator_parser_def subcommand_defs)

lemma end_arguments:
  assumes "no_dash m" "no_dash reason"
  shows "parse_arguments (sc_options p_end) (sc_positionals p_end) [m, ''--reason'', reason] [] False =
    Parsed ([(''match_id'', AText m), (''reason'', AText reason)], False)"
  using assms by (simp add: no_dash_value flag_table_def argument_simps subcommand_defs finish_arguments_def)

lemma serve_arguments:
  assumes "no_dash m" "no_dash listen"
  shows "parse_arguments (sc_options p_serve) (sc_positionals p_serve) [m, ''--listen'', listen, ''--movement-seconds'', show_int a,
      ''--retreat-seconds'', show_int b, ''--adjustment-seconds'', show_int c] [] False =
    Parsed ([(''match_id'', AText m), (''listen'', AText listen), (''movement_seconds'', ANumber (of_int a)),
      (''retreat_seconds'', ANumber (of_int b)), (''adjustment_seconds'', ANumber (of_int c))], False)"
proof -
  have p: "sc_positionals p_serve = [add_positional ''match_id'']" "sc_options p_serve =
     [required_option ''--listen'' ''listen'',
      phase_option ''--movement-seconds'' ''movement_seconds'' DEFAULT_MOVEMENT_PHASE_SECONDS,
      phase_option ''--retreat-seconds'' ''retreat_seconds'' DEFAULT_RETREAT_PHASE_SECONDS,
      phase_option ''--adjustment-seconds'' ''adjustment_seconds'' DEFAULT_ADJUSTMENT_PHASE_SECONDS]"
    by (simp_all add: p_serve_def plain_subcommand_def)
  have f: "classify (flag_table (sc_options p_serve)) ''--listen'' = FlagArg (OptionFlag (required_option ''--listen'' ''listen'')) None"
    "classify (flag_table (sc_options p_serve)) ''--movement-seconds'' = FlagArg (OptionFlag
       (phase_option ''--movement-seconds'' ''movement_seconds'' DEFAULT_MOVEMENT_PHASE_SECONDS)) None"
    "classify (flag_table (sc_options p_serve)) ''--retreat-seconds'' = FlagArg (OptionFlag
       (phase_option ''--retreat-seconds'' ''retreat_seconds'' DEFAULT_RETREAT_PHASE_SECONDS)) None"
    "classify (flag_table (sc_options p_serve)) ''--adjustment-seconds'' = FlagArg (OptionFlag
       (phase_option ''--adjustment-seconds'' ''adjustment_seconds'' DEFAULT_ADJUSTMENT_PHASE_SECONDS)) None"
    by (simp_all add: p(2) flag_table_def phase_option_def argument_simps)
  have "long_flags (flag_table (sc_options p_serve))"
    by (simp add: p(2) long_flags_def flag_table_def phase_option_def add_option_def required_option_def is_digit_def)
  note ints = int_argument(1) [OF this]
  show ?thesis
    using assms
    by (simp add: p(1) f ints no_dash_value store_option_def number_value chosen_def required_option_def add_option_def
        phase_option_def add_positional_def del: convert_value.simps(2,3))
      (simp add: p(2) finish_arguments_def required_option_def add_option_def phase_option_def)
qed

text \<open>The operator's command lines are read as they were written.\<close>

lemma operator_line_read:
  assumes d: "no_dash d" and "writable_request r"
  shows "operator_arguments (''--data-dir'' # d # operator_line r) = Parsed (d, r)"
proof -
  note reads = operator_arguments_def operator_request_of_def text_of_def number_of_arg_def
  have plain: "parse_args coordinator_parser (''--data-dir'' # d # name # [m]) =
      Parsed (name, (''data_dir'', AText d) # [(''match_id'', AText m)])"
    if "name \<in> {''create'', ''status'', ''list-players'', ''start'', ''advance-phase'', ''pause'', ''resume''}" "no_dash m" for name m
    by (rule operator_parses [OF operator_subcommands(1) [OF that(1)] d _ _ plain_arguments [OF that(2)]])
      (use that in \<open>auto simp: dashes no_dash_def [of name]\<close>)
  show ?thesis
  proof (cases r)
    case (CommandRequest m cmd)
    then have m: "no_dash m" using assms(2) by simp
    show ?thesis
    proof (cases cmd)
      case (CmdEnd reason)
      then have ok: "no_dash reason" using assms(2) CommandRequest by simp
      have "''--'' \<notin> set [m, ''--reason'', reason]" using m ok by (simp add: dashes)
      from operator_parses [OF operator_subcommands(2) d _ this end_arguments [OF m ok]] show ?thesis
        by (simp add: CommandRequest CmdEnd reads no_dash_def)
    qed (use plain m in \<open>simp_all add: CommandRequest reads\<close>)
  next
    case (ServeRequest m listen a b c)
    then have ok: "no_dash m" "no_dash listen" and whole: "a = of_int \<lfloor>a\<rfloor>" "b = of_int \<lfloor>b\<rfloor>" "c = of_int \<lfloor>c\<rfloor>"
      using assms(2) by (auto elim: Ints_cases)
    have "''--'' \<notin> set [m, ''--listen'', listen, ''--movement-seconds'', show_int \<lfloor>a\<rfloor>,
        ''--retreat-seconds'', show_int \<lfloor>b\<rfloor>, ''--adjustment-seconds'', show_int \<lfloor>c\<rfloor>]"
      using ok by (simp add: dashes)
    from operator_parses [OF operator_subcommands(3) d _ this serve_arguments [OF ok]] whole show ?thesis
      by (simp add: ServeRequest reads no_dash_def)
  qed (use plain assms(2) in \<open>simp_all add: reads\<close>)
qed

section \<open>The client's command lines\<close>

text \<open>A command line of the client is read as it was written: the line of any request, with the values
  in it that do not begin with a dash, numbers with their sign included, is parsed into exactly this request
  and data directory, whatever other characters the values hold.\<close>

theorem client_line_read:
  assumes "no_dash d" and "writable r"
  shows "client_arguments (''--data-dir'' # d # client_line r) = Parsed (d, r)"
proof (cases r)
  case (DiscoverRequest coordinator seconds)
  then have ok: "no_dash coordinator" "seconds = of_int \<lfloor>seconds\<rfloor>" using assms(2) by (auto elim: Ints_cases)
  have "''--'' \<notin> set [''--coordinator'', coordinator, ''--seconds'', show_int \<lfloor>seconds\<rfloor>]" using ok(1) by (simp add: dashes)
  from client_parses [OF client_subcommands(1) assms(1) _ this discover_arguments [OF ok(1)]] ok(2) show ?thesis
    by (simp add: DiscoverRequest reads no_dash_def)
next
  case (JoinRequest m coordinator pub display_name)
  then have ok: "no_dash m" "no_dash coordinator" "no_dash pub" "\<And>n. display_name = Some n \<Longrightarrow> no_dash n"
    using assms(2) by auto
  have "''--'' \<notin> set ([m, ''--coordinator'', coordinator, ''--coordinator-pub'', pub] @
      (case display_name of None \<Rightarrow> [] | Some n \<Rightarrow> [''--display-name'', n]))"
    using ok by (cases display_name) (simp_all add: dashes)
  from client_parses [OF client_subcommands(2) assms(1) _ this join_arguments [OF ok]] show ?thesis
    by (cases display_name) (simp_all add: JoinRequest reads no_dash_def optional_text_def)
next
  case (SessionRequest m c)
  then show ?thesis using session_line_read [OF assms(1), of m c] assms(2) by simp
qed

theorem client_line_read_witness:
  "client_arguments [''--data-dir'', ''x'', ''order'', ''m'', ''--revision'', ''2'', ''--order'', ''a:hold'', ''--order'', ''b:move:c''] =
     Parsed (''x'', SessionRequest ''m'' (OrderCommand 2 [''a:hold'', ''b:move:c'']))"
proof -
  have "show_nat 2 = ''2''" by (simp add: show_nat.simps [of 2]) (simp add: char_of_eq_iff)
  then show ?thesis
    using client_line_read [of "''x''" "SessionRequest ''m'' (OrderCommand 2 [''a:hold'', ''b:move:c''])"]
    by (simp add: no_dash_def short_int_def show_int_def)
qed

end
