(* ===== verification/Json_Files.thy ===== *)
theory Json_Files
  imports Client_Commands Json
begin

text \<open>
  The files of a player's session as texts (\<^verbatim>\<open>client/cli.py\<close>): \<open>json.dumps\<close> and \<open>json.loads\<close> of the records of the
  log, the lines of the log, and the paths below the data directory. Where \<open>Client_Session\<close> keeps the log as
  the list of its records, here is the file: what \<open>_append_jsonl\<close> adds to it and \<open>_read_jsonl\<close> reads back.
  The model stops at numbers with a fraction, at characters beyond ASCII and at JSON texts of another layout
  than that of \<open>json.dumps\<close>.
\<close>

section \<open>Writing values\<close>

text \<open>\<open>json.dumps\<close> raises \<open>TypeError\<close> on bytes, and \<open>ValueError\<close> on an integer of more than 4300 digits.\<close>

fun long_number :: "canonical \<Rightarrow> bool" where
  "long_number (CInt i) \<longleftrightarrow> 4300 < length (show_nat (nat \<bar>i\<bar>))"
| "long_number (CList vs) \<longleftrightarrow> list_ex long_number vs"
| "long_number (CDict d) \<longleftrightarrow> list_ex (\<lambda>(k, v). long_number v) d"
| "long_number _ \<longleftrightarrow> False"

fun plain_json :: "canonical \<Rightarrow> bool" where
  "plain_json (CFloat _) \<longleftrightarrow> False"
| "plain_json (CStr s) \<longleftrightarrow> list_all is_ascii s"
| "plain_json (CList vs) \<longleftrightarrow> list_all plain_json vs"
| "plain_json (CDict d) \<longleftrightarrow> list_all (\<lambda>(k, v). list_all is_ascii k \<and> plain_json v) d"
| "plain_json _ \<longleftrightarrow> True"

fun json_of :: "canonical \<Rightarrow> string" where
  "json_of CNone = ''null''"
| "json_of (CBool b) = (if b then ''true'' else ''false'')"
| "json_of (CInt i) = show_int i"
| "json_of (CFloat q) = ''''"
| "json_of (CStr s) = json_string s"
| "json_of (CBytes b) = ''''"
| "json_of (CList vs) = ''['' @ joined '', '' (map json_of vs) @ '']''"
| "json_of (CDict d) = ''{'' @ joined '', '' (map (\<lambda>(k, v). json_string k @ '': '' @ json_of v) d) @ ''}''"

definition dumps :: "canonical \<Rightarrow> string result" where
  "dumps v =
     (if \<not> plain_json v then Inl Unmodelled
      else if has_bytes v then Inl TypeError
      else if long_number v then Inl ValueError
      else Inr (json_of v))"

section \<open>Reading values\<close>

definition read_int :: "string \<Rightarrow> (canonical \<times> string) result" where
  "read_int s =
     (let negative = (s \<noteq> [] \<and> hd s = CHR ''-'');
          t = (if negative then tl s else s);
          ds = takeWhile is_digit t;
          rest = dropWhile is_digit t
      in if ds = [] then Inl ValueError
         else if hd ds = CHR ''0'' \<and> tl ds \<noteq> [] then Inl ValueError
         else if rest \<noteq> [] \<and> hd rest \<in> set ''.eE'' then Inl Unmodelled
         else if 4300 < length ds then Inl ValueError
         else Inr (CInt (if negative then - int (read_digits 0 ds) else int (read_digits 0 ds)), rest))"

text \<open>The fuel bounds the length of the text.\<close>

fun read_value :: "nat \<Rightarrow> string \<Rightarrow> (canonical \<times> string) result"
and read_items :: "nat \<Rightarrow> string \<Rightarrow> (canonical list \<times> string) result"
and read_pairs :: "nat \<Rightarrow> string \<Rightarrow> ((string \<times> canonical) list \<times> string) result" where
  "read_value 0 s = Inl Unmodelled"
| "read_value (Suc n) s =
     (case s of
        [] \<Rightarrow> Inl ValueError
      | c # cs \<Rightarrow>
          if take 4 s = ''null'' then Inr (CNone, drop 4 s)
          else if take 4 s = ''true'' then Inr (CBool True, drop 4 s)
          else if take 5 s = ''false'' then Inr (CBool False, drop 5 s)
          else if c = quote then bind_result (parse_string s) (\<lambda>(t, r). Inr (CStr t, r))
          else if c = CHR ''['' then
            (if take 1 cs = '']'' then Inr (CList [], tl cs)
             else bind_result (read_items n cs) (\<lambda>(vs, r). Inr (CList vs, r)))
          else if c = CHR ''{'' then
            (if take 1 cs = ''}'' then Inr (CDict [], tl cs)
             else bind_result (read_pairs n cs) (\<lambda>(d, r). Inr (CDict (dict_comp fst snd d), r)))
          else if c = CHR ''-'' \<or> is_digit c then read_int s
          else Inl Unmodelled)"
| "read_items 0 s = Inl Unmodelled"
| "read_items (Suc n) s =
     bind_result (read_value n s) (\<lambda>(v, r).
     if take 1 r = '']'' then Inr ([v], tl r)
     else if take 2 r = '', '' then bind_result (read_items n (drop 2 r)) (\<lambda>(vs, r'). Inr (v # vs, r'))
     else Inl Unmodelled)"
| "read_pairs 0 s = Inl Unmodelled"
| "read_pairs (Suc n) s =
     bind_result (parse_string s) (\<lambda>(k, r).
     if take 2 r \<noteq> '': '' then Inl Unmodelled
     else
       bind_result (read_value n (drop 2 r)) (\<lambda>(v, r').
       if take 1 r' = ''}'' then Inr ([(k, v)], tl r')
       else if take 2 r' = '', '' then bind_result (read_pairs n (drop 2 r')) (\<lambda>(d, r''). Inr ((k, v) # d, r''))
       else Inl Unmodelled))"

text \<open>\<open>json.loads\<close> of a line; what follows the value is an error, or whitespace, where the model stops.\<close>

definition loads :: "string \<Rightarrow> canonical result" where
  "loads s = bind_result (read_value (length s) s) (\<lambda>(v, r). if r = [] then Inr v else Inl Unmodelled)"

section \<open>Lines\<close>

text \<open>\<open>str.splitlines\<close> on ASCII: the text is that of \<open>read_text\<close>, in which carriage returns are line feeds.\<close>

definition ends_line :: "char \<Rightarrow> bool" where
  "ends_line c \<longleftrightarrow> (of_char c :: nat) \<in> {10, 11, 12, 13, 28, 29, 30}"

fun splitlines :: "string \<Rightarrow> string list" where
  "splitlines [] = []"
| "splitlines (c # cs) =
     (if ends_line c then [] # splitlines cs
      else (case splitlines cs of [] \<Rightarrow> [[c]] | l # ls \<Rightarrow> (c # l) # ls))"


section \<open>The log\<close>

text \<open>A file is \<open>None\<close> when it does not exist. \<open>_append_jsonl\<close> opens it before it packs the record.\<close>

type_synonym text_file = "string option"

definition append_jsonl :: "session \<Rightarrow> (text_file, unit) act" where
  "append_jsonl r f =
     (let t = (case f of None \<Rightarrow> '''' | Some t \<Rightarrow> t) in
      case dumps (CDict r) of
        Inl e \<Rightarrow> (Inl e, Some t)
      | Inr line \<Rightarrow> (Inr (), Some (t @ line @ [CHR 0x0A])))"

definition read_jsonl :: "text_file \<Rightarrow> session list result" where
  "read_jsonl f =
     (case f of
        None \<Rightarrow> Inr []
      | Some t \<Rightarrow>
          if \<not> list_all is_ascii t then Inl Unmodelled
          else
            map_result (\<lambda>line. bind_result (loads line) (\<lambda>v. case v of CDict d \<Rightarrow> Inr d | _ \<Rightarrow> Inl Unmodelled))
              (filter (\<lambda>line. \<not> list_all is_blank line) (splitlines t)))"

section \<open>Values are read back\<close>

fun distinct_keys :: "canonical \<Rightarrow> bool" where
  "distinct_keys (CList vs) \<longleftrightarrow> list_all distinct_keys vs"
| "distinct_keys (CDict d) \<longleftrightarrow> dict_ok d \<and> list_all (\<lambda>(k, v). distinct_keys v) d"
| "distinct_keys _ \<longleftrightarrow> True"

definition json_ok :: "canonical \<Rightarrow> bool" where
  "json_ok v \<longleftrightarrow> plain_json v \<and> \<not> has_bytes v \<and> \<not> long_number v \<and> distinct_keys v"

lemma dumps_Inr: "dumps v = Inr s \<longleftrightarrow> plain_json v \<and> \<not> has_bytes v \<and> \<not> long_number v \<and> s = json_of v"
  by (auto simp: dumps_def)

lemma json_ok_simps:
  "json_ok (CStr s) \<longleftrightarrow> list_all is_ascii s"
  "json_ok (CInt i) \<longleftrightarrow> length (show_nat (nat \<bar>i\<bar>)) \<le> 4300"
  "json_ok (CList vs) \<longleftrightarrow> list_all json_ok vs"
  "json_ok (CDict d) \<longleftrightarrow> dict_ok d \<and> list_all (\<lambda>(k, v). list_all is_ascii k \<and> json_ok v) d"
  "\<not> json_ok (CBytes b)" "\<not> json_ok (CFloat q)"
  by (auto simp: json_ok_def list_all_iff list_ex_iff split: prod.splits)

text \<open>What may come after a value.\<close>

definition follows :: "string \<Rightarrow> bool" where
  "follows r \<longleftrightarrow> r = [] \<or> hd r \<in> set '',]}''"

lemma read_int_show:
  assumes "length (show_nat (nat \<bar>i\<bar>)) \<le> 4300" "follows r"
  shows "read_int (show_int i @ r) = Inr (CInt i, r)"
proof -
  have stop: "r = [] \<or> (\<not> is_digit (hd r) \<and> hd r \<notin> set ''.eE'')" using assms(2) by (auto simp: follows_def is_digit_def)
  then have no_fraction: "r = [] \<or> hd r \<noteq> CHR ''.'' \<and> hd r \<noteq> CHR ''e'' \<and> hd r \<noteq> CHR ''E''" by auto
  have split: "takeWhile is_digit (show_nat n @ r) = show_nat n" "dropWhile is_digit (show_nat n @ r) = r" for n
    using digits_of(1) [of n] stop by (cases r; auto simp: list_all_iff takeWhile_append2 dropWhile_append2)+
  have zero: "\<not> (hd (show_nat n) = CHR ''0'' \<and> tl (show_nat n) \<noteq> [])" for n
    using show_nat_head [of n] by (cases n) (simp_all add: show_nat.simps [of 0])
  have plus: "hd (show_nat n @ r) \<noteq> CHR ''-''" for n
    using digits_of [of n] by (cases "show_nat n") (auto simp: is_digit_def)
  show ?thesis
  proof (cases "i < 0")
    case True
    with assms(1) split [of "nat (- i)"] zero [of "nat (- i)"] no_fraction digits_of(2) show ?thesis
      by (simp add: read_int_def show_int_def Let_def read_show_nat)
  next
    case False
    with assms(1) split [of "nat i"] zero [of "nat i"] no_fraction digits_of(2) plus [of "nat i"] show ?thesis
      by (simp add: read_int_def show_int_def Let_def read_show_nat)
  qed
qed

lemma json_head:
  assumes "json_ok v"
  shows "\<exists>c t. json_of v = c # t \<and> c \<notin> set '']}''"
proof (cases v)
  case (CInt i)
  then show ?thesis using show_int_head [of i] by (auto simp: is_digit_def)
qed (use assms in \<open>auto simp: json_ok_simps json_string_def quote_def\<close>)

lemma joined_Cons: "ss \<noteq> [] \<Longrightarrow> joined sep (s # ss) = s @ sep @ joined sep ss"
  by (cases ss) simp_all

lemma follows_simps [simp]: "follows []" "follows (CHR '','' # r)" "follows (CHR '']'' # r)" "follows (CHR ''}'' # r)"
  by (simp_all add: follows_def)

lemma read_json:
  "json_ok v \<Longrightarrow> length (json_of v) \<le> n \<Longrightarrow> follows r \<Longrightarrow> read_value n (json_of v @ r) = Inr (v, r)"
  "list_all json_ok vs \<Longrightarrow> vs \<noteq> [] \<Longrightarrow> length (joined '', '' (map json_of vs)) < n \<Longrightarrow>
     read_items n (joined '', '' (map json_of vs) @ '']'' @ r) = Inr (vs, r)"
  "list_all (\<lambda>(k, v). list_all is_ascii k \<and> json_ok v) d \<Longrightarrow> d \<noteq> [] \<Longrightarrow>
     length (joined '', '' (map (\<lambda>(k, v). json_string k @ '': '' @ json_of v) d)) < n \<Longrightarrow>
     read_pairs n (joined '', '' (map (\<lambda>(k, v). json_string k @ '': '' @ json_of v) d) @ ''}'' @ r) = Inr (d, r)"
proof (induction n arbitrary: v vs d r)
  case 0
  {
    case 1
    then show ?case using json_head [of v] by auto
  next
    case 2
    then show ?case by simp
  next
    case 3
    then show ?case by simp
  }
next
  case (Suc n)
  {
    case 1
    show ?case
    proof (cases v)
      case (CInt i)
      obtain c t where c: "show_int i = c # t" "c = CHR ''-'' \<or> is_digit c" using show_int_head by blast
      then have "c \<notin> {CHR ''n'', CHR ''t'', CHR ''f'', quote, CHR ''['', CHR ''{''}" by (auto simp: is_digit_def quote_def)
      with c CInt 1 read_int_show [of i r] show ?thesis by (simp add: json_ok_simps)
    next
      case (CStr s)
      have "json_string s @ r = quote # (concat (map escape s) @ quote # r)" by (simp add: json_string_def)
      with CStr 1 parse_json_string [of s r] show ?thesis by (simp add: json_ok_simps) (simp add: quote_def)
    next
      case (CList vs)
      show ?thesis
      proof (cases "vs = []")
        case True
        with CList show ?thesis by (simp add: quote_def)
      next
        case False
        then obtain c t where "joined '', '' (map json_of vs) = c # t" "c \<noteq> CHR '']''"
          using json_head [of "hd vs"] 1(1) by (cases vs; cases "tl vs") (auto simp: CList json_ok_simps)
        with CList False 1 Suc.IH(2) [of vs r] show ?thesis by (simp add: json_ok_simps quote_def)
      qed
    next
      case (CDict d)
      show ?thesis
      proof (cases "d = []")
        case True
        with CDict show ?thesis by (simp add: quote_def)
      next
        case False
        then obtain t where t: "joined '', '' (map (\<lambda>(k, v). json_string k @ '': '' @ json_of v) d) = quote # t"
          by (cases d; cases "tl d") (auto simp: json_string_def)
        have ok: "dict_ok d" "list_all (\<lambda>(k, v). list_all is_ascii k \<and> json_ok v) d" using 1(1) by (simp_all add: CDict json_ok_simps)
        have "dict_comp fst snd d = d" using ok(1) by (simp add: dict_comp_distinct dict_ok_def)
        moreover have "length (joined '', '' (map (\<lambda>(k, v). json_string k @ '': '' @ json_of v) d)) < n" using 1(2) by (simp add: CDict)
        from Suc.IH(3) [OF ok(2) False this, of r] have "read_pairs n (quote # t @ ''}'' @ r) = Inr (d, r)" unfolding t by simp
        moreover have "json_of v = ''{'' @ (quote # t) @ ''}''" unfolding CDict json_of.simps t ..
        ultimately show ?thesis by (simp add: CDict del: json_of.simps) (simp add: quote_def)
      qed
    qed (use 1 in \<open>auto simp: json_ok_simps\<close>)
  next
    case 2
    then obtain v vs' where vs: "vs = v # vs'" by (cases vs) auto
    show ?case
    proof (cases "vs' = []")
      case True
      with 2 vs Suc.IH(1) [of v "'']'' @ r"] show ?thesis by simp
    next
      case False
      then have j: "joined '', '' (map json_of vs) = json_of v @ '', '' @ joined '', '' (map json_of vs')"
        by (simp add: vs joined_Cons)
      with 2 vs False Suc.IH(1) [of v "'', '' @ joined '', '' (map json_of vs') @ '']'' @ r"] Suc.IH(2) [of vs' r]
      show ?thesis by simp
    qed
  next
    case 3
    then obtain k v d' where d: "d = (k, v) # d'" by (cases d) auto
    let ?p = "\<lambda>(k, v). json_string k @ '': '' @ json_of v"
    have ok: "list_all is_ascii k" "json_ok v" using 3(1) by (simp_all add: d)
    show ?case
    proof (cases "d' = []")
      case True
      with 3 d Suc.IH(1) [OF ok(2), of "''}'' @ r"] parse_json_string [OF ok(1)] show ?thesis by simp
    next
      case False
      then have j: "joined '', '' (map ?p d) = json_string k @ '': '' @ json_of v @ '', '' @ joined '', '' (map ?p d')"
        by (simp add: d joined_Cons)
      with 3 d False Suc.IH(1) [OF ok(2), of "'', '' @ joined '', '' (map ?p d') @ ''}'' @ r"] Suc.IH(3) [of d' r]
        parse_json_string [OF ok(1)]
      show ?thesis by simp
    qed
  }
qed

text \<open>What \<open>json.dumps\<close> writes, \<open>json.loads\<close> reads.\<close>

lemma loads_dumps:
  assumes "dumps v = Inr s" "distinct_keys v"
  shows "loads s = Inr v"
proof -
  have "json_ok v" "s = json_of v" using assms by (simp_all add: dumps_Inr json_ok_def)
  with read_json(1) [of v "length s" "[]"] show ?thesis by (simp add: loads_def)
qed

section \<open>The log grows by one record\<close>

definition printable :: "char \<Rightarrow> bool" where
  "printable c \<longleftrightarrow> (32 :: nat) \<le> of_char c \<and> (of_char c :: nat) < 128"

lemma printable_marks [simp]:
  "printable CHR ''['' \<and> printable CHR '']'' \<and> printable CHR ''{'' \<and> printable CHR ''}'' \<and> printable CHR '','' \<and> printable CHR '' '' \<and>
   printable CHR '':'' \<and> printable CHR ''-''"
  by (simp add: printable_def)

lemma hex_digit_printable: "printable (hex_digit n)"
proof -
  have "list_all printable hex_digits" by code_simp
  moreover have "hex_digit n \<in> set hex_digits" unfolding hex_digit_def by (rule nth_mem) (simp add: hex_digits_def)
  ultimately show ?thesis by (simp add: list_all_iff)
qed

lemma escape_printable: "is_ascii c \<Longrightarrow> list_all printable (escape c)"
  using hex_digit_printable
  by (auto simp: escape_def short_escapes_def is_ascii_def quote_def backslash_def printable_def split: option.splits if_splits)

lemma json_string_printable: "list_all is_ascii s \<Longrightarrow> list_all printable (json_string s)"
  using escape_printable by (auto simp: json_string_def list_all_iff quote_def printable_def)

lemma digit_printable: "is_digit c \<Longrightarrow> printable c"
  by (simp add: is_digit_def printable_def)

lemma joined_all: "list_all (list_all P) ss \<Longrightarrow> list_all P sep \<Longrightarrow> list_all P (joined sep ss)"
  by (induction sep ss rule: joined.induct) simp_all

lemma json_printable: "json_ok v \<Longrightarrow> list_all printable (json_of v)"
proof (induction v)
  case (CInt i)
  have "list_all printable (show_nat n)" for n
    using digits_of(1) [of n] digit_printable by (auto simp: list_all_iff)
  then show ?case by (simp add: show_int_def)
next
  case (CStr s)
  then show ?case using json_string_printable by (simp add: json_ok_simps)
next
  case (CList vs)
  then have "list_all (list_all printable) (map json_of vs)" by (auto simp: json_ok_simps list_all_iff)
  then have "list_all printable (joined '', '' (map json_of vs))" by (rule joined_all) simp
  then show ?case by simp
next
  case (CDict d)
  have "list_all printable (json_string k @ '': '' @ json_of v)" if "(k, v) \<in> set d" for k v
  proof -
    have "list_all is_ascii k" "json_ok v" using CDict.prems that by (auto simp: json_ok_simps list_all_iff)
    then show ?thesis using CDict.IH [OF that] json_string_printable [of k] by simp
  qed
  then have "list_all (list_all printable) (map (\<lambda>(k, v). json_string k @ '': '' @ json_of v) d)" by (auto simp: list_all_iff)
  then have "list_all printable (joined '', '' (map (\<lambda>(k, v). json_string k @ '': '' @ json_of v) d))"
    by (rule joined_all) simp
  then show ?case by simp
qed (simp_all add: json_ok_simps, simp_all add: printable_def)

lemma splitlines_Nil: "splitlines s = [] \<longleftrightarrow> s = []"
  by (cases s) (auto split: list.splits)

lemma splitlines_append: "t = [] \<or> ends_line (last t) \<Longrightarrow> splitlines (t @ s) = splitlines t @ splitlines s"
proof (induction t)
  case (Cons c t)
  then show ?case
    by (cases "t = []"; cases "splitlines t") (auto simp: splitlines_Nil split: list.splits)
qed simp

lemma splitlines_line: "list_all (\<lambda>c. \<not> ends_line c) line \<Longrightarrow> splitlines (line @ [CHR 0x0A]) = [line]"
  by (induction line) (simp_all add: ends_line_def)

definition whole_lines :: "text_file \<Rightarrow> bool" where
  "whole_lines f \<longleftrightarrow> (case f of None \<Rightarrow> True | Some t \<Rightarrow> t = [] \<or> last t = CHR 0x0A)"

text \<open>After a record is appended, the file holds the records it held before and the new one at the end.\<close>

lemma append_then_read:
  assumes "append_jsonl r f = (Inr (), f')" and "read_jsonl f = Inr rs" and "whole_lines f"
    and "distinct_keys (CDict r)"
  shows "read_jsonl f' = Inr (rs @ [r]) \<and> whole_lines f'"
proof -
  obtain t where t: "t = (case f of None \<Rightarrow> '''' | Some t \<Rightarrow> t)" by blast
  obtain line where line: "dumps (CDict r) = Inr line" "f' = Some (t @ line @ [CHR 0x0A])"
    using assms(1) by (auto simp: append_jsonl_def t Let_def split: sum.splits)
  have ok: "json_ok (CDict r)" "line = json_of (CDict r)" using line(1) assms(4) by (simp_all add: dumps_Inr json_ok_def)
  have print: "list_all printable line" using json_printable [OF ok(1)] ok(2) by simp
  have "\<exists>rest. line = CHR ''{'' # rest" by (simp add: ok(2))
  moreover have "\<not> is_blank CHR ''{''" by (simp add: is_blank_def)
  ultimately have shown: "\<not> list_all is_blank line" by auto
  have read_t: "list_all is_ascii t" "map_result (\<lambda>line. bind_result (loads line) (\<lambda>v. case v of CDict d \<Rightarrow> Inr d | _ \<Rightarrow> Inl Unmodelled))
      (filter (\<lambda>line. \<not> list_all is_blank line) (splitlines t)) = Inr rs"
    using assms(2) by (auto simp: read_jsonl_def t split: option.splits if_splits)
  have "t = [] \<or> ends_line (last t)"
    using assms(3) by (auto simp: whole_lines_def t ends_line_def split: option.splits)
  moreover have "list_all (\<lambda>c. \<not> ends_line c) line"
    using print by (auto simp: list_all_iff printable_def ends_line_def)
  ultimately have lines: "splitlines (t @ line @ [CHR 0x0A]) = splitlines t @ [line]"
    by (simp add: splitlines_append splitlines_line)
  have "list_all is_ascii line" using print by (auto simp: list_all_iff printable_def is_ascii_def)
  then have "list_all is_ascii (t @ line @ [CHR 0x0A])" using read_t(1) by (simp add: is_ascii_def)
  then have "read_jsonl f' = Inr (rs @ [r])"
    using read_t(2) loads_dumps [OF line(1) assms(4)] shown by (simp add: read_jsonl_def line(2) lines map_result_append)
  then show ?thesis by (simp add: whole_lines_def line(2))
qed

text \<open>Any number of records, and the list that \<open>log_results\<close> makes of the log.\<close>

lemma append_all:
  assumes "read_jsonl f = Inr rs" "whole_lines f" "list_all (\<lambda>r. json_ok (CDict r)) new"
  shows "\<exists>f'. act_for new append_jsonl f = (Inr (), f') \<and> read_jsonl f' = Inr (rs @ new) \<and> whole_lines f'"
  using assms
proof (induction new arbitrary: f rs)
  case Nil
  then show ?case by (auto simp: act_run)
next
  case (Cons r new)
  have ok: "dumps (CDict r) = Inr (json_of (CDict r))" "distinct_keys (CDict r)"
    using Cons.prems(3) by (simp_all add: dumps_Inr json_ok_def del: json_of.simps)
  then obtain f1 where f1: "append_jsonl r f = (Inr (), f1)" by (simp add: append_jsonl_def Let_def)
  have "read_jsonl f1 = Inr (rs @ [r])" "whole_lines f1"
    using append_then_read [OF f1 Cons.prems(1,2) ok(2)] by blast+
  from Cons.IH [OF this] Cons.prems(3) f1 show ?case by (auto simp: act_bind_def)
qed

lemma log_results_appends: "log_results msgs seen rs = Inr (seen', rs') \<Longrightarrow> \<exists>new. rs' = rs @ new"
proof (induction msgs arbitrary: seen rs)
  case (Cons msg msgs)
  then show ?case by (auto split: if_splits) fastforce+
qed auto

section \<open>Paths\<close>

text \<open>The directory of a session and the files in it. The model stops at a match name that is no single
  component of a path.\<close>

definition session_dir_path :: "string \<Rightarrow> string \<Rightarrow> string result" where
  "session_dir_path data_dir match_id =
     (if match_id \<in> {'''', ''.''} then Inl Unmodelled else path_in data_dir match_id)"

definition session_path :: "string \<Rightarrow> string \<Rightarrow> string \<Rightarrow> string result" where
  "session_path data_dir match_id name =
     bind_result (session_dir_path data_dir match_id) (\<lambda>dir. Inr (dir @ ''/'' @ name))"

definition identity_path :: "string \<Rightarrow> string \<Rightarrow> string result" where
  "identity_path data_dir match_id = session_path data_dir match_id ''identity.key''"

definition client_configdir :: "string \<Rightarrow> string \<Rightarrow> string result" where
  "client_configdir data_dir match_id = session_path data_dir match_id ''reticulum''"

definition session_file :: "string \<Rightarrow> string \<Rightarrow> string result" where
  "session_file data_dir match_id = session_path data_dir match_id ''session.json''"

definition phase_results_path :: "string \<Rightarrow> string \<Rightarrow> string result" where
  "phase_results_path data_dir match_id = session_path data_dir match_id ''phase_results.jsonl''"

definition negotiations_path :: "string \<Rightarrow> string \<Rightarrow> string result" where
  "negotiations_path data_dir match_id = session_path data_dir match_id ''negotiations.jsonl''"

definition server_configdir :: "string \<Rightarrow> string \<Rightarrow> string result" where
  "server_configdir data_dir match_id = path_in data_dir (match_id @ ''-reticulum'')"

lemma joined_snoc: "joined sep (ss @ [s]) = (if ss = [] then s else joined sep ss @ sep @ s)"
  by (induction sep ss rule: joined.induct) (simp_all add: joined_Cons)

lemma path_in_inject: "path_in d m = Inr p \<Longrightarrow> path_in d m' = Inr p \<Longrightarrow> m = m'"
  by (auto simp: path_in_def joined_snoc split: if_splits)

text \<open>No two sessions share a file, and no two files of a session are the same.\<close>

lemma session_paths_differ:
  assumes "session_path d m name = Inr p" "session_path d m' name' = Inr p" "CHR ''/'' \<notin> set name" "CHR ''/'' \<notin> set name'"
  shows "m = m' \<and> name = name'"
proof -
  obtain a a' where a: "session_dir_path d m = Inr a" "session_dir_path d m' = Inr a'" "a @ ''/'' @ name = a' @ ''/'' @ name'"
    using assms(1,2) by (auto simp: session_path_def)
  have "rev (takeWhile (\<lambda>c. c \<noteq> CHR ''/'') (rev (b @ ''/'' @ n))) = n" if "CHR ''/'' \<notin> set n" for b n
    using that by (auto simp: takeWhile_append)
  with a(3) assms(3,4) have "name = name'" by metis
  with a have "a = a'" by simp
  with a(1,2) \<open>name = name'\<close> path_in_inject show ?thesis by (auto simp: session_dir_path_def split: if_splits)
qed

section \<open>The log on disk\<close>

text \<open>C34: The log on disk is the log of the session: the lines that \<open>_poll_and_log\<close> appends to the file for the
  results it has not seen, each packed by \<open>json.dumps\<close>, are read back by any later process as exactly the
  records that were in the file followed by the new ones, in order, whatever quotes, line breaks or escapes
  their texts hold; the file still consists of whole lines.\<close>

theorem log_on_disk:
  assumes "log_results msgs seen rs = Inr (seen', rs')" and "read_jsonl f = Inr rs" and "whole_lines f"
    and "list_all (\<lambda>r. json_ok (CDict r)) (drop (length rs) rs')"
  shows "\<exists>f'. act_for (drop (length rs) rs') append_jsonl f = (Inr (), f') \<and> read_jsonl f' = Inr rs' \<and> whole_lines f'"
proof -
  obtain new where "rs' = rs @ new" using log_results_appends [OF assms(1)] by blast
  with append_all [OF assms(2,3), of new] assms(4) show ?thesis by auto
qed

definition short_result :: message where
  "short_result = mk_message PHASE_RESULT 3 1
     [(''match_id'', VRaw (CStr ''m'')), (''phase'', VEnum ''orders''), (''turn'', VRaw (CInt 1)), (''year'', VRaw (CInt 1)),
      (''canonical_state'', VRaw (CBytes [1, 2])), (''state_hash'', VRaw (CStr [CHR 0x22, CHR 0x0A])),
      (''previous_state_hash'', VRaw CNone), (''signature'', VRaw (CBytes [3]))]"

definition short_record :: session where
  "short_record = [(''turn'', CInt 1), (''phase'', CStr ''orders''), (''year'', CInt 1), (''canonical_state'', CStr ''0102''),
     (''state_hash'', CStr [CHR 0x22, CHR 0x0A]), (''previous_state_hash'', CNone), (''signature'', CStr ''03'')]"

theorem log_on_disk_witness:
  "\<exists>f'. act_for [short_record] append_jsonl None = (Inr (), f') \<and> read_jsonl f' = Inr [short_record]"
proof -
  have hex: "hex_of [1, 2] = ''0102''" "hex_of [3] = ''03''" by code_simp+
  have "enum_of_value phase_value [DIPLOMACY, ORDERS, RESOLUTION, RETREAT, BUILD] ''orders'' = Inr ORDERS" by code_simp
  then have "phase_result_to_record short_result = Inr short_record"
    by (simp add: phase_result_to_record_def short_result_def short_record_def hex get_int_def get_str_def get_bytes_def
        get_phase_def get_optional_str_def)
  then have "log_results [short_result] {} [] = Inr ({CStr [CHR 0x22, CHR 0x0A]}, [short_record])"
    by (simp add: short_result_def get_str_def)
  moreover have "read_jsonl None = Inr []" "whole_lines None" by (simp_all add: read_jsonl_def whole_lines_def)
  moreover have "json_ok (CDict short_record)" unfolding json_ok_def by code_simp
  ultimately show ?thesis using log_on_disk [of "[short_result]" "{}" "[]" _ "[short_record]" None] by auto
qed

end
