(* ===== verification/Logging.thy ===== *)
theory Logging
  imports Prelude
begin

text \<open>
  The logging configuration (\<^verbatim>\<open>shared/logging.py\<close>): the loggers of the package as a table by name, each with
  its level and its handlers. What is logged goes to the handlers and is left out.
\<close>

datatype log_handler = StreamHandler string | FileHandler string string

record logger =
  lg_level :: int
  lg_handlers :: "log_handler list"

type_synonym loggers = "(string, logger) dict"

definition LOGGER_NAME :: string where
  "LOGGER_NAME = ''rns_diplomacy''"

definition INFO :: int where
  "INFO = 20"

definition log_format :: string where
  "log_format = ''%(asctime)s [%(levelname)s] %(name)s: %(message)s''"

text \<open>\<open>logging.getLogger\<close> makes a logger the first time; 0 is the level of a logger that has none of its own.\<close>

definition ensure_logger :: "string \<Rightarrow> loggers \<Rightarrow> loggers" where
  "ensure_logger name ls = (if name \<in> set (map fst ls) then ls else ls @ [(name, \<lparr>lg_level = 0, lg_handlers = []\<rparr>)])"

definition get_logger :: "string option \<Rightarrow> loggers \<Rightarrow> string \<times> loggers" where
  "get_logger name ls =
     (let full_name = (case name of None \<Rightarrow> LOGGER_NAME | Some n \<Rightarrow> LOGGER_NAME @ ''.'' @ n)
      in (full_name, ensure_logger full_name ls))"

definition configure_logging :: "int \<Rightarrow> string option \<Rightarrow> loggers \<Rightarrow> loggers" where
  "configure_logging level output_file ls =
     AList.update LOGGER_NAME
       \<lparr>lg_level = level,
        lg_handlers = [StreamHandler log_format] @
          (case output_file of None \<Rightarrow> [] | Some path \<Rightarrow> [FileHandler path log_format])\<rparr>
       (ensure_logger LOGGER_NAME ls)"

text \<open>The docstring's promise: a second call replaces the handlers of the first, and other loggers are left alone.\<close>

lemma configure_again:
  "map_of (configure_logging l f (configure_logging l' f' ls)) = map_of (configure_logging l f ls)"
  by (auto simp: configure_logging_def ensure_logger_def update_conv fun_eq_iff map_of_append map_add_def dom_update
      split: option.splits)

lemma configure_others:
  "name \<noteq> LOGGER_NAME \<Longrightarrow> map_of (configure_logging l f ls) name = map_of ls name"
  by (simp add: configure_logging_def ensure_logger_def update_conv map_add_def split: option.splits)

end
