(* ===== verification/Reticulum.thy ===== *)
theory Reticulum
  imports Player_Client Terminal
begin

text \<open>
  The part of \<^verbatim>\<open>shared/reticulum_transport.py\<close> that talks to Reticulum: the configuration file, the
  constructor, \<open>send\<close> and \<open>announce\<close>; the queues of its callbacks are in \<^verbatim>\<open>Transport\<close>. RNS and LXMF are
  represented by what is handed to them, and by the errors they raise for a recipient and its data.
\<close>

section \<open>The configuration\<close>

definition text_lines :: "string list \<Rightarrow> string" where
  "text_lines ls = concat (map (\<lambda>l. l @ [CHR 0x0A]) ls)"

definition server_interface :: "string \<times> nat \<Rightarrow> string" where
  "server_interface = (\<lambda>(host, port). text_lines
     ['''', ''  [[TCP Server]]'', ''    type = TCPServerInterface'', ''    interface_enabled = True'',
      ''    listen_ip = '' @ host, ''    listen_port = '' @ show_nat port])"

definition client_interface :: "string \<times> nat \<Rightarrow> string" where
  "client_interface = (\<lambda>(host, port). text_lines
     ['''', ''  [[TCP Client]]'', ''    type = TCPClientInterface'', ''    interface_enabled = True'',
      ''    target_host = '' @ host, ''    target_port = '' @ show_nat port])"

definition config_text :: "(string \<times> nat) option \<Rightarrow> (string \<times> nat) option \<Rightarrow> string" where
  "config_text listen connect_to =
     text_lines ['''', ''[reticulum]'', ''enable_transport = True'', ''share_instance = False'', '''',
       ''[logging]'', ''loglevel = 3'', '''', ''[interfaces]''] @
     (case listen of None \<Rightarrow> '''' | Some a \<Rightarrow> server_interface a) @
     (case connect_to of None \<Rightarrow> '''' | Some a \<Rightarrow> client_interface a) @ [CHR 0x0A]"

section \<open>The transport\<close>

record rns_transport = ReticulumTransport +
  rt_identity :: bytes
  rt_config :: string
  rt_outbound :: "(bytes \<times> bytes) list"
  rt_app_data :: "bytes list"

definition new_rns_transport ::
    "bytes \<Rightarrow> (string \<times> nat) option \<Rightarrow> (string \<times> nat) option \<Rightarrow> rns_transport result" where
  "new_rns_transport identity listen connect_to =
     (if listen = None \<and> connect_to = None then Inl ValueError
      else Inr \<lparr>rt_inbox = [], rt_announcements = [], rt_identity = identity,
        rt_config = config_text listen connect_to, rt_outbound = [], rt_app_data = []\<rparr>)"

definition local_destination :: "externals \<Rightarrow> rns_transport \<Rightarrow> string" where
  "local_destination X t = hex_of (public_key_of X (rt_identity t))"

text \<open>\<open>refused\<close>: the error that RNS or LXMF raises for a recipient's key and the data.\<close>

definition rt_send ::
    "(bytes \<Rightarrow> bytes \<Rightarrow> exn option) \<Rightarrow> string \<Rightarrow> bytes \<Rightarrow> rns_transport \<Rightarrow> rns_transport result" where
  "rt_send refused destination data t =
     bind_result (fromhex destination) (\<lambda>key.
     case refused key data of
       Some e \<Rightarrow> Inl e
     | None \<Rightarrow> Inr (t\<lparr>rt_outbound := rt_outbound t @ [(key, data)]\<rparr>))"

definition rt_announce :: "bytes \<Rightarrow> rns_transport \<Rightarrow> rns_transport" where
  "rt_announce data t = t\<lparr>rt_app_data := rt_app_data t @ [data]\<rparr>"

section \<open>Addresses on the network\<close>

text \<open>The errors of \<open>send\<close> as the environment of the coordinator has them, and what it sends.\<close>

definition send_errors :: "(bytes \<Rightarrow> bytes \<Rightarrow> exn option) \<Rightarrow> string \<Rightarrow> bytes \<Rightarrow> exn option" where
  "send_errors refused destination data =
     (case fromhex destination of Inl e \<Rightarrow> Some e | Inr key \<Rightarrow> refused key data)"

lemma send_refines:
  assumes "env_send_error E = send_errors refused"
  shows "case rt_send refused destination data t of
      Inl e \<Rightarrow> transport_send E destination data c = (Inl e, c)
    | Inr _ \<Rightarrow> transport_send E destination data c = (Inr (), c\<lparr>co_sent := co_sent c @ [(destination, data)]\<rparr>)"
  using assms
  by (auto simp: transport_send_def rt_send_def send_errors_def bind_result_def split: sum.splits option.splits)

text \<open>What one party sends to the address of another arrives there under the address of the sender, once RNS
  can recall the sender.\<close>

lemma sent_is_delivered:
  assumes "rt_send refused (local_destination X b) data a = Inr a'"
  shows "\<exists>key. rt_outbound a' = rt_outbound a @ [(key, data)] \<and> key = public_key_of X (rt_identity b)"
    and "rt_inbox (on_delivery \<lparr>lx_source = Some (public_key_of X (rt_identity a)), lx_source_hash = h, lx_content = data\<rparr> q) =
      rt_inbox q @ [\<lparr>im_sender = local_destination X a, im_data = data\<rparr>]"
  using assms by (auto simp: rt_send_def local_destination_def fromhex_hex on_delivery_def split: option.splits)

text \<open>A broadcast announcement names the match; an empty one is ignored by those who hear it.\<close>

lemma announced_match_heard:
  assumes "valid_utf8 (utf8_encode m)" "m \<noteq> ''''"
  obtains a where "rt_announcements (received_announce (public_key_of X key) (Some (utf8_encode m)) t) = rt_announcements t @ [a]"
    and "listen_for_announces [a] = Inr [(hex_of (public_key_of X key), m)]"
proof
  let ?a = "\<lparr>an_destination = hex_of (public_key_of X key), an_data = utf8_encode m\<rparr>"
  show "rt_announcements (received_announce (public_key_of X key) (Some (utf8_encode m)) t) = rt_announcements t @ [?a]"
    using assms(2) by (simp add: received_announce_def utf8_encode_def)
  show "listen_for_announces [?a] = Inr [(hex_of (public_key_of X key), m)]"
    using assms(1) by (simp add: listen_for_announces_def decode_utf8_def)
qed

end
