(* ===== verification/Identities.thy ===== *)
theory Identities
  imports Externals
begin

text \<open>
  \<^verbatim>\<open>shared/identity.py\<close> and \<^verbatim>\<open>client/identity.py\<close>: the two classes around \<open>RNS.Identity\<close>. An identity of RNS is
  represented by its exported private key, or by its public key when it holds no private one; its operations
  are the functions of \<open>externals\<close>, and its hash, which only displays use, is an argument. The other theories
  use the private key in the place of an \<open>Identity\<close>.
\<close>

record PublicIdentity = pi_public_bytes :: bytes

record Identity = id_key :: bytes

text \<open>\<open>generate\<close>: the key is what RNS draws.\<close>

definition generate :: "bytes \<Rightarrow> Identity" where
  "generate key = \<lparr>id_key = key\<rparr>"

definition from_private_bytes :: "bytes \<Rightarrow> Identity" where
  "from_private_bytes data = \<lparr>id_key = data\<rparr>"

definition private_bytes :: "Identity \<Rightarrow> bytes" where
  "private_bytes i = id_key i"

definition public_bytes :: "externals \<Rightarrow> Identity \<Rightarrow> bytes" where
  "public_bytes X i = public_key_of X (id_key i)"

definition public :: "externals \<Rightarrow> Identity \<Rightarrow> PublicIdentity" where
  "public X i = \<lparr>pi_public_bytes = public_bytes X i\<rparr>"

definition sign :: "externals \<Rightarrow> Identity \<Rightarrow> bytes \<Rightarrow> bytes" where
  "sign X i = sign_with X (id_key i)"

definition decrypt :: "externals \<Rightarrow> Identity \<Rightarrow> bytes \<Rightarrow> bytes result" where
  "decrypt X i = decrypt_with X (id_key i)"

definition verify :: "externals \<Rightarrow> PublicIdentity \<Rightarrow> bytes \<Rightarrow> bytes \<Rightarrow> bool" where
  "verify X p = validate_signature X (pi_public_bytes p)"

definition encrypt :: "externals \<Rightarrow> PublicIdentity \<Rightarrow> bytes \<Rightarrow> bytes result" where
  "encrypt X p = encrypt_for X (pi_public_bytes p)"

definition get_display_hash :: "(bytes \<Rightarrow> bytes) \<Rightarrow> Identity \<Rightarrow> string" where
  "get_display_hash identity_hash i = hex_of (identity_hash (id_key i))"

text \<open>An identity is restored from its file, and what it signs is verified by the half it shares, also after
  that half went through its hexadecimal address.\<close>

lemma identity_restored: "from_private_bytes (private_bytes i) = i"
  by (simp add: from_private_bytes_def private_bytes_def)

lemma signature_verified:
  assumes "identity_ok X" "fromhex (hex_of (public_bytes X i)) = Inr key"
  shows "verify X \<lparr>pi_public_bytes = key\<rparr> (sign X i m) m" "\<lparr>pi_public_bytes = key\<rparr> = public X i"
  using assms by (auto simp: fromhex_hex public_bytes_def public_def verify_def sign_def identity_ok_def)

end
