(* ===== verification/Spec2Isabelle.thy ===== *)
theory Spec2Isabelle
  imports Movement_Properties Turn Match_Play Start_Block Conformance Join_Throttle Order_Delivery Client_Numbers Command_Lines Json_Files Logging Reticulum Identities
begin

text \<open>
  A model of \<^verbatim>\<open>rns-diplomacy\<close>, a game of the Diplomacy family played over the Reticulum network: a
  deterministic engine adjudicates the orders of seven factions, a coordinator runs a match against a
  SQLite store and publishes every resolved phase as a signed link of a hash chain, and clients follow
  the match, compose orders and verify the chain.

  \<^bold>\<open>Parts of the program and their theories\<close>

  The engine (\<^verbatim>\<open>engine/\<close>), pure functions on a board:

    \<^item> \<open>Model\<close> (\<^verbatim>\<open>engine/model.py\<close>, \<^verbatim>\<open>engine/orders.py\<close>): regions, factions, units, \<open>GameState\<close> as records,
      the order classes as one datatype, \<open>order_from_dict\<close>.
    \<^item> \<open>Game_Map\<close> (\<^verbatim>\<open>engine/map.py\<close>): the default map, entry by entry.
    \<^item> \<open>Board\<close> (\<^verbatim>\<open>engine/state.py\<close>): board queries, order validation, and the invariants \<open>occupancy_ok\<close> and
      \<open>placement_ok\<close>.
    \<^item> \<open>Movement\<close>, \<open>Movement_Facts\<close>, \<open>Movement_Results\<close>, \<open>Movement_Properties\<close>, \<open>Retreat\<close>,
      \<open>Adjustment\<close> (\<^verbatim>\<open>engine/adjudicator.py\<close>): the three kinds of phase. The memoised recursion of
      \<open>resolve_move\<close> keeps the in-progress guess and the memo table of the code; it terminates because each
      call marks one more region (measure: the regions not yet marked).
    \<^item> \<open>Canonical\<close> (\<^verbatim>\<open>engine/hashing.py\<close>): the canonical bytes of a state, their inverse, the chained hash
      and \<open>verify_chain\<close>.

  The protocol (\<^verbatim>\<open>protocol/\<close>): \<open>Messages\<close> holds the enums and, for each class, its fields with their type
  hints; a decoded message is a \<open>message\<close>, its type with the list of its fields. \<open>Encoding\<close> packs and
  unpacks it as \<^verbatim>\<open>protocol/encoding.py\<close> does, driven by the type hints; \<open>Validation\<close> has the checks of
  \<^verbatim>\<open>protocol/validation.py\<close>.

  The coordinator (\<^verbatim>\<open>coordinator/\<close>):

    \<^item> \<open>Phases\<close>: the state machine of a match, as functions and as the step relation \<open>match_step\<close>.
    \<^item> \<open>Store\<close>, \<open>Store_Facts\<close> (\<^verbatim>\<open>persistence.py\<close>): each SQL table is a list of rows in the order of their
      insertion, each method of \<open>MatchStore\<close> one function; a violated key is \<open>IntegrityError\<close>.
    \<^item> \<open>Effects\<close>: actions, functions from a state to a result or exception together with the state left
      behind. A method that raises keeps the writes it has made, as every write of the program is a
      transaction of its own.
    \<^item> \<open>Order_Intake\<close> (\<^verbatim>\<open>orders.py\<close>), \<open>Lobby\<close> (\<^verbatim>\<open>lobby.py\<close>), \<open>Draws\<close> (\<^verbatim>\<open>draws.py\<close>): the three services
      that \<open>MatchCoordinator\<close> calls.
    \<^item> \<open>Turn\<close>: what a phase does to the board, across the three adjudicators.
    \<^item> \<open>Coordinator\<close>, \<open>Match\<close>, \<open>Match_Facts\<close>, \<open>Match_History\<close>, \<open>Match_Advance\<close> (\<^verbatim>\<open>match.py\<close> and the
      deadlines of \<^verbatim>\<open>shared/time.py\<close>): every method of \<open>MatchCoordinator\<close> on the state \<open>coord\<close>, which is the
      object's attributes, the store, the messages sent and announced (\<open>co_sent\<close>, \<open>co_announced\<close>) and the
      number of readings taken from the clock and from \<open>random.choice\<close>.
    \<^item> \<open>Game_Rules\<close>, \<open>Game_Play\<close>, \<open>Match_Play\<close>: the abstract game (\<open>game\<close>, the sequences of positions that the rules
      allow, without coordinator, store or messages), the invariant that the store of a match stands in a
      game, and whole runs. \<open>Start_Block\<close>: a start that one failing send cuts short.
    \<^item> \<open>Typed_Input\<close>: events whose messages have fields of the annotated types, of which the handlers can read
      all they need. \<open>Announcements\<close>, \<open>Conformance\<close>, \<open>Join_Throttle\<close>: what the methods of \<open>MatchCoordinator\<close> guarantee to those
      outside, over whole runs: the messages about the history, the types of all messages, the throttle.
    \<^item> \<open>Order_Delivery\<close>: the way of an order from \<open>PlayerClient.submit_orders\<close> to the adjudication.
    \<^item> \<open>Json\<close>, \<open>Server\<close>, \<open>Server_Commands\<close> (\<^verbatim>\<open>server.py\<close>): operator commands as rows of a table, written by
      one process and executed by the loop of \<open>serve\<close>; every command from the database to the printed
      lines. A process that waits takes, between two of its reads, a step of the other processes.

  The network: \<open>Transport\<close> (\<^verbatim>\<open>shared/transport.py\<close> and the queues of \<^verbatim>\<open>shared/reticulum_transport.py\<close>) and
  \<open>Reticulum\<close> (its configuration file, \<open>send\<close> and \<open>announce\<close>).

  The client (\<^verbatim>\<open>client/\<close>): \<open>Client_Orders\<close> (\<^verbatim>\<open>orders.py\<close>), \<open>Client_Verification\<close> (\<^verbatim>\<open>verification.py\<close>),
  \<open>Player_Client\<close> (\<^verbatim>\<open>transport.py\<close>, \<^verbatim>\<open>negotiations.py\<close>), \<open>Client_Session\<close> (the session files and logs of
  \<^verbatim>\<open>cli.py\<close>), \<open>Client_Commands\<close> (its commands, with the key file of \<^verbatim>\<open>identity.py\<close>) and \<open>Client_Numbers\<close>
  (sequences of commands). \<open>Client_Audit\<close> joins the two ends: the rows the coordinator persists, sent as
  messages, polled by a client and verified. \<open>Json_Files\<close> has the files below the data directory: their
  paths, and the logs as texts with one JSON object on each line.

  Both command lines: \<open>Terminal\<close> is what they share, the console with its exit status, the formats of the
  printed values, the addresses. \<open>Arguments\<close> models what they use of \<^verbatim>\<open>argparse\<close>, and \<open>Command_Lines\<close> has their
  parsers and \<open>main\<close>, the process from its arguments to its end. \<open>Logging\<close> (\<^verbatim>\<open>shared/logging.py\<close>) is the table
  of loggers with their handlers.

  \<^bold>\<open>Conventions\<close>

  A Python \<open>dict\<close> is an association list in insertion order (\<open>Prelude\<close>), an exception the left side of
  \<open>exn + 'a\<close>. \<open>Unmodelled\<close> is no exception: it marks the places where the code would go on with a value
  of a type the model's datatypes do not have (Python does not check the annotations of a dataclass). An
  event of a run that gets there ends there and leaves what it had written; of what the code does after it
  nothing is claimed. Two theorems would not be true of the code in such runs and assume that no message
  brings fields of other types than annotated (\<open>typed_event\<close> of \<open>Typed_Input\<close>): \<open>match_never_stuck\<close>, as an order
  with a destination that is no text is accepted and makes the adjudication raise, and \<open>coordinator_conforms\<close>,
  as receipts repeat fields of the request. Integers are unbounded, as in Python; time is rational. Rows that
  are equal in the columns of an \<open>ORDER BY\<close> come in the order of their insertion, which SQLite does not promise;
  no theorem depends on it.

  \<open>Externals\<close> is the record of the functions outside the repository (msgpack, SHA-256, the identities of
  \<^verbatim>\<open>RNS\<close>; \<open>Identities\<close> has the two classes of \<^verbatim>\<open>shared/identity.py\<close> over them). Each theorem names
  what it needs of them: \<open>codec_ok\<close> (unpacking reads back what packing wrote), \<open>digest_ok\<close> (a digest has 32 bytes), \<open>identity_ok\<close> (a signature made with a key is valid under
  its public key). \<open>Reference_Codec\<close> gives an instance that has all three, on which the witnesses run;
  no theorem rests on it. The clock, the index taken by \<open>random.choice\<close>, the texts of exceptions and the
  failures of \<open>transport.send\<close> are functions of the record \<open>environment\<close>, universally quantified
  everywhere.

  \<^bold>\<open>What is shown\<close>

    \<^item> Movement: the board keeps one unit per region, units only stand where they can, no unit is lost
      without being dislodged, a dislodged unit was attacked by a stronger force, and the resolution is the
      only solution of the rules' equations when the dependencies of the moves have no cycle. One theorem
      pins down the behaviour on opposed rings, where results found under a guess stay memoised.
    \<^item> Retreat and adjustment: the board invariants, the exact retreat rules (stated over what movement did,
      not over the tables kept of it), the balance of units against centers and the legality of every build.
    \<^item> Hash chain: equal canonical bytes decide equal boards; \<open>verify_chain\<close> accepts exactly the chains of
      \<open>hash_game_state\<close>; replacing a state breaks the chain or exhibits a collision.
    \<^item> Messages: decoding reads back every encoded well-typed message.
    \<^item> Coordinator: the life cycle of a match, the intake of orders with its revisions, the lobby, draws,
      replay protection, pausing, and the refinement of the adjudication by \<open>advance_phase\<close>. \<open>history_sound\<close>:
      in every run of any inbound messages and operator calls the stored chain stays a chain of genuine
      signed links in the order of play and is only extended. \<open>coordinator_plays_by_rules\<close>: the boards of that
      chain are the positions of a \<open>game\<close>, all of them sound; \<open>match_never_stuck\<close>: a match that has opened its
      orders can always be advanced; \<open>orders_move_own_units\<close>: what is adjudicated moves only the units of the
      player who sent it. These three hold from the lobby, for any operator actions, restarts and failures of
      sends, and for any messages (\<open>match_never_stuck\<close>: any of the annotated types).
    \<^item> Coordinator and players: in every run the announcements a player is sent follow the recorded chain,
      what a player received of it can only show gaps, and if the messages received have fields of the annotated
      types, every message sent is one its receiver decodes, with all fields of their types; of the join requests of a key only a bounded number are let through. Valid
      orders that a player sends in time are the ones the adjudication takes.
    \<^item> Client: the orders it offers are exactly the legal ones of its kind, what an honest coordinator
      recorded and announced passes \<open>verify_history\<close>, the log of the command line keeps every result once,
      over any sequence of commands in separate processes, with one \<open>join\<close> to begin the session, the sequence
      numbers increase, and the tally of
      \<open>status\<close> is exact. What \<open>_append_jsonl\<close> adds to the file of a log is what \<open>_read_jsonl\<close> reads back.
      Network: each message reaches its mailbox once and in order.
    \<^item> Command lines: a line in the documented form is read as the request it spells
      (\<open>client_line_read\<close>, \<open>operator_line_read\<close>).
    \<^item> Server: each command is served once, in the order of asking; what the operator asks for is executed
      exactly and reported, across the two processes; a match that was created is shown as created.
    \<^item> Faults, stated as the code has them: a match that one unreachable player keeps from beginning, orders dropped by a rejected revision, exceptions that leave
      \<open>poll\<close>, a join request that locks a player out, a vote after an accepted draw, a number that is used
      twice after a failed poll, an old receipt taken for a new one.

  \<^bold>\<open>Interfaces\<close>

  The contracts between parts are locales, each interpreted on the model: \<open>board_phase\<close> (\<open>Turn\<close>; what a
  phase keeps of the board, on \<open>resolve_phase\<close>), \<open>key_value\<close> (\<open>Store_Facts\<close>; the tables of sequence numbers
  and of votes), \<open>preserved\<close> (\<open>Effects\<close>; a relation that sequencing of actions keeps, on the reading and
  the sending actions, the messages told and spoken, and the steps of a client's process), three nested contracts of \<open>Match_Facts\<close> for a relation
  between stores (\<open>store_relation\<close>, the writes that any method makes; \<open>handler_relation\<close>, what the handlers of
  messages, pausing and ending keep; \<open>coordinator_relation\<close>, what every method keeps; instances: the history
  only grows, the sequence numbers seen only grow, the operator's queue is untouched, every change is a write
  of a table, a match stays in play, a blocked match stays blocked), \<open>drained_queue\<close> and \<open>mailboxes\<close>
  (\<open>Transport\<close>; the in-memory network, its announcements, and the two queues of the Reticulum transport).

  \<^bold>\<open>Bounds\<close>

  The parser of JSON members takes the length of the text, which bounds the number of members;
  the decoder of the reference codec takes the length of its input. Loops over queues and rows are
  structural recursions; there is no other fuel. A run of the coordinator is a finite list of events.

  \<^bold>\<open>Not modelled\<close>

  Of \<^verbatim>\<open>argparse\<close>, the texts of usage and help, the argument \<open>--\<close>, a flag \<open>-h\<close> with something behind it, and
  numbers with underscores, exponents or names. File permissions. Sleeping: a wait is the list of the states
  or batches it looks at. Texts in quotes beyond ASCII, where the model stops. The SQL engine (the tables are
  lists and each statement a function on them). The decimal texts of floats and the characters beyond ASCII
  in JSON files: \<open>Client_Session\<close> keeps such a file as the values written to it, \<open>Json_Files\<close> as text only
  without them. The internals of \<^verbatim>\<open>RNS\<close>, \<^verbatim>\<open>LXMF\<close> and msgpack. The lines that are logged, which have no effect
  on the state, and \<^verbatim>\<open>coordinator/event_log.py\<close>, which has no code.
\<close>

end
